(* ===== verification/Prelude.thy ===== *)
theory Prelude
  imports Main "HOL-Library.Word"
begin

section \<open>Prelude: Rust values, results and byte strings\<close>

text \<open>
  What the component theories share: Rust's fixed-width integers as machine words, \<open>usize\<close>
  as a bounded natural with its checked operations, \<open>Result\<close> as a sum type with the
  propagation of the \<open>?\<close> operator, big-endian byte strings (\<open>to_be_bytes\<close> and
  \<open>from_be_bytes\<close>), and the slice operation \<open>as_chunks\<close>. The lemmas are generic facts
  about them; the collections \<open>res_simps\<close> and \<open>be_simps\<close> carry the component proofs.
\<close>

named_theorems res_simps "propagation of results"
named_theorems be_simps "lengths and round trips of big-endian byte strings"

type_synonym u8 = "8 word"
type_synonym u16 = "16 word"
type_synonym u32 = "32 word"
type_synonym u64 = "64 word"
type_synonym usize = nat
type_synonym bytes = "8 word list"

subsection \<open>Results\<close>

text \<open>\<open>Result<T, E>\<close> is the sum \<open>E + T\<close>; \<open>bind_res\<close> is the early return of \<open>?\<close>.\<close>

type_synonym ('a, 'e) result = "'e + 'a"

abbreviation Ok :: "'a \<Rightarrow> ('a, 'e) result" where "Ok \<equiv> Inr"
abbreviation Err :: "'e \<Rightarrow> ('a, 'e) result" where "Err \<equiv> Inl"

definition bind_res :: "('a, 'e) result \<Rightarrow> ('a \<Rightarrow> ('b, 'e) result) \<Rightarrow> ('b, 'e) result" where
  "bind_res m f = (case m of Inl e \<Rightarrow> Inl e | Inr a \<Rightarrow> f a)"

definition ok_or :: "'a option \<Rightarrow> 'e \<Rightarrow> ('a, 'e) result" where
  "ok_or x e = (case x of None \<Rightarrow> Inl e | Some a \<Rightarrow> Inr a)"

lemma bind_res_simps [simp, res_simps]:
  "bind_res (Inl e) f = Inl e"
  "bind_res (Inr a) f = f a"
  by (simp_all add: bind_res_def)

lemma bind_res_eq_Inr [res_simps]:
  "bind_res m f = Inr b \<longleftrightarrow> (\<exists>a. m = Inr a \<and> f a = Inr b)"
  by (cases m) auto

lemma bind_res_eq_Inl [res_simps]:
  "bind_res m f = Inl e \<longleftrightarrow> m = Inl e \<or> (\<exists>a. m = Inr a \<and> f a = Inl e)"
  by (cases m) auto

lemma bind_res_cong [fundef_cong]:
  "m = m' \<Longrightarrow> (\<And>a. m' = Inr a \<Longrightarrow> f a = g a) \<Longrightarrow> bind_res m f = bind_res m' g"
  by (cases m') auto

text \<open>For evaluation: the continuation is not entered before its argument is a value.\<close>

lemma bind_res_weak_cong: "m = m' \<Longrightarrow> bind_res m f = bind_res m' f"
  by simp

lemma ok_or_simps [simp, res_simps]:
  "ok_or None e = Inl e"
  "ok_or (Some a) e = Inr a"
  by (simp_all add: ok_or_def)

lemma ok_or_eq_Inr [res_simps]: "ok_or x e = Inr a \<longleftrightarrow> x = Some a"
  by (cases x) auto

subsection \<open>Checked arithmetic\<close>

text \<open>
  \<open>usize\<close> is 64 bits wide. Lengths of slices and vectors are natural numbers; the checked
  operations return \<open>None\<close> where the result does not fit.
\<close>

definition usize_max :: nat where
  "usize_max = 2 ^ 64 - 1"

definition checked_add :: "usize \<Rightarrow> usize \<Rightarrow> usize option" where
  "checked_add a b = (if a + b \<le> usize_max then Some (a + b) else None)"

definition checked_mul :: "usize \<Rightarrow> usize \<Rightarrow> usize option" where
  "checked_mul a b = (if a * b \<le> usize_max then Some (a * b) else None)"

definition checked_sub :: "usize \<Rightarrow> usize \<Rightarrow> usize option" where
  "checked_sub a b = (if b \<le> a then Some (a - b) else None)"

lemma checked_add_Some: "checked_add a b = Some c \<longleftrightarrow> c = a + b \<and> a + b \<le> usize_max"
  by (auto simp: checked_add_def)

lemma checked_add_fits: "a + b \<le> usize_max \<Longrightarrow> checked_add a b = Some (a + b)"
  by (simp add: checked_add_def)

lemma checked_mul_fits: "a * b \<le> usize_max \<Longrightarrow> checked_mul a b = Some (a * b)"
  by (simp add: checked_mul_def)

text \<open>\<open>checked_add(1)\<close> on an allocator counter of fixed width: no successor of the last value.\<close>

definition checked_succ :: "'w::len word \<Rightarrow> 'w word option" where
  "checked_succ w = (if w = - 1 then None else Some (w + 1))"

lemma unat_succ: "(w::'w::len word) \<noteq> - 1 \<Longrightarrow> unat (w + 1) = Suc (unat w)"
  by (metis add.inverse_inverse diff_add_cancel add.commute eq_neg_iff_add_eq_0 unatSuc)

lemma checked_succ_Some: "checked_succ w = Some v \<Longrightarrow> unat v = Suc (unat w)"
  by (auto simp: checked_succ_def unat_succ split: if_splits)

subsection \<open>Big-endian byte strings\<close>

text \<open>
  \<open>be_nat\<close> reads a byte string as an unsigned big-endian number; \<open>be_bytes n k\<close> writes the
  lowest \<open>n\<close> bytes of \<open>k\<close>. A word's \<open>to_be_bytes\<close> writes its unsigned value, whichever way
  (signed, unsigned, IEEE bits) the word is read.
\<close>

definition be_nat :: "bytes \<Rightarrow> nat" where
  "be_nat bs = foldl (\<lambda>acc b. acc * 256 + unat b) 0 bs"

fun be_bytes :: "nat \<Rightarrow> nat \<Rightarrow> bytes" where
  "be_bytes 0 k = []"
| "be_bytes (Suc n) k = be_bytes n (k div 256) @ [word_of_nat k]"

definition to_be_bytes :: "nat \<Rightarrow> 'w::len word \<Rightarrow> bytes" where
  "to_be_bytes n w = be_bytes n (unat w)"

definition from_be_bytes :: "bytes \<Rightarrow> 'w::len word" where
  "from_be_bytes bs = word_of_nat (be_nat bs)"

lemma be_nat_Nil [simp]: "be_nat [] = 0"
  by (simp add: be_nat_def)

lemma be_nat_snoc [simp]: "be_nat (bs @ [b]) = be_nat bs * 256 + unat b"
  by (simp add: be_nat_def)

lemma length_be_bytes [simp, be_simps]: "length (be_bytes n k) = n"
  by (induction n arbitrary: k) auto

lemma unat_u8_less: "unat (b::u8) < 256"
  using unsigned_less [of b] by simp

lemma unat_word_of_nat_u8: "unat (word_of_nat k :: u8) = k mod 256"
  by (simp add: unsigned_of_nat take_bit_eq_mod)

lemma be_nat_be_bytes: "be_nat (be_bytes n k) = k mod 256 ^ n"
proof (induction n arbitrary: k)
  case 0
  then show ?case by simp
next
  case (Suc n)
  have "be_nat (be_bytes (Suc n) k) = (k div 256) mod 256 ^ n * 256 + k mod 256"
    by (simp add: Suc unat_word_of_nat_u8)
  also have "\<dots> = k mod (256 * 256 ^ n)"
    by (simp add: mod_mult2_eq mult.commute)
  finally show ?case by simp
qed

lemma be_nat_be_bytes_fits [simp, be_simps]: "k < 256 ^ n \<Longrightarrow> be_nat (be_bytes n k) = k"
  by (simp add: be_nat_be_bytes)

lemma be_nat_less: "be_nat bs < 256 ^ length bs"
proof (induction bs rule: rev_induct)
  case Nil
  then show ?case by simp
next
  case (snoc b bs)
  have "Suc (be_nat bs) * 256 \<le> 256 ^ length bs * 256"
    using snoc by (intro mult_right_mono) auto
  then show ?case using unat_u8_less [of b] by simp
qed

lemma be_bytes_be_nat [simp, be_simps]: "length bs = n \<Longrightarrow> be_bytes n (be_nat bs) = bs"
proof (induction bs arbitrary: n rule: rev_induct)
  case Nil
  then show ?case by simp
next
  case (snoc b bs)
  have "(be_nat bs * 256 + unat b) div 256 = be_nat bs"
    using unat_u8_less [of b] by simp
  moreover have "(word_of_nat (be_nat bs * 256 + unat b) :: u8) = b"
    by (rule word_unat_eq_iff [THEN iffD2])
      (use unat_u8_less [of b] in \<open>simp add: unat_word_of_nat_u8 del: of_nat_add of_nat_mult\<close>)
  ultimately show ?case using snoc by (cases n) (auto simp del: of_nat_add of_nat_mult)
qed

lemma be_bytes_mod: "be_bytes n (k mod 256 ^ n) = be_bytes n k"
  by (metis be_bytes_be_nat be_nat_be_bytes length_be_bytes)

lemma length_to_be_bytes [simp, be_simps]: "length (to_be_bytes n w) = n"
  by (simp add: to_be_bytes_def)

lemma from_to_be_bytes:
  assumes "LENGTH('w::len) \<le> 8 * n"
  shows "from_be_bytes (to_be_bytes n (w::'w word)) = w"
proof -
  have "(2::nat) ^ LENGTH('w) \<le> 2 ^ (8 * n)"
    using assms by (intro power_increasing) auto
  also have "\<dots> = 256 ^ n" by (simp add: power_mult)
  finally have "unat w < 256 ^ n"
    using unsigned_less [of w] by (meson order_less_le_trans)
  then show ?thesis by (simp add: from_be_bytes_def to_be_bytes_def)
qed

lemma to_from_be_bytes:
  assumes "8 * n = LENGTH('w::len)" and "length bs = n"
  shows "to_be_bytes n (from_be_bytes bs :: 'w word) = bs"
proof -
  have "(256::nat) ^ n = 2 ^ LENGTH('w)"
    by (simp add: assms(1) [symmetric] power_mult)
  then have "be_nat bs < 2 ^ LENGTH('w)"
    using be_nat_less [of bs] assms(2) by simp
  then have "unat (word_of_nat (be_nat bs) :: 'w word) = be_nat bs"
    by (simp add: unsigned_of_nat take_bit_nat_eq_self)
  then show ?thesis by (simp add: to_be_bytes_def from_be_bytes_def assms(2))
qed

lemma be_bytes_1 [simp]: "be_bytes (Suc 0) k = [word_of_nat k]"
  by simp

lemma be_bytes_2: "be_bytes 2 k = [word_of_nat (k div 256), word_of_nat k]"
  by (simp add: numeral_2_eq_2)

lemma be_bytes_3:
  "be_bytes 3 k = [word_of_nat (k div 65536), word_of_nat (k div 256), word_of_nat k]"
  by (simp add: numeral_3_eq_3 div_mult2_eq [symmetric])

lemma be_nat_single [simp]: "be_nat [b] = unat b"
  using be_nat_snoc [of "[]" b] by simp

subsection \<open>Slices\<close>

text \<open>\<open>as_chunks::<N>().0\<close>: the leading whole chunks of width \<open>n\<close>, the remainder dropped.\<close>

function chunks :: "nat \<Rightarrow> 'a list \<Rightarrow> 'a list list" where
  "chunks n xs = (if n = 0 \<or> length xs < n then [] else take n xs # chunks n (drop n xs))"
  by pat_completeness auto
termination
  by (relation "measure (\<lambda>(n, xs). length xs)") auto

declare chunks.simps [simp del]

lemma chunks_Nil [simp]: "chunks n [] = []"
  by (subst chunks.simps) auto

lemma chunks_append [simp]:
  "length x = n \<Longrightarrow> 0 < n \<Longrightarrow> chunks n (x @ xs) = x # chunks n xs"
  by (subst chunks.simps) auto

lemma chunks_concat:
  "(\<And>x. x \<in> set xs \<Longrightarrow> length (f x) = n) \<Longrightarrow> 0 < n \<Longrightarrow> chunks n (concat (map f xs)) = map f xs"
  by (induction xs) auto

lemma concat_chunks: "n dvd length xs \<Longrightarrow> 0 < n \<Longrightarrow> concat (chunks n xs) = xs"
proof (induction n xs rule: chunks.induct)
  case (1 n xs)
  show ?case
  proof (cases "length xs < n")
    case True
    with 1 have "length xs = 0" by (metis gr_implies_not0 nat_dvd_not_less neq0_conv)
    then show ?thesis by simp
  next
    case False
    with 1 have "n dvd length (drop n xs)" by simp
    with 1 False show ?thesis by (subst chunks.simps) auto
  qed
qed

lemma length_chunk: "x \<in> set (chunks n xs) \<Longrightarrow> length x = n"
proof (induction n xs rule: chunks.induct)
  case (1 n xs)
  then show ?case
    by (subst (asm) (2) chunks.simps) (auto split: if_splits)
qed

lemma length_chunks: "n dvd length xs \<Longrightarrow> 0 < n \<Longrightarrow> n * length (chunks n xs) = length xs"
proof (induction n xs rule: chunks.induct)
  case (1 n xs)
  show ?case
  proof (cases "length xs < n")
    case True
    with 1 have "length xs = 0" by (metis gr_implies_not0 nat_dvd_not_less neq0_conv)
    then show ?thesis by simp
  next
    case False
    with 1 have "n dvd length (drop n xs)" by simp
    with 1 False have "n * length (chunks n (drop n xs)) = length xs - n" by auto
    with False 1 show ?thesis by (subst chunks.simps) auto
  qed
qed

end
