(* ===== verification/Secs2_Item.thy ===== *)
theory Secs2_Item
  imports Prelude
begin

section \<open>SECS-II values: items, decode limits and message identifiers\<close>

text \<open>
  The transport-independent value types of \<open>src/secs2/item.rs\<close>, \<open>limits.rs\<close>,
  \<open>error.rs\<close> and \<open>message.rs\<close>. A signed integer is the word that holds its two's
  complement representation and a floating-point value is the word of its IEEE-754 bits: the codec
  only moves them through \<open>to_be_bytes\<close>/\<open>from_be_bytes\<close> and
  \<open>to_bits\<close>/\<open>from_bits\<close>, which do not change the bits. A Rust \<open>String\<close> is the
  byte list of its UTF-8 form.
\<close>

type_synonym i8 = "8 word"
type_synonym i16 = "16 word"
type_synonym i32 = "32 word"
type_synonym i64 = "64 word"
type_synonym f32 = "32 word"
type_synonym f64 = "64 word"

datatype secs_item_error =
    NonAscii usize u8
  | ZeroLimit string
  | ItemLengthTooLarge usize usize
  | DepthLimitTooLarge usize usize
  | ReservedLocalizedEncodingCode

subsection \<open>Validated wrappers\<close>

text \<open>
  The wrappers keep their content private, so a value exists only if its constructor accepted it;
  \<open>item_ok\<close> below is that invariant for a whole item tree.
\<close>

definition localized_encoding_code_new :: "u16 \<Rightarrow> (u16, secs_item_error) result" where
  "localized_encoding_code_new value =
     (if value = 0 then Err ReservedLocalizedEncodingCode else Ok value)"

datatype localized_string = LocalizedString (ls_encoding: u16) (ls_bytes: bytes)

definition is_ascii :: "u8 \<Rightarrow> bool" where
  "is_ascii b \<longleftrightarrow> unat b < 128"

fun find_non_ascii :: "usize \<Rightarrow> bytes \<Rightarrow> (usize \<times> u8) option" where
  "find_non_ascii i [] = None"
| "find_non_ascii i (b # bs) = (if is_ascii b then find_non_ascii (Suc i) bs else Some (i, b))"

definition ascii_string_new :: "bytes \<Rightarrow> (bytes, secs_item_error) result" where
  "ascii_string_new value =
     (case find_non_ascii 0 value of
        Some (index, byte) \<Rightarrow> Err (NonAscii index byte)
      | None \<Rightarrow> Ok value)"

lemma find_non_ascii_None: "find_non_ascii i bs = None \<longleftrightarrow> list_all is_ascii bs"
  by (induction bs arbitrary: i) auto

lemma find_non_ascii_Some:
  "find_non_ascii i bs = Some (j, b) \<Longrightarrow>
     i \<le> j \<and> j - i < length bs \<and> bs ! (j - i) = b \<and> \<not> is_ascii b \<and>
     list_all is_ascii (take (j - i) bs)"
proof (induction bs arbitrary: i)
  case Nil
  then show ?case by simp
next
  case (Cons x xs)
  show ?case
  proof (cases "is_ascii x")
    case True
    with Cons.prems have "find_non_ascii (Suc i) xs = Some (j, b)" by simp
    from Cons.IH [OF this] True show ?thesis
      by (cases "j - i") (auto simp: nth_Cons' take_Cons' diff_Suc split: nat.splits)
  next
    case False
    with Cons.prems show ?thesis by simp
  qed
qed

subsection \<open>Items\<close>

datatype secs_item =
    Item_List "secs_item list"
  | Item_Binary bytes
  | Item_Boolean "bool list"
  | Item_Ascii bytes
  | Item_Jis8 bytes
  | Item_Localized localized_string
  | Item_I8 "i64 list"
  | Item_I1 "i8 list"
  | Item_I2 "i16 list"
  | Item_I4 "i32 list"
  | Item_F8 "f64 list"
  | Item_F4 "f32 list"
  | Item_U8 "u64 list"
  | Item_U1 "u8 list"
  | Item_U2 "u16 list"
  | Item_U4 "u32 list"

fun is_list :: "secs_item \<Rightarrow> bool" where
  "is_list (Item_List _) = True"
| "is_list _ = False"

text \<open>What the private wrappers guarantee of every item tree a program can hold.\<close>

fun item_ok :: "secs_item \<Rightarrow> bool" where
  "item_ok (Item_List cs) = (\<forall>c \<in> set cs. item_ok c)"
| "item_ok (Item_Ascii bs) = list_all is_ascii bs"
| "item_ok (Item_Localized s) = (ls_encoding s \<noteq> 0)"
| "item_ok _ = True"

text \<open>The number of nodes of a tree and its nodes in the order a preorder visit meets them.\<close>

fun node_count :: "secs_item \<Rightarrow> nat" where
  "node_count (Item_List cs) = Suc (sum_list (map node_count cs))"
| "node_count _ = 1"

fun preorder :: "secs_item \<Rightarrow> secs_item list" where
  "preorder (Item_List cs) = Item_List cs # concat (map preorder cs)"
| "preorder it = [it]"

lemma node_count_pos [simp]: "0 < node_count it"
  by (cases it) auto

lemma length_preorder: "length (preorder it) = node_count it"
  by (induction it rule: preorder.induct) (auto simp: length_concat o_def cong: map_cong)

lemma node_count_scalar [simp]: "\<not> is_list it \<Longrightarrow> node_count it = 1"
  by (cases it) auto

lemma preorder_scalar [simp]: "\<not> is_list it \<Longrightarrow> preorder it = [it]"
  by (cases it) auto

subsection \<open>Decode limits\<close>

definition MAX_ENCODED_ITEM_LENGTH :: usize where
  "MAX_ENCODED_ITEM_LENGTH = 0x00FFFFFF"

definition MAX_DECODE_NESTING_DEPTH :: usize where
  "MAX_DECODE_NESTING_DEPTH = 256"

record decode_limits =
  max_depth :: usize
  max_total_items :: usize
  max_item_bytes :: usize
  max_list_items :: usize

definition decode_limits_validate :: "decode_limits \<Rightarrow> (unit, secs_item_error) result" where
  "decode_limits_validate L =
     (case find (\<lambda>(field, value). value = 0)
         [(''max_depth'', max_depth L),
          (''max_total_items'', max_total_items L),
          (''max_item_bytes'', max_item_bytes L),
          (''max_list_items'', max_list_items L)] of
        Some (field, _) \<Rightarrow> Err (ZeroLimit field)
      | None \<Rightarrow>
          if max_depth L > MAX_DECODE_NESTING_DEPTH
          then Err (DepthLimitTooLarge (max_depth L) MAX_DECODE_NESTING_DEPTH)
          else if max_item_bytes L > MAX_ENCODED_ITEM_LENGTH
          then Err (ItemLengthTooLarge (max_item_bytes L) MAX_ENCODED_ITEM_LENGTH)
          else Ok ())"

definition decode_limits_new ::
  "usize \<Rightarrow> usize \<Rightarrow> usize \<Rightarrow> usize \<Rightarrow> (decode_limits, secs_item_error) result" where
  "decode_limits_new d t b l =
     (let limits = \<lparr>max_depth = d, max_total_items = t, max_item_bytes = b, max_list_items = l\<rparr>
      in bind_res (decode_limits_validate limits) (\<lambda>_. Ok limits))"

definition decode_limits_default :: decode_limits where
  "decode_limits_default =
     \<lparr>max_depth = 64, max_total_items = 1000000,
      max_item_bytes = MAX_ENCODED_ITEM_LENGTH, max_list_items = 1000000\<rparr>"

lemma decode_limits_validate_Ok:
  "decode_limits_validate L = Ok () \<longleftrightarrow>
     0 < max_depth L \<and> max_depth L \<le> MAX_DECODE_NESTING_DEPTH \<and>
     0 < max_total_items L \<and>
     0 < max_item_bytes L \<and> max_item_bytes L \<le> MAX_ENCODED_ITEM_LENGTH \<and>
     0 < max_list_items L"
  by (auto simp: decode_limits_validate_def)

lemma decode_limits_new_Ok:
  "decode_limits_new d t b l = Ok L \<Longrightarrow> decode_limits_validate L = Ok ()"
  by (auto simp: decode_limits_new_def Let_def res_simps)

lemma decode_limits_default_valid: "decode_limits_validate decode_limits_default = Ok ()"
  by (simp add: decode_limits_validate_Ok decode_limits_default_def
      MAX_DECODE_NESTING_DEPTH_def MAX_ENCODED_ITEM_LENGTH_def)

subsection \<open>Message identifiers and primary content\<close>

datatype stream = Stream (stream_get: u8)
datatype sfunction = Function (function_get: u8)
datatype stream_error = StreamError u8

definition stream_new :: "u8 \<Rightarrow> (stream, stream_error) result" where
  "stream_new value = (if 127 < value then Err (StreamError value) else Ok (Stream value))"

record primary_message =
  pm_stream :: stream
  pm_function :: sfunction
  pm_body :: "secs_item option"

text \<open>A stream exists only if \<open>Stream::new\<close> accepted its value.\<close>

definition stream_ok :: "stream \<Rightarrow> bool" where
  "stream_ok s \<longleftrightarrow> stream_get s \<le> 127"

lemma stream_new_ok: "stream_new v = Ok s \<longleftrightarrow> s = Stream v \<and> stream_ok s"
  by (auto simp: stream_new_def stream_ok_def)

end
