(* ===== verification/Secs2_Header.thy ===== *)
theory Secs2_Header
  imports Secs2_Item
begin

section \<open>SECS-II item headers: format codes and length bytes\<close>

text \<open>
  \<open>src/secs2/codec/header.rs\<close>: the six-bit format codes of SEMI E5, the number of length
  bytes, and the format byte that packs both. The lemmas say that packing and unpacking are
  inverse on all 48 legal format bytes.
\<close>

unbundle bit_operations_syntax

datatype format_code =
    FC_List | FC_Binary | FC_Boolean | FC_Ascii | FC_Jis8 | FC_Localized
  | FC_I8 | FC_I1 | FC_I2 | FC_I4 | FC_F8 | FC_F4 | FC_U8 | FC_U1 | FC_U2 | FC_U4

fun six_bit_value :: "format_code \<Rightarrow> u8" where
  "six_bit_value FC_List = 0"
| "six_bit_value FC_Binary = 8"
| "six_bit_value FC_Boolean = 9"
| "six_bit_value FC_Ascii = 16"
| "six_bit_value FC_Jis8 = 17"
| "six_bit_value FC_Localized = 18"
| "six_bit_value FC_I8 = 24"
| "six_bit_value FC_I1 = 25"
| "six_bit_value FC_I2 = 26"
| "six_bit_value FC_I4 = 28"
| "six_bit_value FC_F8 = 32"
| "six_bit_value FC_F4 = 36"
| "six_bit_value FC_U8 = 40"
| "six_bit_value FC_U1 = 41"
| "six_bit_value FC_U2 = 42"
| "six_bit_value FC_U4 = 44"

definition from_six_bit :: "u8 \<Rightarrow> format_code option" where
  "from_six_bit six_bit =
     (if 63 < six_bit then None
      else if six_bit = 0 then Some FC_List
      else if six_bit = 8 then Some FC_Binary
      else if six_bit = 9 then Some FC_Boolean
      else if six_bit = 16 then Some FC_Ascii
      else if six_bit = 17 then Some FC_Jis8
      else if six_bit = 18 then Some FC_Localized
      else if six_bit = 24 then Some FC_I8
      else if six_bit = 25 then Some FC_I1
      else if six_bit = 26 then Some FC_I2
      else if six_bit = 28 then Some FC_I4
      else if six_bit = 32 then Some FC_F8
      else if six_bit = 36 then Some FC_F4
      else if six_bit = 40 then Some FC_U8
      else if six_bit = 41 then Some FC_U1
      else if six_bit = 42 then Some FC_U2
      else if six_bit = 44 then Some FC_U4
      else None)"

fun element_width :: "format_code \<Rightarrow> usize option" where
  "element_width FC_I8 = Some 8"
| "element_width FC_F8 = Some 8"
| "element_width FC_U8 = Some 8"
| "element_width FC_I4 = Some 4"
| "element_width FC_F4 = Some 4"
| "element_width FC_U4 = Some 4"
| "element_width FC_I2 = Some 2"
| "element_width FC_U2 = Some 2"
| "element_width FC_I1 = Some 1"
| "element_width FC_U1 = Some 1"
| "element_width _ = None"

datatype length_byte_count = LB_One | LB_Two | LB_Three

definition from_low_bits :: "u8 \<Rightarrow> length_byte_count option" where
  "from_low_bits low_bits =
     (let v = low_bits AND 3
      in if v = 1 then Some LB_One
         else if v = 2 then Some LB_Two
         else if v = 3 then Some LB_Three
         else None)"

fun as_count :: "length_byte_count \<Rightarrow> usize" where
  "as_count LB_One = 1"
| "as_count LB_Two = 2"
| "as_count LB_Three = 3"

definition for_declared_length :: "usize \<Rightarrow> length_byte_count option" where
  "for_declared_length declared_length =
     (if declared_length \<le> 0xFF then Some LB_One
      else if declared_length \<le> 0xFFFF then Some LB_Two
      else if declared_length \<le> MAX_ENCODED_ITEM_LENGTH then Some LB_Three
      else None)"

definition format_byte :: "length_byte_count \<Rightarrow> format_code \<Rightarrow> u8" where
  "format_byte count code =
     (push_bit 2 (six_bit_value code)) OR (word_of_nat (as_count count) AND 3)"

subsection \<open>Packing and unpacking\<close>

lemma from_six_bit_value [simp]: "from_six_bit (six_bit_value code) = Some code"
  by (cases code) (simp_all add: from_six_bit_def)

lemma from_six_bit_Some: "from_six_bit w = Some code \<longleftrightarrow> w = six_bit_value code"
proof
  show "w = six_bit_value code" if "from_six_bit w = Some code"
    using that by (auto simp: from_six_bit_def split: if_splits)
qed simp

lemma format_byte_code [simp]: "drop_bit 2 (format_byte count code) = six_bit_value code"
  by (cases count; cases code) (simp_all add: format_byte_def)

lemma format_byte_count [simp]: "from_low_bits (format_byte count code AND 3) = Some count"
  by (cases count; cases code) (simp_all add: format_byte_def from_low_bits_def)

lemma from_low_bits_Some: "from_low_bits (b AND 3) = Some n \<longleftrightarrow> b AND 3 = word_of_nat (as_count n)"
  by (cases n) (auto simp: from_low_bits_def Let_def and.assoc split: if_splits)

lemma byte_split: "(b::u8) = push_bit 2 (drop_bit 2 b) OR (b AND 3)"
proof -
  have "b = push_bit 2 (drop_bit 2 b) OR take_bit 2 b"
  proof (rule bit_word_eqI)
    fix n assume "n < LENGTH(8)"
    then show "bit b n = bit (push_bit 2 (drop_bit 2 b) OR take_bit 2 b) n"
      by (cases n rule: nat.exhaust; cases "n - 1")
        (auto simp: bit_or_iff bit_push_bit_iff bit_drop_bit_eq bit_take_bit_iff)
  qed
  moreover have "take_bit 2 b = b AND 3"
    by (simp add: take_bit_eq_mask mask_eq_exp_minus_1)
  ultimately show ?thesis by simp
qed

lemma format_byte_unique:
  assumes "from_low_bits (b AND 3) = Some count" "from_six_bit (drop_bit 2 b) = Some code"
  shows "b = format_byte count code"
proof -
  have "b = push_bit 2 (six_bit_value code) OR word_of_nat (as_count count)"
    using byte_split [of b] assms by (simp add: from_low_bits_Some from_six_bit_Some)
  moreover have "word_of_nat (as_count count) AND 3 = (word_of_nat (as_count count) :: u8)"
    by (cases count) simp_all
  ultimately show ?thesis by (simp add: format_byte_def)
qed

lemma as_count_pos [simp]: "0 < as_count n" "as_count n \<le> 3"
  by (cases n; simp)+

lemma for_declared_length_fits:
  "for_declared_length d = Some n \<Longrightarrow> d < 256 ^ as_count n"
  by (auto simp: for_declared_length_def MAX_ENCODED_ITEM_LENGTH_def split: if_splits)

lemma for_declared_length_total:
  "(\<exists>n. for_declared_length d = Some n) \<longleftrightarrow> d \<le> MAX_ENCODED_ITEM_LENGTH"
  by (auto simp: for_declared_length_def MAX_ENCODED_ITEM_LENGTH_def)

lemma for_declared_length_minimal:
  assumes "for_declared_length d = Some n" "d < 256 ^ as_count m"
  shows "as_count n \<le> as_count m"
  using assms by (cases m) (auto simp: for_declared_length_def split: if_splits)

text \<open>The value of one to three length bytes never exceeds the protocol maximum.\<close>

lemma length_bytes_bounded:
  assumes "length lb = as_count n"
  shows "be_nat lb \<le> MAX_ENCODED_ITEM_LENGTH"
proof -
  have "be_nat lb < 256 ^ as_count n" using be_nat_less [of lb] assms by simp
  also have "\<dots> \<le> 256 ^ 3" by (intro power_increasing) auto
  finally show ?thesis by (simp add: MAX_ENCODED_ITEM_LENGTH_def)
qed

end
