(* ===== verification/Secs2_Encode.thy ===== *)
theory Secs2_Encode
  imports Secs2_Header
begin

section \<open>The two-pass SECS-II encoder\<close>

text \<open>
  \<open>src/secs2/codec/encode.rs\<close>. Both passes drive \<open>ItemWalker\<close>, an explicit stack of
  slice iterators; a \<open>Vec\<close> used as a stack is a list with its top first, and a slice iterator
  is the list of elements still to come. The first pass (\<open>measure\<close>) checks and sums the node
  sizes, the second (\<open>write_item_tree\<close>) appends them. An \<open>expect\<close> or
  \<open>unreachable!\<close> of the source that would fire is the extra constructor
  \<open>EncodePanic\<close>, which the theorems show unreachable.
\<close>

datatype encode_error =
    ItemBodyTooLarge u8 usize
  | ListTooLarge usize
  | ArithmeticOverflow
  | EncodePanic

subsection \<open>The walker\<close>

record item_walker =
  next_item :: "secs_item option"
  parents :: "secs_item list list"

definition item_walker_new :: "secs_item \<Rightarrow> item_walker" where
  "item_walker_new root = \<lparr>next_item = Some root, parents = []\<rparr>"

fun advance_to_next :: "secs_item list list \<Rightarrow> secs_item option \<times> secs_item list list" where
  "advance_to_next [] = (None, [])"
| "advance_to_next ((sibling # rest) # ps) = (Some sibling, rest # ps)"
| "advance_to_next ([] # ps) = advance_to_next ps"

definition walker_next :: "item_walker \<Rightarrow> (secs_item \<times> item_walker) option" where
  "walker_next w =
     (case next_item w of
        None \<Rightarrow> None
      | Some current \<Rightarrow>
          let ps = (case current of
                      Item_List children \<Rightarrow>
                        if children \<noteq> [] then children # parents w else parents w
                    | _ \<Rightarrow> parents w);
              (nxt, ps') = advance_to_next ps
          in Some (current, w\<lparr>next_item := nxt, parents := ps'\<rparr>))"

text \<open>The nodes a walker still has to deliver.\<close>

definition pending_nodes :: "item_walker \<Rightarrow> secs_item list" where
  "pending_nodes w =
     (case next_item w of None \<Rightarrow> [] | Some it \<Rightarrow> preorder it)
     @ concat (map (concat \<circ> map preorder) (parents w))"

definition walker_wf :: "item_walker \<Rightarrow> bool" where
  "walker_wf w \<longleftrightarrow> (next_item w = None \<longrightarrow> parents w = [])"

lemma advance_pending:
  "advance_to_next ps = (nxt, ps') \<Longrightarrow>
     (nxt = None \<longrightarrow> ps' = []) \<and>
     (case nxt of None \<Rightarrow> [] | Some it \<Rightarrow> preorder it) @ concat (map (concat \<circ> map preorder) ps')
       = concat (map (concat \<circ> map preorder) ps)"
  by (induction ps rule: advance_to_next.induct) auto

lemma walker_next_pending:
  assumes "walker_next w = Some (node, w')"
  shows "pending_nodes w = node # pending_nodes w' \<and> walker_wf w'"
proof -
  from assms obtain cur where cur: "next_item w = Some cur"
    by (auto simp: walker_next_def split: option.splits)
  define ps where "ps = (case cur of
                      Item_List children \<Rightarrow>
                        if children \<noteq> [] then children # parents w else parents w
                    | _ \<Rightarrow> parents w)"
  obtain nxt ps' where adv: "advance_to_next ps = (nxt, ps')" by fastforce
  have w': "node = cur" "w' = w\<lparr>next_item := nxt, parents := ps'\<rparr>"
    using assms cur adv by (auto simp: walker_next_def ps_def Let_def)
  have "preorder cur @ concat (map (concat \<circ> map preorder) (parents w))
        = cur # concat (map (concat \<circ> map preorder) ps)"
    by (cases cur) (auto simp: ps_def)
  with advance_pending [OF adv] w' cur show ?thesis
    by (auto simp: pending_nodes_def walker_wf_def)
qed

lemma walker_next_None:
  "walker_next w = None \<Longrightarrow> walker_wf w \<Longrightarrow> pending_nodes w = []"
  by (auto simp: walker_next_def walker_wf_def pending_nodes_def Let_def
      split: option.splits prod.splits)

lemma pending_new [simp]: "pending_nodes (item_walker_new it) = preorder it"
  by (simp add: item_walker_new_def pending_nodes_def)

lemma walker_wf_new [simp]: "walker_wf (item_walker_new it)"
  by (simp add: item_walker_new_def walker_wf_def)

subsection \<open>Declared lengths and sizes\<close>

definition bounded_payload :: "usize \<Rightarrow> format_code \<Rightarrow> (usize, encode_error) result" where
  "bounded_payload body_len code =
     (if body_len > MAX_ENCODED_ITEM_LENGTH
      then Err (ItemBodyTooLarge (six_bit_value code) body_len)
      else Ok body_len)"

definition bounded_list_children :: "usize \<Rightarrow> (usize, encode_error) result" where
  "bounded_list_children child_count =
     (if child_count > MAX_ENCODED_ITEM_LENGTH then Err (ListTooLarge child_count)
      else Ok child_count)"

definition numeric_payload ::
  "usize \<Rightarrow> usize \<Rightarrow> format_code \<Rightarrow> (usize \<times> bool, encode_error) result" where
  "numeric_payload count elem_width code =
     bind_res (ok_or (checked_mul count elem_width) ArithmeticOverflow) (\<lambda>body_len.
     bind_res (bounded_payload body_len code) (\<lambda>n. Ok (n, False)))"

definition byte_payload :: "usize \<Rightarrow> format_code \<Rightarrow> (usize \<times> bool, encode_error) result" where
  "byte_payload len code = bind_res (bounded_payload len code) (\<lambda>n. Ok (n, False))"

fun declared_length_of :: "secs_item \<Rightarrow> (usize \<times> bool, encode_error) result" where
  "declared_length_of (Item_List children) =
     bind_res (bounded_list_children (length children)) (\<lambda>count. Ok (count, True))"
| "declared_length_of (Item_Binary bs) = byte_payload (length bs) FC_Binary"
| "declared_length_of (Item_Boolean vs) = byte_payload (length vs) FC_Boolean"
| "declared_length_of (Item_Ascii text) = byte_payload (length text) FC_Ascii"
| "declared_length_of (Item_Jis8 bs) = byte_payload (length bs) FC_Jis8"
| "declared_length_of (Item_Localized s) =
     bind_res (ok_or (checked_add (length (ls_bytes s)) 2) ArithmeticOverflow) (\<lambda>body_len.
     byte_payload body_len FC_Localized)"
| "declared_length_of (Item_I8 vs) = numeric_payload (length vs) 8 FC_I8"
| "declared_length_of (Item_I1 vs) = numeric_payload (length vs) 1 FC_I1"
| "declared_length_of (Item_I2 vs) = numeric_payload (length vs) 2 FC_I2"
| "declared_length_of (Item_I4 vs) = numeric_payload (length vs) 4 FC_I4"
| "declared_length_of (Item_F8 vs) = numeric_payload (length vs) 8 FC_F8"
| "declared_length_of (Item_F4 vs) = numeric_payload (length vs) 4 FC_F4"
| "declared_length_of (Item_U8 vs) = numeric_payload (length vs) 8 FC_U8"
| "declared_length_of (Item_U1 vs) = byte_payload (length vs) FC_U1"
| "declared_length_of (Item_U2 vs) = numeric_payload (length vs) 2 FC_U2"
| "declared_length_of (Item_U4 vs) = numeric_payload (length vs) 4 FC_U4"

definition node_wire_size :: "secs_item \<Rightarrow> (usize, encode_error) result" where
  "node_wire_size it =
     bind_res (declared_length_of it) (\<lambda>(declared_length, is_list).
     bind_res (ok_or (for_declared_length declared_length) EncodePanic) (\<lambda>count.
     bind_res (ok_or (checked_add 1 (as_count count)) EncodePanic) (\<lambda>header_len.
       if is_list then Ok header_len
       else ok_or (checked_add header_len declared_length) ArithmeticOverflow)))"

function measure_loop :: "item_walker \<Rightarrow> usize \<Rightarrow> (usize, encode_error) result" where
  "measure_loop w size0 =
     (case walker_next w of
        None \<Rightarrow> Ok size0
      | Some (node, w') \<Rightarrow>
          bind_res (node_wire_size node) (\<lambda>node_size.
          bind_res (ok_or (checked_add size0 node_size) ArithmeticOverflow) (\<lambda>size1.
          measure_loop w' size1)))"
  by pat_completeness auto
termination
  by (relation "measure (\<lambda>(w, _). length (pending_nodes w))")
    (auto dest: walker_next_pending)

definition measure_item :: "secs_item \<Rightarrow> (usize, encode_error) result" where
  "measure_item root = measure_loop (item_walker_new root) 0"

subsection \<open>Writing\<close>

definition write_header :: "bytes \<Rightarrow> format_code \<Rightarrow> usize \<Rightarrow> (bytes, encode_error) result" where
  "write_header dst code declared_length =
     bind_res (ok_or (for_declared_length declared_length) EncodePanic) (\<lambda>count.
       let dst = dst @ [format_byte count code]; byte_count = as_count count
       in if byte_count = 1 then Ok (dst @ [word_of_nat declared_length])
          else if byte_count = 2
          then Ok (dst @ to_be_bytes 2 (word_of_nat declared_length :: u16))
          else if byte_count = 3
          then Ok (dst @ [word_of_nat (declared_length div 2 ^ 16),
                          word_of_nat (declared_length div 2 ^ 8),
                          word_of_nat declared_length])
          else Err EncodePanic)"

fun write_payload :: "bytes \<Rightarrow> secs_item \<Rightarrow> bytes" where
  "write_payload dst (Item_List _) = dst"
| "write_payload dst (Item_Binary bs) = dst @ bs"
| "write_payload dst (Item_Boolean vs) = dst @ map (\<lambda>v. if v then 1 else 0) vs"
| "write_payload dst (Item_Ascii text) = dst @ text"
| "write_payload dst (Item_Jis8 bs) = dst @ bs"
| "write_payload dst (Item_Localized s) = (dst @ to_be_bytes 2 (ls_encoding s)) @ ls_bytes s"
| "write_payload dst (Item_I8 vs) = dst @ concat (map (to_be_bytes 8) vs)"
| "write_payload dst (Item_I1 vs) = dst @ vs"
| "write_payload dst (Item_I2 vs) = dst @ concat (map (to_be_bytes 2) vs)"
| "write_payload dst (Item_I4 vs) = dst @ concat (map (to_be_bytes 4) vs)"
| "write_payload dst (Item_F8 vs) = dst @ concat (map (to_be_bytes 8) vs)"
| "write_payload dst (Item_F4 vs) = dst @ concat (map (to_be_bytes 4) vs)"
| "write_payload dst (Item_U8 vs) = dst @ concat (map (to_be_bytes 8) vs)"
| "write_payload dst (Item_U1 vs) = dst @ vs"
| "write_payload dst (Item_U2 vs) = dst @ concat (map (to_be_bytes 2) vs)"
| "write_payload dst (Item_U4 vs) = dst @ concat (map (to_be_bytes 4) vs)"

fun format_code_of :: "secs_item \<Rightarrow> format_code" where
  "format_code_of (Item_List _) = FC_List"
| "format_code_of (Item_Binary _) = FC_Binary"
| "format_code_of (Item_Boolean _) = FC_Boolean"
| "format_code_of (Item_Ascii _) = FC_Ascii"
| "format_code_of (Item_Jis8 _) = FC_Jis8"
| "format_code_of (Item_Localized _) = FC_Localized"
| "format_code_of (Item_I8 _) = FC_I8"
| "format_code_of (Item_I1 _) = FC_I1"
| "format_code_of (Item_I2 _) = FC_I2"
| "format_code_of (Item_I4 _) = FC_I4"
| "format_code_of (Item_F8 _) = FC_F8"
| "format_code_of (Item_F4 _) = FC_F4"
| "format_code_of (Item_U8 _) = FC_U8"
| "format_code_of (Item_U1 _) = FC_U1"
| "format_code_of (Item_U2 _) = FC_U2"
| "format_code_of (Item_U4 _) = FC_U4"

definition write_node :: "bytes \<Rightarrow> secs_item \<Rightarrow> (bytes, encode_error) result" where
  "write_node output node =
     bind_res (declared_length_of node) (\<lambda>(declared_length, _).
     bind_res (write_header output (format_code_of node) declared_length) (\<lambda>output.
       Ok (if is_list node then output else write_payload output node)))"

function write_loop :: "item_walker \<Rightarrow> bytes \<Rightarrow> (bytes, encode_error) result" where
  "write_loop w output =
     (case walker_next w of
        None \<Rightarrow> Ok output
      | Some (node, w') \<Rightarrow>
          bind_res (write_node output node) (\<lambda>output'. write_loop w' output'))"
  by pat_completeness auto
termination
  by (relation "measure (\<lambda>(w, _). length (pending_nodes w))")
    (auto dest: walker_next_pending)

declare measure_loop.simps [simp del] write_loop.simps [simp del]

definition write_item_tree :: "secs_item \<Rightarrow> bytes \<Rightarrow> (bytes, encode_error) result" where
  "write_item_tree it output = write_loop (item_walker_new it) output"

record encoded_item_plan =
  plan_item :: secs_item
  encoded_length :: usize

definition encoded_item_plan_new :: "secs_item \<Rightarrow> (encoded_item_plan, encode_error) result" where
  "encoded_item_plan_new it =
     bind_res (measure_item it) (\<lambda>n. Ok \<lparr>plan_item = it, encoded_length = n\<rparr>)"

definition plan_write_into :: "encoded_item_plan \<Rightarrow> bytes \<Rightarrow> (bytes, encode_error) result" where
  "plan_write_into plan output = write_item_tree (plan_item plan) output"

definition encode_to_vec :: "secs_item \<Rightarrow> (bytes, encode_error) result" where
  "encode_to_vec it =
     bind_res (encoded_item_plan_new it) (\<lambda>plan. plan_write_into plan [])"

end
