(* ===== verification/Secs2_Wire.thy ===== *)
theory Secs2_Wire
  imports Secs2_Encode
begin

section \<open>What an SECS-II byte string means, and the encoder against it\<close>

text \<open>
  The abstract specification of the binary format, independent of either pass of the encoder and
  of the decoder's loop: \<open>body_denotes\<close> says which bodies a scalar item has (any non-zero byte
  is a true Boolean), and \<open>wire_item it bs\<close> that \<open>bs\<close> is one complete encoding of
  \<open>it\<close>, with one to three length bytes, not necessarily as few as possible. The encoder is
  then proved to write one of the encodings of its item, the shortest one.
\<close>

fun declared :: "secs_item \<Rightarrow> nat" where
  "declared (Item_List cs) = length cs"
| "declared (Item_Binary bs) = length bs"
| "declared (Item_Boolean vs) = length vs"
| "declared (Item_Ascii bs) = length bs"
| "declared (Item_Jis8 bs) = length bs"
| "declared (Item_Localized s) = length (ls_bytes s) + 2"
| "declared (Item_I8 vs) = length vs * 8"
| "declared (Item_I1 vs) = length vs"
| "declared (Item_I2 vs) = length vs * 2"
| "declared (Item_I4 vs) = length vs * 4"
| "declared (Item_F8 vs) = length vs * 8"
| "declared (Item_F4 vs) = length vs * 4"
| "declared (Item_U8 vs) = length vs * 8"
| "declared (Item_U1 vs) = length vs"
| "declared (Item_U2 vs) = length vs * 2"
| "declared (Item_U4 vs) = length vs * 4"

fun body_denotes :: "secs_item \<Rightarrow> bytes \<Rightarrow> bool" where
  "body_denotes (Item_List _) body = False"
| "body_denotes (Item_Binary bs) body = (body = bs)"
| "body_denotes (Item_Boolean vs) body = (vs = map (\<lambda>b. b \<noteq> 0) body)"
| "body_denotes (Item_Ascii bs) body = (body = bs \<and> list_all is_ascii bs)"
| "body_denotes (Item_Jis8 bs) body = (body = bs)"
| "body_denotes (Item_Localized s) body =
     (body = to_be_bytes 2 (ls_encoding s) @ ls_bytes s \<and> ls_encoding s \<noteq> 0)"
| "body_denotes (Item_I8 vs) body = (body = concat (map (to_be_bytes 8) vs))"
| "body_denotes (Item_I1 vs) body = (body = vs)"
| "body_denotes (Item_I2 vs) body = (body = concat (map (to_be_bytes 2) vs))"
| "body_denotes (Item_I4 vs) body = (body = concat (map (to_be_bytes 4) vs))"
| "body_denotes (Item_F8 vs) body = (body = concat (map (to_be_bytes 8) vs))"
| "body_denotes (Item_F4 vs) body = (body = concat (map (to_be_bytes 4) vs))"
| "body_denotes (Item_U8 vs) body = (body = concat (map (to_be_bytes 8) vs))"
| "body_denotes (Item_U1 vs) body = (body = vs)"
| "body_denotes (Item_U2 vs) body = (body = concat (map (to_be_bytes 2) vs))"
| "body_denotes (Item_U4 vs) body = (body = concat (map (to_be_bytes 4) vs))"

inductive wire_item :: "secs_item \<Rightarrow> bytes \<Rightarrow> bool" where
  wire_list:
    "length lb = as_count n \<Longrightarrow> be_nat lb = length cs \<Longrightarrow> list_all2 wire_item cs bss \<Longrightarrow>
       wire_item (Item_List cs) (format_byte n FC_List # lb @ concat bss)"
| wire_scalar:
    "\<not> is_list it \<Longrightarrow> length lb = as_count n \<Longrightarrow> be_nat lb = length body \<Longrightarrow>
       body_denotes it body \<Longrightarrow>
       wire_item it (format_byte n (format_code_of it) # lb @ body)"

inductive_cases wire_listE: "wire_item (Item_List cs) bs"

lemma sum_list_const: "(\<And>x. x \<in> set xs \<Longrightarrow> f x = c) \<Longrightarrow> sum_list (map f xs) = length xs * (c::nat)"
  by (induction xs) auto

lemma length_concat_be [simp]: "length (concat (map (to_be_bytes n) vs)) = length vs * n"
  by (induction vs) auto

lemma body_denotes_length: "body_denotes it body \<Longrightarrow> length body = declared it"
  by (cases it) auto

lemma body_denotes_ok: "body_denotes it body \<Longrightarrow> item_ok it"
  by (cases it) auto

lemma wire_item_ok: "wire_item it bs \<Longrightarrow> item_ok it"
  by (induction rule: wire_item.induct)
    (auto simp: list_all2_conv_all_nth in_set_conv_nth intro: body_denotes_ok)

lemma wire_item_nonempty: "wire_item it bs \<Longrightarrow> 2 \<le> length bs"
  by (induction rule: wire_item.induct) (auto simp: Suc_le_eq)

subsection \<open>The recursive encoder\<close>

text \<open>
  \<open>node_bytes\<close> is a node's header with the fewest length bytes, and its body; \<open>enc\<close>
  concatenates them in preorder.
\<close>

definition min_count :: "nat \<Rightarrow> length_byte_count" where
  "min_count d = (if d \<le> 0xFF then LB_One else if d \<le> 0xFFFF then LB_Two else LB_Three)"

definition node_bytes :: "secs_item \<Rightarrow> bytes" where
  "node_bytes it =
     format_byte (min_count (declared it)) (format_code_of it)
       # be_bytes (as_count (min_count (declared it))) (declared it)
       @ (if is_list it then [] else write_payload [] it)"

definition enc :: "secs_item \<Rightarrow> bytes" where
  "enc it = concat (map node_bytes (preorder it))"

definition node_fits :: "secs_item \<Rightarrow> bool" where
  "node_fits it \<longleftrightarrow> declared it \<le> MAX_ENCODED_ITEM_LENGTH"

definition encodable :: "secs_item \<Rightarrow> bool" where
  "encodable it \<longleftrightarrow> (\<forall>n \<in> set (preorder it). node_fits n)"

lemma enc_List [simp]: "enc (Item_List cs) = node_bytes (Item_List cs) @ concat (map enc cs)"
proof -
  have "concat (map node_bytes (concat (map preorder cs))) = concat (map enc cs)"
    by (induction cs) (simp_all add: enc_def)
  then show ?thesis by (simp add: enc_def)
qed

lemma enc_scalar [simp]: "\<not> is_list it \<Longrightarrow> enc it = node_bytes it"
  by (simp add: enc_def)

lemma encodable_List [simp]:
  "encodable (Item_List cs) \<longleftrightarrow> length cs \<le> MAX_ENCODED_ITEM_LENGTH \<and> (\<forall>c \<in> set cs. encodable c)"
  by (auto simp: encodable_def node_fits_def)

lemma encodable_scalar [simp]: "\<not> is_list it \<Longrightarrow> encodable it \<longleftrightarrow> node_fits it"
  by (simp add: encodable_def)

lemma for_declared_length_min:
  "d \<le> MAX_ENCODED_ITEM_LENGTH \<Longrightarrow> for_declared_length d = Some (min_count d)"
  by (simp add: for_declared_length_def min_count_def)

lemma min_count_fits: "d \<le> MAX_ENCODED_ITEM_LENGTH \<Longrightarrow> d < 256 ^ as_count (min_count d)"
  using for_declared_length_min for_declared_length_fits by blast

lemma write_payload_append: "write_payload dst it = dst @ write_payload [] it"
  by (cases it) auto

lemma length_write_payload [simp]: "\<not> is_list it \<Longrightarrow> length (write_payload [] it) = declared it"
  by (cases it) auto

lemma MAX_usize: "MAX_ENCODED_ITEM_LENGTH + 4 \<le> usize_max"
  by (simp add: MAX_ENCODED_ITEM_LENGTH_def usize_max_def)

lemma declared_length_of_Ok:
  "declared_length_of it = Ok (n, b) \<longleftrightarrow> node_fits it \<and> n = declared it \<and> b = is_list it"
  using MAX_usize
  by (cases it)
    (auto simp: node_fits_def bounded_list_children_def byte_payload_def bounded_payload_def
      numeric_payload_def checked_mul_def checked_add_def res_simps ok_or_def
      split: if_splits option.splits)

lemma declared_length_of_Err:
  "declared_length_of it = Err e \<Longrightarrow> \<not> node_fits it \<and> e \<noteq> EncodePanic"
  using MAX_usize
  by (cases it)
    (auto simp: node_fits_def bounded_list_children_def byte_payload_def bounded_payload_def
      numeric_payload_def checked_mul_def checked_add_def res_simps ok_or_def
      split: if_splits option.splits)

lemma length_node_bytes:
  "length (node_bytes it) =
     1 + as_count (min_count (declared it)) + (if is_list it then 0 else declared it)"
  by (simp add: node_bytes_def)

lemma node_wire_size_fits:
  assumes "node_fits it"
  shows "node_wire_size it = Ok (length (node_bytes it))"
proof -
  have d: "declared it + 4 \<le> usize_max" "declared it \<le> MAX_ENCODED_ITEM_LENGTH"
    using assms MAX_usize by (auto simp: node_fits_def)
  have "declared_length_of it = Ok (declared it, is_list it)"
    using assms by (simp add: declared_length_of_Ok)
  then show ?thesis
    using d by (cases "min_count (declared it)")
      (auto simp: node_wire_size_def for_declared_length_min checked_add_def
        length_node_bytes usize_max_def)
qed

lemma write_header_fits:
  assumes "d \<le> MAX_ENCODED_ITEM_LENGTH"
  shows "write_header dst code d =
           Ok (dst @ format_byte (min_count d) code # be_bytes (as_count (min_count d)) d)"
proof -
  have two: "be_bytes 2 (take_bit 16 d) = be_bytes 2 d"
    using be_bytes_mod [of 2 d] by (simp add: take_bit_eq_mod)
  show ?thesis
  proof (cases "min_count d")
    case LB_Two
    then show ?thesis
      using assms two
      by (simp add: write_header_def for_declared_length_min Let_def to_be_bytes_def unsigned_of_nat)
  qed (use assms in \<open>simp_all add: write_header_def for_declared_length_min Let_def be_bytes_3\<close>)
qed

lemma write_node_fits: "node_fits it \<Longrightarrow> write_node output it = Ok (output @ node_bytes it)"
  using declared_length_of_Ok [of it "declared it" "is_list it"]
  by (auto simp: write_node_def write_header_fits node_fits_def node_bytes_def
      write_payload_append [of "output @ _" it])

subsection \<open>The two passes against the recursive encoder\<close>

text \<open>What each loop does to the sequence of nodes its walker delivers.\<close>

fun measure_nodes :: "secs_item list \<Rightarrow> usize \<Rightarrow> (usize, encode_error) result" where
  "measure_nodes [] a = Ok a"
| "measure_nodes (n # ns) a =
     bind_res (node_wire_size n) (\<lambda>k.
     bind_res (ok_or (checked_add a k) ArithmeticOverflow) (\<lambda>a'. measure_nodes ns a'))"

fun write_nodes :: "secs_item list \<Rightarrow> bytes \<Rightarrow> (bytes, encode_error) result" where
  "write_nodes [] out = Ok out"
| "write_nodes (n # ns) out = bind_res (write_node out n) (\<lambda>out'. write_nodes ns out')"

lemma measure_loop_nodes: "walker_wf w \<Longrightarrow> measure_loop w a = measure_nodes (pending_nodes w) a"
proof (induction w a rule: measure_loop.induct)
  case (1 w a)
  show ?case
  proof (cases "walker_next w")
    case None
    with 1 walker_next_None show ?thesis by (subst measure_loop.simps) auto
  next
    case (Some p)
    then obtain n w' where p: "walker_next w = Some (n, w')" by (cases p) auto
    note wp = walker_next_pending [OF p]
    show ?thesis
      using "1.IH" [OF p refl] wp p
      by (subst measure_loop.simps) (auto cong: bind_res_cong)
  qed
qed

lemma write_loop_nodes: "walker_wf w \<Longrightarrow> write_loop w out = write_nodes (pending_nodes w) out"
proof (induction w out rule: write_loop.induct)
  case (1 w out)
  show ?case
  proof (cases "walker_next w")
    case None
    with 1 walker_next_None show ?thesis by (subst write_loop.simps) auto
  next
    case (Some p)
    then obtain n w' where p: "walker_next w = Some (n, w')" by (cases p) auto
    note wp = walker_next_pending [OF p]
    show ?thesis
      using "1.IH" [OF p refl] wp p
      by (subst write_loop.simps) (auto cong: bind_res_cong)
  qed
qed

lemma measure_item_nodes: "measure_item it = measure_nodes (preorder it) 0"
  by (simp add: measure_item_def measure_loop_nodes)

lemma write_item_tree_nodes: "write_item_tree it out = write_nodes (preorder it) out"
  by (simp add: write_item_tree_def write_loop_nodes)

lemma node_wire_size_Ok:
  "node_wire_size n = Ok k \<longleftrightarrow> node_fits n \<and> k = length (node_bytes n)"
proof
  assume "node_wire_size n = Ok k"
  then obtain d b where "declared_length_of n = Ok (d, b)"
    by (auto simp: node_wire_size_def res_simps)
  then have "node_fits n" by (simp add: declared_length_of_Ok)
  with \<open>node_wire_size n = Ok k\<close> node_wire_size_fits [of n]
  show "node_fits n \<and> k = length (node_bytes n)" by simp
qed (simp add: node_wire_size_fits)

lemma node_wire_size_Err:
  assumes "node_wire_size n = Err e"
  shows "\<not> node_fits n \<and> declared_length_of n = Err e"
proof -
  have nf: "\<not> node_fits n" using assms node_wire_size_fits [of n] by auto
  then obtain e' where "declared_length_of n = Err e'"
    using declared_length_of_Ok [of n] by (cases "declared_length_of n") auto
  with assms nf show ?thesis by (simp add: node_wire_size_def)
qed

lemma measure_nodes_Ok:
  "measure_nodes ns a = Ok k \<longleftrightarrow>
     (\<forall>n \<in> set ns. node_fits n) \<and> k = a + length (concat (map node_bytes ns)) \<and>
     (ns = [] \<or> k \<le> usize_max)"
proof (induction ns arbitrary: a)
  case Nil
  then show ?case by auto
next
  case (Cons n ns)
  show ?case
    by (cases "ns = []") (auto simp: res_simps node_wire_size_Ok checked_add_Some Cons.IH)
qed

lemma write_nodes_fits:
  "\<forall>n \<in> set ns. node_fits n \<Longrightarrow> write_nodes ns out = Ok (out @ concat (map node_bytes ns))"
  by (induction ns arbitrary: out) (auto simp: write_node_fits)

text \<open>An error is the one of the first node, in preorder, whose body or child count is too long.\<close>

lemma measure_nodes_Err:
  "measure_nodes ns a = Err e \<Longrightarrow>
     \<exists>pre n post. ns = pre @ n # post \<and> (\<forall>m \<in> set pre. node_fits m) \<and>
       (declared_length_of n = Err e \<or>
        e = ArithmeticOverflow \<and> usize_max < a + length (concat (map node_bytes (pre @ [n]))))"
proof (induction ns arbitrary: a)
  case Nil
  then show ?case by simp
next
  case (Cons n ns)
  show ?case
  proof (cases "node_wire_size n")
    case (Inl e')
    with Cons.prems have "declared_length_of n = Err e"
      by (auto dest: node_wire_size_Err)
    then show ?thesis by (intro exI [of _ "[]"] exI [of _ n] exI [of _ ns]) simp
  next
    case (Inr k)
    then have k: "node_fits n" "k = length (node_bytes n)" by (simp_all add: node_wire_size_Ok)
    show ?thesis
    proof (cases "a + k \<le> usize_max")
      case True
      with Cons.prems Inr have "measure_nodes ns (a + k) = Err e" by (simp add: checked_add_def)
      from Cons.IH [OF this] obtain pre m post where
        "ns = pre @ m # post" "\<forall>m \<in> set pre. node_fits m"
        "declared_length_of m = Err e \<or>
         e = ArithmeticOverflow \<and> usize_max < a + k + length (concat (map node_bytes (pre @ [m])))"
        by blast
      with k show ?thesis
        by (intro exI [of _ "n # pre"] exI [of _ m] exI [of _ post]) auto
    next
      case False
      with Cons.prems Inr have "e = ArithmeticOverflow" by (auto simp: checked_add_def)
      with False k show ?thesis by (intro exI [of _ "[]"] exI [of _ n] exI [of _ ns]) simp
    qed
  qed
qed

lemma preorder_nonempty [simp]: "preorder it \<noteq> []"
  by (cases it) auto

lemma measure_item_Ok:
  "measure_item it = Ok k \<longleftrightarrow> encodable it \<and> length (enc it) \<le> usize_max \<and> k = length (enc it)"
  by (auto simp: measure_item_nodes measure_nodes_Ok encodable_def enc_def)

lemma write_item_tree_fits:
  "encodable it \<Longrightarrow> write_item_tree it out = Ok (out @ enc it)"
  by (simp add: write_item_tree_nodes write_nodes_fits encodable_def enc_def)

lemma encode_to_vec_Ok:
  "encode_to_vec it = Ok bs \<longleftrightarrow> encodable it \<and> length (enc it) \<le> usize_max \<and> bs = enc it"
  by (auto simp: encode_to_vec_def encoded_item_plan_new_def plan_write_into_def res_simps
      measure_item_Ok write_item_tree_fits)

lemma encode_to_vec_Err: "encode_to_vec it = Err e \<longleftrightarrow> measure_item it = Err e"
  by (auto simp: encode_to_vec_def encoded_item_plan_new_def plan_write_into_def res_simps
      measure_item_Ok write_item_tree_fits)

subsection \<open>The encoder writes the shortest encoding of its item\<close>

lemma body_denotes_payload: "\<not> is_list it \<Longrightarrow> item_ok it \<Longrightarrow> body_denotes it (write_payload [] it)"
  by (cases it) (auto simp: o_def intro: map_idI [symmetric])

lemma wire_node_bytes:
  assumes "\<not> is_list it" "item_ok it" "node_fits it"
  shows "wire_item it (node_bytes it)"
proof -
  have "be_nat (be_bytes (as_count (min_count (declared it))) (declared it)) = declared it"
    using assms(3) min_count_fits by (simp add: node_fits_def)
  then show ?thesis
    using wire_scalar [of it "be_bytes (as_count (min_count (declared it))) (declared it)"
        "min_count (declared it)" "write_payload [] it"] assms body_denotes_payload
    by (simp add: node_bytes_def)
qed

lemma wire_enc: "item_ok it \<Longrightarrow> encodable it \<Longrightarrow> wire_item it (enc it)"
proof (induction it)
  case (Item_List cs)
  have "list_all2 wire_item cs (map enc cs)"
    using Item_List by (auto simp: list_all2_conv_all_nth)
  moreover have "be_nat (be_bytes (as_count (min_count (length cs))) (length cs)) = length cs"
    using Item_List.prems min_count_fits by simp
  ultimately show ?case
    using wire_list [of "be_bytes (as_count (min_count (length cs))) (length cs)"
        "min_count (length cs)" cs "map enc cs"]
    by (simp add: node_bytes_def)
qed (simp_all add: wire_node_bytes)

lemma min_count_minimal:
  "length lb = as_count n \<Longrightarrow> be_nat lb = d \<Longrightarrow> as_count (min_count d) \<le> as_count n"
  using be_nat_less [of lb] by (cases n) (auto simp: min_count_def)

lemma wire_item_encodable: "wire_item it bs \<Longrightarrow> encodable it"
proof (induction rule: wire_item.induct)
  case (wire_list lb n cs bss)
  then show ?case
    using length_bytes_bounded [of lb n] by (auto simp: list_all2_conv_all_nth in_set_conv_nth)
next
  case (wire_scalar it lb n body)
  then show ?case
    using length_bytes_bounded [of lb n] body_denotes_length [of it body]
    by (simp add: node_fits_def)
qed

lemma enc_shortest: "wire_item it bs \<Longrightarrow> length (enc it) \<le> length bs"
proof (induction rule: wire_item.induct)
  case (wire_list lb n cs bss)
  from wire_list.IH have "sum_list (map length (map enc cs)) \<le> sum_list (map length bss)"
    by (induction rule: list_all2_induct) auto
  with wire_list show ?case
    using min_count_minimal [of lb n "length cs"]
    by (simp add: length_node_bytes length_concat)
next
  case (wire_scalar it lb n body)
  then show ?case
    using min_count_minimal [of lb n "declared it"] body_denotes_length [of it body]
    by (simp add: length_node_bytes)
qed

end
