(* ===== verification/Secs2_Decode.thy ===== *)
theory Secs2_Decode
  imports Secs2_Wire
begin

section \<open>The explicit-stack SECS-II decoder\<close>

text \<open>
  \<open>src/secs2/codec/decode.rs\<close>: a cursor over the whole input, the stack of open lists (a
  \<open>Vec\<close> with its last element first), the reader of one header, the two limit checks, the
  scalar bodies and the single loop \<open>run\<close>. A failed operation drops the cursor, so its result
  carries the error alone. \<open>DecodePanic\<close> is an \<open>expect\<close>, \<open>unreachable!\<close> or
  \<open>debug_assert\<close> that fires. Secs2\_Decode\_Correct proves the loop against
  \<open>wire_item\<close>.
\<close>

datatype decode_error =
    EmptyInput
  | TruncatedHeader usize
  | ZeroLengthByteCount usize
  | TruncatedBody usize usize usize
  | TruncatedList usize usize usize
  | UnknownFormatCode usize u8
  | MisalignedNumericPayload usize u8 usize usize
  | MissingLocalizedHeader usize
  | Decode_ReservedLocalizedEncodingCode usize
  | Decode_NonAscii usize usize u8
  | TrailingBytes usize usize
  | DepthExceeded usize usize usize
  | TotalItemsExceeded usize usize usize
  | ItemBytesExceeded usize usize usize
  | ListItemsExceeded usize usize usize
  | Decode_ArithmeticOverflow usize
  | DecodePanic

record list_frame =
  lf_header_offset :: usize
  lf_expected_children :: usize
  lf_children :: "secs_item list"

record decode_cursor =
  dc_input :: bytes
  dc_cursor :: usize
  dc_limits :: decode_limits
  dc_depth :: usize
  dc_accepted_nodes :: usize
  dc_list_stack :: "list_frame list"

definition decode_cursor_new :: "bytes \<Rightarrow> decode_limits \<Rightarrow> decode_cursor" where
  "decode_cursor_new input limits =
     \<lparr>dc_input = input, dc_cursor = 0, dc_limits = limits, dc_depth = 0,
      dc_accepted_nodes = 0, dc_list_stack = []\<rparr>"

definition note_node :: "decode_cursor \<Rightarrow> usize \<Rightarrow> (decode_cursor, decode_error) result" where
  "note_node c header_offset =
     bind_res (ok_or (checked_add (dc_accepted_nodes c) 1) (Decode_ArithmeticOverflow header_offset))
     (\<lambda>nxt.
       if nxt > max_total_items (dc_limits c)
       then Err (TotalItemsExceeded header_offset nxt (max_total_items (dc_limits c)))
       else Ok (c\<lparr>dc_accepted_nodes := nxt\<rparr>))"

subsection \<open>One header\<close>

definition checked_shl :: "usize \<Rightarrow> nat \<Rightarrow> usize option" where
  "checked_shl a k = (if k < 64 then Some (a * 2 ^ k mod 2 ^ 64) else None)"

fun read_length :: "usize \<Rightarrow> usize \<Rightarrow> bytes \<Rightarrow> (usize, decode_error) result" where
  "read_length header_offset declared_length [] = Ok declared_length"
| "read_length header_offset declared_length (byte # rest) =
     bind_res (ok_or (checked_shl declared_length 8) (Decode_ArithmeticOverflow header_offset))
     (\<lambda>shifted.
     bind_res (ok_or (checked_add shifted (unat byte)) (Decode_ArithmeticOverflow header_offset))
     (\<lambda>declared_length'. read_length header_offset declared_length' rest))"

definition read_header ::
  "decode_cursor \<Rightarrow> (format_code \<times> usize \<times> decode_cursor, decode_error) result" where
  "read_header c =
     (let header_offset = dc_cursor c in
      if \<not> dc_cursor c < length (dc_input c) then Err (TruncatedHeader (dc_cursor c))
      else
        let format_byte = dc_input c ! dc_cursor c;
            start = dc_cursor c + 1;
            six_bit = drop_bit 2 format_byte;
            low_bits = format_byte AND 3
        in
        bind_res (ok_or (from_low_bits low_bits) (ZeroLengthByteCount header_offset)) (\<lambda>count.
        bind_res (ok_or (from_six_bit six_bit) (UnknownFormatCode header_offset six_bit))
        (\<lambda>format_code.
        bind_res (ok_or (checked_add start (as_count count))
                        (Decode_ArithmeticOverflow header_offset)) (\<lambda>length_bytes_end.
          if length_bytes_end > length (dc_input c) then Err (TruncatedHeader header_offset)
          else
            bind_res (read_length header_offset 0 (take (as_count count) (drop start (dc_input c))))
            (\<lambda>declared_length.
              Ok (format_code, declared_length, c\<lparr>dc_cursor := length_bytes_end\<rparr>))))))"

definition check_list_limits :: "decode_cursor \<Rightarrow> usize \<Rightarrow> usize \<Rightarrow> (unit, decode_error) result" where
  "check_list_limits c header_offset declared_children =
     (let L = dc_limits c in
      if declared_children > max_list_items L
      then Err (ListItemsExceeded header_offset declared_children (max_list_items L))
      else
        bind_res (ok_or (checked_add (dc_accepted_nodes c) declared_children)
                        (Decode_ArithmeticOverflow header_offset)) (\<lambda>required_items.
          if required_items > max_total_items L
          then Err (TotalItemsExceeded header_offset required_items (max_total_items L))
          else
            bind_res (ok_or (checked_add (dc_depth c) 1) (Decode_ArithmeticOverflow header_offset))
            (\<lambda>next_depth.
              if next_depth > max_depth L
              then Err (DepthExceeded header_offset next_depth (max_depth L))
              else Ok ())))"

subsection \<open>Scalar bodies\<close>

definition decode_localized :: "usize \<Rightarrow> bytes \<Rightarrow> (secs_item, decode_error) result" where
  "decode_localized header_offset body =
     (if length body < 2 then Err (MissingLocalizedHeader header_offset)
      else
        let encoding_value = from_be_bytes [body ! 0, body ! 1] :: u16
        in if encoding_value = 0 then Err (Decode_ReservedLocalizedEncodingCode header_offset)
           else case localized_encoding_code_new encoding_value of
                  Inl _ \<Rightarrow> Err DecodePanic
                | Inr encoding \<Rightarrow> Ok (Item_Localized (LocalizedString encoding (drop 2 body))))"

definition decode_ascii :: "usize \<Rightarrow> bytes \<Rightarrow> (secs_item, decode_error) result" where
  "decode_ascii header_offset body =
     (case find_non_ascii 0 body of
        Some (index, byte) \<Rightarrow> Err (Decode_NonAscii header_offset index byte)
      | None \<Rightarrow> (case ascii_string_new body of
                    Inl _ \<Rightarrow> Err DecodePanic
                  | Inr ascii \<Rightarrow> Ok (Item_Ascii ascii)))"

fun decode_body :: "usize \<Rightarrow> format_code \<Rightarrow> bytes \<Rightarrow> (secs_item, decode_error) result" where
  "decode_body header_offset FC_List body = Err DecodePanic"
| "decode_body header_offset FC_Binary body = Ok (Item_Binary body)"
| "decode_body header_offset FC_Boolean body = Ok (Item_Boolean (map (\<lambda>byte. byte \<noteq> 0) body))"
| "decode_body header_offset FC_Ascii body = decode_ascii header_offset body"
| "decode_body header_offset FC_Jis8 body = Ok (Item_Jis8 body)"
| "decode_body header_offset FC_Localized body = decode_localized header_offset body"
| "decode_body header_offset FC_I8 body = Ok (Item_I8 (map from_be_bytes (chunks 8 body)))"
| "decode_body header_offset FC_I1 body = Ok (Item_I1 body)"
| "decode_body header_offset FC_I2 body = Ok (Item_I2 (map from_be_bytes (chunks 2 body)))"
| "decode_body header_offset FC_I4 body = Ok (Item_I4 (map from_be_bytes (chunks 4 body)))"
| "decode_body header_offset FC_F8 body = Ok (Item_F8 (map from_be_bytes (chunks 8 body)))"
| "decode_body header_offset FC_F4 body = Ok (Item_F4 (map from_be_bytes (chunks 4 body)))"
| "decode_body header_offset FC_U8 body = Ok (Item_U8 (map from_be_bytes (chunks 8 body)))"
| "decode_body header_offset FC_U1 body = Ok (Item_U1 body)"
| "decode_body header_offset FC_U2 body = Ok (Item_U2 (map from_be_bytes (chunks 2 body)))"
| "decode_body header_offset FC_U4 body = Ok (Item_U4 (map from_be_bytes (chunks 4 body)))"

definition check_alignment :: "usize \<Rightarrow> format_code \<Rightarrow> usize \<Rightarrow> (unit, decode_error) result" where
  "check_alignment header_offset format_code body_len =
     (case element_width format_code of
        Some elem_width \<Rightarrow>
          if body_len mod elem_width \<noteq> 0
          then Err (MisalignedNumericPayload header_offset (six_bit_value format_code)
                      body_len elem_width)
          else Ok ()
      | None \<Rightarrow> Ok ())"

definition decode_scalar ::
  "decode_cursor \<Rightarrow> usize \<Rightarrow> format_code \<Rightarrow> usize \<Rightarrow> (secs_item \<times> decode_cursor, decode_error) result"
where
  "decode_scalar c header_offset format_code body_len =
     (if body_len > max_item_bytes (dc_limits c)
      then Err (ItemBytesExceeded header_offset body_len (max_item_bytes (dc_limits c)))
      else
        bind_res (ok_or (checked_add (dc_cursor c) body_len)
                        (Decode_ArithmeticOverflow header_offset)) (\<lambda>body_end.
          if body_end > length (dc_input c)
          then Err (TruncatedBody header_offset body_len (length (dc_input c) - dc_cursor c))
          else
            let body = take body_len (drop (dc_cursor c) (dc_input c))
            in bind_res (check_alignment header_offset format_code body_len) (\<lambda>_.
               bind_res (decode_body header_offset format_code body) (\<lambda>it.
                 Ok (it, c\<lparr>dc_cursor := body_end\<rparr>)))))"

subsection \<open>The loop\<close>

text \<open>
  Phase 1 of an iteration offers the pending item to the innermost open list, closing every list
  it fills; phase 2 reads one header and, for a scalar, its body.
\<close>

datatype delivery =
    Root secs_item decode_cursor
  | Wants_sibling decode_cursor
  | Delivery_panic

function deliver :: "secs_item \<Rightarrow> decode_cursor \<Rightarrow> delivery" where
  "deliver it c =
     (case dc_list_stack c of
        [] \<Rightarrow> if dc_depth c = 0 then Root it c else Delivery_panic
      | frame # outer \<Rightarrow>
          let frame' = frame\<lparr>lf_children := lf_children frame @ [it]\<rparr>
          in if length (lf_children frame') < lf_expected_children frame'
             then Wants_sibling (c\<lparr>dc_list_stack := frame' # outer\<rparr>)
             else case checked_sub (dc_depth c) 1 of
                    None \<Rightarrow> Delivery_panic
                  | Some d \<Rightarrow>
                      deliver (Item_List (lf_children frame'))
                              (c\<lparr>dc_list_stack := outer, dc_depth := d\<rparr>))"
  by pat_completeness auto
termination
  by (relation "measure (\<lambda>(_, c). length (dc_list_stack c))") auto

definition reclassify_truncation :: "decode_cursor \<Rightarrow> decode_error \<Rightarrow> decode_error" where
  "reclassify_truncation c e =
     (case e of
        TruncatedHeader off \<Rightarrow>
          if off = length (dc_input c)
          then case dc_list_stack c of
                 frame # _ \<Rightarrow>
                   TruncatedList (lf_header_offset frame) (lf_expected_children frame)
                     (length (lf_children frame))
               | [] \<Rightarrow> TruncatedHeader off
          else e
      | _ \<Rightarrow> e)"

definition read_next ::
  "decode_cursor \<Rightarrow> (secs_item option \<times> decode_cursor, decode_error) result" where
  "read_next c =
     (let header_offset = dc_cursor c in
      case read_header c of
        Inl e \<Rightarrow> Err (reclassify_truncation c e)
      | Inr (format_code, declared_length, c) \<Rightarrow>
          bind_res (note_node c header_offset) (\<lambda>c.
          if format_code = FC_List
          then
            bind_res (check_list_limits c header_offset declared_length) (\<lambda>_.
              if declared_length = 0 then Ok (Some (Item_List []), c)
              else
                bind_res (ok_or (checked_add (dc_depth c) 1)
                                (Decode_ArithmeticOverflow header_offset)) (\<lambda>d.
                  Ok (None, c\<lparr>dc_depth := d,
                              dc_list_stack :=
                                \<lparr>lf_header_offset = header_offset,
                                 lf_expected_children = declared_length,
                                 lf_children = []\<rparr> # dc_list_stack c\<rparr>)))
          else
            bind_res (decode_scalar c header_offset format_code declared_length) (\<lambda>(it, c).
              Ok (Some it, c))))"

definition deliver_pending :: "secs_item option \<Rightarrow> decode_cursor \<Rightarrow> delivery" where
  "deliver_pending pending c =
     (case pending of None \<Rightarrow> Wants_sibling c | Some it \<Rightarrow> deliver it c)"

declare deliver.simps [simp del]

lemma deliver_keeps:
  "deliver it c = Wants_sibling c' \<Longrightarrow> dc_input c' = dc_input c \<and> dc_cursor c' = dc_cursor c"
  by (induction it c rule: deliver.induct)
    (subst (asm) (2) deliver.simps, auto simp: Let_def split: list.splits if_splits option.splits)

lemma deliver_pending_keeps:
  "deliver_pending p c = Wants_sibling c' \<Longrightarrow>
     dc_input c' = dc_input c \<and> dc_cursor c' = dc_cursor c"
  by (auto simp: deliver_pending_def deliver_keeps split: option.splits)

lemma read_header_advances:
  "read_header c = Ok (f, n, c') \<Longrightarrow>
     dc_input c' = dc_input c \<and> dc_cursor c < dc_cursor c' \<and> dc_cursor c < length (dc_input c)"
  by (auto simp: read_header_def Let_def res_simps checked_add_Some split: if_splits)

lemma read_next_advances:
  "read_next c = Ok (p, c') \<Longrightarrow>
     dc_input c' = dc_input c \<and> dc_cursor c < dc_cursor c' \<and> dc_cursor c < length (dc_input c)"
  by (auto simp: read_next_def Let_def res_simps note_node_def check_list_limits_def
      decode_scalar_def checked_add_Some
      dest!: read_header_advances split: sum.splits if_splits prod.splits)

function run ::
  "secs_item option \<Rightarrow> decode_cursor \<Rightarrow> (secs_item \<times> decode_cursor, decode_error) result" where
  "run pending c =
     (case deliver_pending pending c of
        Root it c \<Rightarrow> Ok (it, c)
      | Delivery_panic \<Rightarrow> Err DecodePanic
      | Wants_sibling c \<Rightarrow> bind_res (read_next c) (\<lambda>(pending', c'). run pending' c'))"
  by pat_completeness auto
termination
  by (relation "measure (\<lambda>(_, c). length (dc_input c) - dc_cursor c)")
    (auto dest!: read_next_advances deliver_pending_keeps)

declare run.simps [simp del]

definition decode_item :: "decode_limits \<Rightarrow> bytes \<Rightarrow> (secs_item, decode_error) result" where
  "decode_item limits input =
     (if input = [] then Err EmptyInput
      else
        bind_res (run None (decode_cursor_new input limits)) (\<lambda>(it, c).
          let consumed = dc_cursor c
          in if consumed \<noteq> length input then Err (TrailingBytes consumed (length input))
             else Ok it))"

end
