(* ===== verification/Secs2_Decode_Correct.thy ===== *)
theory Secs2_Decode_Correct
  imports Secs2_Decode
begin

section \<open>The decoder accepts exactly the encodings within its limits\<close>

text \<open>
  Completeness: on one encoding of an item within the limits, the loop arrives where it delivers
  that item (\<open>run_wire\<close>). Soundness: an invariant of the loop says that the bytes read so far
  are the headers of the open lists, their finished children and the pending item
  (\<open>loop_inv\<close>); a root is delivered only when nothing is open. Together they give
  \<open>decode_item_iff\<close>.
\<close>

subsection \<open>Headers\<close>

lemma be_nat_Cons: "be_nat (b # bs) = unat b * 256 ^ length bs + be_nat bs"
proof (induction bs rule: rev_induct)
  case Nil
  then show ?case by simp
next
  case (snoc x xs)
  have "be_nat ((b # xs) @ [x]) = be_nat (b # xs) * 256 + unat x"
    by (simp only: be_nat_snoc)
  with snoc show ?case by simp
qed

lemma read_length_be:
  "d < 256 ^ k \<Longrightarrow> k + length bs \<le> 8 \<Longrightarrow> read_length h d bs = Ok (d * 256 ^ length bs + be_nat bs)"
proof (induction bs arbitrary: d k)
  case Nil
  then show ?case by simp
next
  case (Cons b bs)
  have "(256::nat) ^ Suc k \<le> 256 ^ 8"
    using Cons.prems by (intro power_increasing) auto
  then have K: "256 * 256 ^ k \<le> (2 ^ 64 :: nat)" by simp
  have lt: "d * 256 + unat b < 256 ^ Suc k"
    using Cons.prems(1) unat_u8_less [of b] by simp
  with K have "d * 256 mod 2 ^ 64 = d * 256" "d * 256 + unat b \<le> usize_max"
    by (simp_all add: usize_max_def)
  with Cons.IH [OF lt] Cons.prems show ?case
    by (simp add: checked_shl_def checked_add_def be_nat_Cons algebra_simps)
qed

lemma read_length_header [simp]: "length lb = as_count n \<Longrightarrow> read_length h 0 lb = Ok (be_nat lb)"
  using read_length_be [of 0 0 lb h] as_count_pos [of n] by simp

lemma drop_eq_Cons: "drop k xs = y # ys \<Longrightarrow> k < length xs \<and> xs ! k = y \<and> drop (Suc k) xs = ys"
  by (metis Cons_nth_drop_Suc drop_all linorder_not_le list.discI list.inject)

lemma read_header_wire:
  assumes "drop (dc_cursor c) (dc_input c) = format_byte n f # lb @ rest"
    and "length lb = as_count n" and "dc_cursor c + 4 \<le> usize_max"
  shows "read_header c = Ok (f, be_nat lb, c\<lparr>dc_cursor := dc_cursor c + 1 + as_count n\<rparr>)"
proof -
  note dr = drop_eq_Cons [OF assms(1)]
  then have "length (dc_input c) - Suc (dc_cursor c) = length (lb @ rest)"
    by (metis length_drop)
  then have len: "Suc (dc_cursor c) + as_count n \<le> length (dc_input c)"
    using dr assms(2) by auto
  have fit: "Suc (dc_cursor c) + as_count n \<le> usize_max"
    using assms(3) as_count_pos [of n] by linarith
  show ?thesis
    using dr len fit assms(2)
    by (simp add: read_header_def Let_def checked_add_def del: as_count_pos)
qed

lemma read_header_wireE:
  assumes "read_header c = Ok (f, n, c')"
  obtains count lb rest where
    "drop (dc_cursor c) (dc_input c) = format_byte count f # lb @ rest"
    "length lb = as_count count" "n = be_nat lb"
    "c' = c\<lparr>dc_cursor := dc_cursor c + 1 + as_count count\<rparr>"
    "dc_cursor c + 1 + as_count count \<le> length (dc_input c)"
proof -
  let ?b = "dc_input c ! dc_cursor c" and ?s = "Suc (dc_cursor c)"
  from assms obtain count where
    *: "dc_cursor c < length (dc_input c)" "from_low_bits (?b AND 3) = Some count"
      "from_six_bit (drop_bit 2 ?b) = Some f" "?s + as_count count \<le> length (dc_input c)"
      "read_length (dc_cursor c) 0 (take (as_count count) (drop ?s (dc_input c))) = Ok n"
      "c' = c\<lparr>dc_cursor := ?s + as_count count\<rparr>"
    by (auto simp: read_header_def Let_def res_simps checked_add_Some split: if_splits)
  let ?lb = "take (as_count count) (drop ?s (dc_input c))"
  have "length ?lb = as_count count" using *(4) by simp
  moreover have "drop (dc_cursor c) (dc_input c)
      = format_byte count f # ?lb @ drop (as_count count) (drop ?s (dc_input c))"
    using format_byte_unique [OF *(2,3)] *(1) by (metis append_take_drop_id Cons_nth_drop_Suc)
  moreover have "n = be_nat ?lb" using *(5) calculation(1) by simp
  ultimately show ?thesis using that *(4,6) by simp
qed

subsection \<open>Bodies\<close>

lemma map_word_inv:
  "(\<And>x. x \<in> set xs \<Longrightarrow> f (g x) = x) \<Longrightarrow> map f (map g xs) = xs"
  by (induction xs) auto

lemma words_of_body:
  assumes "8 * n = LENGTH('w::len)" "0 < n"
  shows "n dvd length body \<and> vs = map from_be_bytes (chunks n body) \<longleftrightarrow>
           body = concat (map (to_be_bytes n) (vs :: 'w word list))"
proof
  assume A: "n dvd length body \<and> vs = map from_be_bytes (chunks n body)"
  have "map (to_be_bytes n) vs = chunks n body"
    unfolding A [THEN conjunct2]
    by (rule map_word_inv) (use assms length_chunk in \<open>auto intro: to_from_be_bytes\<close>)
  with A assms show "body = concat (map (to_be_bytes n) vs)"
    by (simp add: concat_chunks)
next
  assume B: "body = concat (map (to_be_bytes n) vs)"
  have "map from_be_bytes (map (to_be_bytes n) vs) = vs"
    by (rule map_word_inv) (use assms in \<open>simp add: from_to_be_bytes\<close>)
  with B assms show "n dvd length body \<and> vs = map from_be_bytes (chunks n body)"
    by (simp add: chunks_concat)
qed

lemma words_of_bodyD:
  "8 * n = LENGTH('w::len) \<Longrightarrow> 0 < n \<Longrightarrow> n dvd length body \<Longrightarrow>
     concat (map (to_be_bytes n \<circ> (from_be_bytes :: bytes \<Rightarrow> 'w word)) (chunks n body)) = body"
  using words_of_body [of n body "map from_be_bytes (chunks n body) :: 'w word list"] by auto

lemma body_of_words:
  "8 * n = LENGTH('w::len) \<Longrightarrow> 0 < n \<Longrightarrow>
     map from_be_bytes (chunks n (concat (map (to_be_bytes n) vs))) = (vs :: 'w word list)"
  using words_of_body [of n "concat (map (to_be_bytes n) vs)" vs] by auto

lemma body_of_localized:
  "2 \<le> length body \<Longrightarrow>
     to_be_bytes 2 (from_be_bytes [body ! 0, body ! Suc 0] :: u16) @ drop 2 body = body"
  by (cases body; cases "tl body") (auto simp: to_from_be_bytes)

lemma be_bytes_pair: "to_be_bytes 2 w = [to_be_bytes 2 w ! 0, to_be_bytes 2 w ! 1]"
  by (rule nth_equalityI) (auto simp: less_2_cases_iff)

lemma from_pair [simp]: "from_be_bytes [to_be_bytes 2 w ! 0, to_be_bytes 2 w ! Suc 0] = (w :: u16)"
  using from_to_be_bytes [of 2 w] be_bytes_pair [of w] by simp

lemma decode_body_Ok:
  assumes "f \<noteq> FC_List" "check_alignment h f (length body) = Ok ()" "decode_body h f body = Ok it"
  shows "\<not> is_list it \<and> format_code_of it = f \<and> body_denotes it body"
  using assms
  by (cases f)
    (auto simp: check_alignment_def decode_ascii_def decode_localized_def ascii_string_new_def
      localized_encoding_code_new_def find_non_ascii_None body_of_localized words_of_bodyD
      mod_eq_0_iff_dvd Let_def
      split: if_splits option.splits)

lemma decode_body_wire:
  assumes "\<not> is_list it" "body_denotes it body"
  shows "check_alignment h (format_code_of it) (length body) = Ok () \<and>
         decode_body h (format_code_of it) body = Ok it"
  using assms
  by (cases it)
    (auto simp: check_alignment_def decode_ascii_def decode_localized_def ascii_string_new_def
      localized_encoding_code_new_def body_of_words Let_def nth_append
      find_non_ascii_None [THEN iffD2]
      split: option.splits)

lemma decode_body_no_panic:
  "f \<noteq> FC_List \<Longrightarrow> decode_body h f body \<noteq> Err DecodePanic"
  by (cases f)
    (auto simp: decode_ascii_def decode_localized_def ascii_string_new_def
      localized_encoding_code_new_def Let_def split: option.splits)

subsection \<open>Completeness\<close>

text \<open>A Rust slice has at most \<open>isize::MAX\<close> bytes.\<close>

definition slice_ok :: "bytes \<Rightarrow> bool" where
  "slice_ok bs \<longleftrightarrow> length bs \<le> 2 ^ 63 - 1"

fun item_within :: "decode_limits \<Rightarrow> nat \<Rightarrow> secs_item \<Rightarrow> bool" where
  "item_within L d (Item_List cs) \<longleftrightarrow>
     d < max_depth L \<and> length cs \<le> max_list_items L \<and> (\<forall>c \<in> set cs. item_within L (Suc d) c)"
| "item_within L d it \<longleftrightarrow> declared it \<le> max_item_bytes L"

lemma item_within_scalar [simp]:
  "\<not> is_list it \<Longrightarrow> item_within L d it \<longleftrightarrow> declared it \<le> max_item_bytes L"
  by (cases it) auto

lemma wire_item_nodes: "wire_item it bs \<Longrightarrow> node_count it \<le> length bs"
proof (induction rule: wire_item.induct)
  case (wire_list lb n cs bss)
  from wire_list.IH have "sum_list (map node_count cs) \<le> sum_list (map length bss)"
    by (induction rule: list_all2_induct) auto
  then show ?case by (simp add: length_concat)
qed auto

text \<open>What every state of the loop satisfies; it keeps the checked additions from failing.\<close>

definition counters_ok :: "decode_cursor \<Rightarrow> bool" where
  "counters_ok c \<longleftrightarrow>
     dc_depth c \<le> dc_accepted_nodes c \<and> dc_accepted_nodes c \<le> dc_cursor c \<and>
     dc_cursor c \<le> length (dc_input c) \<and> slice_ok (dc_input c)"

definition advanced :: "decode_cursor \<Rightarrow> nat \<Rightarrow> nat \<Rightarrow> decode_cursor" where
  "advanced c k m =
     c\<lparr>dc_cursor := dc_cursor c + k, dc_accepted_nodes := dc_accepted_nodes c + m\<rparr>"

definition reaches_item :: "secs_item \<Rightarrow> bytes \<Rightarrow> bool" where
  "reaches_item it bs \<longleftrightarrow>
     (\<forall>c rest. drop (dc_cursor c) (dc_input c) = bs @ rest \<longrightarrow> counters_ok c \<longrightarrow>
        item_within (dc_limits c) (dc_depth c) it \<longrightarrow>
        dc_accepted_nodes c + node_count it \<le> max_total_items (dc_limits c) \<longrightarrow>
        run None c = run (Some it) (advanced c (length bs) (node_count it)))"

lemma reaches_itemD:
  "reaches_item it bs \<Longrightarrow> drop (dc_cursor c) (dc_input c) = bs @ rest \<Longrightarrow> counters_ok c \<Longrightarrow>
     item_within (dc_limits c) (dc_depth c) it \<Longrightarrow>
     dc_accepted_nodes c + node_count it \<le> max_total_items (dc_limits c) \<Longrightarrow>
     run None c = run (Some it) (advanced c (length bs) (node_count it))"
  by (auto simp: reaches_item_def)

lemma run_Some_top:
  assumes "dc_list_stack c = f # fs"
    and "length (lf_children f) + 1 < lf_expected_children f"
  shows "run (Some it) c =
           run None (c\<lparr>dc_list_stack := f\<lparr>lf_children := lf_children f @ [it]\<rparr> # fs\<rparr>)"
  using assms
  by (subst (1 2) run.simps) (simp add: deliver_pending_def deliver.simps [of it c] Let_def)

lemma run_Some_full:
  assumes "dc_list_stack c = f # fs" "dc_depth c = Suc d"
    and "length (lf_children f) + 1 = lf_expected_children f"
  shows "run (Some it) c =
           run (Some (Item_List (lf_children f @ [it]))) (c\<lparr>dc_list_stack := fs, dc_depth := d\<rparr>)"
  using assms
  by (subst (1 2) run.simps)
    (simp add: deliver_pending_def deliver.simps [of it c] Let_def checked_sub_def)

lemma run_None: "run None c = bind_res (read_next c) (\<lambda>(p, c'). run p c')"
  by (subst run.simps) (simp add: deliver_pending_def)

lemma drop_advance: "drop k xs = ys @ zs \<Longrightarrow> drop (k + length ys) xs = zs"
  by (metis add.commute append_eq_conv_conj drop_drop)

lemma drop_append_le: "drop k xs = ys @ zs \<Longrightarrow> k \<le> length xs \<Longrightarrow> k + length ys \<le> length xs"
  by (metis add.commute le_diff_conv2 length_append length_drop le_add1)

lemma advanced_simps [simp]:
  "dc_input (advanced c k m) = dc_input c"
  "dc_cursor (advanced c k m) = dc_cursor c + k"
  "dc_limits (advanced c k m) = dc_limits c"
  "dc_depth (advanced c k m) = dc_depth c"
  "dc_accepted_nodes (advanced c k m) = dc_accepted_nodes c + m"
  "dc_list_stack (advanced c k m) = dc_list_stack c"
  by (simp_all add: advanced_def)

lemma run_children:
  assumes "list_all2 (\<lambda>it bs. wire_item it bs \<and> reaches_item it bs) cs bss"
  shows "cs \<noteq> [] \<Longrightarrow> dc_list_stack c = f # fs \<Longrightarrow>
           lf_expected_children f = length (lf_children f) + length cs \<Longrightarrow>
           drop (dc_cursor c) (dc_input c) = concat bss @ rest \<Longrightarrow> counters_ok c \<Longrightarrow>
           dc_depth c = Suc d \<Longrightarrow> (\<forall>it \<in> set cs. item_within (dc_limits c) (Suc d) it) \<Longrightarrow>
           dc_accepted_nodes c + sum_list (map node_count cs) \<le> max_total_items (dc_limits c) \<Longrightarrow>
           run None c = run (Some (Item_List (lf_children f @ cs)))
             ((advanced c (length (concat bss)) (sum_list (map node_count cs)))
                \<lparr>dc_list_stack := fs, dc_depth := d\<rparr>)"
  using assms
proof (induction cs bss arbitrary: c f rule: list_all2_induct)
  case Nil
  then show ?case by simp
next
  case (Cons it its bs bss)
  let ?c = "advanced c (length bs) (node_count it)"
  have first: "run None c = run (Some it) ?c"
    using Cons by (intro reaches_itemD [of it bs c "concat bss @ rest"]) auto
  have cur: "dc_cursor c + length bs \<le> length (dc_input c)"
    using Cons.prems(4,5) drop_append_le [of "dc_cursor c" "dc_input c" bs "concat bss @ rest"]
    by (simp add: counters_ok_def)
  show ?case
  proof (cases its)
    case Nil
    with Cons have "bss = []" by auto
    with Nil Cons.prems first run_Some_full [of ?c f fs d it] show ?thesis by simp
  next
    case (Cons it' its')
    let ?f = "f\<lparr>lf_children := lf_children f @ [it]\<rparr>"
    let ?d = "?c\<lparr>dc_list_stack := ?f # fs\<rparr>"
    have "run None ?d = run (Some (Item_List (lf_children ?f @ its)))
             ((advanced ?d (length (concat bss)) (sum_list (map node_count its)))
                \<lparr>dc_list_stack := fs, dc_depth := d\<rparr>)"
    proof (rule Cons.IH)
      show "counters_ok ?d"
        using Cons.prems(5) Cons.hyps cur wire_item_nodes [of it bs] by (simp add: counters_ok_def)
      show "drop (dc_cursor ?d) (dc_input ?d) = concat bss @ rest"
        using Cons.prems(4) drop_advance [of "dc_cursor c" "dc_input c" bs] by simp
    qed (use Cons Cons.prems in auto)
    moreover have "run (Some it) ?c = run None ?d"
      using Cons Cons.prems run_Some_top [of ?c f fs it] by simp
    ultimately show ?thesis
      using first by (simp add: advanced_def add.assoc)
  qed
qed

lemma read_next_scalar:
  assumes "\<not> is_list it" "length lb = as_count n" "be_nat lb = length body" "body_denotes it body"
    and "drop (dc_cursor c) (dc_input c) = (format_byte n (format_code_of it) # lb @ body) @ rest"
    and "counters_ok c" "declared it \<le> max_item_bytes (dc_limits c)"
    and "dc_accepted_nodes c < max_total_items (dc_limits c)"
  shows "read_next c = Ok (Some it, advanced c (1 + as_count n + length body) 1)"
proof -
  let ?k = "dc_cursor c + 1 + as_count n"
  have hd: "read_header c = Ok (format_code_of it, length body, c\<lparr>dc_cursor := ?k\<rparr>)"
    using assms read_header_wire [of c n "format_code_of it" lb "body @ rest"]
    by (simp add: counters_ok_def slice_ok_def usize_max_def)
  have body: "drop ?k (dc_input c) = body @ rest"
    using drop_advance [of "dc_cursor c" "dc_input c" "format_byte n (format_code_of it) # lb" "body @ rest"]
      assms(2,5) by simp
  have len: "?k + length body \<le> length (dc_input c)"
    using drop_append_le [OF assms(5)] assms(2,6) by (simp add: counters_ok_def)
  have "format_code_of it \<noteq> FC_List" using assms(1) by (cases it) auto
  with hd body len assms decode_body_wire [OF assms(1,4), of "dc_cursor c"]
  show ?thesis
    by (simp add: read_next_def Let_def note_node_def checked_add_def decode_scalar_def
        counters_ok_def slice_ok_def usize_max_def body_denotes_length advanced_def)
qed

lemma read_next_list:
  assumes "length lb = as_count n" "be_nat lb = k"
    and "drop (dc_cursor c) (dc_input c) = format_byte n FC_List # lb @ rest"
    and "counters_ok c" "dc_depth c < max_depth (dc_limits c)" "k \<le> max_list_items (dc_limits c)"
    and "dc_accepted_nodes c + 1 + k \<le> max_total_items (dc_limits c)"
  shows "read_next c =
           (if k = 0 then Ok (Some (Item_List []), advanced c (1 + as_count n) 1)
            else Ok (None, (advanced c (1 + as_count n) 1)
                   \<lparr>dc_depth := Suc (dc_depth c),
                    dc_list_stack := \<lparr>lf_header_offset = dc_cursor c, lf_expected_children = k,
                                      lf_children = []\<rparr> # dc_list_stack c\<rparr>))"
proof -
  have hd: "read_header c = Ok (FC_List, k, c\<lparr>dc_cursor := dc_cursor c + 1 + as_count n\<rparr>)"
    using assms read_header_wire [of c n FC_List lb rest]
    by (simp add: counters_ok_def slice_ok_def usize_max_def)
  have "k \<le> MAX_ENCODED_ITEM_LENGTH" using assms(1,2) length_bytes_bounded by blast
  with hd assms show ?thesis
    by (simp add: read_next_def Let_def note_node_def checked_add_def check_list_limits_def
        counters_ok_def slice_ok_def usize_max_def MAX_ENCODED_ITEM_LENGTH_def advanced_def)
qed

lemma wire_reaches: "wire_item it bs \<Longrightarrow> reaches_item it bs"
proof (induction rule: wire_item.induct)
  case (wire_scalar it lb n body)
  show ?case
    unfolding reaches_item_def
  proof (intro allI impI)
    fix c rest
    assume "drop (dc_cursor c) (dc_input c) = (format_byte n (format_code_of it) # lb @ body) @ rest"
      "counters_ok c" "item_within (dc_limits c) (dc_depth c) it"
      "dc_accepted_nodes c + node_count it \<le> max_total_items (dc_limits c)"
    with wire_scalar read_next_scalar [of it lb n body c rest]
    show "run None c = run (Some it)
            (advanced c (length (format_byte n (format_code_of it) # lb @ body)) (node_count it))"
      by (simp add: run_None)
  qed
next
  case (wire_list lb n cs bss)
  show ?case
    unfolding reaches_item_def
  proof (intro allI impI)
    fix c rest
    assume A: "drop (dc_cursor c) (dc_input c) = (format_byte n FC_List # lb @ concat bss) @ rest"
      "counters_ok c" "item_within (dc_limits c) (dc_depth c) (Item_List cs)"
      "dc_accepted_nodes c + node_count (Item_List cs) \<le> max_total_items (dc_limits c)"
    have len: "length cs \<le> sum_list (map node_count cs)"
      using sum_list_mono [of cs "\<lambda>_. 1" node_count] by (simp add: sum_list_triv Suc_le_eq)
    note rd = read_next_list [of lb n "length cs" c "concat bss @ rest"]
    show "run None c = run (Some (Item_List cs))
       (advanced c (length (format_byte n FC_List # lb @ concat bss)) (node_count (Item_List cs)))"
    proof (cases "cs = []")
      case True
      with wire_list have "bss = []" by auto
      with True rd A wire_list show ?thesis by (simp add: run_None)
    next
      case False
      let ?f = "\<lparr>lf_header_offset = dc_cursor c, lf_expected_children = length cs, lf_children = []\<rparr>"
      let ?c = "(advanced c (1 + as_count n) 1)
                  \<lparr>dc_depth := Suc (dc_depth c), dc_list_stack := ?f # dc_list_stack c\<rparr>"
      have "run None c = run None ?c"
        using rd A wire_list False len by (simp add: run_None)
      also have "\<dots> = run (Some (Item_List (lf_children ?f @ cs)))
             ((advanced ?c (length (concat bss)) (sum_list (map node_count cs)))
                \<lparr>dc_list_stack := dc_list_stack c, dc_depth := dc_depth c\<rparr>)"
      proof (rule run_children)
        show "drop (dc_cursor ?c) (dc_input ?c) = concat bss @ rest"
          using drop_advance [of "dc_cursor c" "dc_input c" "format_byte n FC_List # lb"] A wire_list
          by simp
        show "counters_ok ?c"
          using A drop_append_le [OF A(1)] wire_list by (simp add: counters_ok_def)
        show "list_all2 (\<lambda>it bs. wire_item it bs \<and> reaches_item it bs) cs bss"
          using wire_list by (auto simp: list_all2_conv_all_nth)
      qed (use A False in auto)
      finally show ?thesis
        using wire_list by (simp add: advanced_def add.assoc)
    qed
  qed
qed

lemma run_root:
  "dc_list_stack c = [] \<Longrightarrow> dc_depth c = 0 \<Longrightarrow> run (Some it) c = Ok (it, c)"
  by (subst run.simps) (simp add: deliver_pending_def deliver.simps)

text \<open>One encoding at the front of any input is read as its item, whatever follows.\<close>

lemma run_prefix:
  assumes "wire_item it bs" "slice_ok (bs @ rest)" "item_within L 0 it"
    and "node_count it \<le> max_total_items L"
  shows "run None (decode_cursor_new (bs @ rest) L) =
           Ok (it, advanced (decode_cursor_new (bs @ rest) L) (length bs) (node_count it))"
proof -
  let ?c = "decode_cursor_new (bs @ rest) L"
  have "run None ?c = run (Some it) (advanced ?c (length bs) (node_count it))"
    using wire_reaches [OF assms(1)] assms
    by (intro reaches_itemD [of _ _ _ rest]) (auto simp: decode_cursor_new_def counters_ok_def)
  then show ?thesis by (simp add: run_root decode_cursor_new_def)
qed

lemma decode_item_wire:
  assumes "wire_item it bs" "slice_ok bs" "item_within L 0 it" "node_count it \<le> max_total_items L"
  shows "decode_item L bs = Ok it"
proof -
  have "bs \<noteq> []" using wire_item_nonempty [OF assms(1)] by auto
  with run_prefix [OF assms(1), of "[]" L] assms show ?thesis
    by (simp add: decode_item_def decode_cursor_new_def)
qed

subsection \<open>Soundness\<close>

text \<open>
  The bytes that opened the lists on the stack, with their finished children, and the number of
  nodes they hold. A frame's offset is where its header starts.
\<close>

inductive open_lists :: "decode_limits \<Rightarrow> list_frame list \<Rightarrow> bytes \<Rightarrow> nat \<Rightarrow> bool" for L where
  open_none: "open_lists L [] [] 0"
| open_list:
    "open_lists L fs pre m \<Longrightarrow> length lb = as_count n \<Longrightarrow> be_nat lb = lf_expected_children f \<Longrightarrow>
     lf_header_offset f = length pre \<Longrightarrow> list_all2 wire_item (lf_children f) bss \<Longrightarrow>
     length (lf_children f) < lf_expected_children f \<Longrightarrow>
     lf_expected_children f \<le> max_list_items L \<Longrightarrow> length fs < max_depth L \<Longrightarrow>
     (\<forall>it \<in> set (lf_children f). item_within L (Suc (length fs)) it) \<Longrightarrow>
     open_lists L (f # fs) (pre @ format_byte n FC_List # lb @ concat bss)
       (m + 1 + sum_list (map node_count (lf_children f)))"

inductive_cases open_listE: "open_lists L (f # fs) pre m"
inductive_simps open_lists_Nil [simp]: "open_lists L [] pre m"

definition loop_inv :: "secs_item option \<Rightarrow> decode_cursor \<Rightarrow> bool" where
  "loop_inv p c \<longleftrightarrow>
     dc_depth c = length (dc_list_stack c) \<and> dc_cursor c \<le> length (dc_input c) \<and>
     dc_accepted_nodes c \<le> max_total_items (dc_limits c) \<and>
     (\<exists>pre m. open_lists (dc_limits c) (dc_list_stack c) pre m \<and>
        (case p of
           None \<Rightarrow> take (dc_cursor c) (dc_input c) = pre \<and> dc_accepted_nodes c = m
         | Some it \<Rightarrow> \<exists>bs. wire_item it bs \<and>
             item_within (dc_limits c) (length (dc_list_stack c)) it \<and>
             take (dc_cursor c) (dc_input c) = pre @ bs \<and>
             dc_accepted_nodes c = m + node_count it))"

lemma loop_inv_new: "loop_inv None (decode_cursor_new bs L)"
  by (simp add: loop_inv_def decode_cursor_new_def)

lemma open_lists_add_child:
  assumes "open_lists L (f # fs) pre m" "wire_item it bs" "item_within L (Suc (length fs)) it"
    and "Suc (length (lf_children f)) < lf_expected_children f"
  shows "open_lists L (f\<lparr>lf_children := lf_children f @ [it]\<rparr> # fs) (pre @ bs) (m + node_count it)"
proof -
  from assms(1) obtain pre' m' lb n bss where *: "pre = pre' @ format_byte n FC_List # lb @ concat bss"
    "m = Suc (m' + sum_list (map node_count (lf_children f)))"
    "open_lists L fs pre' m'" "length lb = as_count n" "be_nat lb = lf_expected_children f"
    "lf_header_offset f = length pre'" "list_all2 wire_item (lf_children f) bss"
    "lf_expected_children f \<le> max_list_items L" "length fs < max_depth L"
    "\<forall>it \<in> set (lf_children f). item_within L (Suc (length fs)) it"
    by (elim open_listE) blast
  let ?f = "f\<lparr>lf_children := lf_children f @ [it]\<rparr>"
  have "list_all2 wire_item (lf_children f @ [it]) (bss @ [bs])"
    using *(7) assms(2) by (simp add: list_all2_appendI)
  then show ?thesis
    using open_list [OF *(3), of lb n ?f "bss @ [bs]"] * assms by (auto simp: add.assoc)
qed

lemma open_lists_close:
  assumes "open_lists L (f # fs) pre m" "wire_item it bs" "item_within L (Suc (length fs)) it"
    and "Suc (length (lf_children f)) = lf_expected_children f"
  obtains pre' m' bs' where
    "open_lists L fs pre' m'" "wire_item (Item_List (lf_children f @ [it])) bs'"
    "pre @ bs = pre' @ bs'" "item_within L (length fs) (Item_List (lf_children f @ [it]))"
    "m + node_count it = m' + node_count (Item_List (lf_children f @ [it]))"
proof -
  from assms(1) obtain pre' m' lb n bss where *: "pre = pre' @ format_byte n FC_List # lb @ concat bss"
    "m = Suc (m' + sum_list (map node_count (lf_children f)))"
    "open_lists L fs pre' m'" "length lb = as_count n" "be_nat lb = lf_expected_children f"
    "list_all2 wire_item (lf_children f) bss"
    "lf_expected_children f \<le> max_list_items L" "length fs < max_depth L"
    "\<forall>it \<in> set (lf_children f). item_within L (Suc (length fs)) it"
    by (elim open_listE) blast
  have "list_all2 wire_item (lf_children f @ [it]) (bss @ [bs])"
    using *(6) assms(2) by (simp add: list_all2_appendI)
  then have "wire_item (Item_List (lf_children f @ [it]))
      (format_byte n FC_List # lb @ concat (bss @ [bs]))"
    using * assms(4) by (intro wire_list) auto
  with * assms show ?thesis
    by (intro that [of pre' m' "format_byte n FC_List # lb @ concat (bss @ [bs])"]) auto
qed

lemma deliver_inv:
  "loop_inv (Some it) c \<Longrightarrow>
     (case deliver it c of
        Root it' c' \<Rightarrow> dc_list_stack c' = [] \<and> loop_inv (Some it') c' \<and>
          dc_input c' = dc_input c \<and> dc_limits c' = dc_limits c
      | Wants_sibling c' \<Rightarrow> loop_inv None c' \<and> dc_input c' = dc_input c \<and> dc_limits c' = dc_limits c
      | Delivery_panic \<Rightarrow> False)"
proof (induction it c rule: deliver.induct)
  case (1 it c)
  show ?case
  proof (cases "dc_list_stack c")
    case Nil
    with "1.prems" show ?thesis by (subst deliver.simps) (auto simp: loop_inv_def)
  next
    case (Cons f fs)
    from "1.prems" Cons obtain pre m bs where
      inv: "dc_depth c = Suc (length fs)" "dc_cursor c \<le> length (dc_input c)"
        "dc_accepted_nodes c \<le> max_total_items (dc_limits c)"
        "open_lists (dc_limits c) (f # fs) pre m" "wire_item it bs"
        "item_within (dc_limits c) (Suc (length fs)) it"
        "take (dc_cursor c) (dc_input c) = pre @ bs" "dc_accepted_nodes c = m + node_count it"
      by (auto simp: loop_inv_def)
    let ?f = "f\<lparr>lf_children := lf_children f @ [it]\<rparr>"
    show ?thesis
    proof (cases "Suc (length (lf_children f)) < lf_expected_children f")
      case True
      have "loop_inv None (c\<lparr>dc_list_stack := ?f # fs\<rparr>)"
        using inv open_lists_add_child [OF inv(4,5,6) True] by (auto simp: loop_inv_def)
      with True Cons show ?thesis by (subst deliver.simps) (simp add: Let_def)
    next
      case False
      have full: "Suc (length (lf_children f)) = lf_expected_children f"
        using inv(4) False by (auto elim: open_listE)
      let ?c = "c\<lparr>dc_list_stack := fs, dc_depth := length fs\<rparr>"
      have "loop_inv (Some (Item_List (lf_children f @ [it]))) ?c"
        by (rule open_lists_close [OF inv(4,5,6) full])
          (use inv in \<open>auto simp: loop_inv_def simp del: item_within.simps node_count.simps\<close>)
      with "1.IH" [OF Cons refl] False inv(1) full Cons show ?thesis
        by (subst deliver.simps) (simp add: Let_def checked_sub_def split: delivery.splits)
    qed
  qed
qed

lemma take_advance: "drop k xs = ys @ zs \<Longrightarrow> take (k + length ys) xs = take k xs @ ys"
  by (simp add: take_add)

lemma decode_scalar_Ok:
  assumes "decode_scalar c h f n = Ok (it, c')" "f \<noteq> FC_List"
  obtains body rest where
    "drop (dc_cursor c) (dc_input c) = body @ rest" "length body = n" "n \<le> max_item_bytes (dc_limits c)"
    "\<not> is_list it" "format_code_of it = f" "body_denotes it body"
    "c' = c\<lparr>dc_cursor := dc_cursor c + n\<rparr>" "dc_cursor c + n \<le> length (dc_input c)"
proof -
  let ?body = "take n (drop (dc_cursor c) (dc_input c))"
  from assms(1) have *: "n \<le> max_item_bytes (dc_limits c)"
    "dc_cursor c + n \<le> length (dc_input c)" "check_alignment h f n = Ok ()"
    "decode_body h f ?body = Ok it" "c' = c\<lparr>dc_cursor := dc_cursor c + n\<rparr>"
    by (auto simp: decode_scalar_def res_simps checked_add_Some split: if_splits)
  have len: "length ?body = n" using *(2) by simp
  show ?thesis
    using decode_body_Ok [OF assms(2) _ *(4)] * len
    by (intro that [of ?body "drop n (drop (dc_cursor c) (dc_input c))"]) (auto simp del: drop_drop)
qed

lemma loop_inv_SomeI:
  "dc_depth c = length (dc_list_stack c) \<Longrightarrow> dc_cursor c \<le> length (dc_input c) \<Longrightarrow>
   dc_accepted_nodes c \<le> max_total_items (dc_limits c) \<Longrightarrow>
   open_lists (dc_limits c) (dc_list_stack c) pre m \<Longrightarrow> wire_item it bs \<Longrightarrow>
   item_within (dc_limits c) (length (dc_list_stack c)) it \<Longrightarrow>
   take (dc_cursor c) (dc_input c) = pre @ bs \<Longrightarrow>
   dc_accepted_nodes c = m + node_count it \<Longrightarrow> loop_inv (Some it) c"
  unfolding loop_inv_def option.case by blast

lemma loop_inv_scalar:
  assumes inv: "loop_inv None c"
    and hd: "drop (dc_cursor c) (dc_input c) = format_byte k (format_code_of it) # lb @ body @ rest"
    and "length lb = as_count k" "be_nat lb = length body" "\<not> is_list it" "body_denotes it body"
    and "length body \<le> max_item_bytes (dc_limits c)"
    and "Suc (dc_accepted_nodes c) \<le> max_total_items (dc_limits c)"
    and "dc_cursor c + 1 + as_count k + length body \<le> length (dc_input c)"
  shows "loop_inv (Some it) (c\<lparr>dc_accepted_nodes := Suc (dc_accepted_nodes c),
                               dc_cursor := dc_cursor c + 1 + as_count k + length body\<rparr>)"
proof -
  let ?bs = "format_byte k (format_code_of it) # lb @ body"
  have "wire_item it ?bs" using assms by (intro wire_scalar) auto
  moreover have "take (dc_cursor c + 1 + as_count k + length body) (dc_input c)
      = take (dc_cursor c) (dc_input c) @ ?bs"
    using take_advance [of "dc_cursor c" "dc_input c" ?bs rest] hd assms(3) by (simp add: add.assoc)
  ultimately show ?thesis
    using assms
    by (intro loop_inv_SomeI [where bs = ?bs and pre = "take (dc_cursor c) (dc_input c)" and m = "dc_accepted_nodes c"])
      (auto simp: loop_inv_def body_denotes_length)
qed

lemma loop_inv_list:
  assumes inv: "loop_inv None c"
    and hd: "drop (dc_cursor c) (dc_input c) = format_byte k FC_List # lb @ rest"
    and "length lb = as_count k" "be_nat lb = n" "n \<le> max_list_items (dc_limits c)"
    and "dc_depth c < max_depth (dc_limits c)"
    and "Suc (dc_accepted_nodes c) \<le> max_total_items (dc_limits c)"
    and "dc_cursor c + 1 + as_count k \<le> length (dc_input c)"
  defines "c' \<equiv> c\<lparr>dc_cursor := dc_cursor c + 1 + as_count k,
                   dc_accepted_nodes := Suc (dc_accepted_nodes c)\<rparr>"
  shows "n = 0 \<Longrightarrow> loop_inv (Some (Item_List [])) c'"
    and "n \<noteq> 0 \<Longrightarrow> loop_inv None
           (c'\<lparr>dc_depth := Suc (dc_depth c),
               dc_list_stack := \<lparr>lf_header_offset = dc_cursor c, lf_expected_children = n,
                                 lf_children = []\<rparr> # dc_list_stack c\<rparr>)"
proof -
  let ?bs = "format_byte k FC_List # lb"
  let ?pre = "take (dc_cursor c) (dc_input c)"
  have take: "take (dc_cursor c + 1 + as_count k) (dc_input c) = ?pre @ ?bs"
    using take_advance [of "dc_cursor c" "dc_input c" ?bs rest] hd assms(3) by (simp add: add.assoc)
  show "loop_inv (Some (Item_List [])) c'" if "n = 0"
  proof -
    have "wire_item (Item_List []) ?bs"
      using wire_list [of lb k "[]" "[]"] assms that by simp
    with take inv assms that show ?thesis
      by (intro loop_inv_SomeI [where bs = ?bs and pre = ?pre and m = "dc_accepted_nodes c"])
        (auto simp: loop_inv_def c'_def)
  qed
  let ?f = "\<lparr>lf_header_offset = dc_cursor c, lf_expected_children = n, lf_children = []\<rparr>"
  show "loop_inv None (c'\<lparr>dc_depth := Suc (dc_depth c), dc_list_stack := ?f # dc_list_stack c\<rparr>)"
    if "n \<noteq> 0"
  proof -
    have "open_lists (dc_limits c) (?f # dc_list_stack c)
        (?pre @ format_byte k FC_List # lb @ concat [])
        (dc_accepted_nodes c + 1 + sum_list (map node_count (lf_children ?f)))"
      by (rule open_list) (use inv assms that in \<open>auto simp: loop_inv_def\<close>)
    with take inv assms show ?thesis by (auto simp: loop_inv_def c'_def)
  qed
qed

lemma read_next_inv:
  assumes "loop_inv None c" "read_next c = Ok (p, c')"
  shows "loop_inv p c' \<and> dc_input c' = dc_input c \<and> dc_limits c' = dc_limits c"
proof -
  from assms(2) obtain f n c1 where hd: "read_header c = Ok (f, n, c1)"
    by (auto simp: read_next_def Let_def split: sum.splits)
  then obtain k lb rest where
    *: "drop (dc_cursor c) (dc_input c) = format_byte k f # lb @ rest"
      "length lb = as_count k" "n = be_nat lb" "c1 = c\<lparr>dc_cursor := dc_cursor c + 1 + as_count k\<rparr>"
      "dc_cursor c + 1 + as_count k \<le> length (dc_input c)"
    by (rule read_header_wireE)
  let ?c = "c1\<lparr>dc_accepted_nodes := Suc (dc_accepted_nodes c)\<rparr>"
  have note_node: "Suc (dc_accepted_nodes c) \<le> max_total_items (dc_limits c)"
    using assms(2) hd *(4)
    by (auto simp: read_next_def Let_def res_simps note_node_def checked_add_Some split: if_splits)
  show ?thesis
  proof (cases "f = FC_List")
    case True
    from True assms(2) hd *(4) have lim: "n \<le> max_list_items (dc_limits c)"
      "dc_depth c < max_depth (dc_limits c)"
      "(p, c') = (if n = 0 then (Some (Item_List []), ?c)
         else (None, ?c\<lparr>dc_depth := Suc (dc_depth c),
                dc_list_stack := \<lparr>lf_header_offset = dc_cursor c, lf_expected_children = n,
                                 lf_children = []\<rparr> # dc_list_stack c\<rparr>))"
      by (auto simp: read_next_def Let_def res_simps note_node_def checked_add_Some
          check_list_limits_def split: if_splits)
    then show ?thesis
      using loop_inv_list [OF assms(1) *(1) [unfolded True] *(2) *(3) [symmetric]] note_node *
      by (auto split: if_splits)
  next
    case False
    from False assms(2) hd *(4) obtain it where
      it: "p = Some it" "decode_scalar ?c (dc_cursor c) f n = Ok (it, c')"
      by (auto simp: read_next_def Let_def res_simps note_node_def checked_add_Some split: if_splits)
    from it(2) False obtain body rest' where
      body: "drop (dc_cursor ?c) (dc_input ?c) = body @ rest'" "length body = n"
        "n \<le> max_item_bytes (dc_limits c)" "\<not> is_list it" "format_code_of it = f"
        "body_denotes it body" "c' = ?c\<lparr>dc_cursor := dc_cursor ?c + n\<rparr>"
        "dc_cursor ?c + n \<le> length (dc_input c)"
      by (rule decode_scalar_Ok) (use *(4) in auto)
    have "rest = body @ rest'"
      using body(1) drop_advance [of "dc_cursor c" "dc_input c" "format_byte k f # lb" rest] * by simp
    with * body it(1) note_node show ?thesis
      using loop_inv_scalar [OF assms(1), of k it lb body rest'] by auto
  qed
qed

subsection \<open>Errors\<close>

text \<open>The offset an error carries; only an empty input and trailing bytes have none.\<close>

fun error_offset :: "decode_error \<Rightarrow> usize option" where
  "error_offset (TruncatedHeader off) = Some off"
| "error_offset (ZeroLengthByteCount off) = Some off"
| "error_offset (TruncatedBody off _ _) = Some off"
| "error_offset (TruncatedList off _ _) = Some off"
| "error_offset (UnknownFormatCode off _) = Some off"
| "error_offset (MisalignedNumericPayload off _ _ _) = Some off"
| "error_offset (MissingLocalizedHeader off) = Some off"
| "error_offset (Decode_ReservedLocalizedEncodingCode off) = Some off"
| "error_offset (Decode_NonAscii off _ _) = Some off"
| "error_offset (DepthExceeded off _ _) = Some off"
| "error_offset (TotalItemsExceeded off _ _) = Some off"
| "error_offset (ItemBytesExceeded off _ _) = Some off"
| "error_offset (ListItemsExceeded off _ _) = Some off"
| "error_offset (Decode_ArithmeticOverflow off) = Some off"
| "error_offset EmptyInput = None"
| "error_offset (TrailingBytes _ _) = None"
| "error_offset DecodePanic = None"

lemma read_length_Err: "read_length h d bs = Err e \<Longrightarrow> error_offset e = Some h"
  by (induction bs arbitrary: d) (auto simp: res_simps ok_or_def split: option.splits)

lemma read_header_Err: "read_header c = Err e \<Longrightarrow> error_offset e = Some (dc_cursor c)"
  by (auto simp: read_header_def Let_def res_simps ok_or_def read_length_Err
      split: if_splits option.splits)

lemma note_node_Err: "note_node c h = Err e \<Longrightarrow> error_offset e = Some h"
  by (auto simp: note_node_def res_simps ok_or_def split: if_splits option.splits)

lemma check_list_limits_Err: "check_list_limits c h n = Err e \<Longrightarrow> error_offset e = Some h"
  by (auto simp: check_list_limits_def Let_def res_simps ok_or_def split: if_splits option.splits)

lemma decode_body_Err: "f \<noteq> FC_List \<Longrightarrow> decode_body h f body = Err e \<Longrightarrow> error_offset e = Some h"
  by (cases f)
    (auto simp: decode_ascii_def decode_localized_def ascii_string_new_def
      localized_encoding_code_new_def Let_def split: option.splits if_splits)

lemma decode_scalar_Err:
  "f \<noteq> FC_List \<Longrightarrow> decode_scalar c h f n = Err e \<Longrightarrow> error_offset e = Some h"
  by (auto simp: decode_scalar_def Let_def res_simps ok_or_def check_alignment_def decode_body_Err
      split: if_splits option.splits)

lemma frame_offset:
  "open_lists L (f # fs) pre m \<Longrightarrow> lf_header_offset f < length pre"
  by (elim open_listE) auto

lemma reclassify_offset:
  assumes "loop_inv None c" "error_offset e = Some (dc_cursor c)" "dc_input c \<noteq> []"
    and "dc_list_stack c = [] \<longrightarrow> dc_cursor c < length (dc_input c)"
  shows "\<exists>off. error_offset (reclassify_truncation c e) = Some off \<and> off < length (dc_input c)
           \<or> dc_cursor c = length (dc_input c) \<and> (\<forall>off. e \<noteq> TruncatedHeader off)"
  using assms
  by (cases e)
    (auto simp: reclassify_truncation_def loop_inv_def min_def
      split: list.splits dest!: frame_offset)

lemma read_header_at_end:
  "dc_cursor c = length (dc_input c) \<Longrightarrow> read_header c = Err (TruncatedHeader (dc_cursor c))"
  by (simp add: read_header_def)

lemma read_next_Err:
  assumes "loop_inv None c" "read_next c = Err e" "dc_input c \<noteq> []"
    and "dc_list_stack c = [] \<longrightarrow> dc_cursor c < length (dc_input c)"
  shows "\<exists>off. error_offset e = Some off \<and> off < length (dc_input c)"
proof (cases "read_header c")
  case (Inl e')
  have "\<forall>off. e' \<noteq> TruncatedHeader off \<Longrightarrow> dc_cursor c \<noteq> length (dc_input c)"
    using Inl read_header_at_end [of c] by auto
  with reclassify_offset [OF assms(1) read_header_Err [OF Inl] assms(3,4)] Inl assms(2)
  show ?thesis by (auto simp: read_next_def Let_def)
next
  case (Inr x)
  then obtain f n c1 where x: "read_header c = Ok (f, n, c1)" by (cases x) auto
  then have "error_offset e = Some (dc_cursor c)"
    using assms(2)
    by (auto simp: read_next_def Let_def res_simps ok_or_def
        dest: note_node_Err check_list_limits_Err decode_scalar_Err split: if_splits option.splits)
  with read_header_advances [OF x] show ?thesis by auto
qed

lemma read_next_progress:
  "read_next c = Ok (None, c') \<Longrightarrow> dc_list_stack c' \<noteq> []"
  by (auto simp: read_next_def Let_def res_simps split: sum.splits if_splits)

lemma deliver_sibling_open: "deliver it c = Wants_sibling c' \<Longrightarrow> dc_list_stack c' \<noteq> []"
  by (induction it c rule: deliver.induct)
    (subst (asm) (2) deliver.simps, auto simp: Let_def split: list.splits if_splits option.splits)

lemma run_inv:
  "loop_inv p c \<Longrightarrow> dc_input c \<noteq> [] \<Longrightarrow>
     (p = None \<longrightarrow> dc_list_stack c = [] \<longrightarrow> dc_cursor c < length (dc_input c)) \<Longrightarrow>
     (case run p c of
        Inl e \<Rightarrow> (\<exists>off. error_offset e = Some off \<and> off < length (dc_input c))
      | Inr (it, c') \<Rightarrow> dc_list_stack c' = [] \<and> loop_inv (Some it) c' \<and>
          dc_input c' = dc_input c \<and> dc_limits c' = dc_limits c)"
proof (induction p c rule: run.induct)
  case (1 p c)
  have dl: "case deliver_pending p c of
      Root it c' \<Rightarrow> dc_list_stack c' = [] \<and> loop_inv (Some it) c' \<and>
        dc_input c' = dc_input c \<and> dc_limits c' = dc_limits c
    | Wants_sibling c' \<Rightarrow> loop_inv None c' \<and> dc_input c' = dc_input c \<and> dc_limits c' = dc_limits c \<and>
        (dc_list_stack c' = [] \<longrightarrow> dc_cursor c' < length (dc_input c'))
    | Delivery_panic \<Rightarrow> False"
    using "1.prems" deliver_inv [of "the p" c] deliver_sibling_open [of "the p" c]
    by (cases p) (auto simp: deliver_pending_def split: delivery.splits)
  show ?case
  proof (cases "deliver_pending p c")
    case (Root it c')
    with dl show ?thesis by (subst run.simps) auto
  next
    case Delivery_panic
    with dl show ?thesis by auto
  next
    case (Wants_sibling c')
    with dl have c': "loop_inv None c'" "dc_input c' = dc_input c" "dc_limits c' = dc_limits c"
      "dc_list_stack c' = [] \<longrightarrow> dc_cursor c' < length (dc_input c')" by auto
    show ?thesis
    proof (cases "read_next c'")
      case (Inl e)
      with Wants_sibling c' "1.prems" read_next_Err [of c' e] show ?thesis
        by (subst run.simps) auto
    next
      case (Inr x)
      then obtain p2 c2 where x: "read_next c' = Ok (p2, c2)" by (cases x) auto
      note ri = read_next_inv [OF c'(1) x]
      have "p2 = None \<longrightarrow> dc_list_stack c2 = [] \<longrightarrow> dc_cursor c2 < length (dc_input c2)"
        using x read_next_progress by blast
      with "1.IH" [OF Wants_sibling x] ri c' "1.prems" x Wants_sibling
      show ?thesis by (subst run.simps) (auto split: sum.splits)
    qed
  qed
qed

end
