(* ===== verification/Secs2_Codec.thy ===== *)
theory Secs2_Codec
  imports Secs2_Decode_Correct
begin

section \<open>SECS-II codec: what encoder and decoder promise together\<close>

text \<open>
  The properties of the SECS-II codec as a whole: the strict decoder is exactly \<open>wire_item\<close>
  within its limits, the two-pass encoder is the recursive encoder, they are inverse to each
  other, and neither panics.
\<close>

text \<open>Equations that run the decoder on a literal input.\<close>

lemmas decoder_eval =
  decode_item_def decode_cursor_new_def run.simps deliver_pending_def deliver.simps read_next_def
  read_header_def from_low_bits_def from_six_bit_def note_node_def check_list_limits_def
  decode_scalar_def check_alignment_def decode_ascii_def ascii_string_new_def is_ascii_def
  checked_add_def checked_sub_def checked_shl_def usize_max_def reclassify_truncation_def
  decode_limits_default_def MAX_ENCODED_ITEM_LENGTH_def Let_def

subsection \<open>Decoder\<close>

text \<open>C1: On any slice, \<open>decode_item\<close> succeeds with an item exactly when the whole slice is one
  encoding of that item (one to three length bytes per header, any non-zero byte for a true
  Boolean), the item's depth, list sizes and body sizes are within the decoder's limits, and the
  item has no more nodes than the limit allows.\<close>

theorem decode_item_iff:
  assumes "slice_ok bs"
  shows "decode_item L bs = Ok it \<longleftrightarrow>
           wire_item it bs \<and> item_within L 0 it \<and> node_count it \<le> max_total_items L"
proof
  assume "decode_item L bs = Ok it"
  then obtain c where c: "run None (decode_cursor_new bs L) = Ok (it, c)"
    "dc_cursor c = length bs" "bs \<noteq> []"
    by (auto simp: decode_item_def Let_def res_simps split: if_splits)
  have "dc_list_stack c = [] \<and> loop_inv (Some it) c \<and> dc_input c = bs \<and> dc_limits c = L"
    using run_inv [OF loop_inv_new, of bs L] c by (auto simp: decode_cursor_new_def)
  with c(2) show "wire_item it bs \<and> item_within L 0 it \<and> node_count it \<le> max_total_items L"
    by (auto simp: loop_inv_def)
next
  assume "wire_item it bs \<and> item_within L 0 it \<and> node_count it \<le> max_total_items L"
  then show "decode_item L bs = Ok it" using assms by (auto intro: decode_item_wire)
qed

lemma decode_item_sound:
  "decode_item L bs = Ok it \<Longrightarrow>
     wire_item it bs \<and> item_within L 0 it \<and> node_count it \<le> max_total_items L"
  using run_inv [OF loop_inv_new, of bs L]
  by (auto simp: decode_item_def decode_cursor_new_def Let_def res_simps loop_inv_def
      split: if_splits)

lemma decode_item_iff_witness:
  "decode_item decode_limits_default [0x01, 0x02, 0x25, 0x01, 0x07, 0x41, 0x01, 0x48]
     = Ok (Item_List [Item_Boolean [True], Item_Ascii [0x48]])
   \<longleftrightarrow> wire_item (Item_List [Item_Boolean [True], Item_Ascii [0x48]])
         [0x01, 0x02, 0x25, 0x01, 0x07, 0x41, 0x01, 0x48] \<and>
       item_within decode_limits_default 0 (Item_List [Item_Boolean [True], Item_Ascii [0x48]]) \<and>
       node_count (Item_List [Item_Boolean [True], Item_Ascii [0x48]])
         \<le> max_total_items decode_limits_default"
  by (rule decode_item_iff) (simp add: slice_ok_def)

text \<open>C29: The decoder never panics on malformed input, and every error that carries an offset
  points inside the input.\<close>

theorem decode_item_errors:
  assumes "decode_item L bs = Err e"
  shows "e = EmptyInput \<and> bs = []
       \<or> (\<exists>k. e = TrailingBytes k (length bs) \<and> k < length bs)
       \<or> (\<exists>off. error_offset e = Some off \<and> off < length bs)"
proof (cases "bs = []")
  case True
  with assms show ?thesis by (simp add: decode_item_def)
next
  case False
  note ri = run_inv [OF loop_inv_new, of bs L]
  show ?thesis
  proof (cases "run None (decode_cursor_new bs L)")
    case (Inl e')
    with assms False ri show ?thesis by (simp add: decode_item_def decode_cursor_new_def)
  next
    case (Inr x)
    then obtain it c where x: "x = (it, c)" by (cases x) auto
    with Inr ri False have "dc_cursor c \<le> length bs"
      by (auto simp: decode_cursor_new_def loop_inv_def)
    with x Inr assms False show ?thesis
      by (auto simp: decode_item_def Let_def split: if_splits)
  qed
qed

lemma decode_item_errors_witness:
  "TruncatedList 0 1 0 = EmptyInput \<and> [0x01, 0x01] = ([] :: bytes)
   \<or> (\<exists>k. TruncatedList 0 1 0 = TrailingBytes k (length [0x01, 0x01 :: u8]) \<and>
        k < length [0x01, 0x01 :: u8])
   \<or> (\<exists>off. error_offset (TruncatedList 0 1 0) = Some off \<and> off < length [0x01, 0x01 :: u8])"
  by (rule decode_item_errors [of decode_limits_default "[0x01, 0x01]"])
    (simp add: decoder_eval cong: bind_res_weak_cong)

text \<open>An encoding is never a proper prefix of another one and determines its item, so where an
  item ends does not depend on what follows it.\<close>

theorem wire_item_prefix_free:
  assumes "wire_item it bs" "wire_item it' (bs @ rest)" "slice_ok (bs @ rest)"
  shows "rest = [] \<and> it' = it"
proof -
  have within: "\<exists>d. \<forall>L. d \<le> max_depth L \<longrightarrow> d \<le> max_list_items L \<longrightarrow> d \<le> max_item_bytes L \<longrightarrow>
      item_within L k it" for it k
  proof (induction it arbitrary: k)
    case (Item_List cs)
    then have "\<forall>c. \<exists>d. c \<in> set cs \<longrightarrow> (\<forall>L. d \<le> max_depth L \<longrightarrow> d \<le> max_list_items L \<longrightarrow>
        d \<le> max_item_bytes L \<longrightarrow> item_within L (Suc k) c)" by blast
    then obtain f where f: "\<And>c L. c \<in> set cs \<Longrightarrow> f c \<le> max_depth L \<Longrightarrow> f c \<le> max_list_items L \<Longrightarrow>
        f c \<le> max_item_bytes L \<Longrightarrow> item_within L (Suc k) c" by metis
    let ?d = "Suc k + length cs + sum_list (map f cs)"
    have "f c \<le> ?d" if "c \<in> set cs" for c
      using member_le_sum_list [of "f c" "map f cs"] that by simp
    then have "f c \<le> max_depth L \<and> f c \<le> max_list_items L \<and> f c \<le> max_item_bytes L"
      if "c \<in> set cs" "?d \<le> max_depth L" "?d \<le> max_list_items L" "?d \<le> max_item_bytes L" for c L
      using that by (meson order_trans)
    with f show ?case by (intro exI [of _ ?d]) auto
  qed auto
  obtain d d' where d: "\<forall>L. d \<le> max_depth L \<longrightarrow> d \<le> max_list_items L \<longrightarrow> d \<le> max_item_bytes L \<longrightarrow>
      item_within L 0 it"
    "\<forall>L. d' \<le> max_depth L \<longrightarrow> d' \<le> max_list_items L \<longrightarrow> d' \<le> max_item_bytes L \<longrightarrow>
      item_within L 0 it'" using within by meson
  define L where "L = \<lparr>max_depth = d + d', max_total_items = node_count it + node_count it',
    max_item_bytes = d + d', max_list_items = d + d'\<rparr>"
  have "item_within L 0 it" "item_within L 0 it'" using d by (auto simp: L_def)
  then have "run None (decode_cursor_new (bs @ rest) L) =
      Ok (it, advanced (decode_cursor_new (bs @ rest) L) (length bs) (node_count it))"
    "run None (decode_cursor_new (bs @ rest) L) =
      Ok (it', advanced (decode_cursor_new (bs @ rest) L) (length (bs @ rest)) (node_count it'))"
    using run_prefix [OF assms(1), of rest L] run_prefix [OF assms(2), of "[]" L] assms(3)
    by (auto simp: L_def)
  then show ?thesis by (auto simp: advanced_def decode_cursor_new_def)
qed

lemma wire_item_prefix_free_witness:
  "wire_item (Item_Binary [1]) [0x21, 0x01, 0x01] \<and> ([] = ([] :: bytes) \<and> Item_Binary [1] = Item_Binary [1])"
proof -
  have w: "wire_item (Item_Binary [1]) [0x21, 0x01, 0x01]"
    by (rule decode_item_sound [of decode_limits_default, THEN conjunct1])
      (simp add: decoder_eval cong: bind_res_weak_cong)
  then show ?thesis
    using wire_item_prefix_free [of "Item_Binary [1]" "[0x21, 0x01, 0x01]" "Item_Binary [1]" "[]"]
    by (simp add: slice_ok_def)
qed

fun nesting :: "secs_item \<Rightarrow> nat" where
  "nesting (Item_List cs) = Suc (fold max (map nesting cs) 0)"
| "nesting _ = 0"

lemma fold_max_le: "fold max xs (a::nat) \<le> b \<longleftrightarrow> a \<le> b \<and> (\<forall>x \<in> set xs. x \<le> b)"
  by (induction xs arbitrary: a) auto

lemma item_within_nesting: "item_within L d it \<Longrightarrow> d + nesting it \<le> max d (max_depth L)"
proof (induction it arbitrary: d)
  case (Item_List cs)
  have "nesting c \<le> max_depth L - Suc d" if "c \<in> set cs" for c
    using Item_List.IH [OF that, of "Suc d"] Item_List.prems that by auto
  then have "fold max (map nesting cs) 0 \<le> max_depth L - Suc d"
    by (auto simp: fold_max_le)
  with Item_List.prems show ?case by auto
qed auto

text \<open>C32: A decoder whose limits \<open>DecodeLimits::validate\<close> accepted never returns an item nested
  deeper than 256 lists, and what it returns satisfies the invariants of the value types.\<close>

theorem decode_item_bounded:
  assumes "decode_limits_validate L = Ok ()" "decode_item L bs = Ok it"
  shows "nesting it \<le> MAX_DECODE_NESTING_DEPTH \<and> node_count it \<le> max_total_items L \<and> item_ok it"
  using decode_item_sound [OF assms(2)] item_within_nesting [of L 0 it] assms(1) wire_item_ok
  by (auto simp: decode_limits_validate_Ok)

lemma decode_item_bounded_witness:
  "nesting (Item_List []) \<le> MAX_DECODE_NESTING_DEPTH \<and>
   node_count (Item_List []) \<le> max_total_items decode_limits_default \<and> item_ok (Item_List [])"
  by (rule decode_item_bounded [OF decode_limits_default_valid, of "[0x01, 0x00]"])
    (simp add: decoder_eval cong: bind_res_weak_cong)

subsection \<open>Encoder\<close>

text \<open>C28: The two-pass encoder with its explicit stack computes the recursive encoding: it succeeds
  exactly when every body and child count fits the 24-bit length and the length of the result fits
  a \<open>usize\<close>, and then the result is the concatenation, in preorder, of every node's header with
  the fewest length bytes and its big-endian body.\<close>

theorem encode_to_vec_recursive:
  "encode_to_vec it = Ok bs \<longleftrightarrow> encodable it \<and> length (enc it) \<le> usize_max \<and> bs = enc it"
  by (rule encode_to_vec_Ok)

text \<open>An encode plan is never wrong: writing a measured item appends exactly the measured number
  of bytes to the output and cannot fail.\<close>

theorem plan_write_exact:
  assumes "encoded_item_plan_new it = Ok p"
  shows "\<exists>bs. plan_write_into p out = Ok (out @ bs) \<and> length bs = encoded_length p \<and>
           encode_to_vec it = Ok bs"
  using assms
  by (auto simp: encoded_item_plan_new_def plan_write_into_def res_simps measure_item_Ok
      write_item_tree_fits encode_to_vec_Ok)

lemma plan_write_exact_witness:
  "encoded_item_plan_new (Item_U2 [1]) = Ok \<lparr>plan_item = Item_U2 [1], encoded_length = 4\<rparr> \<and>
   (\<exists>bs. plan_write_into \<lparr>plan_item = Item_U2 [1], encoded_length = 4\<rparr> [9] = Ok ([9] @ bs) \<and>
      length bs = encoded_length \<lparr>plan_item = Item_U2 [1], encoded_length = 4\<rparr> \<and>
      encode_to_vec (Item_U2 [1]) = Ok bs)"
proof -
  have "encoded_item_plan_new (Item_U2 [1]) = Ok \<lparr>plan_item = Item_U2 [1], encoded_length = 4\<rparr>"
    by (simp add: encoded_item_plan_new_def res_simps measure_item_Ok node_fits_def node_bytes_def
        min_count_def MAX_ENCODED_ITEM_LENGTH_def usize_max_def)
  with plan_write_exact [OF this, of "[9]"] show ?thesis by blast
qed

text \<open>An encode error names the first node, in preorder, whose body or child count exceeds the
  24-bit length, or reports that the byte count of the whole tree does not fit a \<open>usize\<close>; the
  encoder never panics.\<close>

theorem encode_to_vec_error:
  assumes "encode_to_vec it = Err e"
  shows "e \<noteq> EncodePanic \<and>
    (\<exists>pre n post. preorder it = pre @ n # post \<and> (\<forall>m \<in> set pre. node_fits m) \<and>
       (declared_length_of n = Err e \<and> \<not> node_fits n \<or>
        e = ArithmeticOverflow \<and> usize_max < length (concat (map node_bytes (pre @ [n])))))"
proof -
  have "measure_nodes (preorder it) 0 = Err e"
    using assms by (simp add: encode_to_vec_Err measure_item_nodes)
  from measure_nodes_Err [OF this] obtain pre n post where *:
    "preorder it = pre @ n # post" "\<forall>m \<in> set pre. node_fits m"
    "declared_length_of n = Err e \<or>
     e = ArithmeticOverflow \<and> usize_max < 0 + length (concat (map node_bytes (pre @ [n])))"
    by blast
  then show ?thesis using declared_length_of_Err [of n e] by auto
qed

lemma encode_to_vec_error_witness:
  "\<exists>e. encode_to_vec (Item_List (replicate 0x1000000 (Item_Binary []))) = Err e \<and> e \<noteq> EncodePanic"
proof -
  let ?it = "Item_List (replicate 0x1000000 (Item_Binary []))"
  have "\<not> encodable ?it" by (simp add: MAX_ENCODED_ITEM_LENGTH_def)
  then obtain e where e: "encode_to_vec ?it = Err e"
    using encode_to_vec_Ok [of ?it] by (cases "encode_to_vec ?it") auto
  with encode_to_vec_error [OF e] show ?thesis by blast
qed

subsection \<open>Encoder and decoder as one interface\<close>

text \<open>
  What the HSMS layer relies on when it turns items into payloads and back: decoding an encoding
  gives the value back, and whatever was decoded can be encoded again.
\<close>

locale lossless_codec =
  fixes encode :: "'a \<Rightarrow> ('b, 'e) result"
    and decode :: "'b \<Rightarrow> ('a, 'd) result"
    and valid_input :: "'b \<Rightarrow> bool"
    and accepts :: "'a \<Rightarrow> bool"
  assumes decode_encode: "accepts x \<Longrightarrow> encode x = Inr b \<Longrightarrow> decode b = Inr x"
    and decode_accepts: "valid_input b \<Longrightarrow> decode b = Inr x \<Longrightarrow> accepts x \<and> (\<exists>b'. encode x = Inr b')"
begin

lemma encode_injective: "accepts x \<Longrightarrow> accepts y \<Longrightarrow> encode x = Inr b \<Longrightarrow> encode y = Inr b \<Longrightarrow> x = y"
  using decode_encode [of x b] decode_encode [of y b] by auto

lemma canonical:
  assumes "valid_input b" "decode b = Inr x"
  shows "\<exists>b'. encode x = Inr b' \<and> decode b' = Inr x"
  using decode_accepts [OF assms] decode_encode by blast

end

definition acceptable :: "decode_limits \<Rightarrow> secs_item \<Rightarrow> bool" where
  "acceptable L it \<longleftrightarrow>
     item_ok it \<and> item_within L 0 it \<and> node_count it \<le> max_total_items L \<and> slice_ok (enc it)"

lemma slice_ok_usize: "slice_ok bs \<Longrightarrow> length bs \<le> usize_max"
  by (simp add: slice_ok_def usize_max_def)

interpretation secs2: lossless_codec encode_to_vec "decode_item L" slice_ok "acceptable L" for L
proof
  fix x b
  assume "acceptable L x" "encode_to_vec x = Ok b"
  then show "decode_item L b = Ok x"
    by (auto simp: acceptable_def encode_to_vec_Ok intro: decode_item_wire wire_enc)
next
  fix b x
  assume A: "slice_ok b" "decode_item L b = Ok x"
  then have w: "wire_item x b" "item_within L 0 x" "node_count x \<le> max_total_items L"
    using decode_item_sound by blast+
  moreover have "slice_ok (enc x)"
    using enc_shortest [OF w(1)] A(1) by (simp add: slice_ok_def)
  ultimately show "acceptable L x \<and> (\<exists>b'. encode_to_vec x = Ok b')"
    using wire_item_encodable slice_ok_usize
    by (auto simp: acceptable_def encode_to_vec_Ok intro: wire_item_ok)
qed

text \<open>C5: Round trip: what the encoder writes for an item within the decoder's limits, the decoder
  reads back as the same item.\<close>

theorem decode_encode_item:
  assumes "acceptable L it" "encode_to_vec it = Ok bs"
  shows "decode_item L bs = Ok it"
  by (rule secs2.decode_encode [OF assms])

lemma decode_encode_item_witness:
  "decode_item decode_limits_default
     (enc (Item_List [Item_F8 [0x3FF0000000000000], Item_Boolean [True, False]]))
   = Ok (Item_List [Item_F8 [0x3FF0000000000000], Item_Boolean [True, False]])"
  by (rule decode_encode_item)
    (simp_all add: acceptable_def encode_to_vec_Ok node_fits_def node_bytes_def min_count_def
      decode_limits_default_def slice_ok_def usize_max_def MAX_ENCODED_ITEM_LENGTH_def)

text \<open>C27: Canonical form: whatever the decoder accepts can be encoded again, in no more bytes, and
  decodes to the same item.\<close>

theorem decode_canonical:
  assumes "slice_ok bs" "decode_item L bs = Ok it"
  shows "\<exists>bs'. encode_to_vec it = Ok bs' \<and> decode_item L bs' = Ok it \<and> length bs' \<le> length bs"
  using secs2.canonical [OF assms] enc_shortest [of it bs] decode_item_sound [OF assms(2)]
  by (auto simp: encode_to_vec_Ok)

lemma decode_canonical_witness:
  "\<exists>bs'. encode_to_vec (Item_Boolean [True]) = Ok bs' \<and>
     decode_item decode_limits_default bs' = Ok (Item_Boolean [True]) \<and>
     length bs' \<le> length [0x26, 0x00, 0x01, 0x80 :: u8]"
  by (rule decode_canonical)
    (simp_all add: slice_ok_def decoder_eval cong: bind_res_weak_cong)

end
