(* ===== verification/Hsms_Protocol.thy ===== *)
theory Hsms_Protocol
  imports Secs2_Codec
begin

section \<open>HSMS identifiers, headers, messages and runtime facts\<close>

text \<open>
  The value types of \<open>src/hsms/model\<close> and \<open>src/hsms/protocol\<close>. Newtypes over a
  machine integer without an invariant (\<open>SystemBytes\<close>, \<open>CommandId\<close>, \<open>WriteId\<close>,
  the select and deselect statuses) are that integer; \<open>SessionId\<close>, \<open>Stream\<close> and
  \<open>RejectReason\<close> have constructors that refuse a value, and the predicates below say what
  they guarantee. A \<open>Duration\<close> is its number of nanoseconds.
\<close>

subsection \<open>Identifiers\<close>

type_synonym connection_generation = u64
type_synonym command_id = u64
type_synonym write_id = u64
type_synonym reply_capability_id = u64
type_synonym system_bytes = u32

datatype session_id = SessionId (session_id_get: u16)
datatype identifier_error = ReservedControlSession

definition CONTROL_SESSION_ID :: u16 where
  "CONTROL_SESSION_ID = 0xFFFF"

definition session_id_new :: "u16 \<Rightarrow> (session_id, identifier_error) result" where
  "session_id_new value =
     (if value = 0xFFFF then Err ReservedControlSession else Ok (SessionId value))"

definition session_ok :: "session_id \<Rightarrow> bool" where
  "session_ok s \<longleftrightarrow> session_id_get s \<noteq> 0xFFFF"

lemma session_id_new_Ok: "session_id_new v = Ok s \<longleftrightarrow> s = SessionId v \<and> session_ok s"
  by (auto simp: session_id_new_def session_ok_def)

subsection \<open>Headers and control messages\<close>

record data_header =
  dh_session_id :: session_id
  dh_stream :: stream
  dh_function :: sfunction
  dh_reply_expected :: bool
  dh_system_bytes :: system_bytes

definition data_header_ok :: "data_header \<Rightarrow> bool" where
  "data_header_ok h \<longleftrightarrow> session_ok (dh_session_id h) \<and> stream_ok (dh_stream h)"

type_synonym select_status = u8
type_synonym deselect_status = u8
type_synonym reject_reason = u8

definition SELECT_SUCCESS :: select_status where "SELECT_SUCCESS = 0"
definition SELECT_ALREADY_ACTIVE :: select_status where "SELECT_ALREADY_ACTIVE = 1"
definition SELECT_NOT_READY :: select_status where "SELECT_NOT_READY = 2"

definition select_is_success :: "select_status \<Rightarrow> bool" where
  "select_is_success status \<longleftrightarrow> status = SELECT_SUCCESS"

definition DESELECT_SUCCESS :: deselect_status where "DESELECT_SUCCESS = 0"
definition DESELECT_NOT_SELECTED :: deselect_status where "DESELECT_NOT_SELECTED = 1"
definition DESELECT_BUSY :: deselect_status where "DESELECT_BUSY = 2"

definition deselect_is_success :: "deselect_status \<Rightarrow> bool" where
  "deselect_is_success status \<longleftrightarrow> status = DESELECT_SUCCESS"

definition UNSUPPORTED_STYPE :: reject_reason where "UNSUPPORTED_STYPE = 1"
definition UNSUPPORTED_PTYPE :: reject_reason where "UNSUPPORTED_PTYPE = 2"
definition TRANSACTION_NOT_OPEN :: reject_reason where "TRANSACTION_NOT_OPEN = 3"
definition ENTITY_NOT_SELECTED :: reject_reason where "ENTITY_NOT_SELECTED = 4"

definition reject_reason_new :: "u8 \<Rightarrow> reject_reason option" where
  "reject_reason_new value = (if value = 0 then None else Some value)"

datatype control_message =
    SelectRequest u16 system_bytes
  | SelectResponse u16 select_status system_bytes
  | DeselectRequest u16 system_bytes
  | DeselectResponse u16 deselect_status system_bytes
  | LinktestRequest system_bytes
  | LinktestResponse system_bytes
  | RejectRequest u16 u8 reject_reason system_bytes
  | SeparateRequest u16 system_bytes

fun control_ok :: "control_message \<Rightarrow> bool" where
  "control_ok (RejectRequest _ _ reason _) = (reason \<noteq> 0)"
| "control_ok _ = True"

record data_message =
  dm_header :: data_header
  dm_body :: "secs_item option"

datatype protocol_message =
    Data data_message
  | Control control_message

subsection \<open>Violations\<close>

text \<open>
  \<open>ValidatorPanic\<close> is not a kind of the source: it stands for an \<open>expect\<close> or
  \<open>unreachable!\<close> of the validator that fires, and is proved unreachable.
\<close>

type_synonym header_snapshot = bytes

definition snapshot_session_id :: "header_snapshot \<Rightarrow> u16" where
  "snapshot_session_id h = from_be_bytes [h ! 0, h ! 1]"

definition snapshot_p_type :: "header_snapshot \<Rightarrow> u8" where
  "snapshot_p_type h = h ! 4"

definition snapshot_s_type :: "header_snapshot \<Rightarrow> u8" where
  "snapshot_s_type h = h ! 5"

definition snapshot_system_bytes :: "header_snapshot \<Rightarrow> u32" where
  "snapshot_system_bytes h = from_be_bytes [h ! 6, h ! 7, h ! 8, h ! 9]"

datatype header_violation_kind =
    ControlMessageHasText
  | InvalidDataSessionId
  | InvalidControlSessionId
  | InvalidControlHeader
  | UnknownPresentationType u8
  | UnknownSessionType u8
  | ValidatorPanic

record header_violation =
  hv_header :: header_snapshot
  hv_kind :: header_violation_kind

datatype payload_violation_kind = MalformedSecs2 | ResourceLimitExceeded

record payload_violation =
  pv_header :: data_header
  pv_kind :: payload_violation_kind

datatype inbound_violation =
    Header_violation header_violation
  | Payload_violation payload_violation

subsection \<open>Runtime facts\<close>

type_synonym duration = nat
type_synonym mono_time = nat

definition duration_max :: duration where
  "duration_max = (2 ^ 64 - 1) * 1000000000 + 999999999"

definition mono_checked_add :: "mono_time \<Rightarrow> duration \<Rightarrow> mono_time option" where
  "mono_checked_add t d = (if t + d \<le> duration_max then Some (t + d) else None)"

lemma mono_checked_add_Some: "mono_checked_add t d = Some u \<longleftrightarrow> u = t + d \<and> t + d \<le> duration_max"
  by (auto simp: mono_checked_add_def)

datatype transport_fault =
    WriteZero | ConnectionReset | BrokenPipe | UnexpectedEof | TimedOut | Cancelled | OtherFault

datatype write_outcome =
    Committed
  | NotWritten transport_fault
  | Indeterminate transport_fault

datatype communications_timeout = T6 | T7 | T8

datatype close_reason =
    LocalStop | LocalDisconnect | LocalSeparate | SeparateReceived | TransportLost
  | ProtocolViolation | ControlBackpressure | ApplicationBackpressure | SystemBytesExhausted
  | RuntimeInvariant | CommunicationsTimeout communications_timeout

datatype close_barrier = Immediate | AfterWrite write_id

end
