(* ===== verification/Hsms_Wire.thy ===== *)
theory Hsms_Wire
  imports Hsms_Protocol
begin

section \<open>HSMS frames: incremental framing, header layout and validation\<close>

text \<open>
  \<open>src/hsms/wire\<close>: the four-byte length prefix and its incremental decoder
  (\<open>HsmsFrameDecoder\<close>), the ten-byte headers written for data and control messages
  (\<open>framer.rs\<close>), and the strict validator (\<open>validator.rs\<close>). A \<open>BytesMut\<close> is
  the list of bytes not yet consumed; an operation returns it with its new content. The lemmas
  show that the header writers and the validator are inverse to each other.
\<close>

definition HSMS_HEADER_LENGTH :: usize where "HSMS_HEADER_LENGTH = 10"
definition LENGTH_PREFIX_BYTES :: usize where "LENGTH_PREFIX_BYTES = 4"

record raw_frame =
  rf_header :: bytes
  rf_text :: bytes

record wire_data_frame =
  wd_header :: data_header
  wd_text :: bytes

datatype validated_frame =
    Valid_data wire_data_frame
  | Valid_control control_message

subsection \<open>Framing\<close>

datatype framing_fault =
    MessageLengthBelowHeader u32 usize
  | MessageLengthAboveLimit u32 usize

datatype frame_read_progress =
    AwaitingLength u8
  | PartialBody usize usize

datatype frame_decode_step =
    Frame raw_frame
  | NeedMoreBytes frame_read_progress

record frame_decoder =
  fd_max_message_length :: usize
  fd_terminal_fault :: "framing_fault option"

definition frame_decoder_new :: "usize \<Rightarrow> frame_decoder" where
  "frame_decoder_new max_length = \<lparr>fd_max_message_length = max_length, fd_terminal_fault = None\<rparr>"

definition terminate_framing ::
  "frame_decoder \<Rightarrow> framing_fault \<Rightarrow> framing_fault \<times> frame_decoder" where
  "terminate_framing d fault = (fault, d\<lparr>fd_terminal_fault := Some fault\<rparr>)"

definition frame_decode ::
  "frame_decoder \<Rightarrow> bytes \<Rightarrow> (frame_decode_step, framing_fault) result \<times> frame_decoder \<times> bytes"
where
  "frame_decode d input =
     (case fd_terminal_fault d of
        Some fault \<Rightarrow> (Err fault, d, input)
      | None \<Rightarrow>
          if length input < LENGTH_PREFIX_BYTES
          then (Ok (NeedMoreBytes (AwaitingLength (word_of_nat (length input)))), d, input)
          else
            let declared = from_be_bytes (take 4 input) :: u32 in
            if declared < word_of_nat HSMS_HEADER_LENGTH
            then let (fault, d) = terminate_framing d
                       (MessageLengthBelowHeader declared HSMS_HEADER_LENGTH)
                 in (Err fault, d, input)
            else if unat declared > fd_max_message_length d
            then let (fault, d) = terminate_framing d
                       (MessageLengthAboveLimit declared (fd_max_message_length d))
                 in (Err fault, d, input)
            else
              let declared_length = unat declared;
                  available_body = length input - LENGTH_PREFIX_BYTES
              in if available_body < declared_length
                 then (Ok (NeedMoreBytes (PartialBody declared_length available_body)), d, input)
                 else
                   let input = drop LENGTH_PREFIX_BYTES input;
                       body = take declared_length input;
                       input = drop declared_length input
                   in (Ok (Frame \<lparr>rf_header = take HSMS_HEADER_LENGTH body,
                                  rf_text = drop HSMS_HEADER_LENGTH body\<rparr>), d, input))"

subsection \<open>Encoding\<close>

datatype frame_encode_error =
    MessageLengthOverflow usize
  | EncodedFrameLengthOverflow usize
  | Encode_MessageLengthAboveLimit usize usize
  | FrameEncodePanic

record data_frame_plan =
  fp_message_length :: u32
  fp_encoded_length :: usize

definition plan_data :: "usize \<Rightarrow> usize \<Rightarrow> (data_frame_plan, frame_encode_error) result" where
  "plan_data max_message_length text_length =
     bind_res (ok_or (checked_add HSMS_HEADER_LENGTH text_length) (MessageLengthOverflow text_length))
     (\<lambda>message_length.
       if message_length > max_message_length
       then Err (Encode_MessageLengthAboveLimit message_length max_message_length)
       else
         bind_res (ok_or (checked_add LENGTH_PREFIX_BYTES message_length)
                         (EncodedFrameLengthOverflow message_length)) (\<lambda>encoded_length.
           if message_length > 0xFFFFFFFF then Err FrameEncodePanic
           else Ok \<lparr>fp_message_length = word_of_nat message_length,
                    fp_encoded_length = encoded_length\<rparr>))"

definition data_header_bytes :: "data_header \<Rightarrow> bytes" where
  "data_header_bytes h =
     (let session = to_be_bytes 2 (session_id_get (dh_session_id h));
          system = to_be_bytes 4 (dh_system_bytes h);
          stream_and_w = stream_get (dh_stream h) OR (if dh_reply_expected h then 0x80 else 0)
      in [session ! 0, session ! 1, stream_and_w, function_get (dh_function h), 0, 0,
          system ! 0, system ! 1, system ! 2, system ! 3])"

definition control_fields :: "control_message \<Rightarrow> u16 \<times> u8 \<times> u8 \<times> u8 \<times> system_bytes" where
  "control_fields message =
     (case message of
        SelectRequest session system \<Rightarrow> (session, 0, 0, 1, system)
      | SelectResponse session status system \<Rightarrow> (session, 0, status, 2, system)
      | DeselectRequest session system \<Rightarrow> (session, 0, 0, 3, system)
      | DeselectResponse session status system \<Rightarrow> (session, 0, status, 4, system)
      | LinktestRequest system \<Rightarrow> (0xFFFF, 0, 0, 5, system)
      | LinktestResponse system \<Rightarrow> (0xFFFF, 0, 0, 6, system)
      | RejectRequest session header_byte_2 reason system \<Rightarrow>
          (session, header_byte_2, reason, 7, system)
      | SeparateRequest session system \<Rightarrow> (session, 0, 0, 9, system))"

definition control_header_bytes :: "control_message \<Rightarrow> bytes" where
  "control_header_bytes message =
     (let (session_id, header_byte_2, header_byte_3, s_type, system_bytes) = control_fields message;
          session = to_be_bytes 2 session_id;
          system = to_be_bytes 4 system_bytes
      in [session ! 0, session ! 1, header_byte_2, header_byte_3, 0, s_type,
          system ! 0, system ! 1, system ! 2, system ! 3])"

definition write_prefix_and_header :: "data_frame_plan \<Rightarrow> bytes \<Rightarrow> data_header \<Rightarrow> bytes" where
  "write_prefix_and_header plan output header =
     (output @ to_be_bytes 4 (fp_message_length plan)) @ data_header_bytes header"

definition encode_control :: "control_message \<Rightarrow> bytes" where
  "encode_control message =
     to_be_bytes 4 (word_of_nat HSMS_HEADER_LENGTH :: u32) @ control_header_bytes message"

subsection \<open>Validation\<close>

definition violation_of :: "bytes \<Rightarrow> header_violation_kind \<Rightarrow> header_violation" where
  "violation_of header kind = \<lparr>hv_header = header, hv_kind = kind\<rparr>"

definition system_bytes_of :: "bytes \<Rightarrow> system_bytes" where
  "system_bytes_of b = from_be_bytes [b ! 6, b ! 7, b ! 8, b ! 9]"

definition session_bytes_of :: "bytes \<Rightarrow> u16" where
  "session_bytes_of b = from_be_bytes [b ! 0, b ! 1]"

definition require_zero_byte_2 :: "bytes \<Rightarrow> u8 \<Rightarrow> (unit, header_violation) result" where
  "require_zero_byte_2 header byte_2 =
     (if byte_2 = 0 then Ok () else Err (violation_of header InvalidControlHeader))"

definition require_zero_header :: "bytes \<Rightarrow> u8 \<Rightarrow> u8 \<Rightarrow> (unit, header_violation) result" where
  "require_zero_header header byte_2 byte_3 =
     (if byte_2 = 0 \<and> byte_3 = 0 then Ok () else Err (violation_of header InvalidControlHeader))"

definition require_linktest_session :: "bytes \<Rightarrow> u16 \<Rightarrow> (unit, header_violation) result" where
  "require_linktest_session header session =
     (if session = CONTROL_SESSION_ID then Ok ()
      else Err (violation_of header InvalidControlSessionId))"

definition validate_data :: "bytes \<Rightarrow> bytes \<Rightarrow> (validated_frame, header_violation) result" where
  "validate_data header text =
     (let session_value = session_bytes_of header
      in if session_value = CONTROL_SESSION_ID
         then Err (violation_of header InvalidDataSessionId)
         else
           case (session_id_new session_value, stream_new (header ! 2 AND 0x7F)) of
             (Inr session_id, Inr stream) \<Rightarrow>
               Ok (Valid_data
                 \<lparr>wd_header =
                    \<lparr>dh_session_id = session_id,
                     dh_stream = stream,
                     dh_function = Function (header ! 3),
                     dh_reply_expected = (header ! 2 AND 0x80 \<noteq> 0),
                     dh_system_bytes = system_bytes_of header\<rparr>,
                  wd_text = text\<rparr>)
           | _ \<Rightarrow> Err (violation_of header ValidatorPanic))"

definition validate_control :: "bytes \<Rightarrow> u8 \<Rightarrow> (control_message, header_violation) result" where
  "validate_control header s_type =
     (let session = session_bytes_of header; byte_2 = header ! 2; byte_3 = header ! 3;
          system = system_bytes_of header
      in if s_type = 1 then
           bind_res (require_zero_header header byte_2 byte_3) (\<lambda>_.
             Ok (SelectRequest session system))
         else if s_type = 2 then
           bind_res (require_zero_byte_2 header byte_2) (\<lambda>_.
             Ok (SelectResponse session byte_3 system))
         else if s_type = 3 then
           bind_res (require_zero_header header byte_2 byte_3) (\<lambda>_.
             Ok (DeselectRequest session system))
         else if s_type = 4 then
           bind_res (require_zero_byte_2 header byte_2) (\<lambda>_.
             Ok (DeselectResponse session byte_3 system))
         else if s_type = 5 then
           bind_res (require_linktest_session header session) (\<lambda>_.
           bind_res (require_zero_header header byte_2 byte_3) (\<lambda>_.
             Ok (LinktestRequest system)))
         else if s_type = 6 then
           bind_res (require_linktest_session header session) (\<lambda>_.
           bind_res (require_zero_header header byte_2 byte_3) (\<lambda>_.
             Ok (LinktestResponse system)))
         else if s_type = 7 then
           bind_res (ok_or (reject_reason_new byte_3) (violation_of header InvalidControlHeader))
           (\<lambda>reason. Ok (RejectRequest session byte_2 reason system))
         else if s_type = 9 then
           bind_res (require_zero_header header byte_2 byte_3) (\<lambda>_.
             Ok (SeparateRequest session system))
         else Err (violation_of header ValidatorPanic))"

definition validate_frame :: "raw_frame \<Rightarrow> (validated_frame, header_violation) result" where
  "validate_frame raw =
     (let header = rf_header raw; text = rf_text raw; s_type = header ! 5; p_type = header ! 4
      in if s_type \<notin> {0, 1, 2, 3, 4, 5, 6, 7, 9}
         then Err (violation_of header (UnknownSessionType s_type))
         else if p_type \<noteq> 0
         then Err (violation_of header (UnknownPresentationType p_type))
         else if s_type = 0 then validate_data header text
         else if text \<noteq> [] then Err (violation_of header ControlMessageHasText)
         else bind_res (validate_control header s_type) (\<lambda>m. Ok (Valid_control m)))"

subsection \<open>Header writers and validator are inverse\<close>

lemma be_quad: "to_be_bytes 4 w = [to_be_bytes 4 w ! 0, to_be_bytes 4 w ! 1, to_be_bytes 4 w ! 2,
    to_be_bytes 4 w ! 3]"
  by (rule nth_equalityI) (auto simp: less_Suc_eq numeral_eq_Suc)

lemma from_quad [simp]:
  "from_be_bytes [to_be_bytes 4 w ! 0, to_be_bytes 4 w ! Suc 0, to_be_bytes 4 w ! 2,
     to_be_bytes 4 w ! 3] = (w :: u32)"
  using from_to_be_bytes [of 4 w] be_quad [of w] by simp

lemma to_pair [simp]:
  "to_be_bytes 2 (from_be_bytes [a, b] :: u16) = [a, b]"
  by (rule to_from_be_bytes) auto

lemma to_quad [simp]:
  "to_be_bytes 4 (from_be_bytes [a, b, c, d] :: u32) = [a, b, c, d]"
  by (rule to_from_be_bytes) auto

lemma seven_bits: "(s::u8) \<le> 127 \<longleftrightarrow> s AND 0x7F = s"
proof -
  have "s AND 0x7F = take_bit 7 s" by (simp add: take_bit_eq_mask mask_eq_exp_minus_1)
  moreover have "take_bit 7 s = s \<longleftrightarrow> unat s < 2 ^ 7"
    by (simp add: word_eq_iff_unsigned [where 'a = nat] take_bit_nat_eq_self_iff
        unsigned_take_bit_eq)
  moreover have "s \<le> 127 \<longleftrightarrow> unat s < 2 ^ 7" by (auto simp: word_le_nat_alt)
  ultimately show ?thesis by simp
qed

lemma bit_0x80: "bit (0x80 :: u8) n \<longleftrightarrow> n = 7"
  using bit_exp_iff [where 'a = "8 word", of 7 n] by auto

lemma bit_0x7F: "bit (0x7F :: u8) n \<longleftrightarrow> n < 7"
  using bit_mask_iff [where 'a = "8 word", of 7 n] by (auto simp: mask_eq_exp_minus_1)

lemma and_0x80: "(b::u8) AND 0x80 \<noteq> 0 \<longleftrightarrow> bit b 7"
  using and_exp_eq_0_iff_not_bit [of b 7] by simp

lemma stream_byte_split: "(b::u8) = (b AND 0x7F) OR (if b AND 0x80 \<noteq> 0 then 0x80 else 0)"
proof -
  have "b AND 0x80 \<noteq> 0 \<longleftrightarrow> bit b 7" by (rule and_0x80)
  then show ?thesis
    by (intro bit_word_eqI) (auto simp: bit_or_iff bit_and_iff bit_0x80 bit_0x7F less_Suc_eq numeral_eq_Suc
        simp del: bit_numeral_word_iff)
qed

lemma stream_byte_pack:
  assumes "(s::u8) \<le> 127"
  shows "(s OR (if w then 0x80 else 0)) AND 0x7F = s"
    and "(s OR (if w then 0x80 else 0)) AND 0x80 \<noteq> 0 \<longleftrightarrow> w"
proof -
  have s: "bit s n \<Longrightarrow> n < 7" for n
    using assms seven_bits [of s] by (metis bit_0x7F bit_and_iff)
  then show "(s OR (if w then 0x80 else 0)) AND 0x7F = s"
    by (intro bit_word_eqI) (auto simp: bit_or_iff bit_and_iff bit_0x80 bit_0x7F simp del: bit_numeral_word_iff)
  show "(s OR (if w then 0x80 else 0)) AND 0x80 \<noteq> 0 \<longleftrightarrow> w"
    using s [of 7] unfolding and_0x80
    by (auto simp: bit_or_iff bit_0x80 simp del: bit_numeral_word_iff)
qed

lemma length_data_header_bytes [simp]: "length (data_header_bytes h) = HSMS_HEADER_LENGTH"
  by (simp add: data_header_bytes_def Let_def HSMS_HEADER_LENGTH_def)

lemma length_control_header_bytes [simp]: "length (control_header_bytes m) = HSMS_HEADER_LENGTH"
  by (simp add: control_header_bytes_def Let_def HSMS_HEADER_LENGTH_def split: prod.splits)

lemma ten_bytes:
  "length xs = 10 \<Longrightarrow> xs = [xs ! 0, xs ! 1, xs ! 2, xs ! 3, xs ! 4, xs ! 5, xs ! 6, xs ! 7, xs ! 8, xs ! 9]"
  by (rule nth_equalityI) (auto simp: less_Suc_eq numeral_eq_Suc)

lemma validate_data_header:
  assumes "data_header_ok h"
  shows "validate_frame \<lparr>rf_header = data_header_bytes h, rf_text = text\<rparr> =
           Ok (Valid_data \<lparr>wd_header = h, wd_text = text\<rparr>)"
proof -
  have "stream_get (dh_stream h) \<le> 127" "session_id_get (dh_session_id h) \<noteq> 0xFFFF"
    using assms by (auto simp: data_header_ok_def stream_ok_def session_ok_def)
  moreover from this have "\<not> 127 < stream_get (dh_stream h)" by simp
  ultimately show ?thesis
    by (simp add: validate_frame_def validate_data_def data_header_bytes_def Let_def stream_byte_pack
        system_bytes_of_def session_bytes_of_def session_id_new_def stream_new_def CONTROL_SESSION_ID_def
        del: not_less)
qed

lemma validate_control_header:
  "control_ok m \<Longrightarrow>
     validate_frame \<lparr>rf_header = control_header_bytes m, rf_text = []\<rparr> = Ok (Valid_control m)"
  by (cases m)
    (simp_all add: validate_frame_def validate_control_def control_header_bytes_def Let_def
      control_fields_def system_bytes_of_def session_bytes_of_def require_zero_header_def
      require_zero_byte_2_def require_linktest_session_def reject_reason_new_def CONTROL_SESSION_ID_def)

lemma validate_data_inv:
  assumes "length hb = 10" "hb ! 4 = 0" "hb ! 5 = 0" "validate_data hb text = Ok v"
  shows "\<exists>h. v = Valid_data \<lparr>wd_header = h, wd_text = text\<rparr> \<and> hb = data_header_bytes h \<and> data_header_ok h"
proof -
  let ?h = "\<lparr>dh_session_id = SessionId (session_bytes_of hb), dh_stream = Stream (hb ! 2 AND 0x7F),
             dh_function = Function (hb ! 3), dh_reply_expected = (hb ! 2 AND 0x80 \<noteq> 0),
             dh_system_bytes = system_bytes_of hb\<rparr>"
  have v: "v = Valid_data \<lparr>wd_header = ?h, wd_text = text\<rparr>" "data_header_ok ?h"
    using assms(4)
    by (auto simp: validate_data_def Let_def session_id_new_Ok stream_new_ok data_header_ok_def
        split: if_splits sum.splits)
  have "hb = data_header_bytes ?h"
    using ten_bytes [OF assms(1)] assms(2,3) stream_byte_split [of "hb ! 2"]
    by (simp add: data_header_bytes_def Let_def session_bytes_of_def system_bytes_of_def)
  with v show ?thesis by blast
qed

lemma validate_control_inv:
  assumes "length hb = 10" "hb ! 4 = 0" "validate_control hb (hb ! 5) = Ok m"
  shows "hb = control_header_bytes m \<and> control_ok m"
proof -
  have sys: "to_be_bytes 4 (system_bytes_of hb) = [hb ! 6, hb ! 7, hb ! 8, hb ! 9]"
    by (simp add: system_bytes_of_def)
  have ses: "to_be_bytes 2 (session_bytes_of hb) = [hb ! 0, hb ! 1]"
    by (simp add: session_bytes_of_def)
  then have ctl: "session_bytes_of hb = 0xFFFF \<Longrightarrow> to_be_bytes 2 (0xFFFF :: u16) = [hb ! 0, hb ! 1]"
    by simp
  have hb: "hb = [hb ! 0, hb ! 1, hb ! 2, hb ! 3, 0, hb ! 5, hb ! 6, hb ! 7, hb ! 8, hb ! 9]"
    using ten_bytes [OF assms(1)] assms(2) by simp
  show ?thesis
    using assms(3) hb sys ses ctl
    by (auto simp: validate_control_def Let_def res_simps require_zero_header_def
        require_zero_byte_2_def require_linktest_session_def reject_reason_new_def
        CONTROL_SESSION_ID_def control_header_bytes_def control_fields_def split: if_splits)
qed

end
