(* ===== verification/Hsms_Config.thy ===== *)
theory Hsms_Config
  imports Hsms_Wire
begin

section \<open>Endpoint configuration and operation errors\<close>

text \<open>
  \<open>src/hsms/config.rs\<close>, \<open>src/hsms/config/runtime.rs\<close> and the error enums of
  \<open>src/hsms/error.rs\<close>. The monotonic clock's range is platform-dependent: the result of
  \<open>Instant::now().checked_add(d)\<close> is the parameter \<open>clock_fits\<close> of the validation. The
  lemmas say what a validated configuration guarantees to framing, writer and core.
\<close>

subsection \<open>Errors\<close>

text \<open>\<open>MessageContext\<close>: the generation and the ten header bytes of a message.\<close>

record message_context =
  mc_generation :: connection_generation
  mc_header :: bytes

definition context_from_header :: "connection_generation \<Rightarrow> bytes \<Rightarrow> message_context" where
  "context_from_header generation header = \<lparr>mc_generation = generation, mc_header = header\<rparr>"

definition context_from_data :: "connection_generation \<Rightarrow> data_header \<Rightarrow> message_context" where
  "context_from_data generation header =
     (let session = to_be_bytes 2 (session_id_get (dh_session_id header));
          system = to_be_bytes 4 (dh_system_bytes header)
      in \<lparr>mc_generation = generation,
          mc_header =
            [session ! 0, session ! 1,
             stream_get (dh_stream header) OR (if dh_reply_expected header then 0x80 else 0),
             function_get (dh_function header), 0, 0, system ! 0, system ! 1, system ! 2, system ! 3]\<rparr>)"

datatype timeout_kind =
    Timeout_Drain | Timeout_Connect | Timeout_T3 | Timeout_T5 | Timeout_T6 | Timeout_T7
  | Timeout_T8 | Timeout_Linktest

datatype config_error =
    RuntimePolicyError string
  | ZeroDuration string
  | ZeroCapacity string
  | MessageLengthTooSmall usize
  | MessageLengthTooLarge usize
  | InvalidSecs2Limits secs_item_error

datatype protocol_error =
    InvalidPrimaryFunction sfunction
  | Protocol_Violation string
  | ResponseMismatch
  | TransactionAborted

datatype operation_error =
    RequestTimeout message_context
  | NotRunning
  | NotConnected
  | NotSelected_error
  | AlreadySelected
  | ControlBusy
  | SessionDeselected
  | Draining
  | Faulted
  | StaleConnectionGeneration
  | Backpressure
  | SelectRejected u8
  | DeselectRejected u8
  | ReplyCapabilityUnavailable
  | ReplyRequiresAbort
  | PeerRejected reject_reason
  | Timeout timeout_kind
  | ConnectionLost
  | DeliveryIndeterminate
  | RuntimeStopped
  | Encode encode_error
  | OutboundFrameTooLarge usize usize
  | Protocol protocol_error

subsection \<open>Timeouts and limits\<close>

record hsms_timeouts =
  to_connect :: duration
  to_t3 :: duration
  to_t5 :: duration
  to_t6 :: duration
  to_t7 :: duration
  to_t8 :: duration
  to_linktest :: "duration option"

definition timeouts_validate :: "hsms_timeouts \<Rightarrow> (unit, config_error) result" where
  "timeouts_validate t =
     (case find (\<lambda>(field, duration). duration = 0)
         [(''connect'', to_connect t), (''t3'', to_t3 t), (''t5'', to_t5 t), (''t6'', to_t6 t),
          (''t7'', to_t7 t), (''t8'', to_t8 t)] of
        Some (field, _) \<Rightarrow> Err (ZeroDuration field)
      | None \<Rightarrow>
          if to_linktest t = Some 0 then Err (ZeroDuration ''linktest'') else Ok ())"

definition timeouts_new ::
  "duration \<Rightarrow> duration \<Rightarrow> duration \<Rightarrow> duration \<Rightarrow> duration \<Rightarrow> duration \<Rightarrow> duration option \<Rightarrow>
     (hsms_timeouts, config_error) result" where
  "timeouts_new connect t3 t5 t6 t7 t8 linktest =
     (let t = \<lparr>to_connect = connect, to_t3 = t3, to_t5 = t5, to_t6 = t6, to_t7 = t7, to_t8 = t8,
               to_linktest = linktest\<rparr>
      in bind_res (timeouts_validate t) (\<lambda>_. Ok t))"

definition seconds :: "nat \<Rightarrow> duration" where
  "seconds n = n * 1000000000"

definition timeouts_default :: hsms_timeouts where
  "timeouts_default =
     \<lparr>to_connect = seconds 10, to_t3 = seconds 45, to_t5 = seconds 10, to_t6 = seconds 5,
      to_t7 = seconds 10, to_t8 = seconds 5, to_linktest = Some (seconds 30)\<rparr>"

record endpoint_limits =
  el_max_message_length :: usize
  el_command_capacity :: usize
  el_critical_lane_capacity :: usize
  el_data_lane_capacity :: usize
  el_application_event_capacity :: usize
  el_transaction_capacity :: usize
  el_tombstone_capacity :: usize
  el_reply_capability_capacity :: usize

definition limits_validate :: "endpoint_limits \<Rightarrow> (unit, config_error) result" where
  "limits_validate L =
     (if el_max_message_length L < HSMS_HEADER_LENGTH
      then Err (MessageLengthTooSmall (el_max_message_length L))
      else if el_max_message_length L > 0xFFFFFFFF
      then Err (MessageLengthTooLarge (el_max_message_length L))
      else
        case find (\<lambda>(field, value). value = 0)
            [(''command_capacity'', el_command_capacity L),
             (''critical_lane_capacity'', el_critical_lane_capacity L),
             (''data_lane_capacity'', el_data_lane_capacity L),
             (''application_event_capacity'', el_application_event_capacity L),
             (''transaction_capacity'', el_transaction_capacity L),
             (''tombstone_capacity'', el_tombstone_capacity L),
             (''reply_capability_capacity'', el_reply_capability_capacity L)] of
          Some (field, _) \<Rightarrow> Err (ZeroCapacity field)
        | None \<Rightarrow> Ok ())"

definition limits_new ::
  "usize \<Rightarrow> usize \<Rightarrow> usize \<Rightarrow> usize \<Rightarrow> usize \<Rightarrow> usize \<Rightarrow> usize \<Rightarrow> usize \<Rightarrow>
     (endpoint_limits, config_error) result" where
  "limits_new message command critical data event transaction tombstone reply =
     (let L = \<lparr>el_max_message_length = message, el_command_capacity = command,
               el_critical_lane_capacity = critical, el_data_lane_capacity = data,
               el_application_event_capacity = event, el_transaction_capacity = transaction,
               el_tombstone_capacity = tombstone, el_reply_capability_capacity = reply\<rparr>
      in bind_res (limits_validate L) (\<lambda>_. Ok L))"

definition limits_default :: endpoint_limits where
  "limits_default =
     \<lparr>el_max_message_length = 16 * 1024 * 1024, el_command_capacity = 256,
      el_critical_lane_capacity = 32, el_data_lane_capacity = 256,
      el_application_event_capacity = 256, el_transaction_capacity = 256,
      el_tombstone_capacity = 512, el_reply_capability_capacity = 256\<rparr>"

subsection \<open>Runtime policy\<close>

record runtime_policy =
  rp_command_bytes :: u32
  rp_reply_capacity :: usize
  rp_reply_bytes :: u32
  rp_inbound_bytes :: u32
  rp_primary_queue_bytes :: u32
  rp_write_bytes :: u32
  rp_protocol_error_capacity :: usize
  rp_diagnostic_capacity :: usize
  rp_drain :: duration
  rp_residence :: duration
  rp_write :: duration
  rp_cleanup :: duration
  rp_shutdown :: duration
  rp_auto_select :: bool

definition runtime_policy_default :: runtime_policy where
  "runtime_policy_default =
     \<lparr>rp_command_bytes = 64 * 1024 * 1024, rp_reply_capacity = 64,
      rp_reply_bytes = 32 * 1024 * 1024, rp_inbound_bytes = 32 * 1024 * 1024,
      rp_primary_queue_bytes = 32 * 1024 * 1024, rp_write_bytes = 64 * 1024 * 1024,
      rp_protocol_error_capacity = 64, rp_diagnostic_capacity = 64,
      rp_drain = seconds 5, rp_residence = seconds 10, rp_write = seconds 10,
      rp_cleanup = seconds 5, rp_shutdown = seconds 20, rp_auto_select = True\<rparr>"

definition MAX_CAPACITY :: usize where
  "MAX_CAPACITY = 2 ^ 28"

definition runtime_policy_validate ::
  "(duration \<Rightarrow> bool) \<Rightarrow> runtime_policy \<Rightarrow> endpoint_limits \<Rightarrow> hsms_timeouts \<Rightarrow>
     (unit, config_error) result" where
  "runtime_policy_validate clock_fits p L t =
     bind_res (ok_or (checked_add (el_max_message_length L) 4)
                     (RuntimePolicyError ''frame prefix length overflow'')) (\<lambda>frame.
       if unat (rp_command_bytes p) < frame \<or> unat (rp_reply_bytes p) < frame \<or>
          unat (rp_inbound_bytes p) < frame \<or> unat (rp_primary_queue_bytes p) < frame \<or>
          unat (rp_write_bytes p) < frame
       then Err (RuntimePolicyError ''each wire-byte budget must hold one maximum frame'')
       else
         bind_res (ok_or (checked_add (el_critical_lane_capacity L) (el_data_lane_capacity L))
                         (RuntimePolicyError ''Writer lane capacity overflow'')) (\<lambda>lanes.
         bind_res (ok_or (case checked_add (el_command_capacity L) (rp_reply_capacity p) of
                            None \<Rightarrow> None | Some count \<Rightarrow> checked_add count 1)
                         (RuntimePolicyError ''endpoint command capacity overflow''))
         (\<lambda>commands.
           if list_ex (\<lambda>count. count = 0 \<or> count > MAX_CAPACITY)
                [el_command_capacity L, commands, rp_reply_capacity p, unat (rp_reply_bytes p),
                 el_critical_lane_capacity L, el_data_lane_capacity L,
                 el_application_event_capacity L, el_transaction_capacity L,
                 el_tombstone_capacity L, el_reply_capability_capacity L,
                 rp_protocol_error_capacity p, rp_diagnostic_capacity p, lanes,
                 unat (rp_command_bytes p), unat (rp_inbound_bytes p),
                 unat (rp_primary_queue_bytes p), unat (rp_write_bytes p)]
           then Err (RuntimePolicyError
                  ''runtime capacity is zero or exceeds portable channel limits'')
           else if list_ex (\<lambda>duration. duration = 0 \<or> \<not> clock_fits duration)
                [rp_drain p, rp_residence p, rp_write p, rp_cleanup p, rp_shutdown p,
                 to_connect t, to_t3 t, to_t5 t, to_t6 t, to_t7 t, to_t8 t]
           then Err (RuntimePolicyError
                  ''runtime deadline is zero or overflows the monotonic clock'')
           else if (case to_linktest t of None \<Rightarrow> False | Some d \<Rightarrow> \<not> clock_fits d)
           then Err (RuntimePolicyError ''Linktest interval overflows the monotonic clock'')
           else Ok ())))"

subsection \<open>The whole configuration\<close>

datatype connection_mode = Active | Passive

text \<open>The socket address is kept as an opaque value: the configuration only stores it.\<close>

record 'addr endpoint_config =
  ec_runtime :: runtime_policy
  ec_mode :: connection_mode
  ec_address :: 'addr
  ec_session_id :: session_id
  ec_timeouts :: hsms_timeouts
  ec_limits :: endpoint_limits
  ec_secs2_limits :: decode_limits

definition endpoint_config_new :: "connection_mode \<Rightarrow> 'addr \<Rightarrow> session_id \<Rightarrow> 'addr endpoint_config" where
  "endpoint_config_new mode address session =
     \<lparr>ec_runtime = runtime_policy_default, ec_mode = mode, ec_address = address,
      ec_session_id = session, ec_timeouts = timeouts_default, ec_limits = limits_default,
      ec_secs2_limits = decode_limits_default\<rparr>"

definition endpoint_config_validate ::
  "(duration \<Rightarrow> bool) \<Rightarrow> 'addr endpoint_config \<Rightarrow> (unit, config_error) result" where
  "endpoint_config_validate clock_fits c =
     bind_res (timeouts_validate (ec_timeouts c)) (\<lambda>_.
     bind_res (limits_validate (ec_limits c)) (\<lambda>_.
     bind_res (case decode_limits_validate (ec_secs2_limits c) of
                 Inl e \<Rightarrow> Err (InvalidSecs2Limits e) | Inr u \<Rightarrow> Ok u) (\<lambda>_.
     bind_res (runtime_policy_validate clock_fits (ec_runtime c) (ec_limits c) (ec_timeouts c))
       (\<lambda>_. Ok ()))))"

subsection \<open>What validation guarantees\<close>

lemma timeouts_validate_Ok:
  "timeouts_validate t = Ok () \<longleftrightarrow>
     0 < to_connect t \<and> 0 < to_t3 t \<and> 0 < to_t5 t \<and> 0 < to_t6 t \<and> 0 < to_t7 t \<and> 0 < to_t8 t \<and>
     to_linktest t \<noteq> Some 0"
  by (auto simp: timeouts_validate_def)

lemma limits_validate_Ok:
  "limits_validate L = Ok () \<longleftrightarrow>
     10 \<le> el_max_message_length L \<and> el_max_message_length L \<le> 0xFFFFFFFF \<and>
     0 < el_command_capacity L \<and> 0 < el_critical_lane_capacity L \<and> 0 < el_data_lane_capacity L \<and>
     0 < el_application_event_capacity L \<and> 0 < el_transaction_capacity L \<and>
     0 < el_tombstone_capacity L \<and> 0 < el_reply_capability_capacity L"
  by (auto simp: limits_validate_def HSMS_HEADER_LENGTH_def)

lemma runtime_policy_validate_Ok:
  "runtime_policy_validate clock_fits p L t = Ok () \<Longrightarrow>
     el_max_message_length L + 4 \<le> unat (rp_write_bytes p) \<and>
     el_max_message_length L + 4 \<le> unat (rp_inbound_bytes p) \<and>
     el_max_message_length L + 4 \<le> unat (rp_command_bytes p) \<and>
     unat (rp_write_bytes p) \<le> MAX_CAPACITY \<and>
     el_critical_lane_capacity L + el_data_lane_capacity L \<le> MAX_CAPACITY"
  by (auto simp: runtime_policy_validate_def res_simps checked_add_Some split: if_splits option.splits)

lemma endpoint_config_validate_parts:
  "endpoint_config_validate clock_fits c = Ok () \<longleftrightarrow>
     timeouts_validate (ec_timeouts c) = Ok () \<and> limits_validate (ec_limits c) = Ok () \<and>
     decode_limits_validate (ec_secs2_limits c) = Ok () \<and>
     runtime_policy_validate clock_fits (ec_runtime c) (ec_limits c) (ec_timeouts c) = Ok ()"
  by (auto simp: endpoint_config_validate_def res_simps split: sum.splits)

lemma plan_data_Ok:
  "plan_data limit n = Ok p \<longleftrightarrow>
     10 + n \<le> limit \<and> 14 + n \<le> usize_max \<and> 10 + n \<le> 0xFFFFFFFF \<and>
     p = \<lparr>fp_message_length = word_of_nat (10 + n), fp_encoded_length = 14 + n\<rparr>"
  by (auto simp: plan_data_def res_simps checked_add_Some HSMS_HEADER_LENGTH_def
      LENGTH_PREFIX_BYTES_def)

text \<open>A configuration that \<open>EndpointConfig::validate\<close> accepts can always be served:
  framing a message of any length never panics, and every frame the encoder plans has the length
  it announces, fits the four-byte length field and the Writer's byte budget.\<close>

theorem validated_config_frames:
  assumes "endpoint_config_validate clock_fits c = Ok ()"
  shows "plan_data (el_max_message_length (ec_limits c)) n \<noteq> Err FrameEncodePanic \<and>
    (\<forall>p. plan_data (el_max_message_length (ec_limits c)) n = Ok p \<longrightarrow>
       fp_encoded_length p = n + 14 \<and> unat (fp_message_length p) = n + 10 \<and>
       fp_encoded_length p \<le> unat (rp_write_bytes (ec_runtime c)))"
proof -
  note v = assms [unfolded endpoint_config_validate_parts]
  have "el_max_message_length (ec_limits c) \<le> 0xFFFFFFFF"
    using v by (simp add: limits_validate_Ok)
  moreover have "el_max_message_length (ec_limits c) + 4 \<le> unat (rp_write_bytes (ec_runtime c))"
    using v runtime_policy_validate_Ok by blast
  moreover have "unat (word_of_nat (10 + n) :: u32) = n + 10" if "10 + n \<le> 0xFFFFFFFF"
    using that by (simp add: unsigned_of_nat take_bit_nat_eq_self del: of_nat_add)
  ultimately show ?thesis
    by (auto simp: plan_data_Ok simp del: of_nat_add)
      (auto simp: plan_data_def res_simps checked_add_def ok_or_def split: if_splits)
qed

lemma endpoint_config_default_valid:
  "endpoint_config_validate (\<lambda>_. True) (endpoint_config_new mode address session) = Ok ()"
  by (simp add: endpoint_config_validate_parts timeouts_validate_Ok limits_validate_Ok
      decode_limits_default_valid endpoint_config_new_def timeouts_default_def seconds_def
      limits_default_def runtime_policy_default_def runtime_policy_validate_def checked_add_def
      usize_max_def MAX_CAPACITY_def)

lemma validated_config_frames_witness:
  "plan_data (16 * 1024 * 1024) 20 \<noteq> Err FrameEncodePanic"
  using validated_config_frames [OF endpoint_config_default_valid
      [of Active "()" "SessionId 1"], of 20]
  by (simp add: endpoint_config_new_def limits_default_def)

end
