(* ===== verification/Hsms_Codec.thy ===== *)
theory Hsms_Codec
  imports Hsms_Config
begin

section \<open>The composed HSMS-SS codec\<close>

text \<open>
  \<open>src/hsms/profile/secs2.rs\<close> (presence of Message Text and its item), \<open>src/hsms/codec.rs\<close>
  (framing, validation and payload decoding in one step) and the frame building of
  \<open>src/hsms/generation/transport/bounded_writer.rs\<close>: a data frame is reserved with fourteen
  zero bytes before its body and stamped with prefix and header when the core has assigned them.
  The properties: decoding what was sent gives the message back and leaves the bytes that follow,
  and a framing fault is final.
\<close>

subsection \<open>Message Text\<close>

datatype body_plan =
    Plan_absent
  | Plan_item encoded_item_plan

fun body_plan_length :: "body_plan \<Rightarrow> usize" where
  "body_plan_length Plan_absent = 0"
| "body_plan_length (Plan_item plan) = encoded_length plan"

fun body_plan_write_into :: "body_plan \<Rightarrow> bytes \<Rightarrow> (bytes, encode_error) result" where
  "body_plan_write_into Plan_absent output = Ok output"
| "body_plan_write_into (Plan_item plan) output = plan_write_into plan output"

definition decode_text ::
  "decode_limits \<Rightarrow> bytes \<Rightarrow> (secs_item option, decode_error) result" where
  "decode_text L text =
     (if text = [] then Ok None
      else bind_res (decode_item L text) (\<lambda>it. Ok (Some it)))"

definition prepare_body :: "secs_item option \<Rightarrow> (body_plan, encode_error) result" where
  "prepare_body body =
     (case body of
        None \<Rightarrow> Ok Plan_absent
      | Some it \<Rightarrow> bind_res (encoded_item_plan_new it) (\<lambda>plan. Ok (Plan_item plan)))"

subsection \<open>Decoding one step\<close>

record hsms_codec =
  hc_frame_decoder :: frame_decoder
  hc_limits :: decode_limits

datatype codec_step =
    NeedMore frame_read_progress
  | Message protocol_message
  | HeaderViolationStep header_violation
  | PayloadViolationStep payload_violation decode_error

definition hsms_codec_new :: "endpoint_limits \<Rightarrow> decode_limits \<Rightarrow> hsms_codec" where
  "hsms_codec_new limits decoder =
     \<lparr>hc_frame_decoder = frame_decoder_new (el_max_message_length limits), hc_limits = decoder\<rparr>"

fun classify_payload_error :: "decode_error \<Rightarrow> payload_violation_kind" where
  "classify_payload_error (DepthExceeded _ _ _) = ResourceLimitExceeded"
| "classify_payload_error (TotalItemsExceeded _ _ _) = ResourceLimitExceeded"
| "classify_payload_error (ItemBytesExceeded _ _ _) = ResourceLimitExceeded"
| "classify_payload_error (ListItemsExceeded _ _ _) = ResourceLimitExceeded"
| "classify_payload_error (Decode_ArithmeticOverflow _) = ResourceLimitExceeded"
| "classify_payload_error _ = MalformedSecs2"

definition codec_decode ::
  "hsms_codec \<Rightarrow> bytes \<Rightarrow> (codec_step, framing_fault) result \<times> hsms_codec \<times> bytes" where
  "codec_decode c input =
     (let (r, d, input) = frame_decode (hc_frame_decoder c) input;
          c = c\<lparr>hc_frame_decoder := d\<rparr>
      in case r of
           Inl fault \<Rightarrow> (Err fault, c, input)
         | Inr (NeedMoreBytes progress) \<Rightarrow> (Ok (NeedMore progress), c, input)
         | Inr (Frame raw) \<Rightarrow>
             (case validate_frame raw of
                Inl violation \<Rightarrow> (Ok (HeaderViolationStep violation), c, input)
              | Inr (Valid_control message) \<Rightarrow> (Ok (Message (Control message)), c, input)
              | Inr (Valid_data frame) \<Rightarrow>
                  (case decode_text (hc_limits c) (wd_text frame) of
                     Inr body \<Rightarrow>
                       (Ok (Message (Data \<lparr>dm_header = wd_header frame, dm_body = body\<rparr>)), c, input)
                   | Inl source \<Rightarrow>
                       (Ok (PayloadViolationStep
                          \<lparr>pv_header = wd_header frame, pv_kind = classify_payload_error source\<rparr>
                          source), c, input))))"

subsection \<open>Building an outbound frame\<close>

text \<open>
  \<open>try_reserve_message\<close> measures and encodes the body behind fourteen placeholder bytes;
  \<open>admit_reserved_data\<close> overwrites them. The capacity accounting between the two is the Writer's.
\<close>

definition reserve_frame ::
  "endpoint_limits \<Rightarrow> secs_item option \<Rightarrow> (bytes, operation_error) result" where
  "reserve_frame L body =
     (case prepare_body body of
        Inl e \<Rightarrow> Err (Encode e)
      | Inr plan \<Rightarrow>
          (case plan_data (el_max_message_length L) (body_plan_length plan) of
             Inl _ \<Rightarrow> Err (OutboundFrameTooLarge (body_plan_length plan) (el_max_message_length L))
           | Inr frame \<Rightarrow>
               if fp_encoded_length frame > 0xFFFFFFFF then Err Backpressure
               else
                 (case body_plan_write_into plan (replicate 14 0) of
                    Inl e \<Rightarrow> Err (Encode e)
                  | Inr encoded \<Rightarrow> Ok encoded)))"

definition stamp_frame :: "endpoint_limits \<Rightarrow> bytes \<Rightarrow> data_header \<Rightarrow> bytes option" where
  "stamp_frame L prepared header =
     (case plan_data (el_max_message_length L) (length prepared - 14) of
        Inl _ \<Rightarrow> None
      | Inr plan \<Rightarrow> Some (write_prefix_and_header plan [] header @ drop 14 prepared))"

subsection \<open>Framing\<close>

definition framed :: "bytes \<Rightarrow> bytes" where
  "framed message = to_be_bytes 4 (word_of_nat (length message) :: u32) @ message"

lemma length_framed [simp]: "length (framed m) = 4 + length m"
  by (simp add: framed_def)

lemma from_prefix: "length m \<le> 0xFFFFFFFF \<Longrightarrow>
    unat (from_be_bytes (to_be_bytes 4 (word_of_nat (length m) :: u32)) :: u32) = length m"
  by (simp add: from_to_be_bytes unsigned_of_nat take_bit_nat_eq_self)

lemma small_u32: "length m \<le> 0xFFFFFFFF \<Longrightarrow> (word_of_nat (length m) :: u32) < 10 \<longleftrightarrow> length m < 10"
  by (simp add: word_less_nat_alt unsigned_of_nat take_bit_nat_eq_self)

lemma frame_decode_framed:
  assumes "fd_terminal_fault d = None" "10 \<le> length m" "length m \<le> fd_max_message_length d"
    "length m \<le> 0xFFFFFFFF"
  shows "frame_decode d (framed m @ rest) =
           (Ok (Frame \<lparr>rf_header = take 10 m, rf_text = drop 10 m\<rparr>), d, rest)"
  using assms from_prefix [of m]
  by (simp add: frame_decode_def framed_def LENGTH_PREFIX_BYTES_def HSMS_HEADER_LENGTH_def Let_def
      from_to_be_bytes small_u32)

text \<open>Before the last byte of a frame has arrived the decoder consumes nothing and asks for more.\<close>

lemma frame_decode_partial:
  assumes "fd_terminal_fault d = None" "10 \<le> length m" "length m \<le> fd_max_message_length d"
    "length m \<le> 0xFFFFFFFF" "k < length (framed m)"
  shows "\<exists>p. frame_decode d (take k (framed m)) = (Ok (NeedMoreBytes p), d, take k (framed m))"
proof (cases "k < 4")
  case True
  with assms show ?thesis by (simp add: frame_decode_def LENGTH_PREFIX_BYTES_def)
next
  case False
  then have "take 4 (take k (framed m)) = to_be_bytes 4 (word_of_nat (length m) :: u32)"
    by (simp add: framed_def min_def)
  with False assms from_prefix [of m] show ?thesis
    by (simp add: frame_decode_def LENGTH_PREFIX_BYTES_def HSMS_HEADER_LENGTH_def Let_def
        from_to_be_bytes small_u32 min_def del: take_take)
qed

lemma frame_decode_length:
  "frame_decode d input = (Ok (Frame raw), d', rest) \<Longrightarrow> length (rf_header raw) = 10"
  by (auto simp: frame_decode_def Let_def terminate_framing_def HSMS_HEADER_LENGTH_def
      LENGTH_PREFIX_BYTES_def word_less_nat_alt split: option.splits if_splits)

subsection \<open>Validation is exact\<close>

fun frame_image :: "validated_frame \<Rightarrow> raw_frame" where
  "frame_image (Valid_data f) =
     \<lparr>rf_header = data_header_bytes (wd_header f), rf_text = wd_text f\<rparr>"
| "frame_image (Valid_control m) = \<lparr>rf_header = control_header_bytes m, rf_text = []\<rparr>"

fun validated_ok :: "validated_frame \<Rightarrow> bool" where
  "validated_ok (Valid_data f) = data_header_ok (wd_header f)"
| "validated_ok (Valid_control m) = control_ok m"

lemma validate_frame_cases:
  assumes "validate_frame raw = Ok v"
  shows "(rf_header raw ! 5 = 0 \<and> rf_header raw ! 4 = 0 \<and>
            validate_data (rf_header raw) (rf_text raw) = Ok v) \<or>
         (rf_header raw ! 4 = 0 \<and> rf_text raw = [] \<and>
            (\<exists>m. v = Valid_control m \<and> validate_control (rf_header raw) (rf_header raw ! 5) = Ok m))"
  using assms by (auto simp: validate_frame_def Let_def res_simps split: if_splits)

text \<open>C11: The strict validator accepts a frame exactly when it is the ten-byte header our own
  writers produce for a well-formed data or control message, with no text after a control header:
  header layout and validation are inverse to each other, and nothing else is accepted.\<close>

theorem validate_frame_iff:
  assumes "length (rf_header raw) = 10"
  shows "validate_frame raw = Ok v \<longleftrightarrow> raw = frame_image v \<and> validated_ok v"
proof
  assume "validate_frame raw = Ok v"
  then show "raw = frame_image v \<and> validated_ok v"
  proof (elim validate_frame_cases [THEN disjE] conjE exE)
    assume "rf_header raw ! 5 = 0" "rf_header raw ! 4 = 0"
      "validate_data (rf_header raw) (rf_text raw) = Ok v"
    with validate_data_inv [OF assms] obtain h where
      "v = Valid_data \<lparr>wd_header = h, wd_text = rf_text raw\<rparr>" "rf_header raw = data_header_bytes h"
      "data_header_ok h" by blast
    then show ?thesis by simp
  next
    fix m
    assume "rf_header raw ! 4 = 0" "rf_text raw = []" "v = Valid_control m"
      "validate_control (rf_header raw) (rf_header raw ! 5) = Ok m"
    with validate_control_inv [OF assms] show ?thesis by simp
  qed
next
  assume R: "raw = frame_image v \<and> validated_ok v"
  show "validate_frame raw = Ok v"
  proof (cases v)
    case (Valid_data f)
    with R validate_data_header [of "wd_header f" "wd_text f"] show ?thesis by simp
  next
    case (Valid_control m)
    with R validate_control_header [of m] show ?thesis by simp
  qed
qed

lemma validate_frame_iff_witness:
  "validate_frame \<lparr>rf_header = control_header_bytes (RejectRequest 7 0 4 9), rf_text = []\<rparr>
     = Ok (Valid_control (RejectRequest 7 0 4 9)) \<longleftrightarrow>
   \<lparr>rf_header = control_header_bytes (RejectRequest 7 0 4 9), rf_text = []\<rparr>
     = frame_image (Valid_control (RejectRequest 7 0 4 9)) \<and>
   validated_ok (Valid_control (RejectRequest 7 0 4 9))"
  by (rule validate_frame_iff) (simp add: HSMS_HEADER_LENGTH_def)

text \<open>A rejected header is reported unchanged, with the kind the order of the checks decides:
  an unknown session type first, then an unknown presentation type, then text after a control
  header; the validator never panics.\<close>

theorem validate_frame_error:
  assumes "length (rf_header raw) = 10" "validate_frame raw = Err v"
  shows "hv_header v = rf_header raw \<and> hv_kind v \<noteq> ValidatorPanic \<and>
    (hv_kind v = UnknownSessionType (rf_header raw ! 5) \<longleftrightarrow>
       rf_header raw ! 5 \<notin> {0, 1, 2, 3, 4, 5, 6, 7, 9}) \<and>
    (hv_kind v = UnknownPresentationType (rf_header raw ! 4) \<longleftrightarrow>
       rf_header raw ! 5 \<in> {0, 1, 2, 3, 4, 5, 6, 7, 9} \<and> rf_header raw ! 4 \<noteq> 0)"
proof -
  have "stream_new (b AND 0x7F) = Ok (Stream (b AND 0x7F))" for b
  proof -
    have "b AND 0x7F \<le> 127" by (simp add: seven_bits and.assoc)
    then show ?thesis by (simp add: stream_new_def)
  qed
  then show ?thesis
    using assms(2)
    by (auto simp: validate_frame_def validate_data_def validate_control_def Let_def violation_of_def
        session_id_new_def CONTROL_SESSION_ID_def res_simps ok_or_def require_zero_header_def
        require_zero_byte_2_def require_linktest_session_def split: if_splits option.splits)
qed

lemma validate_frame_error_witness:
  "hv_kind \<lparr>hv_header = [0, 1, 0, 0, 3, 8, 0, 0, 0, 7], hv_kind = UnknownSessionType 8\<rparr>
     \<noteq> ValidatorPanic"
  using validate_frame_error
    [of "\<lparr>rf_header = [0, 1, 0, 0, 3, 8, 0, 0, 0, 7], rf_text = []\<rparr>"
        "\<lparr>hv_header = [0, 1, 0, 0, 3, 8, 0, 0, 0, 7], hv_kind = UnknownSessionType 8\<rparr>"]
  by (simp add: validate_frame_def Let_def violation_of_def)

subsection \<open>Decoding what was sent\<close>

definition codec_ready :: "hsms_codec \<Rightarrow> endpoint_limits \<Rightarrow> bool" where
  "codec_ready c L \<longleftrightarrow>
     fd_terminal_fault (hc_frame_decoder c) = None \<and>
     fd_max_message_length (hc_frame_decoder c) = el_max_message_length L"

lemma codec_ready_new [simp]: "codec_ready (hsms_codec_new L D) L"
  by (simp add: codec_ready_def hsms_codec_new_def frame_decoder_new_def)

fun body_bytes :: "secs_item option \<Rightarrow> bytes" where
  "body_bytes None = []"
| "body_bytes (Some it) = enc it"

lemma prepare_body_Ok:
  "prepare_body body = Ok plan \<Longrightarrow>
     body_plan_length plan = length (body_bytes body) \<and>
     body_plan_write_into plan out = Ok (out @ body_bytes body) \<and>
     (\<forall>it. body = Some it \<longrightarrow> encodable it \<and> length (enc it) \<le> usize_max)"
  by (auto simp: prepare_body_def res_simps encoded_item_plan_new_def plan_write_into_def
      measure_item_Ok write_item_tree_fits split: option.splits)

lemma reserve_frame_Ok:
  assumes "reserve_frame L body = Ok prep"
  shows "prep = replicate 14 0 @ body_bytes body \<and>
         10 + length (body_bytes body) \<le> el_max_message_length L \<and>
         14 + length (body_bytes body) \<le> 0xFFFFFFFF \<and>
         (\<forall>it. body = Some it \<longrightarrow> encodable it \<and> length (enc it) \<le> usize_max)"
proof -
  from assms obtain plan where plan: "prepare_body body = Ok plan"
    by (auto simp: reserve_frame_def split: sum.splits)
  note pb = prepare_body_Ok [OF plan, of "replicate 14 0"]
  from plan assms obtain frame where frame:
    "plan_data (el_max_message_length L) (body_plan_length plan) = Ok frame"
    "fp_encoded_length frame \<le> 0xFFFFFFFF"
    by (auto simp: reserve_frame_def split: sum.splits if_splits)
  then have "prep = replicate 14 0 @ body_bytes body"
    using plan assms pb by (simp add: reserve_frame_def)
  moreover note frame [unfolded plan_data_Ok]
  ultimately show ?thesis using pb by auto
qed

lemma stamp_reserved:
  assumes "reserve_frame L body = Ok prep"
  shows "stamp_frame L prep h = Some (framed (data_header_bytes h @ body_bytes body))"
proof -
  note r = reserve_frame_Ok [OF assms]
  have "plan_data (el_max_message_length L) (length (body_bytes body)) =
      Ok \<lparr>fp_message_length = word_of_nat (10 + length (body_bytes body)),
          fp_encoded_length = 14 + length (body_bytes body)\<rparr>"
    using r by (simp add: plan_data_Ok usize_max_def)
  then show ?thesis
    using r by (simp add: stamp_frame_def write_prefix_and_header_def framed_def HSMS_HEADER_LENGTH_def)
qed

lemma encode_control_framed: "encode_control m = framed (control_header_bytes m)"
  by (simp add: encode_control_def framed_def HSMS_HEADER_LENGTH_def)

definition sendable :: "decode_limits \<Rightarrow> data_message \<Rightarrow> bool" where
  "sendable D m \<longleftrightarrow>
     data_header_ok (dm_header m) \<and> (\<forall>it. dm_body m = Some it \<longrightarrow> acceptable D it)"

lemma decode_text_body:
  assumes "\<forall>it. body = Some it \<longrightarrow> acceptable D it \<and> encodable it \<and> length (enc it) \<le> usize_max"
  shows "decode_text D (body_bytes body) = Ok body"
proof (cases body)
  case None
  then show ?thesis by (simp add: decode_text_def)
next
  case (Some it)
  then have "encode_to_vec it = Ok (enc it)" "acceptable D it"
    using assms by (simp_all add: encode_to_vec_Ok)
  then have "decode_item D (enc it) = Ok it"
    by (rule secs2.decode_encode [rotated])
  moreover have "enc it \<noteq> []"
    using calculation by (auto simp: decode_item_def)
  ultimately show ?thesis using Some by (simp add: decode_text_def)
qed

text \<open>C12: Data round trip: when the header is valid and the body, if there is one, lies within the
  receiving codec's decode limits, the frame built for the message (body measured, encoded and
  reserved first, prefix and header stamped afterwards) decodes to exactly that message, present or
  absent text included, and leaves the bytes after it untouched; stamping a reserved frame cannot
  fail. A body beyond those limits can be framed too, and the receiver refuses it.\<close>

theorem codec_decode_sent_data:
  assumes "codec_ready c L" "sendable (hc_limits c) m" "reserve_frame L (dm_body m) = Ok prep"
  shows "\<exists>bs. stamp_frame L prep (dm_header m) = Some bs \<and> length bs = length prep \<and>
           codec_decode c (bs @ rest) = (Ok (Message (Data m)), c, rest)"
proof -
  let ?b = "body_bytes (dm_body m)" and ?h = "dm_header m"
  let ?m = "data_header_bytes ?h @ ?b"
  note r = reserve_frame_Ok [OF assms(3)]
  have "frame_decode (hc_frame_decoder c) (framed ?m @ rest) =
      (Ok (Frame \<lparr>rf_header = take 10 ?m, rf_text = drop 10 ?m\<rparr>), hc_frame_decoder c, rest)"
    using r assms(1) by (intro frame_decode_framed) (auto simp: codec_ready_def HSMS_HEADER_LENGTH_def)
  moreover have "validate_frame \<lparr>rf_header = data_header_bytes ?h, rf_text = ?b\<rparr> =
      Ok (Valid_data \<lparr>wd_header = ?h, wd_text = ?b\<rparr>)"
    using assms(2) by (intro validate_data_header) (simp add: sendable_def)
  moreover have "decode_text (hc_limits c) ?b = Ok (dm_body m)"
    using assms(2) r by (intro decode_text_body) (auto simp: sendable_def)
  ultimately have "codec_decode c (framed ?m @ rest) = (Ok (Message (Data m)), c, rest)"
    by (simp add: codec_decode_def Let_def HSMS_HEADER_LENGTH_def)
  with stamp_reserved [OF assms(3), of ?h] r show ?thesis
    by (auto simp: HSMS_HEADER_LENGTH_def)
qed

text \<open>A message used by the witnesses.\<close>

definition sample_header :: data_header where
  "sample_header = \<lparr>dh_session_id = SessionId 7, dh_stream = Stream 1, dh_function = Function 13,
     dh_reply_expected = True, dh_system_bytes = 0x01020304\<rparr>"

lemma codec_decode_sent_data_witness:
  "\<exists>bs. stamp_frame limits_default (replicate 14 0 @ [0x41, 1, 0x48]) sample_header = Some bs \<and>
     length bs = 17 \<and>
     codec_decode (hsms_codec_new limits_default decode_limits_default) (bs @ [0xFF]) =
       (Ok (Message (Data \<lparr>dm_header = sample_header, dm_body = Some (Item_Ascii [0x48])\<rparr>)),
        hsms_codec_new limits_default decode_limits_default, [0xFF])"
proof -
  let ?m = "\<lparr>dm_header = sample_header, dm_body = Some (Item_Ascii [0x48])\<rparr>"
  let ?c = "hsms_codec_new limits_default decode_limits_default"
  have ok: "encodable (Item_Ascii [0x48])" "enc (Item_Ascii [0x48]) = [0x41, 1, 0x48]"
    by (simp_all add: node_fits_def node_bytes_def min_count_def format_byte_def
        MAX_ENCODED_ITEM_LENGTH_def)
  then have "encoded_item_plan_new (Item_Ascii [0x48]) =
      Ok \<lparr>plan_item = Item_Ascii [0x48], encoded_length = 3\<rparr>"
    by (simp add: encoded_item_plan_new_def res_simps measure_item_Ok usize_max_def)
  then have "reserve_frame limits_default (dm_body ?m) = Ok (replicate 14 0 @ [0x41, 1, 0x48])"
    using ok by (simp add: reserve_frame_def prepare_body_def plan_data_def limits_default_def
        checked_add_def usize_max_def HSMS_HEADER_LENGTH_def LENGTH_PREFIX_BYTES_def
        plan_write_into_def write_item_tree_fits)
  moreover have "sendable (hc_limits ?c) ?m"
    using ok by (simp add: sendable_def acceptable_def data_header_ok_def session_ok_def stream_ok_def
        sample_header_def is_ascii_def hsms_codec_new_def decode_limits_default_def slice_ok_def
        MAX_ENCODED_ITEM_LENGTH_def)
  ultimately show ?thesis
    using codec_decode_sent_data [of ?c limits_default ?m _ "[0xFF]"] by auto
qed

text \<open>Control round trip: every well-formed control message decodes to itself from the fourteen
  bytes written for it, whatever follows.\<close>

theorem codec_decode_sent_control:
  assumes "codec_ready c L" "limits_validate L = Ok ()" "control_ok m"
  shows "length (encode_control m) = 14 \<and>
         codec_decode c (encode_control m @ rest) = (Ok (Message (Control m)), c, rest)"
proof -
  have "frame_decode (hc_frame_decoder c) (framed (control_header_bytes m) @ rest) =
      (Ok (Frame \<lparr>rf_header = take 10 (control_header_bytes m), rf_text = drop 10 (control_header_bytes m)\<rparr>),
       hc_frame_decoder c, rest)"
    using assms(1,2) by (intro frame_decode_framed)
      (auto simp: codec_ready_def limits_validate_Ok HSMS_HEADER_LENGTH_def)
  with validate_control_header [OF assms(3)] show ?thesis
    by (simp add: encode_control_framed codec_decode_def Let_def HSMS_HEADER_LENGTH_def)
qed

lemma codec_decode_sent_control_witness:
  "length (encode_control (SelectRequest 0xFFFF 5)) = 14 \<and>
   codec_decode (hsms_codec_new limits_default decode_limits_default)
     (encode_control (SelectRequest 0xFFFF 5) @ [1, 2]) =
     (Ok (Message (Control (SelectRequest 0xFFFF 5))),
      hsms_codec_new limits_default decode_limits_default, [1, 2])"
  by (rule codec_decode_sent_control [of _ limits_default])
    (simp_all add: limits_validate_Ok limits_default_def)

text \<open>A framing fault is final: once the decoder has reported one it consumes nothing more and
  reports the same fault for every further input.\<close>

theorem codec_fault_sticky:
  assumes "codec_decode c input = (Err fault, c', rest)"
  shows "rest = input \<and> codec_decode c' input' = (Err fault, c', input')"
  using assms
  by (auto simp: codec_decode_def frame_decode_def terminate_framing_def Let_def
      split: sum.splits option.splits if_splits frame_decode_step.splits validated_frame.splits
        prod.splits)

lemma codec_fault_sticky_witness:
  "\<exists>c'. codec_decode (hsms_codec_new limits_default decode_limits_default) [0, 0, 0, 9, 1]
          = (Err (MessageLengthBelowHeader 9 10), c', [0, 0, 0, 9, 1]) \<and>
        codec_decode c' (encode_control (LinktestRequest 1))
          = (Err (MessageLengthBelowHeader 9 10), c', encode_control (LinktestRequest 1))"
proof -
  have "\<exists>c'. codec_decode (hsms_codec_new limits_default decode_limits_default) [0, 0, 0, 9, 1]
          = (Err (MessageLengthBelowHeader 9 10), c', [0, 0, 0, 9, 1])"
    by (simp add: codec_decode_def frame_decode_def hsms_codec_new_def frame_decoder_new_def
        terminate_framing_def LENGTH_PREFIX_BYTES_def HSMS_HEADER_LENGTH_def Let_def
        from_be_bytes_def be_nat_def)
  then show ?thesis using codec_fault_sticky by blast
qed

end
