(* ===== verification/Hsms_Transaction.thy ===== *)
theory Hsms_Transaction
  imports Hsms_Protocol
begin

section \<open>Response contracts and tombstones\<close>

text \<open>
  \<open>src/hsms/core/transaction.rs\<close>: the immutable matching contract of an outbound request, the
  attribution of a peer Reject, and the bounded FIFO of contracts already completed (a
  \<open>VecDeque\<close>, front first).
\<close>

definition matches_data_reject ::
  "session_id \<Rightarrow> system_bytes \<Rightarrow> u16 \<Rightarrow> u8 \<Rightarrow> reject_reason \<Rightarrow> system_bytes \<Rightarrow> bool" where
  "matches_data_reject expected_session expected_system session byte_2 reason system =
     (if session_id_get expected_session \<noteq> session \<or> expected_system \<noteq> system then False
      else if reason = 2 then byte_2 = 0
      else if reason = 1 \<or> reason = 3 \<or> reason = 4 then byte_2 = 0
      else False)"

datatype response_match = Match_normal | Match_abort | Match_mismatch

record response_contract =
  rc_session_id :: session_id
  rc_system_bytes :: system_bytes
  rc_stream :: stream
  rc_normal_function :: "sfunction option"

definition contract_for_request ::
  "session_id \<Rightarrow> system_bytes \<Rightarrow> stream \<Rightarrow> sfunction \<Rightarrow> response_contract" where
  "contract_for_request session system stream primary_function =
     \<lparr>rc_session_id = session, rc_system_bytes = system, rc_stream = stream,
      rc_normal_function = map_option Function (checked_succ (function_get primary_function))\<rparr>"

definition contract_request_header :: "response_contract \<Rightarrow> data_header" where
  "contract_request_header c =
     \<lparr>dh_session_id = rc_session_id c, dh_stream = rc_stream c,
      dh_function = Function (case rc_normal_function c of
                                None \<Rightarrow> 255 | Some function \<Rightarrow> function_get function - 1),
      dh_reply_expected = True, dh_system_bytes = rc_system_bytes c\<rparr>"

definition matches_base_header :: "response_contract \<Rightarrow> data_header \<Rightarrow> bool" where
  "matches_base_header c h \<longleftrightarrow>
     rc_session_id c = dh_session_id h \<and> rc_system_bytes c = dh_system_bytes h \<and>
     rc_stream c = dh_stream h"

definition contract_classify :: "response_contract \<Rightarrow> data_message \<Rightarrow> response_match" where
  "contract_classify c m =
     (let header = dm_header m
      in if \<not> matches_base_header c header \<or> dh_reply_expected header then Match_mismatch
         else if dh_function header = Function 0
         then if dm_body m = None then Match_abort else Match_mismatch
         else if rc_normal_function c = Some (dh_function header) then Match_normal
         else Match_mismatch)"

definition contract_matches_reject ::
  "response_contract \<Rightarrow> u16 \<Rightarrow> u8 \<Rightarrow> reject_reason \<Rightarrow> system_bytes \<Rightarrow> bool" where
  "contract_matches_reject c =
     matches_data_reject (rc_session_id c) (rc_system_bytes c)"

subsection \<open>Tombstones\<close>

record tombstones =
  tb_capacity :: usize
  tb_entries :: "response_contract list"

definition tombstones_new :: "usize \<Rightarrow> tombstones" where
  "tombstones_new capacity = \<lparr>tb_capacity = capacity, tb_entries = []\<rparr>"

definition tombstones_insert :: "response_contract \<Rightarrow> tombstones \<Rightarrow> tombstones" where
  "tombstones_insert contract t =
     (if tb_capacity t = 0 then t
      else
        let entries = if length (tb_entries t) = tb_capacity t then tl (tb_entries t)
                      else tb_entries t
        in t\<lparr>tb_entries := entries @ [contract]\<rparr>)"

definition contains_message :: "tombstones \<Rightarrow> data_message \<Rightarrow> bool" where
  "contains_message t m \<longleftrightarrow>
     list_ex (\<lambda>contract. contract_classify contract m \<noteq> Match_mismatch) (tb_entries t)"

definition contains_reject ::
  "tombstones \<Rightarrow> u16 \<Rightarrow> u8 \<Rightarrow> reject_reason \<Rightarrow> system_bytes \<Rightarrow> bool" where
  "contains_reject t session byte_2 reason system \<longleftrightarrow>
     list_ex (\<lambda>contract. contract_matches_reject contract session byte_2 reason system)
       (tb_entries t)"

definition tombstones_ok :: "tombstones \<Rightarrow> bool" where
  "tombstones_ok t \<longleftrightarrow> length (tb_entries t) \<le> tb_capacity t"

lemma tombstones_insert_capacity [simp]: "tb_capacity (tombstones_insert c t) = tb_capacity t"
  by (simp add: tombstones_insert_def Let_def)

lemma tombstones_insert_ok: "tombstones_ok t \<Longrightarrow> tombstones_ok (tombstones_insert c t)"
  by (auto simp: tombstones_ok_def tombstones_insert_def Let_def)

lemma tombstones_new_ok [simp]: "tombstones_ok (tombstones_new k)"
  by (simp add: tombstones_new_def tombstones_ok_def)

text \<open>The FIFO holds the last \<open>capacity\<close> contracts inserted, oldest first.\<close>

definition last_n :: "nat \<Rightarrow> 'a list \<Rightarrow> 'a list" where
  "last_n n xs = drop (length xs - n) xs"

text \<open>After any sequence of insertions into a new tombstone store it holds exactly the last
  \<open>capacity\<close> contracts, oldest first: never more than the capacity, and never a newer contract
  evicted before an older one.\<close>

theorem tombstones_fifo:
  "tb_entries (fold tombstones_insert cs (tombstones_new k)) = last_n k cs"
proof -
  have "tb_entries (fold tombstones_insert cs (tombstones_new k)) = last_n k cs \<and>
        tb_capacity (fold tombstones_insert cs (tombstones_new k)) = k"
  proof (induction cs rule: rev_induct)
    case Nil
    then show ?case by (simp add: tombstones_new_def last_n_def)
  next
    case (snoc c cs)
    then show ?case
      by (auto simp: tombstones_insert_def Let_def last_n_def tl_drop drop_Suc
          Suc_diff_le not_less_eq_eq)
  qed
  then show ?thesis by simp
qed

subsection \<open>What a contract matches\<close>

text \<open>A response contract is exact: it accepts as normal Secondary only the header with its own
  session, stream and system bytes, W clear and the request's function plus one; as abort only the
  header-only F0; nothing else, so a request with function 255 can only be aborted.\<close>

theorem contract_classify_exact:
  "contract_classify (contract_for_request session system stream f) m =
     (if dh_session_id (dm_header m) = session \<and> dh_system_bytes (dm_header m) = system \<and>
         dh_stream (dm_header m) = stream \<and> \<not> dh_reply_expected (dm_header m)
      then if function_get (dh_function (dm_header m)) = 0
           then if dm_body m = None then Match_abort else Match_mismatch
           else if function_get f \<noteq> 255 \<and>
                   function_get (dh_function (dm_header m)) = function_get f + 1
           then Match_normal else Match_mismatch
      else Match_mismatch)"
  by (cases f; cases "dh_function (dm_header m)")
    (auto simp: contract_classify_def contract_for_request_def matches_base_header_def Let_def
      checked_succ_def)

text \<open>The header a timed-out request reports is the one it was sent with.\<close>

theorem contract_request_header_exact:
  "contract_request_header (contract_for_request session system stream f) =
     \<lparr>dh_session_id = session, dh_stream = stream, dh_function = f, dh_reply_expected = True,
      dh_system_bytes = system\<rparr>"
  by (cases f) (auto simp: contract_request_header_def contract_for_request_def checked_succ_def)

lemma contract_classify_system:
  "contract_classify c m \<noteq> Match_mismatch \<Longrightarrow> rc_system_bytes c = dh_system_bytes (dm_header m)"
  by (auto simp: contract_classify_def Let_def matches_base_header_def split: if_splits)

lemma contract_for_request_system [simp]:
  "rc_system_bytes (contract_for_request session system stream f) = system"
  by (simp add: contract_for_request_def)

end
