(* ===== verification/Ordered_Map.thy ===== *)
theory Ordered_Map
  imports Prelude
begin

section \<open>Ordered maps\<close>

text \<open>
  The core keeps its registries in \<open>BTreeMap\<close>s and \<open>HashMap\<close>s. Their interface, as the core
  uses it, is the locale \<open>ordered_map\<close>; the model's registries are association lists sorted by
  key, which is also the iteration order of a \<open>BTreeMap\<close>. Where the source iterates over a
  \<open>HashMap\<close> it either sorts what it collected or does not depend on the order.
\<close>

type_synonym ('k, 'v) omap = "('k \<times> 'v) list"

fun om_insert :: "'k::linorder \<Rightarrow> 'v \<Rightarrow> ('k, 'v) omap \<Rightarrow> ('k, 'v) omap" where
  "om_insert k v [] = [(k, v)]"
| "om_insert k v ((k', v') # m) =
     (if k < k' then (k, v) # (k', v') # m
      else if k = k' then (k, v) # m
      else (k', v') # om_insert k v m)"

definition om_lookup :: "('k, 'v) omap \<Rightarrow> 'k \<Rightarrow> 'v option" where
  "om_lookup m k = map_of m k"

definition om_remove :: "'k \<Rightarrow> ('k, 'v) omap \<Rightarrow> ('k, 'v) omap" where
  "om_remove k m = filter (\<lambda>(k', _). k' \<noteq> k) m"

definition om_keys :: "('k, 'v) omap \<Rightarrow> 'k list" where
  "om_keys m = map fst m"

definition om_values :: "('k, 'v) omap \<Rightarrow> 'v list" where
  "om_values m = map snd m"

definition om_map_values :: "('v \<Rightarrow> 'w) \<Rightarrow> ('k, 'v) omap \<Rightarrow> ('k, 'w) omap" where
  "om_map_values f m = map (\<lambda>(k, v). (k, f v)) m"

definition om_ok :: "('k::linorder, 'v) omap \<Rightarrow> bool" where
  "om_ok m \<longleftrightarrow> sorted_wrt (<) (om_keys m)"

subsection \<open>The interface\<close>

locale ordered_map =
  fixes insert :: "'k::linorder \<Rightarrow> 'v \<Rightarrow> 'm \<Rightarrow> 'm"
    and lookup :: "'m \<Rightarrow> 'k \<Rightarrow> 'v option"
    and remove :: "'k \<Rightarrow> 'm \<Rightarrow> 'm"
    and keys :: "'m \<Rightarrow> 'k list"
    and ok :: "'m \<Rightarrow> bool"
  assumes lookup_insert: "ok m \<Longrightarrow> lookup (insert k v m) k' = (if k = k' then Some v else lookup m k')"
    and lookup_remove: "lookup (remove k m) k' = (if k = k' then None else lookup m k')"
    and keys_lookup: "k \<in> set (keys m) \<longleftrightarrow> lookup m k \<noteq> None"
    and keys_sorted: "ok m \<Longrightarrow> sorted_wrt (<) (keys m)"
    and insert_ok: "ok m \<Longrightarrow> ok (insert k v m)"
    and remove_ok: "ok m \<Longrightarrow> ok (remove k m)"
begin

lemma keys_distinct: "ok m \<Longrightarrow> distinct (keys m)"
  using keys_sorted by (simp add: strict_sorted_iff)

lemma set_keys_insert: "ok m \<Longrightarrow> set (keys (insert k v m)) = {k} \<union> set (keys m)"
  by (auto simp: keys_lookup lookup_insert split: if_splits)

lemma set_keys_remove: "set (keys (remove k m)) = set (keys m) - {k}"
  by (auto simp: keys_lookup lookup_remove split: if_splits)

lemma keys_unique:
  "ok m \<Longrightarrow> ok m' \<Longrightarrow> set (keys m) = set (keys m') \<Longrightarrow> keys m = keys m'"
  by (metis keys_sorted sorted_list_of_set.idem_if_sorted_distinct strict_sorted_iff)

lemma length_keys: "ok m \<Longrightarrow> length (keys m) = card (set (keys m))"
  using keys_distinct distinct_card by metis

lemma length_insert_fresh:
  "ok m \<Longrightarrow> lookup m k = None \<Longrightarrow> length (keys (insert k v m)) = Suc (length (keys m))"
  by (simp add: length_keys insert_ok set_keys_insert keys_lookup)

lemma length_insert_le: "ok m \<Longrightarrow> length (keys (insert k v m)) \<le> Suc (length (keys m))"
  by (simp add: length_keys insert_ok set_keys_insert card_insert_le_m1 card_insert_if)

lemma length_remove_le: "ok m \<Longrightarrow> length (keys (remove k m)) \<le> length (keys m)"
  by (simp add: length_keys remove_ok set_keys_remove card_mono)

end

subsection \<open>Sorted association lists provide it\<close>

lemma om_keys_insert: "set (om_keys (om_insert k v m)) = {k} \<union> set (om_keys m)"
  by (induction k v m rule: om_insert.induct) (auto simp: om_keys_def)

lemma om_insert_ok: "om_ok m \<Longrightarrow> om_ok (om_insert k v m)"
proof (induction k v m rule: om_insert.induct)
  case (2 k v k' v' m)
  then show ?case
    using om_keys_insert [of k v m] by (auto simp: om_ok_def om_keys_def)
qed (auto simp: om_ok_def om_keys_def)

lemma om_remove_ok: "om_ok m \<Longrightarrow> om_ok (om_remove k m)"
  by (induction m) (auto simp: om_ok_def om_keys_def om_remove_def)

lemma om_lookup_notin: "k \<notin> set (om_keys m) \<Longrightarrow> om_lookup m k = None"
  by (simp add: om_lookup_def om_keys_def map_of_eq_None_iff)

interpretation om: ordered_map om_insert om_lookup om_remove om_keys om_ok
proof
  fix m :: "('k::linorder, 'v) omap" and k k' v
  show "om_lookup (om_insert k v m) k' = (if k = k' then Some v else om_lookup m k')" if "om_ok m"
    using that
    by (induction k v m rule: om_insert.induct)
      (auto simp: om_lookup_def om_ok_def om_keys_def split: if_splits)
  show "om_lookup (om_remove k m) k' = (if k = k' then None else om_lookup m k')"
    by (induction m) (auto simp: om_lookup_def om_remove_def)
  show "k \<in> set (om_keys m) \<longleftrightarrow> om_lookup m k \<noteq> None"
    by (auto simp: om_lookup_def om_keys_def map_of_eq_None_iff)
qed (auto simp: om_ok_def intro: om_insert_ok [unfolded om_ok_def] om_remove_ok [unfolded om_ok_def])

lemma om_ok_Nil [simp]: "om_ok []"
  by (simp add: om_ok_def om_keys_def)

lemma om_lookup_Nil [simp]: "om_lookup [] k = None"
  by (simp add: om_lookup_def)

lemma om_keys_Nil [simp]: "om_keys [] = []"
  by (simp add: om_keys_def)

lemma om_values_Nil [simp]: "om_values [] = []"
  by (simp add: om_values_def)

lemma om_keys_map_values [simp]: "om_keys (om_map_values f m) = om_keys m"
  by (auto simp: om_keys_def om_map_values_def)

lemma om_ok_map_values [simp]: "om_ok (om_map_values f m) \<longleftrightarrow> om_ok m"
  by (simp add: om_ok_def)

lemma om_lookup_map_values [simp]: "om_lookup (om_map_values f m) k = map_option f (om_lookup m k)"
  by (induction m) (auto simp: om_lookup_def om_map_values_def)

lemma om_values_map_values [simp]: "om_values (om_map_values f m) = map f (om_values m)"
  by (auto simp: om_values_def om_map_values_def)

lemma length_om_keys [simp]: "length (om_keys m) = length m"
  by (simp add: om_keys_def)

lemma length_om_remove_le: "length (om_remove k m) \<le> length m"
  by (simp add: om_remove_def)

lemma om_remove_absent: "om_lookup m k = None \<Longrightarrow> om_remove k m = m"
  by (induction m) (auto simp: om_lookup_def om_remove_def split: if_splits)

lemma om_values_lookup: "om_ok m \<Longrightarrow> v \<in> set (om_values m) \<longleftrightarrow> (\<exists>k. om_lookup m k = Some v)"
proof -
  assume "om_ok m"
  then have "distinct (map fst m)" using om.keys_distinct by (auto simp: om_keys_def)
  then show ?thesis by (force simp: om_values_def om_lookup_def image_iff)
qed

lemma om_values_remove: "v \<in> set (om_values (om_remove k m)) \<Longrightarrow> v \<in> set (om_values m)"
  by (auto simp: om_values_def om_remove_def)

lemma om_values_insert: "v' \<in> set (om_values (om_insert k v m)) \<Longrightarrow> v' = v \<or> v' \<in> set (om_values m)"
  by (induction k v m rule: om_insert.induct) (auto simp: om_values_def split: if_splits)

lemma om_pairs_insert: "p \<in> set (om_insert k v m) \<Longrightarrow> p = (k, v) \<or> p \<in> set m"
  by (induction k v m rule: om_insert.induct) (auto split: if_splits)

lemma length_om_insert_le: "om_ok m \<Longrightarrow> length (om_insert k v m) \<le> Suc (length m)"
  using om.length_insert_le [of m k v] by simp

lemma length_om_insert_present:
  assumes "om_ok m" "om_lookup m k \<noteq> None"
  shows "length (om_insert k v m) = length m"
proof -
  have "set (om_keys (om_insert k v m)) = set (om_keys m)"
    using assms om.keys_lookup [of k m] by (auto simp: om.set_keys_insert)
  then show ?thesis
    using om.length_keys [of m] om.length_keys [OF om.insert_ok, of m k v] assms(1) by simp
qed

end
