(* ===== verification/Hsms_Core.thy ===== *)
theory Hsms_Core
  imports Hsms_Config Hsms_Transaction Ordered_Map
begin

section \<open>The session core: state and completion of commands\<close>

text \<open>
  \<open>src/hsms/core/command.rs\<close>, \<open>action.rs\<close> and the data and bookkeeping of
  \<open>src/hsms/core/session.rs\<close>. A method with \<open>&mut self\<close> and \<open>actions: &mut CoreActions\<close>
  is a function on the record \<open>session_core\<close>, whose field \<open>sc_actions\<close> is the batch being
  filled; a public method starts with the empty batch.

  \<open>complete_error\<close>, \<open>emit_completion\<close>, \<open>complete_all\<close> and
  \<open>fail_runtime_invariant\<close> call each other in a circle: the completion of an unknown command
  is a runtime invariant failure, which completes every command. The circle never closes, because
  \<open>complete_all\<close> only names open commands. The definitions take the failure as a parameter
  (\<open>_with F\<close>), \<open>fail_runtime_invariant\<close> uses them with the identity, and
  \<open>complete_all_with_indep\<close> shows that the parameter is never used, so that the source's
  recursive equations hold (\<open>fail_runtime_invariant_eq\<close>).
\<close>

subsection \<open>Commands and actions\<close>

datatype session_state = NotSelected | Selected | Closing | Closed

datatype core_command_kind =
    Cmd_Deselect | Cmd_Select | Cmd_Linktest | Cmd_Separate
  | Cmd_Send primary_message
  | Cmd_Request primary_message

record core_command =
  cc_command_id :: command_id
  cc_kind :: core_command_kind

record matched_secondary =
  ms_header :: data_header
  ms_body :: "secs_item option"

datatype core_command_result =
    RequestTimedOut data_header
  | Result_Control "(unit, operation_error) result"
  | Result_Send "(write_id, operation_error) result"
  | Result_Request "(matched_secondary, operation_error) result"

datatype core_action =
    DeliverPrimary data_message "reply_capability_id option"
  | SendFrame write_id protocol_message
  | SessionStateChanged session_state
  | CompleteCommand command_id core_command_result
  | CloseGeneration close_reason close_barrier

datatype reply_intent = Reply_Secondary | Reply_Abort | Reply_Abandon

datatype reject_disposition =
    OperationRejected | AutonomousRejected | Late | Unknown | UnsupportedExtension | AmbiguousReject

datatype protocol_notice =
    SecondaryMismatch
  | UnmatchedSecondary
  | Notice_Violation protocol_error
  | PeerReject reject_reason reject_disposition
  | StaleEventIgnored

subsection \<open>State\<close>

record session_core_config =
  cf_session_id :: session_id
  cf_transaction_capacity :: usize
  cf_tombstone_capacity :: usize
  cf_timeouts :: hsms_timeouts
  cf_reply_capacity :: usize
  cf_drain_timeout :: duration

definition core_config_new :: "session_id \<Rightarrow> session_core_config" where
  "core_config_new session =
     \<lparr>cf_session_id = session, cf_transaction_capacity = 256, cf_tombstone_capacity = 512,
      cf_timeouts = timeouts_default, cf_reply_capacity = 256, cf_drain_timeout = seconds 5\<rparr>"

definition core_config_from_endpoint :: "'addr endpoint_config \<Rightarrow> session_core_config" where
  "core_config_from_endpoint config =
     (core_config_new (ec_session_id config))
       \<lparr>cf_timeouts := ec_timeouts config,
        cf_transaction_capacity := el_transaction_capacity (ec_limits config),
        cf_tombstone_capacity := el_tombstone_capacity (ec_limits config),
        cf_reply_capacity := el_reply_capability_capacity (ec_limits config),
        cf_drain_timeout := rp_drain (ec_runtime config)\<rparr>"

datatype transaction_kind = TK_Deselect | TK_Select | TK_Linktest

fun request_stype :: "transaction_kind \<Rightarrow> u8" where
  "request_stype TK_Deselect = 3"
| "request_stype TK_Select = 1"
| "request_stype TK_Linktest = 5"

record control_transaction =
  ct_kind :: transaction_kind
  ct_command_id :: "command_id option"
  ct_session_id :: u16
  ct_system_bytes :: system_bytes
  ct_write_id :: write_id
  ct_deadline :: "mono_time option"

record data_transaction =
  dt_command_id :: command_id
  dt_write_id :: write_id
  dt_contract :: response_contract
  dt_deadline :: "mono_time option"

record data_write_correlation =
  dw_session_id :: session_id
  dw_system_bytes :: system_bytes

definition correlation_matches ::
  "data_write_correlation \<Rightarrow> u16 \<Rightarrow> u8 \<Rightarrow> reject_reason \<Rightarrow> system_bytes \<Rightarrow> bool" where
  "correlation_matches w = matches_data_reject (dw_session_id w) (dw_system_bytes w)"

datatype open_command_kind = Open_Control | Open_Send | Open_Request

datatype pending_write_kind =
    PW_TransactionRequest
  | PW_DataSend data_write_correlation
  | PW_DataRequest system_bytes
  | PW_Response
  | PW_Separate

record pending_write =
  pw_kind :: pending_write_kind
  pw_command_id :: "command_id option"

record deselect_drain =
  dr_command_id :: command_id
  dr_deadline :: mono_time

record session_core =
  sc_config :: session_core_config
  sc_state :: "session_state option"
  sc_last_now :: "mono_time option"
  sc_notice :: "protocol_notice option"
  sc_selection_deadline :: "mono_time option"
  sc_last_activity :: "mono_time option"
  sc_idle_deadline :: "mono_time option"
  sc_next_write_id :: "u64 option"
  sc_next_system_bytes :: "u32 option"
  sc_active_transaction :: "control_transaction option"
  sc_deselect_drain :: "deselect_drain option"
  sc_data_transactions :: "(system_bytes, data_transaction) omap"
  sc_tombstones :: tombstones
  sc_pending_writes :: "(write_id, pending_write) omap"
  sc_reply_contracts :: "(reply_capability_id, data_header) omap"
  sc_next_reply_id :: "u64 option"
  sc_open_commands :: "(command_id, open_command_kind) omap"
  sc_deferred_errors :: "(command_id, operation_error) omap"
  sc_closing :: bool
  sc_close_action_issued :: bool
  sc_actions :: "core_action list"

definition session_core_new :: "session_core_config \<Rightarrow> session_core" where
  "session_core_new config =
     \<lparr>sc_config = config, sc_state = None, sc_last_now = None, sc_notice = None,
      sc_selection_deadline = None, sc_last_activity = None, sc_idle_deadline = None,
      sc_next_write_id = Some 0, sc_next_system_bytes = Some 0, sc_active_transaction = None,
      sc_deselect_drain = None, sc_data_transactions = [],
      sc_tombstones = tombstones_new (cf_tombstone_capacity config), sc_pending_writes = [],
      sc_reply_contracts = [], sc_next_reply_id = Some 0, sc_open_commands = [],
      sc_deferred_errors = [], sc_closing = False, sc_close_action_issued = False,
      sc_actions = []\<rparr>"

definition push :: "core_action \<Rightarrow> session_core \<Rightarrow> session_core" where
  "push a c = c\<lparr>sc_actions := sc_actions c @ [a]\<rparr>"

definition fresh_batch :: "session_core \<Rightarrow> session_core" where
  "fresh_batch c = c\<lparr>sc_actions := []\<rparr>"

subsection \<open>Completion\<close>

definition detach :: "command_id \<Rightarrow> pending_write \<Rightarrow> pending_write" where
  "detach command_id w =
     (if pw_command_id w = Some command_id then w\<lparr>pw_command_id := None\<rparr> else w)"

definition emit :: "command_id \<Rightarrow> core_command_result \<Rightarrow> session_core \<Rightarrow> session_core" where
  "emit command_id result c =
     push (CompleteCommand command_id result)
       (c\<lparr>sc_open_commands := om_remove command_id (sc_open_commands c),
          sc_deferred_errors := om_remove command_id (sc_deferred_errors c),
          sc_pending_writes := om_map_values (detach command_id) (sc_pending_writes c)\<rparr>)"

definition emit_completion_with ::
  "(session_core \<Rightarrow> session_core) \<Rightarrow> command_id \<Rightarrow> core_command_result \<Rightarrow> session_core \<Rightarrow> session_core"
where
  "emit_completion_with F command_id result c =
     (if om_lookup (sc_open_commands c) command_id = None then F c
      else emit command_id result c)"

fun error_result :: "open_command_kind \<Rightarrow> operation_error \<Rightarrow> core_command_result" where
  "error_result Open_Control e = Result_Control (Inl e)"
| "error_result Open_Send e = Result_Send (Inl e)"
| "error_result Open_Request e = Result_Request (Inl e)"

definition complete_error_with ::
  "(session_core \<Rightarrow> session_core) \<Rightarrow> command_id \<Rightarrow> operation_error \<Rightarrow> session_core \<Rightarrow> session_core"
where
  "complete_error_with F command_id error c =
     (case om_lookup (sc_open_commands c) command_id of
        None \<Rightarrow> F c
      | Some kind \<Rightarrow> emit_completion_with F command_id (error_result kind error) c)"

definition has_pending_write :: "command_id \<Rightarrow> session_core \<Rightarrow> bool" where
  "has_pending_write command_id c \<longleftrightarrow>
     list_ex (\<lambda>w. pw_command_id w = Some command_id) (om_values (sc_pending_writes c))"

definition defer_error :: "command_id \<Rightarrow> operation_error \<Rightarrow> session_core \<Rightarrow> session_core" where
  "defer_error command_id error c =
     (if om_lookup (sc_deferred_errors c) command_id = None
      then c\<lparr>sc_deferred_errors := om_insert command_id error (sc_deferred_errors c)\<rparr>
      else c)"

definition complete_or_defer_with ::
  "(session_core \<Rightarrow> session_core) \<Rightarrow> operation_error \<Rightarrow> command_id \<Rightarrow> session_core \<Rightarrow> session_core"
where
  "complete_or_defer_with F error command_id c =
     (if has_pending_write command_id c then defer_error command_id error c
      else complete_error_with F command_id error c)"

definition clear_transactions :: "session_core \<Rightarrow> session_core" where
  "clear_transactions c = c\<lparr>sc_active_transaction := None, sc_data_transactions := []\<rparr>"

definition complete_all_with ::
  "(session_core \<Rightarrow> session_core) \<Rightarrow> operation_error \<Rightarrow> session_core \<Rightarrow> session_core" where
  "complete_all_with F error c =
     (let c = clear_transactions c
      in fold (complete_or_defer_with F error) (om_keys (sc_open_commands c)) c)"

definition request_close :: "close_reason \<Rightarrow> close_barrier \<Rightarrow> session_core \<Rightarrow> session_core" where
  "request_close reason barrier c =
     (let c = c\<lparr>sc_closing := True, sc_deselect_drain := None, sc_reply_contracts := []\<rparr>
      in if sc_close_action_issued c then c
         else push (CloseGeneration reason barrier) (c\<lparr>sc_close_action_issued := True\<rparr>))"

definition fail_runtime_invariant :: "session_core \<Rightarrow> session_core" where
  "fail_runtime_invariant c =
     request_close RuntimeInvariant Immediate (complete_all_with (\<lambda>c. c) ConnectionLost c)"

definition emit_completion :: "command_id \<Rightarrow> core_command_result \<Rightarrow> session_core \<Rightarrow> session_core" where
  "emit_completion = emit_completion_with fail_runtime_invariant"

definition complete_error :: "command_id \<Rightarrow> operation_error \<Rightarrow> session_core \<Rightarrow> session_core" where
  "complete_error = complete_error_with fail_runtime_invariant"

definition complete_or_defer :: "operation_error \<Rightarrow> command_id \<Rightarrow> session_core \<Rightarrow> session_core" where
  "complete_or_defer = complete_or_defer_with fail_runtime_invariant"

definition complete_all :: "operation_error \<Rightarrow> session_core \<Rightarrow> session_core" where
  "complete_all = complete_all_with fail_runtime_invariant"

definition complete_control ::
  "command_id \<Rightarrow> (unit, operation_error) result \<Rightarrow> session_core \<Rightarrow> session_core" where
  "complete_control command_id result c =
     (if om_lookup (sc_open_commands c) command_id \<noteq> Some Open_Control
      then fail_runtime_invariant c
      else emit_completion command_id (Result_Control result) c)"

definition complete_ok :: "command_id \<Rightarrow> session_core \<Rightarrow> session_core" where
  "complete_ok command_id = complete_control command_id (Ok ())"

definition complete_send ::
  "command_id \<Rightarrow> (write_id, operation_error) result \<Rightarrow> session_core \<Rightarrow> session_core" where
  "complete_send command_id result c =
     (if om_lookup (sc_open_commands c) command_id \<noteq> Some Open_Send
      then fail_runtime_invariant c
      else emit_completion command_id (Result_Send result) c)"

definition complete_request ::
  "command_id \<Rightarrow> (matched_secondary, operation_error) result \<Rightarrow> session_core \<Rightarrow> session_core" where
  "complete_request command_id result c =
     (if om_lookup (sc_open_commands c) command_id \<noteq> Some Open_Request
      then fail_runtime_invariant c
      else emit_completion command_id (Result_Request result) c)"

definition complete_data_for_deselection :: "session_core \<Rightarrow> session_core" where
  "complete_data_for_deselection c =
     (let c = c\<lparr>sc_data_transactions := []\<rparr>;
          command_ids = map fst (filter (\<lambda>(_, kind). kind = Open_Send \<or> kind = Open_Request)
                                   (sc_open_commands c))
      in fold (complete_or_defer SessionDeselected) command_ids c)"

subsection \<open>Identifiers and time\<close>

definition allocate_write_id :: "session_core \<Rightarrow> write_id option \<times> session_core" where
  "allocate_write_id c =
     (case sc_next_write_id c of
        None \<Rightarrow> (None, c)
      | Some v \<Rightarrow> (Some v, c\<lparr>sc_next_write_id := checked_succ v\<rparr>))"

definition allocate_system_bytes :: "session_core \<Rightarrow> system_bytes option \<times> session_core" where
  "allocate_system_bytes c =
     (case sc_next_system_bytes c of
        None \<Rightarrow> (None, c)
      | Some v \<Rightarrow> (Some v, c\<lparr>sc_next_system_bytes := checked_succ v\<rparr>))"

definition allocate_request_identifiers ::
  "session_core \<Rightarrow> (system_bytes \<times> write_id) option \<times> session_core" where
  "allocate_request_identifiers c =
     (if sc_next_write_id c = None then (None, fail_runtime_invariant c)
      else if sc_next_system_bytes c = None
      then (None, request_close SystemBytesExhausted Immediate (complete_all ConnectionLost c))
      else
        (case allocate_system_bytes c of
           (None, c) \<Rightarrow> (None, c)
         | (Some system, c) \<Rightarrow>
             (case allocate_write_id c of
                (None, c) \<Rightarrow> (None, c)
              | (Some write, c) \<Rightarrow> (Some (system, write), c))))"

definition accept_time :: "mono_time \<Rightarrow> session_core \<Rightarrow> bool \<times> session_core" where
  "accept_time now c =
     (if (case sc_last_now c of None \<Rightarrow> False | Some last_now \<Rightarrow> now < last_now)
      then (False, fail_runtime_invariant c)
      else (True, c\<lparr>sc_last_now := Some now\<rparr>))"

definition arm_selection_timeout :: "mono_time \<Rightarrow> session_core \<Rightarrow> session_core" where
  "arm_selection_timeout now c =
     (let c = c\<lparr>sc_selection_deadline := mono_checked_add now (to_t7 (cf_timeouts (sc_config c)))\<rparr>
      in if sc_selection_deadline c = None then fail_runtime_invariant c else c)"

definition record_activity :: "mono_time \<Rightarrow> session_core \<Rightarrow> session_core" where
  "record_activity occurred_at c =
     (let latest = (case sc_last_activity c of None \<Rightarrow> occurred_at | Some p \<Rightarrow> max p occurred_at);
          c = c\<lparr>sc_last_activity := Some latest\<rparr>
      in case to_linktest (cf_timeouts (sc_config c)) of
           None \<Rightarrow> c\<lparr>sc_idle_deadline := None\<rparr>
         | Some interval \<Rightarrow>
             (case mono_checked_add latest interval of
                Some deadline \<Rightarrow> c\<lparr>sc_idle_deadline := Some deadline\<rparr>
              | None \<Rightarrow> (fail_runtime_invariant c)\<lparr>sc_idle_deadline := None\<rparr>))"

definition complete_control_transaction ::
  "control_transaction \<Rightarrow> (unit, operation_error) result \<Rightarrow> session_core \<Rightarrow> session_core" where
  "complete_control_transaction t result c =
     (case ct_command_id t of
        None \<Rightarrow> c
      | Some command_id \<Rightarrow> complete_control command_id result c)"

subsection \<open>The completion circle\<close>

lemma emit_completion_with_open:
  "om_lookup (sc_open_commands c) k \<noteq> None \<Longrightarrow> emit_completion_with F k r c = emit k r c"
  by (auto simp: emit_completion_with_def)

lemma complete_error_with_open:
  "om_lookup (sc_open_commands c) k = Some kind \<Longrightarrow>
     complete_error_with F k e c = emit k (error_result kind e) c"
  by (simp add: complete_error_with_def emit_completion_with_def)

lemma push_simps [simp]:
  "sc_open_commands (push a c) = sc_open_commands c"
  "sc_deferred_errors (push a c) = sc_deferred_errors c"
  "sc_pending_writes (push a c) = sc_pending_writes c"
  "sc_data_transactions (push a c) = sc_data_transactions c"
  "sc_active_transaction (push a c) = sc_active_transaction c"
  "sc_deselect_drain (push a c) = sc_deselect_drain c"
  "sc_reply_contracts (push a c) = sc_reply_contracts c"
  "sc_tombstones (push a c) = sc_tombstones c"
  "sc_state (push a c) = sc_state c"
  "sc_closing (push a c) = sc_closing c"
  "sc_close_action_issued (push a c) = sc_close_action_issued c"
  "sc_config (push a c) = sc_config c"
  "sc_last_now (push a c) = sc_last_now c"
  "sc_notice (push a c) = sc_notice c"
  "sc_selection_deadline (push a c) = sc_selection_deadline c"
  "sc_last_activity (push a c) = sc_last_activity c"
  "sc_idle_deadline (push a c) = sc_idle_deadline c"
  "sc_next_write_id (push a c) = sc_next_write_id c"
  "sc_next_system_bytes (push a c) = sc_next_system_bytes c"
  "sc_next_reply_id (push a c) = sc_next_reply_id c"
  "sc_actions (push a c) = sc_actions c @ [a]"
  by (simp_all add: push_def)

lemma complete_or_defer_with_open:
  "om_ok (sc_open_commands c) \<Longrightarrow> om_lookup (sc_open_commands c) k \<noteq> None \<Longrightarrow>
     complete_or_defer_with F e k c = complete_or_defer_with G e k c \<and>
     om_ok (sc_open_commands (complete_or_defer_with F e k c)) \<and>
     (\<forall>k'. k' \<noteq> k \<longrightarrow> om_lookup (sc_open_commands (complete_or_defer_with F e k c)) k' =
        om_lookup (sc_open_commands c) k')"
  by (auto simp: complete_or_defer_with_def defer_error_def complete_error_with_open emit_def
      om.lookup_remove om.remove_ok)

lemma fold_complete_or_defer_indep:
  "distinct ks \<Longrightarrow> om_ok (sc_open_commands c) \<Longrightarrow> (\<forall>k \<in> set ks. om_lookup (sc_open_commands c) k \<noteq> None) \<Longrightarrow>
     fold (complete_or_defer_with F e) ks c = fold (complete_or_defer_with G e) ks c"
proof (induction ks arbitrary: c)
  case (Cons k ks)
  note step = complete_or_defer_with_open [of c k F e G]
  have "fold (complete_or_defer_with F e) ks (complete_or_defer_with F e k c) =
      fold (complete_or_defer_with G e) ks (complete_or_defer_with F e k c)"
    using step Cons.prems by (intro Cons.IH) auto
  with step Cons.prems show ?case by simp
qed simp

lemma complete_all_with_indep:
  "om_ok (sc_open_commands c) \<Longrightarrow> complete_all_with F e c = complete_all_with G e c"
  unfolding complete_all_with_def Let_def
  by (rule fold_complete_or_defer_indep)
    (auto simp: clear_transactions_def intro: om.keys_distinct dest!: om.keys_lookup [THEN iffD1])

lemma fail_runtime_invariant_eq:
  "om_ok (sc_open_commands c) \<Longrightarrow>
     fail_runtime_invariant c = request_close RuntimeInvariant Immediate (complete_all ConnectionLost c)"
  using complete_all_with_indep [of c "\<lambda>c. c" ConnectionLost fail_runtime_invariant]
  by (simp add: fail_runtime_invariant_def complete_all_def)

end
