(* ===== verification/Hsms_Session.thy ===== *)
theory Hsms_Session
  imports Hsms_Core
begin

section \<open>The session core: procedures and inputs\<close>

text \<open>
  The handlers of \<open>src/hsms/core/session.rs\<close>, \<open>session/deselect.rs\<close>,
  \<open>session/inbound.rs\<close> and \<open>session/timing.rs\<close>, in the order in which they call each other. The
  public inputs are the functions \<open>on_connected\<close>, \<open>on_command\<close>, \<open>on_message\<close>,
  \<open>on_inbound_violation\<close>, \<open>on_reply\<close>, \<open>on_write_outcome_at\<close>,
  \<open>on_shutdown\<close>, \<open>finish_shutdown_drain\<close>, \<open>advance_time\<close> and
  \<open>finalize_writer\<close>.
\<close>

definition CONTROL_SESSION :: u16 where
  "CONTROL_SESSION = 0xFFFF"

text \<open>Registers a write and emits its frame: the pair of statements that ends every sending path.\<close>

definition add_write ::
  "write_id \<Rightarrow> pending_write_kind \<Rightarrow> command_id option \<Rightarrow> protocol_message \<Rightarrow> session_core \<Rightarrow> session_core"
where
  "add_write w kind command_id message c =
     push (SendFrame w message)
       (c\<lparr>sc_pending_writes :=
            om_insert w \<lparr>pw_kind = kind, pw_command_id = command_id\<rparr> (sc_pending_writes c)\<rparr>)"

subsection \<open>Sending\<close>

definition send_response :: "control_message \<Rightarrow> session_core \<Rightarrow> session_core" where
  "send_response message c =
     (case allocate_write_id c of
        (None, c) \<Rightarrow> fail_runtime_invariant c
      | (Some w, c) \<Rightarrow> add_write w PW_Response None (Control message) c)"

definition send_transaction_not_open_reject ::
  "u16 \<Rightarrow> u8 \<Rightarrow> system_bytes \<Rightarrow> session_core \<Rightarrow> session_core" where
  "send_transaction_not_open_reject session rejected_stype system =
     send_response (RejectRequest session rejected_stype TRANSACTION_NOT_OPEN system)"

definition start_transaction ::
  "transaction_kind \<Rightarrow> command_id option \<Rightarrow> session_core \<Rightarrow> session_core" where
  "start_transaction kind command_id c =
     (case allocate_request_identifiers c of
        (None, c) \<Rightarrow> c
      | (Some (system, w), c) \<Rightarrow>
          let message = (case kind of
                           TK_Deselect \<Rightarrow> DeselectRequest CONTROL_SESSION system
                         | TK_Select \<Rightarrow> SelectRequest CONTROL_SESSION system
                         | TK_Linktest \<Rightarrow> LinktestRequest system);
              c = c\<lparr>sc_active_transaction :=
                      Some \<lparr>ct_kind = kind, ct_command_id = command_id,
                            ct_session_id = CONTROL_SESSION, ct_system_bytes = system,
                            ct_write_id = w, ct_deadline = None\<rparr>\<rparr>
          in add_write w PW_TransactionRequest command_id (Control message) c)"

definition start_select :: "command_id \<Rightarrow> session_core \<Rightarrow> session_core" where
  "start_select command_id c =
     (if sc_state c = Some Selected then complete_error command_id AlreadySelected c
      else if sc_state c = Some NotSelected
      then if sc_active_transaction c \<noteq> None then complete_error command_id ControlBusy c
           else start_transaction TK_Select (Some command_id) c
      else complete_error command_id ConnectionLost c)"

definition start_linktest :: "command_id \<Rightarrow> session_core \<Rightarrow> session_core" where
  "start_linktest command_id c =
     (if sc_state c = Some NotSelected \<or> sc_state c = Some Selected
      then if sc_active_transaction c \<noteq> None then complete_error command_id ControlBusy c
           else start_transaction TK_Linktest (Some command_id) c
      else complete_error command_id ConnectionLost c)"

definition start_separate ::
  "command_id option \<Rightarrow> close_reason \<Rightarrow> session_core \<Rightarrow> session_core" where
  "start_separate command_id reason c =
     (if sc_state c \<noteq> Some Selected
      then (case command_id of None \<Rightarrow> c | Some k \<Rightarrow> complete_error k NotSelected_error c)
      else
        (case allocate_request_identifiers c of
           (None, c) \<Rightarrow> c
         | (Some (system, w), c) \<Rightarrow>
             let c = c\<lparr>sc_state := Some NotSelected, sc_closing := True\<rparr>;
                 c = (case sc_deselect_drain c of
                        None \<Rightarrow> c
                      | Some drain \<Rightarrow>
                          complete_error (dr_command_id drain) (Protocol TransactionAborted)
                            (c\<lparr>sc_deselect_drain := None\<rparr>));
                 c = (case sc_active_transaction c of
                        None \<Rightarrow> c
                      | Some t \<Rightarrow>
                          complete_control_transaction t (Err (Protocol TransactionAborted))
                            (c\<lparr>sc_active_transaction := None\<rparr>));
                 c = complete_data_for_deselection c;
                 c = add_write w PW_Separate command_id
                       (Control (SeparateRequest CONTROL_SESSION system)) c;
                 c = push (SessionStateChanged NotSelected) c
             in request_close reason (AfterWrite w) c))"

definition replies_blocked :: "session_core \<Rightarrow> bool" where
  "replies_blocked c =
     (case sc_active_transaction c of None \<Rightarrow> False | Some t \<Rightarrow> ct_kind t = TK_Deselect)"

fun is_data_write :: "pending_write_kind \<Rightarrow> bool" where
  "is_data_write (PW_DataSend _) = True"
| "is_data_write (PW_DataRequest _) = True"
| "is_data_write _ = False"

definition data_in_use :: "session_core \<Rightarrow> bool" where
  "data_in_use c \<longleftrightarrow>
     sc_data_transactions c \<noteq> [] \<or> sc_reply_contracts c \<noteq> [] \<or>
     list_ex (\<lambda>w. is_data_write (pw_kind w)) (om_values (sc_pending_writes c))"

definition insert_data_transaction ::
  "system_bytes \<Rightarrow> data_transaction \<Rightarrow> session_core \<Rightarrow> session_core" where
  "insert_data_transaction system t c =
     c\<lparr>sc_data_transactions := om_insert system t (sc_data_transactions c)\<rparr>"

definition start_data ::
  "command_id \<Rightarrow> primary_message \<Rightarrow> bool \<Rightarrow> session_core \<Rightarrow> session_core" where
  "start_data command_id primary reply_expected c =
     (if sc_deselect_drain c \<noteq> None \<or> replies_blocked c then complete_error command_id Draining c
      else if sc_state c \<noteq> Some Selected then complete_error command_id NotSelected_error c
      else
        let strm = pm_stream primary; function = pm_function primary; body = pm_body primary
        in if function_get function = 0 \<or> function_get function mod 2 = 0
           then complete_error command_id (Protocol (InvalidPrimaryFunction function)) c
           else if reply_expected \<and>
                   length (sc_data_transactions c) \<ge> cf_transaction_capacity (sc_config c)
           then complete_error command_id Backpressure c
           else
             (case allocate_request_identifiers c of
                (None, c) \<Rightarrow> c
              | (Some (system, w), c) \<Rightarrow>
                  let session = cf_session_id (sc_config c);
                      header = \<lparr>dh_session_id = session, dh_stream = strm, dh_function = function,
                                dh_reply_expected = reply_expected, dh_system_bytes = system\<rparr>;
                      message = Data \<lparr>dm_header = header, dm_body = body\<rparr>
                  in if reply_expected
                     then
                       let transaction =
                             \<lparr>dt_command_id = command_id, dt_write_id = w,
                              dt_contract = contract_for_request session system strm function,
                              dt_deadline = None\<rparr>;
                           previous = om_lookup (sc_data_transactions c) system;
                           c = insert_data_transaction system transaction c
                       in if previous \<noteq> None then fail_runtime_invariant c
                          else add_write w (PW_DataRequest system) (Some command_id) message c
                     else
                       add_write w
                         (PW_DataSend \<lparr>dw_session_id = session, dw_system_bytes = system\<rparr>)
                         (Some command_id) message c))"

subsection \<open>Deselect\<close>

definition progress_deselect :: "mono_time \<Rightarrow> session_core \<Rightarrow> session_core" where
  "progress_deselect now c =
     (if sc_closing c then c
      else
        case sc_deselect_drain c of
          None \<Rightarrow> c
        | Some drain \<Rightarrow>
            if dr_deadline drain \<le> now
            then complete_error (dr_command_id drain) (Timeout Timeout_Drain)
                   (c\<lparr>sc_deselect_drain := None\<rparr>)
            else if sc_state c = Some NotSelected
            then complete_ok (dr_command_id drain) (c\<lparr>sc_deselect_drain := None\<rparr>)
            else if \<not> data_in_use c
            then start_transaction TK_Deselect (Some (dr_command_id drain))
                   (c\<lparr>sc_deselect_drain := None\<rparr>)
            else c)"

definition start_deselect :: "command_id \<Rightarrow> mono_time \<Rightarrow> session_core \<Rightarrow> session_core" where
  "start_deselect command_id now c =
     (if sc_state c \<noteq> Some Selected then complete_error command_id NotSelected_error c
      else if sc_active_transaction c \<noteq> None \<or> sc_deselect_drain c \<noteq> None
      then complete_error command_id ControlBusy c
      else
        case mono_checked_add now (cf_drain_timeout (sc_config c)) of
          Some deadline \<Rightarrow>
            progress_deselect now
              (c\<lparr>sc_deselect_drain := Some \<lparr>dr_command_id = command_id, dr_deadline = deadline\<rparr>\<rparr>)
        | None \<Rightarrow> fail_runtime_invariant c)"

definition commit_deselection :: "mono_time \<Rightarrow> session_core \<Rightarrow> session_core" where
  "commit_deselection now c =
     (if sc_state c \<noteq> Some NotSelected
      then push (SessionStateChanged NotSelected)
             (arm_selection_timeout now
               (c\<lparr>sc_state := Some NotSelected, sc_reply_contracts := []\<rparr>))
      else c)"

definition receive_deselect_request ::
  "u16 \<Rightarrow> system_bytes \<Rightarrow> mono_time \<Rightarrow> session_core \<Rightarrow> session_core" where
  "receive_deselect_request session system now c =
     (let status = (if session \<noteq> CONTROL_SESSION \<or> sc_state c \<noteq> Some Selected
                    then DESELECT_NOT_SELECTED
                    else if data_in_use c then DESELECT_BUSY else DESELECT_SUCCESS);
          c = send_response (DeselectResponse session status system) c
      in if deselect_is_success status \<and> \<not> sc_closing c then commit_deselection now c else c)"

definition receive_deselect_response ::
  "u16 \<Rightarrow> deselect_status \<Rightarrow> system_bytes \<Rightarrow> mono_time \<Rightarrow> session_core \<Rightarrow> session_core" where
  "receive_deselect_response session status system now c =
     (case sc_active_transaction c of
        Some t \<Rightarrow>
          if ct_kind t = TK_Deselect \<and> ct_session_id t = session \<and> ct_system_bytes t = system
          then
            let c = c\<lparr>sc_active_transaction := None\<rparr>
            in if deselect_is_success status
               then complete_control_transaction t (Ok ()) (commit_deselection now c)
               else complete_control_transaction t (Err (DeselectRejected status)) c
          else send_transaction_not_open_reject session 4 system c
      | None \<Rightarrow> send_transaction_not_open_reject session 4 system c)"

subsection \<open>Select, Linktest, Separate and Reject from the peer\<close>

definition receive_select_request :: "u16 \<Rightarrow> system_bytes \<Rightarrow> session_core \<Rightarrow> session_core" where
  "receive_select_request session system c =
     (let (status, c) =
            (if session \<noteq> CONTROL_SESSION then (SELECT_NOT_READY, c)
             else if sc_state c = Some Selected then (SELECT_ALREADY_ACTIVE, c)
             else (SELECT_SUCCESS, c\<lparr>sc_state := Some Selected, sc_selection_deadline := None\<rparr>));
          c = send_response (SelectResponse session status system) c
      in if select_is_success status \<and> \<not> sc_closing c
         then push (SessionStateChanged Selected) c else c)"

definition receive_select_response ::
  "u16 \<Rightarrow> select_status \<Rightarrow> system_bytes \<Rightarrow> session_core \<Rightarrow> session_core" where
  "receive_select_response session status system c =
     (case sc_active_transaction c of
        None \<Rightarrow> send_transaction_not_open_reject session 2 system c
      | Some t \<Rightarrow>
          if ct_kind t \<noteq> TK_Select \<or> ct_session_id t \<noteq> session \<or> ct_system_bytes t \<noteq> system
          then send_transaction_not_open_reject session 2 system c
          else
            let c = c\<lparr>sc_active_transaction := None\<rparr>
            in if select_is_success status
               then
                 let c = (if sc_state c \<noteq> Some Selected
                          then push (SessionStateChanged Selected)
                                 (c\<lparr>sc_state := Some Selected, sc_selection_deadline := None\<rparr>)
                          else c)
                 in complete_control_transaction t (Ok ()) c
               else complete_control_transaction t (Err (SelectRejected status)) c)"

definition receive_linktest_response :: "system_bytes \<Rightarrow> session_core \<Rightarrow> session_core" where
  "receive_linktest_response system c =
     (case sc_active_transaction c of
        None \<Rightarrow> send_transaction_not_open_reject CONTROL_SESSION 6 system c
      | Some t \<Rightarrow>
          if ct_kind t \<noteq> TK_Linktest \<or> ct_session_id t \<noteq> CONTROL_SESSION \<or> ct_system_bytes t \<noteq> system
          then send_transaction_not_open_reject CONTROL_SESSION 6 system c
          else complete_control_transaction t (Ok ()) (c\<lparr>sc_active_transaction := None\<rparr>))"

definition receive_separate :: "session_core \<Rightarrow> session_core" where
  "receive_separate c =
     (if sc_state c \<noteq> Some Selected then c
      else
        let c = c\<lparr>sc_state := Some NotSelected\<rparr>;
            c = (case sc_active_transaction c of
                   None \<Rightarrow> c
                 | Some t \<Rightarrow>
                     complete_control_transaction t (Err (Protocol TransactionAborted))
                       (c\<lparr>sc_active_transaction := None\<rparr>));
            c = complete_data_for_deselection c;
            c = push (SessionStateChanged NotSelected) c
        in request_close SeparateReceived Immediate c)"

datatype reject_target =
    RT_Control control_transaction
  | RT_DataRequest data_transaction
  | RT_DataSend command_id

datatype reject_classification =
    MatchedAutonomousOperation | MatchedLiveOperation | Reject_RetainedTombstone
  | Reject_Unmatched | ExtensionReason | Ambiguous

definition reject_is_base_standard :: "reject_reason \<Rightarrow> bool" where
  "reject_is_base_standard reason \<longleftrightarrow> reason \<le> ENTITY_NOT_SELECTED"

definition retire_data_transaction :: "data_transaction \<Rightarrow> session_core \<Rightarrow> session_core" where
  "retire_data_transaction t c =
     c\<lparr>sc_data_transactions :=
         om_remove (rc_system_bytes (dt_contract t)) (sc_data_transactions c),
       sc_tombstones := tombstones_insert (dt_contract t) (sc_tombstones c)\<rparr>"

definition reject_targets ::
  "u16 \<Rightarrow> u8 \<Rightarrow> reject_reason \<Rightarrow> system_bytes \<Rightarrow> session_core \<Rightarrow> reject_target list" where
  "reject_targets session byte_2 reason system c =
     (case sc_active_transaction c of
        None \<Rightarrow> []
      | Some t \<Rightarrow>
          let expected = (if reason = UNSUPPORTED_PTYPE then 0 else request_stype (ct_kind t))
          in if ct_session_id t = session \<and> ct_system_bytes t = system \<and> byte_2 = expected
             then [RT_Control t] else [])
     @ map RT_DataRequest
         (filter (\<lambda>t. contract_matches_reject (dt_contract t) session byte_2 reason system)
            (om_values (sc_data_transactions c)))
     @ concat (map (\<lambda>w. case pw_kind w of
                          PW_DataSend correlation \<Rightarrow>
                            (case pw_command_id w of
                               Some command_id \<Rightarrow>
                                 if correlation_matches correlation session byte_2 reason system
                                 then [RT_DataSend command_id] else []
                             | None \<Rightarrow> [])
                        | _ \<Rightarrow> []) (om_values (sc_pending_writes c)))"

definition apply_reject :: "reject_target \<Rightarrow> reject_reason \<Rightarrow> session_core \<Rightarrow> session_core" where
  "apply_reject target reason c =
     (case target of
        RT_Control t \<Rightarrow>
          complete_control_transaction t (Err (PeerRejected reason))
            (c\<lparr>sc_active_transaction := None\<rparr>)
      | RT_DataRequest t \<Rightarrow>
          complete_error (dt_command_id t) (PeerRejected reason) (retire_data_transaction t c)
      | RT_DataSend command_id \<Rightarrow> complete_error command_id (PeerRejected reason) c)"

definition receive_reject ::
  "u16 \<Rightarrow> u8 \<Rightarrow> reject_reason \<Rightarrow> system_bytes \<Rightarrow> session_core \<Rightarrow>
     reject_classification \<times> session_core" where
  "receive_reject session byte_2 reason system c =
     (if \<not> reject_is_base_standard reason then (ExtensionReason, c)
      else
        case reject_targets session byte_2 reason system c of
          [] \<Rightarrow>
            (if contains_reject (sc_tombstones c) session byte_2 reason system
             then Reject_RetainedTombstone else Reject_Unmatched, c)
        | [target] \<Rightarrow>
            let autonomous = (case target of RT_Control t \<Rightarrow> ct_command_id t = None | _ \<Rightarrow> False)
            in (if autonomous then MatchedAutonomousOperation else MatchedLiveOperation,
                apply_reject target reason c)
        | _ \<Rightarrow> (Ambiguous, c))"

fun disposition_of :: "reject_classification \<Rightarrow> reject_disposition" where
  "disposition_of MatchedLiveOperation = OperationRejected"
| "disposition_of MatchedAutonomousOperation = AutonomousRejected"
| "disposition_of Reject_RetainedTombstone = Late"
| "disposition_of Reject_Unmatched = Unknown"
| "disposition_of ExtensionReason = UnsupportedExtension"
| "disposition_of Ambiguous = AmbiguousReject"

subsection \<open>Data from the peer\<close>

datatype data_classification =
    MatchedSecondary | MatchedAbort | LiveMismatch | RetainedTombstone | Unmatched

definition receive_data :: "data_message \<Rightarrow> session_core \<Rightarrow> data_classification \<times> session_core" where
  "receive_data message c =
     (let system = dh_system_bytes (dm_header message) in
      case om_lookup (sc_data_transactions c) system of
        None \<Rightarrow>
          (if contains_message (sc_tombstones c) message then RetainedTombstone else Unmatched, c)
      | Some t \<Rightarrow>
          let retired = c\<lparr>sc_data_transactions := om_remove system (sc_data_transactions c),
                          sc_tombstones := tombstones_insert (dt_contract t) (sc_tombstones c)\<rparr>
          in (case contract_classify (dt_contract t) message of
                Match_mismatch \<Rightarrow> (LiveMismatch, c)
              | Match_normal \<Rightarrow>
                  (MatchedSecondary,
                   complete_request (dt_command_id t)
                     (Ok \<lparr>ms_header = dm_header message, ms_body = dm_body message\<rparr>) retired)
              | Match_abort \<Rightarrow>
                  (MatchedAbort,
                   complete_request (dt_command_id t) (Err (Protocol TransactionAborted)) retired)))"

definition insert_reply_contract ::
  "reply_capability_id \<Rightarrow> data_header \<Rightarrow> session_core \<Rightarrow> session_core" where
  "insert_reply_contract k header c =
     c\<lparr>sc_next_reply_id := checked_succ k,
       sc_reply_contracts := om_insert k header (sc_reply_contracts c)\<rparr>"

definition receive_inbound_data :: "data_message \<Rightarrow> session_core \<Rightarrow> session_core" where
  "receive_inbound_data message c =
     (let header = dm_header message in
      if sc_state c \<noteq> Some Selected \<or> dh_session_id header \<noteq> cf_session_id (sc_config c)
      then send_response
             (RejectRequest (session_id_get (dh_session_id header)) 0 ENTITY_NOT_SELECTED
                (dh_system_bytes header)) c
      else if function_get (dh_function header) AND 1 = 0
      then
        let (classification, c) = receive_data message c
        in c\<lparr>sc_notice := (case classification of
                             LiveMismatch \<Rightarrow> Some SecondaryMismatch
                           | RetainedTombstone \<Rightarrow> Some StaleEventIgnored
                           | Unmatched \<Rightarrow> Some UnmatchedSecondary
                           | _ \<Rightarrow> None)\<rparr>
      else if list_ex (\<lambda>live. dh_system_bytes live = dh_system_bytes header)
                (om_values (sc_reply_contracts c))
      then request_close ProtocolViolation Immediate (complete_all ConnectionLost c)
      else if dh_reply_expected header
      then if length (sc_reply_contracts c) \<ge> cf_reply_capacity (sc_config c)
           then request_close ApplicationBackpressure Immediate (complete_all ConnectionLost c)
           else
             (case sc_next_reply_id c of
                None \<Rightarrow> fail_runtime_invariant c
              | Some k \<Rightarrow>
                  push (DeliverPrimary message (Some k)) (insert_reply_contract k header c))
      else push (DeliverPrimary message None) c)"

subsection \<open>Deadlines\<close>

definition due :: "mono_time option \<Rightarrow> mono_time \<Rightarrow> bool" where
  "due deadline now \<longleftrightarrow> (case deadline of None \<Rightarrow> False | Some d \<Rightarrow> d \<le> now)"

definition min_option :: "mono_time list \<Rightarrow> mono_time option" where
  "min_option ds = (if ds = [] then None else Some (foldr min ds (hd ds)))"

definition option_list :: "'a option \<Rightarrow> 'a list" where
  "option_list x = (case x of None \<Rightarrow> [] | Some a \<Rightarrow> [a])"

definition next_deadline :: "session_core \<Rightarrow> mono_time option" where
  "next_deadline c =
     (if sc_closing c \<or> sc_state c = None then None
      else min_option
        (option_list (sc_selection_deadline c)
         @ (case sc_active_transaction c of None \<Rightarrow> [] | Some t \<Rightarrow> option_list (ct_deadline t))
         @ concat (map (option_list \<circ> dt_deadline) (om_values (sc_data_transactions c)))
         @ (if sc_active_transaction c = None \<and> sc_deselect_drain c = None
            then option_list (sc_idle_deadline c) else [])
         @ (case sc_deselect_drain c of None \<Rightarrow> [] | Some drain \<Rightarrow> [dr_deadline drain])))"

definition expire_request :: "data_transaction \<Rightarrow> session_core \<Rightarrow> session_core" where
  "expire_request t c =
     emit_completion (dt_command_id t)
       (RequestTimedOut (contract_request_header (dt_contract t)))
       (retire_data_transaction t c)"

definition expired_requests :: "mono_time \<Rightarrow> session_core \<Rightarrow> data_transaction list" where
  "expired_requests now c =
     sort_key dt_command_id
       (filter (\<lambda>t. due (dt_deadline t) now) (om_values (sc_data_transactions c)))"

definition probe_idle :: "mono_time \<Rightarrow> session_core \<Rightarrow> session_core" where
  "probe_idle now c =
     (if sc_active_transaction c = None \<and> sc_deselect_drain c = None \<and> due (sc_idle_deadline c) now
      then start_transaction TK_Linktest None (c\<lparr>sc_idle_deadline := None\<rparr>)
      else c)"

definition close_for_timeout :: "communications_timeout \<Rightarrow> session_core \<Rightarrow> session_core" where
  "close_for_timeout kind c =
     request_close (CommunicationsTimeout kind) Immediate (complete_all ConnectionLost c)"

definition expire_deadlines :: "mono_time \<Rightarrow> session_core \<Rightarrow> session_core" where
  "expire_deadlines now c =
     (if sc_closing c \<or> sc_state c = None then c
      else if due (sc_selection_deadline c) now then close_for_timeout T7 c
      else
        case (case sc_active_transaction c of
                None \<Rightarrow> None
              | Some t \<Rightarrow> if due (ct_deadline t) now then Some t else None) of
          Some t \<Rightarrow>
            close_for_timeout T6
              (complete_control_transaction t (Err (Timeout Timeout_T6))
                (c\<lparr>sc_active_transaction := None\<rparr>))
        | None \<Rightarrow>
            let c = fold expire_request (expired_requests now c) c;
                c = progress_deselect now c
            in if sc_closing c then c else probe_idle now c)"

subsection \<open>Inputs\<close>

definition on_connected :: "mono_time \<Rightarrow> session_core \<Rightarrow> session_core" where
  "on_connected now c =
     (case accept_time now (fresh_batch c) of
        (False, c) \<Rightarrow> c
      | (True, c) \<Rightarrow>
          if sc_state c \<noteq> None \<or> sc_closing c then fail_runtime_invariant c
          else
            let c = c\<lparr>sc_state := Some NotSelected\<rparr>;
                c = arm_selection_timeout now c;
                c = record_activity now c
            in if sc_closing c then c else push (SessionStateChanged NotSelected) c)"

fun open_kind_of :: "core_command_kind \<Rightarrow> open_command_kind" where
  "open_kind_of (Cmd_Send _) = Open_Send"
| "open_kind_of (Cmd_Request _) = Open_Request"
| "open_kind_of _ = Open_Control"

definition open_command :: "command_id \<Rightarrow> open_command_kind \<Rightarrow> session_core \<Rightarrow> session_core" where
  "open_command command_id kind c =
     c\<lparr>sc_open_commands := om_insert command_id kind (sc_open_commands c)\<rparr>"

definition dispatch_command ::
  "command_id \<Rightarrow> core_command_kind \<Rightarrow> mono_time \<Rightarrow> session_core \<Rightarrow> session_core" where
  "dispatch_command command_id kind now c =
     (case kind of
        Cmd_Deselect \<Rightarrow> start_deselect command_id now c
      | Cmd_Select \<Rightarrow> start_select command_id c
      | Cmd_Linktest \<Rightarrow> start_linktest command_id c
      | Cmd_Separate \<Rightarrow> start_separate (Some command_id) LocalSeparate c
      | Cmd_Send primary \<Rightarrow> start_data command_id primary False c
      | Cmd_Request primary \<Rightarrow> start_data command_id primary True c)"

definition on_command :: "core_command \<Rightarrow> mono_time \<Rightarrow> session_core \<Rightarrow> session_core" where
  "on_command command now c =
     (let c = fresh_batch c; command_id = cc_command_id command; kind = cc_kind command in
      if om_lookup (sc_open_commands c) command_id \<noteq> None then fail_runtime_invariant c
      else
        case accept_time now (open_command command_id (open_kind_of kind) c) of
          (False, c) \<Rightarrow> c
        | (True, c) \<Rightarrow>
            if sc_state c = None then complete_error command_id NotConnected c
            else if sc_closing c then complete_error command_id ConnectionLost c
            else if sc_deselect_drain c \<noteq> None \<and>
                    kind \<in> {Cmd_Select, Cmd_Deselect, Cmd_Linktest}
            then complete_error command_id ControlBusy c
            else dispatch_command command_id kind now c)"

definition dispatch_message :: "protocol_message \<Rightarrow> mono_time \<Rightarrow> session_core \<Rightarrow> session_core" where
  "dispatch_message message now c =
     (case message of
        Control (SelectRequest session system) \<Rightarrow> receive_select_request session system c
      | Control (SelectResponse session status system) \<Rightarrow>
          receive_select_response session status system c
      | Control (LinktestRequest system) \<Rightarrow> send_response (LinktestResponse system) c
      | Control (LinktestResponse system) \<Rightarrow> receive_linktest_response system c
      | Control (RejectRequest session byte_2 reason system) \<Rightarrow>
          let (classification, c) = receive_reject session byte_2 reason system c
          in c\<lparr>sc_notice := Some (PeerReject reason (disposition_of classification))\<rparr>
      | Control (SeparateRequest _ _) \<Rightarrow> receive_separate c
      | Data m \<Rightarrow> receive_inbound_data m c
      | Control (DeselectRequest session system) \<Rightarrow>
          receive_deselect_request session system now c
      | Control (DeselectResponse session status system) \<Rightarrow>
          receive_deselect_response session status system now c)"

definition on_message :: "protocol_message \<Rightarrow> mono_time \<Rightarrow> session_core \<Rightarrow> session_core" where
  "on_message message now c =
     (case accept_time now (fresh_batch (c\<lparr>sc_notice := None\<rparr>)) of
        (False, c) \<Rightarrow> c
      | (True, c) \<Rightarrow>
          if sc_state c = None \<or> sc_closing c then c
          else
            let c = record_activity now c
            in if sc_closing c then c
               else progress_deselect now (dispatch_message message now c))"

definition on_inbound_violation :: "inbound_violation \<Rightarrow> mono_time \<Rightarrow> session_core \<Rightarrow> session_core" where
  "on_inbound_violation violation now c =
     (case accept_time now (fresh_batch c) of
        (False, c) \<Rightarrow> c
      | (True, c) \<Rightarrow>
          if sc_state c = None \<or> sc_closing c then c
          else
            case violation of
              Payload_violation _ \<Rightarrow> c
            | Header_violation v \<Rightarrow>
                let header = hv_header v;
                    rejection = (case hv_kind v of
                                   UnknownSessionType _ \<Rightarrow>
                                     Some (UNSUPPORTED_STYPE, snapshot_s_type header)
                                 | UnknownPresentationType _ \<Rightarrow>
                                     Some (UNSUPPORTED_PTYPE, snapshot_p_type header)
                                 | _ \<Rightarrow> None)
                in (case rejection of
                      None \<Rightarrow> c
                    | Some (reason, byte_2) \<Rightarrow>
                        send_response
                          (RejectRequest (snapshot_session_id header) byte_2 reason
                             (snapshot_system_bytes header)) c))"

definition on_reply ::
  "command_id \<Rightarrow> reply_capability_id \<Rightarrow> reply_intent \<Rightarrow> secs_item option \<Rightarrow> mono_time \<Rightarrow>
     session_core \<Rightarrow> session_core" where
  "on_reply command_id capability intent body now c =
     (let c = fresh_batch c in
      if om_lookup (sc_open_commands c) command_id \<noteq> None then fail_runtime_invariant c
      else
        case accept_time now
               (open_command command_id
                  (if intent = Reply_Abandon then Open_Control else Open_Send) c) of
          (False, c) \<Rightarrow> c
        | (True, c) \<Rightarrow>
            if sc_closing c \<or> sc_state c \<noteq> Some Selected
            then complete_error command_id ReplyCapabilityUnavailable c
            else if intent \<noteq> Reply_Abandon \<and> replies_blocked c
            then complete_error command_id Draining c
            else
              case om_lookup (sc_reply_contracts c) capability of
                None \<Rightarrow> complete_error command_id ReplyCapabilityUnavailable c
              | Some primary \<Rightarrow>
                  let c = c\<lparr>sc_reply_contracts := om_remove capability (sc_reply_contracts c)\<rparr>
                  in if intent = Reply_Abandon
                     then progress_deselect now (complete_ok command_id c)
                     else
                       case (if intent = Reply_Abort then Some (0, None)
                             else map_option (\<lambda>function. (function, body))
                                    (checked_succ (function_get (dh_function primary)))) of
                         None \<Rightarrow> complete_error command_id ReplyRequiresAbort c
                       | Some (function, body) \<Rightarrow>
                           (case allocate_write_id c of
                              (None, c) \<Rightarrow> fail_runtime_invariant c
                            | (Some w, c) \<Rightarrow>
                                add_write w
                                  (PW_DataSend \<lparr>dw_session_id = dh_session_id primary,
                                               dw_system_bytes = dh_system_bytes primary\<rparr>)
                                  (Some command_id)
                                  (Data \<lparr>dm_header =
                                           \<lparr>dh_session_id = dh_session_id primary,
                                            dh_stream = dh_stream primary,
                                            dh_function = Function function,
                                            dh_reply_expected = False,
                                            dh_system_bytes = dh_system_bytes primary\<rparr>,
                                         dm_body = body\<rparr>) c))"

definition remove_transaction_for_write ::
  "write_id \<Rightarrow> pending_write_kind \<Rightarrow> session_core \<Rightarrow> session_core" where
  "remove_transaction_for_write w kind c =
     (case kind of
        PW_TransactionRequest \<Rightarrow>
          if (case sc_active_transaction c of None \<Rightarrow> False | Some t \<Rightarrow> ct_write_id t = w)
          then c\<lparr>sc_active_transaction := None\<rparr> else c
      | PW_DataRequest system \<Rightarrow>
          if (case om_lookup (sc_data_transactions c) system of
                None \<Rightarrow> False | Some t \<Rightarrow> dt_write_id t = w)
          then c\<lparr>sc_data_transactions := om_remove system (sc_data_transactions c)\<rparr> else c
      | _ \<Rightarrow> c)"

definition finish_failed_write ::
  "write_id \<Rightarrow> pending_write \<Rightarrow> operation_error \<Rightarrow> session_core \<Rightarrow> session_core" where
  "finish_failed_write w write error c =
     (let c = remove_transaction_for_write w (pw_kind write) c;
          c = (case pw_command_id write of None \<Rightarrow> c | Some k \<Rightarrow> complete_error k error c);
          c = complete_all ConnectionLost c
      in request_close TransportLost Immediate c)"

text \<open>A committed request starts its reply timer; a committed send or separate completes.\<close>

definition commit_write ::
  "write_id \<Rightarrow> pending_write \<Rightarrow> mono_time \<Rightarrow> session_core \<Rightarrow> session_core" where
  "commit_write w write occurred_at c =
     (case pw_kind write of
        PW_TransactionRequest \<Rightarrow>
          (case sc_active_transaction c of
             None \<Rightarrow> c
           | Some t \<Rightarrow>
               if ct_write_id t = w
               then
                 let deadline = mono_checked_add occurred_at (to_t6 (cf_timeouts (sc_config c)));
                     c = c\<lparr>sc_active_transaction := Some (t\<lparr>ct_deadline := deadline\<rparr>)\<rparr>
                 in if deadline = None then fail_runtime_invariant c else c
               else c)
      | PW_DataSend _ \<Rightarrow>
          (case pw_command_id write of None \<Rightarrow> c | Some k \<Rightarrow> complete_send k (Ok w) c)
      | PW_DataRequest system \<Rightarrow>
          (case om_lookup (sc_data_transactions c) system of
             None \<Rightarrow> c
           | Some t \<Rightarrow>
               if dt_write_id t = w
               then
                 let deadline = mono_checked_add occurred_at (to_t3 (cf_timeouts (sc_config c)));
                     c = c\<lparr>sc_data_transactions :=
                             om_insert system (t\<lparr>dt_deadline := deadline\<rparr>)
                               (sc_data_transactions c)\<rparr>
                 in if deadline = None then fail_runtime_invariant c else c
               else c)
      | PW_Separate \<Rightarrow>
          (case pw_command_id write of None \<Rightarrow> c | Some k \<Rightarrow> complete_control k (Ok ()) c)
      | PW_Response \<Rightarrow> c)"

fun awaits_response :: "pending_write_kind \<Rightarrow> bool" where
  "awaits_response PW_TransactionRequest = True"
| "awaits_response (PW_DataRequest _) = True"
| "awaits_response _ = False"

definition settle_write ::
  "write_id \<Rightarrow> pending_write \<Rightarrow> write_outcome \<Rightarrow> mono_time \<Rightarrow> mono_time \<Rightarrow> session_core \<Rightarrow> session_core"
where
  "settle_write w write outcome occurred_at now c =
     expire_deadlines now
       (case outcome of
          Committed \<Rightarrow> commit_write w write occurred_at c
        | NotWritten _ \<Rightarrow> finish_failed_write w write ConnectionLost c
        | Indeterminate _ \<Rightarrow> finish_failed_write w write DeliveryIndeterminate c)"

definition on_write_outcome_at ::
  "write_id \<Rightarrow> write_outcome \<Rightarrow> mono_time \<Rightarrow> mono_time \<Rightarrow> session_core \<Rightarrow> session_core" where
  "on_write_outcome_at w outcome occurred_at now c =
     (case accept_time now (fresh_batch c) of
        (False, c) \<Rightarrow> c
      | (True, c) \<Rightarrow>
          if occurred_at > now then fail_runtime_invariant c
          else
            case om_lookup (sc_pending_writes c) w of
              None \<Rightarrow> fail_runtime_invariant c
            | Some write \<Rightarrow>
                let c = c\<lparr>sc_pending_writes := om_remove w (sc_pending_writes c)\<rparr>;
                    c = (if outcome = Committed \<and> \<not> sc_closing c
                         then record_activity occurred_at c else c)
                in (case (if outcome = Committed \<and> awaits_response (pw_kind write)
                          then case pw_command_id write of
                                 None \<Rightarrow> None
                               | Some k \<Rightarrow> map_option (\<lambda>e. (k, e)) (om_lookup (sc_deferred_errors c) k)
                          else None) of
                      Some (k, e) \<Rightarrow>
                        complete_error k e
                          (c\<lparr>sc_deferred_errors := om_remove k (sc_deferred_errors c)\<rparr>)
                    | None \<Rightarrow> settle_write w write outcome occurred_at now c))"

definition admission_error :: "close_reason \<Rightarrow> operation_error" where
  "admission_error reason =
     (if reason = ControlBackpressure then Backpressure else ConnectionLost)"

definition on_shutdown :: "close_reason \<Rightarrow> write_id option \<Rightarrow> mono_time \<Rightarrow> session_core \<Rightarrow> session_core" where
  "on_shutdown reason failed_write now c =
     (case accept_time now (fresh_batch c) of
        (False, c) \<Rightarrow> c
      | (True, c) \<Rightarrow>
          (case failed_write of
             Some w \<Rightarrow>
               (case om_lookup (sc_pending_writes c) w of
                  None \<Rightarrow> fail_runtime_invariant c
                | Some write \<Rightarrow>
                    let c = c\<lparr>sc_pending_writes := om_remove w (sc_pending_writes c)\<rparr>;
                        c = remove_transaction_for_write w (pw_kind write) c;
                        c = (case pw_command_id write of
                               None \<Rightarrow> c
                             | Some k \<Rightarrow> complete_error k (admission_error reason) c);
                        c = complete_all ConnectionLost c
                    in push (CloseGeneration reason Immediate)
                         (c\<lparr>sc_closing := True, sc_close_action_issued := True\<rparr>))
           | None \<Rightarrow>
               request_close reason Immediate (complete_all ConnectionLost c)))"

definition advance_time :: "mono_time \<Rightarrow> session_core \<Rightarrow> session_core" where
  "advance_time now c =
     (case accept_time now (fresh_batch c) of
        (False, c) \<Rightarrow> c
      | (True, c) \<Rightarrow> expire_deadlines now c)"

definition finish_shutdown_drain :: "close_reason \<Rightarrow> mono_time \<Rightarrow> session_core \<Rightarrow> session_core" where
  "finish_shutdown_drain reason now c =
     (if sc_state c \<noteq> Some Selected \<or> sc_closing c then on_shutdown reason None now c
      else
        case accept_time now (fresh_batch c) of
          (False, c) \<Rightarrow> c
        | (True, c) \<Rightarrow> start_separate None reason c)"

definition finalize_writer :: "mono_time \<Rightarrow> session_core \<Rightarrow> session_core" where
  "finalize_writer now c =
     (case accept_time now (fresh_batch c) of
        (False, c) \<Rightarrow> c
      | (True, c) \<Rightarrow>
          if \<not> sc_closing c then fail_runtime_invariant c
          else
            let writes = om_values (sc_pending_writes c);
                c = c\<lparr>sc_pending_writes := []\<rparr>;
                c = fold (\<lambda>write c. case pw_command_id write of
                                      None \<Rightarrow> c
                                    | Some k \<Rightarrow> complete_error k DeliveryIndeterminate c) writes c
            in complete_all ConnectionLost c)"

definition take_notice :: "session_core \<Rightarrow> protocol_notice option \<times> session_core" where
  "take_notice c = (sc_notice c, c\<lparr>sc_notice := None\<rparr>)"

end
