(* ===== verification/Hsms_Effects.thy ===== *)
theory Hsms_Effects
  imports Hsms_Session
begin

section \<open>The effects of the core and what they preserve\<close>

text \<open>
  Every handler of the core is a composition of a few effects: completing an open command,
  deferring an error, dropping or retiring transactions, closing, allocating an identifier,
  sending a frame, delivering a primary. The three locales are the contract between the handlers
  and a property \<open>P\<close> of the core during one turn: \<open>core_silent\<close> for effects that send
  nothing, \<open>core_control\<close> with control frames, \<open>core_data\<close> with data frames and deliveries. A
  property that satisfies the laws of the effects is kept by every handler; the proofs are done
  once, in the locales. The accounting of completions, the identifiers, the closing of the
  generation and the capacities are interpretations.

  \<open>hard c\<close> is the part of the state the laws may look at; the selection state, the active
  transaction, the drain, the timers, the notice and the deferred errors may change freely.
\<close>

definition hard :: "session_core \<Rightarrow> _" where
  "hard c = (sc_config c, sc_data_transactions c, sc_tombstones c, sc_pending_writes c,
     sc_reply_contracts c, sc_next_reply_id c, sc_open_commands c, sc_next_write_id c,
     sc_next_system_bytes c, sc_closing c, sc_close_action_issued c, sc_actions c)"

lemma hard_simps [simp]:
  "hard (c\<lparr>sc_state := s\<rparr>) = hard c"
  "hard (c\<lparr>sc_last_now := t\<rparr>) = hard c"
  "hard (c\<lparr>sc_notice := n\<rparr>) = hard c"
  "hard (c\<lparr>sc_selection_deadline := t\<rparr>) = hard c"
  "hard (c\<lparr>sc_last_activity := t\<rparr>) = hard c"
  "hard (c\<lparr>sc_idle_deadline := t\<rparr>) = hard c"
  "hard (c\<lparr>sc_active_transaction := a\<rparr>) = hard c"
  "hard (c\<lparr>sc_deselect_drain := d\<rparr>) = hard c"
  "hard (c\<lparr>sc_deferred_errors := e\<rparr>) = hard c"
  by (simp_all add: hard_def)

subsection \<open>Effects that send nothing\<close>

locale core_silent =
  fixes P :: "session_core \<Rightarrow> bool"
  assumes quiet: "P c \<Longrightarrow> hard c' = hard c \<Longrightarrow> P c'"
    and emit_law: "P c \<Longrightarrow> om_lookup (sc_open_commands c) k \<noteq> None \<Longrightarrow> P (emit k r c)"
    and drop_transaction: "P c \<Longrightarrow> P (c\<lparr>sc_data_transactions := om_remove system (sc_data_transactions c)\<rparr>)"
    and drop_transactions: "P c \<Longrightarrow> P (c\<lparr>sc_data_transactions := []\<rparr>)"
    and update_transaction: "P c \<Longrightarrow> om_lookup (sc_data_transactions c) system = Some t \<Longrightarrow>
           P (c\<lparr>sc_data_transactions :=
                 om_insert system (t\<lparr>dt_deadline := deadline\<rparr>) (sc_data_transactions c)\<rparr>)"
    and bury: "P c \<Longrightarrow> P (c\<lparr>sc_tombstones := tombstones_insert contract (sc_tombstones c)\<rparr>)"
    and request_close_law: "P c \<Longrightarrow> P (request_close reason barrier c)"
    and closing_law: "P c \<Longrightarrow> P (c\<lparr>sc_closing := True\<rparr>)"
    and drop_reply: "P c \<Longrightarrow> P (c\<lparr>sc_reply_contracts := om_remove i (sc_reply_contracts c)\<rparr>)"
    and drop_replies: "P c \<Longrightarrow> P (c\<lparr>sc_reply_contracts := []\<rparr>)"
    and drop_write: "P c \<Longrightarrow> P (c\<lparr>sc_pending_writes := om_remove w (sc_pending_writes c)\<rparr>)"
    and drop_writes: "P c \<Longrightarrow> P (c\<lparr>sc_pending_writes := []\<rparr>)"
    and state_changed: "P c \<Longrightarrow> P (push (SessionStateChanged s) c)"
begin

lemma quiet_updates:
  "P c \<Longrightarrow> P (c\<lparr>sc_state := s\<rparr>)"
  "P c \<Longrightarrow> P (c\<lparr>sc_last_now := t\<rparr>)"
  "P c \<Longrightarrow> P (c\<lparr>sc_notice := n\<rparr>)"
  "P c \<Longrightarrow> P (c\<lparr>sc_selection_deadline := t\<rparr>)"
  "P c \<Longrightarrow> P (c\<lparr>sc_last_activity := t\<rparr>)"
  "P c \<Longrightarrow> P (c\<lparr>sc_idle_deadline := t\<rparr>)"
  "P c \<Longrightarrow> P (c\<lparr>sc_active_transaction := a\<rparr>)"
  "P c \<Longrightarrow> P (c\<lparr>sc_deselect_drain := d\<rparr>)"
  "P c \<Longrightarrow> P (c\<lparr>sc_deferred_errors := e\<rparr>)"
  by (erule quiet, simp)+

lemma fold_law: "(\<And>x c. P c \<Longrightarrow> P (f x c)) \<Longrightarrow> P c \<Longrightarrow> P (fold f xs c)"
  by (induction xs arbitrary: c) auto

lemma emit_completion_with_law: "(\<And>c. P c \<Longrightarrow> P (F c)) \<Longrightarrow> P c \<Longrightarrow> P (emit_completion_with F k r c)"
  by (auto simp: emit_completion_with_def intro: emit_law)

lemma complete_error_with_law: "(\<And>c. P c \<Longrightarrow> P (F c)) \<Longrightarrow> P c \<Longrightarrow> P (complete_error_with F k e c)"
  by (auto simp: complete_error_with_def intro: emit_completion_with_law split: option.splits)

lemma complete_or_defer_with_law:
  "(\<And>c. P c \<Longrightarrow> P (F c)) \<Longrightarrow> P c \<Longrightarrow> P (complete_or_defer_with F e k c)"
  by (auto simp: complete_or_defer_with_def defer_error_def intro: complete_error_with_law quiet_updates)

lemma complete_all_with_law: "(\<And>c. P c \<Longrightarrow> P (F c)) \<Longrightarrow> P c \<Longrightarrow> P (complete_all_with F e c)"
  unfolding complete_all_with_def Let_def clear_transactions_def
  by (intro fold_law complete_or_defer_with_law) (auto intro: drop_transactions quiet_updates)

lemma fail_law: "P c \<Longrightarrow> P (fail_runtime_invariant c)"
  unfolding fail_runtime_invariant_def by (intro request_close_law complete_all_with_law)

lemma emit_completion_law: "P c \<Longrightarrow> P (emit_completion k r c)"
  unfolding emit_completion_def by (intro emit_completion_with_law fail_law)

lemma complete_error_law: "P c \<Longrightarrow> P (complete_error k e c)"
  unfolding complete_error_def by (intro complete_error_with_law fail_law)

lemma complete_all_law: "P c \<Longrightarrow> P (complete_all e c)"
  unfolding complete_all_def by (intro complete_all_with_law fail_law)

lemma complete_or_defer_law: "P c \<Longrightarrow> P (complete_or_defer e k c)"
  unfolding complete_or_defer_def by (intro complete_or_defer_with_law fail_law)

lemma complete_control_law: "P c \<Longrightarrow> P (complete_control k r c)"
  unfolding complete_control_def by (simp add: fail_law emit_completion_law)

lemma complete_ok_law: "P c \<Longrightarrow> P (complete_ok k c)"
  unfolding complete_ok_def by (rule complete_control_law)

lemma complete_send_law: "P c \<Longrightarrow> P (complete_send k r c)"
  unfolding complete_send_def by (simp add: fail_law emit_completion_law)

lemma complete_request_law: "P c \<Longrightarrow> P (complete_request k r c)"
  unfolding complete_request_def by (simp add: fail_law emit_completion_law)

lemma complete_control_transaction_law: "P c \<Longrightarrow> P (complete_control_transaction t r c)"
  by (simp add: complete_control_transaction_def complete_control_law split: option.split)

lemma complete_data_law: "P c \<Longrightarrow> P (complete_data_for_deselection c)"
  unfolding complete_data_for_deselection_def Let_def
  by (intro fold_law complete_or_defer_law drop_transactions)

lemma accept_time_law: "accept_time now c = (b, c') \<Longrightarrow> P c \<Longrightarrow> P c'"
  by (auto simp: accept_time_def fail_law quiet_updates split: if_splits)

lemma arm_selection_timeout_law: "P c \<Longrightarrow> P (arm_selection_timeout now c)"
  by (simp add: arm_selection_timeout_def Let_def fail_law quiet_updates)

lemma record_activity_law: "P c \<Longrightarrow> P (record_activity now c)"
  by (simp add: record_activity_def Let_def fail_law quiet_updates split: option.split)

lemma close_all_law: "P c \<Longrightarrow> P (request_close reason barrier (complete_all e c))"
  by (intro request_close_law complete_all_law)

lemma retire_law: "P c \<Longrightarrow> P (retire_data_transaction t c)"
proof -
  assume "P c"
  from bury [OF drop_transaction [OF this, of "rc_system_bytes (dt_contract t)"], of "dt_contract t"]
  show ?thesis by (simp add: retire_data_transaction_def)
qed

lemma retire_law': "P c \<Longrightarrow>
    P (c\<lparr>sc_data_transactions := om_remove s (sc_data_transactions c),
         sc_tombstones := tombstones_insert contract (sc_tombstones c)\<rparr>)"
  using bury [OF drop_transaction [of c s], of contract] by simp

lemma commit_deselection_law: "P c \<Longrightarrow> P (commit_deselection now c)"
proof -
  assume "P c"
  then have "P (c\<lparr>sc_state := Some NotSelected, sc_reply_contracts := []\<rparr>)"
    using drop_replies [OF quiet_updates(1) [of c "Some NotSelected"]] by simp
  with \<open>P c\<close> show ?thesis
    by (simp add: commit_deselection_def state_changed arm_selection_timeout_law)
qed

lemma remove_transaction_law: "P c \<Longrightarrow> P (remove_transaction_for_write w kind c)"
  by (auto simp: remove_transaction_for_write_def drop_transaction quiet_updates
      split: pending_write_kind.split option.split)

lemma finish_failed_write_law: "P c \<Longrightarrow> P (finish_failed_write w write e c)"
  by (auto simp: finish_failed_write_def Let_def split: option.split
      intro!: close_all_law complete_error_law remove_transaction_law)

lemma receive_separate_law: "P c \<Longrightarrow> P (receive_separate c)"
  by (auto simp: receive_separate_def Let_def quiet_updates split: option.split
      intro!: request_close_law state_changed complete_data_law complete_control_transaction_law)

lemma receive_data_law: "receive_data m c = (r, c') \<Longrightarrow> P c \<Longrightarrow> P c'"
  by (auto simp: receive_data_def Let_def complete_request_law retire_law'
      split: option.splits response_match.splits)

lemma apply_reject_law: "P c \<Longrightarrow> P (apply_reject target reason c)"
  by (auto simp: apply_reject_def quiet_updates retire_law split: reject_target.split
      intro!: complete_control_transaction_law complete_error_law)

lemma receive_reject_law: "receive_reject s b reason y c = (r, c') \<Longrightarrow> P c \<Longrightarrow> P c'"
  by (auto simp: receive_reject_def Let_def apply_reject_law split: if_splits list.splits)

lemma commit_write_law: "P c \<Longrightarrow> P (commit_write w write now c)"
  by (auto simp: commit_write_def Let_def quiet_updates fail_law complete_send_law
      complete_control_law update_transaction split: pending_write_kind.split option.split)

lemma close_for_timeout_law: "P c \<Longrightarrow> P (close_for_timeout kind c)"
  unfolding close_for_timeout_def by (rule close_all_law)

lemma expire_requests_law: "P c \<Longrightarrow> P (fold expire_request ts c)"
  by (intro fold_law) (auto simp: expire_request_def intro: emit_completion_law retire_law)

lemma finalize_writer_law: "P (fresh_batch c) \<Longrightarrow> P (finalize_writer now c)"
  by (auto simp: finalize_writer_def Let_def fail_law split: prod.split bool.split option.split
      dest!: accept_time_law intro!: complete_all_law fold_law complete_error_law drop_writes)

lemma on_connected_law: "P (fresh_batch c) \<Longrightarrow> P (on_connected now c)"
  by (auto simp: on_connected_def Let_def fail_law split: prod.split bool.split
      dest!: accept_time_law
      intro!: state_changed record_activity_law arm_selection_timeout_law quiet_updates)

lemma on_shutdown_law: "P (fresh_batch c) \<Longrightarrow> P (on_shutdown reason None now c)"
  by (auto simp: on_shutdown_def split: prod.split bool.split
      dest!: accept_time_law intro!: close_all_law)

lemma on_shutdown_failed_law:
  assumes "\<And>c. P c \<Longrightarrow>
      P (push (CloseGeneration reason Immediate) (c\<lparr>sc_closing := True, sc_close_action_issued := True\<rparr>))"
    and "P (fresh_batch c)"
  shows "P (on_shutdown reason (Some w) now c)"
  using assms(2)
  by (auto simp: on_shutdown_def Let_def fail_law split: prod.split bool.split option.split
      dest!: accept_time_law
      intro!: assms(1) complete_all_law complete_error_law remove_transaction_law drop_write)

end

lemma core_silent_conj:
  assumes "core_silent P" "core_silent Q"
  shows "core_silent (\<lambda>c. P c \<and> Q c)"
proof (rule core_silent.intro)
  show "P c \<and> Q c \<Longrightarrow> hard c' = hard c \<Longrightarrow> P c' \<and> Q c'" for c c'
    using core_silent.quiet [OF assms(1), of c c'] core_silent.quiet [OF assms(2), of c c'] by simp
qed (simp_all add: core_silent.emit_law [OF assms(1)] core_silent.emit_law [OF assms(2)]
    core_silent.drop_transaction [OF assms(1)] core_silent.drop_transaction [OF assms(2)]
    core_silent.drop_transactions [OF assms(1)] core_silent.drop_transactions [OF assms(2)]
    core_silent.update_transaction [OF assms(1)] core_silent.update_transaction [OF assms(2)]
    core_silent.bury [OF assms(1)] core_silent.bury [OF assms(2)]
    core_silent.request_close_law [OF assms(1)] core_silent.request_close_law [OF assms(2)]
    core_silent.closing_law [OF assms(1)] core_silent.closing_law [OF assms(2)]
    core_silent.drop_reply [OF assms(1)] core_silent.drop_reply [OF assms(2)]
    core_silent.drop_replies [OF assms(1)] core_silent.drop_replies [OF assms(2)]
    core_silent.drop_write [OF assms(1)] core_silent.drop_write [OF assms(2)]
    core_silent.drop_writes [OF assms(1)] core_silent.drop_writes [OF assms(2)]
    core_silent.state_changed [OF assms(1)] core_silent.state_changed [OF assms(2)])

subsection \<open>Control frames\<close>

text \<open>
  \<open>fresh w c\<close>: the write identifier \<open>w\<close> has been allocated in this turn and not used yet.
  Effects that send nothing keep it so, which is the law \<open>fresh_silent\<close>.
\<close>

locale core_control = core_silent +
  fixes fresh :: "write_id \<Rightarrow> session_core \<Rightarrow> bool"
  assumes fresh_silent: "core_silent (\<lambda>c. P c \<and> fresh w c)"
    and allocate_law: "P c \<Longrightarrow> sc_next_write_id c = Some w \<Longrightarrow>
           P (c\<lparr>sc_next_write_id := checked_succ w\<rparr>) \<and> fresh w (c\<lparr>sc_next_write_id := checked_succ w\<rparr>)"
    and allocate_system_law: "P c \<Longrightarrow> sc_next_system_bytes c = Some system \<Longrightarrow>
           P (c\<lparr>sc_next_system_bytes := checked_succ system\<rparr>)"
    and send_control: "P c \<Longrightarrow> fresh w c \<Longrightarrow> \<not> is_data_write kind \<Longrightarrow>
           P (add_write w kind k (Control m) c)"
begin

lemmas fresh_quiet = core_silent.quiet_updates [OF fresh_silent]
lemmas fresh_complete_error = core_silent.complete_error_law [OF fresh_silent]
lemmas fresh_complete_control_transaction =
  core_silent.complete_control_transaction_law [OF fresh_silent]
lemmas fresh_complete_data = core_silent.complete_data_law [OF fresh_silent]
lemmas fresh_closing = core_silent.closing_law [OF fresh_silent]

lemma allocate_write_id_law:
  "allocate_write_id c = (w, c') \<Longrightarrow> P c \<Longrightarrow> P c' \<and> (\<forall>v. w = Some v \<longrightarrow> fresh v c')"
  by (auto simp: allocate_write_id_def allocate_law split: option.splits)

lemma allocate_request_law:
  "allocate_request_identifiers c = (ids, c') \<Longrightarrow> P c \<Longrightarrow>
     P c' \<and> (\<forall>y w. ids = Some (y, w) \<longrightarrow> fresh w c')"
  using allocate_law allocate_system_law
  by (auto simp: allocate_request_identifiers_def allocate_write_id_def allocate_system_bytes_def
      fail_law close_all_law split: option.splits if_splits)

lemma send_response_law: "P c \<Longrightarrow> P (send_response m c)"
  by (auto simp: send_response_def fail_law send_control split: prod.split option.split
      dest!: allocate_write_id_law)

lemma start_transaction_law: "P c \<Longrightarrow> P (start_transaction kind k c)"
  by (auto simp: start_transaction_def Let_def split: prod.split option.split
      dest!: allocate_request_law intro!: send_control quiet_updates fresh_quiet [THEN conjunct2])

lemma start_select_law: "P c \<Longrightarrow> P (start_select k c)"
  by (simp add: start_select_def complete_error_law start_transaction_law)

lemma start_linktest_law: "P c \<Longrightarrow> P (start_linktest k c)"
  by (simp add: start_linktest_def complete_error_law start_transaction_law)

lemma separate_prefix_law:
  assumes "P c" "fresh w c"
  shows "P (complete_data_for_deselection
      (case sc_active_transaction d of
         None \<Rightarrow> c
       | Some t \<Rightarrow> complete_control_transaction t r (c\<lparr>sc_active_transaction := None\<rparr>))) \<and>
    fresh w (complete_data_for_deselection
      (case sc_active_transaction d of
         None \<Rightarrow> c
       | Some t \<Rightarrow> complete_control_transaction t r (c\<lparr>sc_active_transaction := None\<rparr>)))"
  using assms
  by (intro fresh_complete_data)
    (auto simp: split: option.split
      intro!: fresh_complete_control_transaction [THEN conjunct1]
        fresh_complete_control_transaction [THEN conjunct2] fresh_quiet [THEN conjunct2] quiet_updates)

lemma start_separate_law: "P c \<Longrightarrow> P (start_separate k reason c)"
proof -
  assume P: "P c"
  show ?thesis
  proof (cases "sc_state c = Some Selected")
    case False
    then show ?thesis
      using P by (auto simp: start_separate_def complete_error_law split: option.split)
  next
    case True
    obtain ids c1 where ids: "allocate_request_identifiers c = (ids, c1)" by fastforce
    show ?thesis
    proof (cases ids)
      case None
      with ids True allocate_request_law [OF ids P] show ?thesis by (simp add: start_separate_def)
    next
      case (Some p)
      then obtain y w where p: "ids = Some (y, w)" by (cases p) auto
      with allocate_request_law [OF ids P] have c1: "P c1" "fresh w c1" by auto
      let ?c2 = "c1\<lparr>sc_state := Some NotSelected, sc_closing := True\<rparr>"
      have c2: "P ?c2 \<and> fresh w ?c2"
        using fresh_closing [OF fresh_quiet(1), OF conjI, OF c1] by simp
      define c3 where "c3 = (case sc_deselect_drain ?c2 of
          None \<Rightarrow> ?c2
        | Some drain \<Rightarrow>
            complete_error (dr_command_id drain) (Protocol TransactionAborted)
              (?c2\<lparr>sc_deselect_drain := None\<rparr>))"
      have c3: "P c3 \<and> fresh w c3"
        using fresh_complete_error [OF fresh_quiet(8), OF c2] c2
        by (auto simp: c3_def split: option.split)
      define c4 where "c4 = complete_data_for_deselection
         (case sc_active_transaction c3 of
            None \<Rightarrow> c3
          | Some t \<Rightarrow> complete_control_transaction t (Err (Protocol TransactionAborted))
                        (c3\<lparr>sc_active_transaction := None\<rparr>))"
      have c4: "P c4" "fresh w c4"
        using separate_prefix_law [where c = c3 and w = w and d = c3] c3 by (auto simp: c4_def)
      have "start_separate k reason c =
          request_close reason (AfterWrite w)
            (push (SessionStateChanged NotSelected)
              (add_write w PW_Separate k (Control (SeparateRequest CONTROL_SESSION y)) c4))"
        unfolding start_separate_def Let_def c4_def c3_def using True ids p by simp
      with c4 show ?thesis by (simp add: request_close_law state_changed send_control)
    qed
  qed
qed

lemma progress_deselect_law: "P c \<Longrightarrow> P (progress_deselect now c)"
  by (auto simp: progress_deselect_def quiet_updates split: option.split
      intro!: complete_error_law complete_ok_law start_transaction_law)

lemma start_deselect_law: "P c \<Longrightarrow> P (start_deselect k now c)"
  by (auto simp: start_deselect_def quiet_updates complete_error_law fail_law split: option.split
      intro!: progress_deselect_law)

lemma receive_deselect_request_law: "P c \<Longrightarrow> P (receive_deselect_request s y now c)"
  by (simp add: receive_deselect_request_def Let_def send_response_law commit_deselection_law)

lemma receive_deselect_response_law: "P c \<Longrightarrow> P (receive_deselect_response s status y now c)"
  by (auto simp: receive_deselect_response_def Let_def send_transaction_not_open_reject_def quiet_updates
      split: option.split
      intro!: send_response_law complete_control_transaction_law commit_deselection_law)

lemma select_state_law: "P c \<Longrightarrow> P (c\<lparr>sc_state := x, sc_selection_deadline := y\<rparr>)"
  using quiet_updates(4) [OF quiet_updates(1)] by simp

lemma receive_select_request_law: "P c \<Longrightarrow> P (receive_select_request s y c)"
  by (simp add: receive_select_request_def Let_def send_response_law state_changed select_state_law)

lemma receive_select_response_law: "P c \<Longrightarrow> P (receive_select_response s status y c)"
proof -
  assume "P c"
  then have "P (c\<lparr>sc_active_transaction := None\<rparr>)"
    "P (c\<lparr>sc_active_transaction := None, sc_state := Some Selected, sc_selection_deadline := None\<rparr>)"
    using select_state_law [OF quiet_updates(7)] quiet_updates(7) by auto
  with \<open>P c\<close> show ?thesis
    by (auto simp: receive_select_response_def Let_def send_transaction_not_open_reject_def
        split: option.split intro!: send_response_law complete_control_transaction_law state_changed)
qed

lemma receive_linktest_response_law: "P c \<Longrightarrow> P (receive_linktest_response y c)"
  by (auto simp: receive_linktest_response_def send_transaction_not_open_reject_def quiet_updates
      split: option.split intro!: send_response_law complete_control_transaction_law)

lemma probe_idle_law: "P c \<Longrightarrow> P (probe_idle now c)"
  by (simp add: probe_idle_def start_transaction_law quiet_updates)

lemma expire_deadlines_law: "P c \<Longrightarrow> P (expire_deadlines now c)"
  by (auto simp: expire_deadlines_def Let_def quiet_updates split: option.split
      intro!: close_for_timeout_law complete_control_transaction_law probe_idle_law
        progress_deselect_law expire_requests_law)

lemma advance_time_law: "P (fresh_batch c) \<Longrightarrow> P (advance_time now c)"
  by (auto simp: advance_time_def split: prod.split bool.split
      dest!: accept_time_law intro!: expire_deadlines_law)

lemma on_write_outcome_law: "P (fresh_batch c) \<Longrightarrow> P (on_write_outcome_at w outcome at now c)"
  by (auto simp: on_write_outcome_at_def settle_write_def Let_def fail_law quiet_updates
      split: prod.split bool.split option.split write_outcome.split
      dest!: accept_time_law
      intro!: complete_error_law expire_deadlines_law commit_write_law finish_failed_write_law
        record_activity_law drop_write quiet_updates(9))

lemma on_inbound_violation_law: "P (fresh_batch c) \<Longrightarrow> P (on_inbound_violation v now c)"
  by (auto simp: on_inbound_violation_def Let_def send_response_law
      split: prod.split bool.split option.split inbound_violation.split header_violation_kind.split
      dest!: accept_time_law)

lemma finish_shutdown_drain_law: "P (fresh_batch c) \<Longrightarrow> P (finish_shutdown_drain reason now c)"
  by (auto simp: finish_shutdown_drain_def on_shutdown_law start_separate_law
      split: prod.split bool.split dest!: accept_time_law)

end

subsection \<open>Data frames and deliveries\<close>

locale core_data = core_control +
  assumes send_data: "P c \<Longrightarrow> fresh w c \<Longrightarrow> sc_state c = Some Selected \<Longrightarrow>
           P (add_write w kind k (Data m) c)"
    and add_transaction: "P c \<Longrightarrow> length (sc_data_transactions c) < cf_transaction_capacity (sc_config c) \<Longrightarrow>
           rc_system_bytes (dt_contract t) = system \<Longrightarrow> P (insert_data_transaction system t c)"
    and fresh_add_transaction: "P c \<Longrightarrow> fresh w c \<Longrightarrow> fresh w (insert_data_transaction system t c)"
    and deliver_law: "P c \<Longrightarrow> sc_state c = Some Selected \<Longrightarrow> P (push (DeliverPrimary m None) c)"
    and deliver_reply_law: "P c \<Longrightarrow> sc_state c = Some Selected \<Longrightarrow> sc_next_reply_id c = Some i \<Longrightarrow>
           length (sc_reply_contracts c) < cf_reply_capacity (sc_config c) \<Longrightarrow>
           P (push (DeliverPrimary m (Some i)) (insert_reply_contract i h c))"
begin

lemma allocate_data_law:
  "allocate_request_identifiers c = (ids, c') \<Longrightarrow> P c \<Longrightarrow>
     P c' \<and> (\<forall>y w. ids = Some (y, w) \<longrightarrow> fresh w c' \<and> sc_state c' = sc_state c \<and>
       sc_data_transactions c' = sc_data_transactions c \<and> sc_config c' = sc_config c)"
  using allocate_request_law [of c ids c']
  by (auto simp: allocate_request_identifiers_def allocate_write_id_def allocate_system_bytes_def
      split: option.splits if_splits)

lemma insert_data_transaction_state [simp]:
  "sc_state (insert_data_transaction system t c) = sc_state c"
  by (simp add: insert_data_transaction_def)

lemma start_data_law: "P c \<Longrightarrow> P (start_data k m reply c)"
  by (auto simp: start_data_def Let_def complete_error_law split: prod.split option.split
      dest!: allocate_data_law
      intro!: send_data fail_law add_transaction fresh_add_transaction)

lemma receive_inbound_data_law: "P c \<Longrightarrow> P (receive_inbound_data m c)"
  by (auto simp: receive_inbound_data_def Let_def send_response_law close_all_law fail_law
      deliver_law deliver_reply_law quiet_updates split: prod.split option.split
      dest!: receive_data_law)

lemma dispatch_message_law: "P c \<Longrightarrow> P (dispatch_message m now c)"
  by (auto simp: dispatch_message_def Let_def quiet_updates receive_select_request_law
      receive_select_response_law send_response_law receive_linktest_response_law
      receive_separate_law receive_inbound_data_law receive_deselect_request_law
      receive_deselect_response_law
      split: protocol_message.split control_message.split prod.split dest!: receive_reject_law)

lemma on_message_law: "P (fresh_batch c) \<Longrightarrow> P (on_message m now c)"
proof -
  assume "P (fresh_batch c)"
  then have "P (fresh_batch (c\<lparr>sc_notice := None\<rparr>))"
    by (rule quiet) (simp add: fresh_batch_def hard_def)
  then show ?thesis
    by (auto simp: on_message_def Let_def split: prod.split bool.split dest!: accept_time_law
        intro!: progress_deselect_law dispatch_message_law record_activity_law)
qed

lemma dispatch_command_law: "P c \<Longrightarrow> P (dispatch_command k kind now c)"
  by (auto simp: dispatch_command_def start_deselect_law start_select_law start_linktest_law
      start_separate_law start_data_law split: core_command_kind.split)

lemma on_command_law:
  assumes "om_lookup (sc_open_commands c) (cc_command_id cmd) = None \<Longrightarrow>
      P (open_command (cc_command_id cmd) (open_kind_of (cc_kind cmd)) (fresh_batch c))"
    and "om_lookup (sc_open_commands c) (cc_command_id cmd) \<noteq> None \<Longrightarrow> P (fresh_batch c)"
  shows "P (on_command cmd now c)"
  using assms
  by (auto simp: on_command_def Let_def fail_law fresh_batch_def split: prod.split bool.split
      dest!: accept_time_law intro!: complete_error_law dispatch_command_law)

lemma on_reply_law:
  assumes "om_lookup (sc_open_commands c) k = None \<Longrightarrow>
      P (open_command k (if intent = Reply_Abandon then Open_Control else Open_Send) (fresh_batch c))"
    and "om_lookup (sc_open_commands c) k \<noteq> None \<Longrightarrow> P (fresh_batch c)"
  shows "P (on_reply k i intent body now c)"
proof (cases "om_lookup (sc_open_commands c) k = None")
  case False
  then show ?thesis using assms(2) by (auto simp: on_reply_def Let_def fresh_batch_def fail_law)
next
  case True
  let ?kind = "if intent = Reply_Abandon then Open_Control else Open_Send"
  obtain b c1 where acc: "accept_time now (open_command k ?kind (fresh_batch c)) = (b, c1)" by fastforce
  have c1: "P c1" using accept_time_law [OF acc] assms(1) True by simp
  have drop: "P (c1\<lparr>sc_reply_contracts := om_remove i (sc_reply_contracts c1)\<rparr>)"
    using drop_reply [OF c1] .
  have alloc: "P c2 \<and> (\<forall>v. w = Some v \<longrightarrow> fresh v c2) \<and> sc_state c2 = sc_state c0"
    if "allocate_write_id c0 = (w, c2)" "P c0" for c0 c2 w
    using that allocate_write_id_law [of c0 w c2]
    by (auto simp: allocate_write_id_def split: option.splits)
  show ?thesis
    using True acc c1 drop
    by (auto simp: on_reply_def Let_def fresh_batch_def complete_error_law fail_law
        split: prod.split bool.split option.split dest!: alloc
        intro!: progress_deselect_law complete_ok_law send_data)
qed

end

end
