(* ===== verification/Hsms_Safety.thy ===== *)
theory Hsms_Safety
  imports Hsms_Effects
begin

section \<open>Safety of the session core over whole runs\<close>

text \<open>
  \<open>core_input\<close> lists the public inputs of the core, \<open>core_turn\<close> is what one of them does, and
  \<open>core_run\<close> folds a sequence of them from any core, collecting the batches. The locales of
  Hsms\_Effects are interpreted on four properties of a turn: \<open>account\<close> (which commands
  complete), \<open>closing_once\<close> (close actions), \<open>write_ids\<close> (frame identities) and
  \<open>bounded\<close> (registries and their capacities).
\<close>

datatype core_input =
    In_Connected mono_time
  | In_Command core_command mono_time
  | In_Message protocol_message mono_time
  | In_Violation inbound_violation mono_time
  | In_Reply command_id reply_capability_id reply_intent "secs_item option" mono_time
  | In_WriteOutcome write_id write_outcome mono_time mono_time
  | In_Shutdown close_reason mono_time
  | In_AdmissionFailure close_reason write_id mono_time
  | In_FinishDrain close_reason mono_time
  | In_AdvanceTime mono_time
  | In_FinalizeWriter mono_time

fun core_turn :: "core_input \<Rightarrow> session_core \<Rightarrow> session_core" where
  "core_turn (In_Connected now) c = on_connected now c"
| "core_turn (In_Command command now) c = on_command command now c"
| "core_turn (In_Message message now) c = on_message message now c"
| "core_turn (In_Violation v now) c = on_inbound_violation v now c"
| "core_turn (In_Reply k capability intent body now) c = on_reply k capability intent body now c"
| "core_turn (In_WriteOutcome w outcome occurred_at now) c = on_write_outcome_at w outcome occurred_at now c"
| "core_turn (In_Shutdown reason now) c = on_shutdown reason None now c"
| "core_turn (In_AdmissionFailure reason w now) c = on_shutdown reason (Some w) now c"
| "core_turn (In_FinishDrain reason now) c = finish_shutdown_drain reason now c"
| "core_turn (In_AdvanceTime now) c = advance_time now c"
| "core_turn (In_FinalizeWriter now) c = finalize_writer now c"

text \<open>The command an input asks the core to accept, if any.\<close>

fun accepts_command :: "core_input \<Rightarrow> command_id list" where
  "accepts_command (In_Command command _) = [cc_command_id command]"
| "accepts_command (In_Reply k _ _ _ _) = [k]"
| "accepts_command _ = []"

fun core_run :: "core_input list \<Rightarrow> session_core \<Rightarrow> core_action list \<times> session_core" where
  "core_run [] c = ([], c)"
| "core_run (i # is) c =
     (let c1 = core_turn i c; (actions, c2) = core_run is c1 in (sc_actions c1 @ actions, c2))"

lemma fresh_batch_simps [simp]:
  "sc_actions (fresh_batch c) = []"
  "sc_open_commands (fresh_batch c) = sc_open_commands c"
  "sc_data_transactions (fresh_batch c) = sc_data_transactions c"
  "sc_pending_writes (fresh_batch c) = sc_pending_writes c"
  "sc_reply_contracts (fresh_batch c) = sc_reply_contracts c"
  "sc_tombstones (fresh_batch c) = sc_tombstones c"
  "sc_config (fresh_batch c) = sc_config c"
  "sc_next_write_id (fresh_batch c) = sc_next_write_id c"
  "sc_next_system_bytes (fresh_batch c) = sc_next_system_bytes c"
  "sc_next_reply_id (fresh_batch c) = sc_next_reply_id c"
  "sc_closing (fresh_batch c) = sc_closing c"
  "sc_close_action_issued (fresh_batch c) = sc_close_action_issued c"
  "sc_state (fresh_batch c) = sc_state c"
  "sc_deferred_errors (fresh_batch c) = sc_deferred_errors c"
  "sc_active_transaction (fresh_batch c) = sc_active_transaction c"
  "sc_deselect_drain (fresh_batch c) = sc_deselect_drain c"
  "sc_last_now (fresh_batch c) = sc_last_now c"
  by (simp_all add: fresh_batch_def)

subsection \<open>Accounting of completions\<close>

fun completed_id :: "core_action \<Rightarrow> command_id list" where
  "completed_id (CompleteCommand k _) = [k]"
| "completed_id _ = []"

definition completed :: "core_action list \<Rightarrow> command_id list" where
  "completed actions = concat (map completed_id actions)"

definition open_ids :: "session_core \<Rightarrow> command_id set" where
  "open_ids c = set (om_keys (sc_open_commands c))"

definition account :: "command_id set \<Rightarrow> session_core \<Rightarrow> bool" where
  "account Ks c \<longleftrightarrow>
     distinct (completed (sc_actions c)) \<and> set (completed (sc_actions c)) \<subseteq> Ks \<and>
     open_ids c = Ks - set (completed (sc_actions c)) \<and> om_ok (sc_open_commands c)"

lemma completed_append [simp]: "completed (xs @ ys) = completed xs @ completed ys"
  by (simp add: completed_def)

lemma completed_simps [simp]:
  "completed [] = []"
  "completed [CompleteCommand k r] = [k]"
  "completed [SendFrame w m] = []"
  "completed [SessionStateChanged s] = []"
  "completed [DeliverPrimary d i] = []"
  "completed [CloseGeneration x b] = []"
  by (simp_all add: completed_def)

lemma account_emit:
  "account Ks c \<Longrightarrow> om_lookup (sc_open_commands c) k \<noteq> None \<Longrightarrow> account Ks (emit k r c)"
  using om.keys_lookup [of k "sc_open_commands c"]
  by (auto simp: account_def emit_def open_ids_def om.set_keys_remove om.remove_ok)

lemma account_silent: "core_silent (account Ks)"
  by standard
    (auto simp: account_emit, (auto simp: account_def hard_def open_ids_def request_close_def Let_def)+)

interpretation acct: core_data "account Ks" "\<lambda>_ _. True" for Ks
proof (intro_locales)
  show "core_silent (account Ks)" by (rule account_silent)
  show "core_control_axioms (account Ks) (\<lambda>_ _. True)"
  proof (rule core_control_axioms.intro)
    show "core_silent (\<lambda>c. account Ks c \<and> True)" for w :: write_id
      using account_silent by simp
  qed (auto simp: account_def open_ids_def add_write_def)
  show "core_data_axioms (account Ks) (\<lambda>_ _. True)"
    by standard (auto simp: account_def open_ids_def add_write_def insert_data_transaction_def
        insert_reply_contract_def)
qed

lemma account_start: "om_ok (sc_open_commands c) \<Longrightarrow> account (open_ids c) (fresh_batch c)"
  by (simp add: account_def open_ids_def)

lemma account_open:
  "om_ok (sc_open_commands c) \<Longrightarrow>
     account (insert k (open_ids c)) (open_command k kind (fresh_batch c))"
  by (auto simp: account_def open_ids_def open_command_def om.set_keys_insert om.insert_ok)

lemma account_turn:
  assumes "om_ok (sc_open_commands c)"
  shows "account (open_ids c \<union> set (accepts_command i)) (core_turn i c)"
proof -
  have absorb: "om_lookup (sc_open_commands c) k \<noteq> None \<Longrightarrow> insert k (open_ids c) = open_ids c" for k
    using om.keys_lookup [of k "sc_open_commands c"] by (auto simp: open_ids_def)
  note start = account_start [OF assms] and opened = account_open [OF assms]
  show ?thesis
  proof (cases i)
    case (In_Command cmd now)
    have "account (insert (cc_command_id cmd) (open_ids c)) (on_command cmd now c)"
      by (rule acct.on_command_law) (use start opened absorb in \<open>auto simp del: not_None_eq\<close>)
    with In_Command show ?thesis by simp
  next
    case (In_Reply k capability intent body now)
    have "account (insert k (open_ids c)) (on_reply k capability intent body now c)"
      by (rule acct.on_reply_law) (use start opened absorb in \<open>auto simp del: not_None_eq\<close>)
    with In_Reply show ?thesis by simp
  next
    case (In_AdmissionFailure reason w now)
    have "account (open_ids c) (on_shutdown reason (Some w) now c)"
      by (rule acct.on_shutdown_failed_law) (use start in \<open>auto simp: account_def open_ids_def\<close>)
    with In_AdmissionFailure show ?thesis by simp
  qed (use start in \<open>auto simp: acct.on_connected_law acct.on_message_law
      acct.on_inbound_violation_law acct.on_write_outcome_law acct.on_shutdown_law
      acct.finish_shutdown_drain_law acct.advance_time_law acct.finalize_writer_law\<close>)
qed

lemma account_run:
  "om_ok (sc_open_commands c) \<Longrightarrow> distinct (concat (map accepts_command is)) \<Longrightarrow>
     set (concat (map accepts_command is)) \<inter> open_ids c = {} \<Longrightarrow> core_run is c = (actions, c') \<Longrightarrow>
     distinct (completed actions) \<and> set (completed actions) \<inter> open_ids c' = {} \<and>
     set (completed actions) \<union> open_ids c' = open_ids c \<union> set (concat (map accepts_command is))"
proof (induction "is" arbitrary: c actions)
  case Nil
  then show ?case by simp
next
  case (Cons i "is")
  let ?c1 = "core_turn i c"
  obtain as2 where r: "core_run is ?c1 = (as2, c')" "actions = sc_actions ?c1 @ as2"
    using Cons.prems(4) by (auto simp: Let_def split: prod.splits)
  note t = account_turn [OF Cons.prems(1), of i, unfolded account_def]
  have ih: "distinct (completed as2)" "set (completed as2) \<inter> open_ids c' = {}"
     "set (completed as2) \<union> open_ids c' = open_ids ?c1 \<union> set (concat (map accepts_command is))"
    using Cons.IH [OF _ _ _ r(1)] t Cons.prems by auto
  have new: "set (concat (map accepts_command is)) \<inter> (open_ids c \<union> set (accepts_command i)) = {}"
    using Cons.prems(2,3) by auto
  have "set (completed (sc_actions ?c1)) \<inter> (set (completed as2) \<union> open_ids c') = {}"
    unfolding ih(3) using t new by blast
  moreover have "set (completed (sc_actions ?c1)) \<union> (set (completed as2) \<union> open_ids c')
      = open_ids c \<union> set (concat (map accepts_command (i # is)))"
    unfolding ih(3) using t by auto
  ultimately show ?case using ih(1,2) t r(2) by auto
qed

lemma open_ids_new [simp]: "open_ids (session_core_new cfg) = {}"
  by (simp add: session_core_new_def open_ids_def)

lemma om_ok_new [simp]: "om_ok (sc_open_commands (session_core_new cfg))"
  by (simp add: session_core_new_def)

text \<open>C10: Exactly-once completion: over any run of inputs from a new core in which the caller never
  reuses a command identity, no command is completed twice, and every accepted command has either
  been completed exactly once or is still open: none is lost, on any path, errors, timeouts, closing
  and invariant failures included.\<close>

theorem commands_complete_once:
  assumes "distinct (concat (map accepts_command is))"
    and "core_run is (session_core_new cfg) = (actions, c)"
  shows "distinct (completed actions) \<and>
         set (completed actions) \<inter> open_ids c = {} \<and>
         set (completed actions) \<union> open_ids c = set (concat (map accepts_command is))"
  using account_run [OF om_ok_new assms(1) _ assms(2)] by simp

lemma commands_complete_once_witness:
  "\<exists>actions c. core_run [In_Command \<lparr>cc_command_id = 3, cc_kind = Cmd_Select\<rparr> 5]
       (session_core_new (core_config_new (SessionId 1))) = (actions, c) \<and>
     completed actions = [3] \<and> open_ids c = {}"
proof -
  let ?is = "[In_Command \<lparr>cc_command_id = 3, cc_kind = Cmd_Select\<rparr> 5]"
  let ?c0 = "session_core_new (core_config_new (SessionId 1))"
  obtain actions c where r: "core_run ?is ?c0 = (actions, c)" by fastforce
  then have "completed actions = [3]"
    by (auto simp: Let_def on_command_def session_core_new_def fresh_batch_def open_command_def
        accept_time_def complete_error_def complete_error_with_def emit_completion_with_def
        om_lookup_def emit_def)
  moreover from commands_complete_once [of ?is, OF _ r] calculation have "open_ids c = {}" by auto
  ultimately show ?thesis using r by blast
qed

subsection \<open>Closing the generation\<close>

fun close_count :: "core_action \<Rightarrow> nat" where
  "close_count (CloseGeneration _ _) = 1"
| "close_count _ = 0"

definition closes :: "core_action list \<Rightarrow> nat" where
  "closes actions = sum_list (map close_count actions)"

lemma closes_append [simp]: "closes (xs @ ys) = closes xs + closes ys"
  by (simp add: closes_def)

lemma closes_simps [simp]:
  "closes [] = 0"
  "closes [CompleteCommand k r] = 0"
  "closes [SendFrame w m] = 0"
  "closes [SessionStateChanged s] = 0"
  "closes [DeliverPrimary d i] = 0"
  "closes [CloseGeneration x b] = 1"
  by (simp_all add: closes_def)

text \<open>\<open>was_closing\<close> and \<open>issued\<close> are the flags before the turn.\<close>

definition closing_once :: "bool \<Rightarrow> bool \<Rightarrow> session_core \<Rightarrow> bool" where
  "closing_once was_closing issued c \<longleftrightarrow>
     (was_closing \<longrightarrow> sc_closing c) \<and> (issued \<longrightarrow> sc_close_action_issued c) \<and>
     (sc_close_action_issued c \<longrightarrow> sc_closing c) \<and>
     closes (sc_actions c) = (if sc_close_action_issued c \<and> \<not> issued then 1 else 0)"

lemma closing_silent: "core_silent (closing_once b i)"
proof (rule core_silent.intro)
  show "closing_once b i c \<Longrightarrow> hard c' = hard c \<Longrightarrow> closing_once b i c'" for c c'
    by (simp add: closing_once_def hard_def)
  show "closing_once b i c \<Longrightarrow> closing_once b i (request_close reason barrier c)" for c reason barrier
    by (cases "sc_close_action_issued c"; cases i) (simp_all add: closing_once_def request_close_def)
qed (simp_all add: closing_once_def emit_def)

interpretation closing: core_data "closing_once b i" "\<lambda>_ _. True" for b i
proof (intro_locales)
  show "core_silent (closing_once b i)" by (rule closing_silent)
  show "core_control_axioms (closing_once b i) (\<lambda>_ _. True)"
  proof (rule core_control_axioms.intro)
    show "core_silent (\<lambda>c. closing_once b i c \<and> True)" for w :: write_id
      using closing_silent by simp
  qed (auto simp: closing_once_def add_write_def)
  show "core_data_axioms (closing_once b i) (\<lambda>_ _. True)"
    by standard (auto simp: closing_once_def add_write_def insert_data_transaction_def
        insert_reply_contract_def)
qed

definition flags_ok :: "session_core \<Rightarrow> bool" where
  "flags_ok c \<longleftrightarrow> (sc_close_action_issued c \<longrightarrow> sc_closing c)"

fun admission_failure :: "core_input \<Rightarrow> bool" where
  "admission_failure (In_AdmissionFailure _ _ _) = True"
| "admission_failure _ = False"

lemma closing_turn:
  assumes "flags_ok c" "\<not> admission_failure i"
  shows "closing_once (sc_closing c) (sc_close_action_issued c) (core_turn i c)"
proof -
  have start: "closing_once (sc_closing c) (sc_close_action_issued c) (fresh_batch c)"
    using assms(1) by (simp add: closing_once_def flags_ok_def)
  have opened: "closing_once (sc_closing c) (sc_close_action_issued c) (open_command k kind (fresh_batch c))"
    for k kind using start by (simp add: closing_once_def open_command_def)
  show ?thesis
    using assms(2) start opened
    by (cases i) (auto simp: closing.on_connected_law closing.on_message_law
      closing.on_inbound_violation_law closing.on_write_outcome_law closing.on_shutdown_law
      closing.finish_shutdown_drain_law closing.advance_time_law closing.finalize_writer_law
      intro: closing.on_command_law closing.on_reply_law)
qed

lemma closing_run:
  "flags_ok c \<Longrightarrow> list_all (\<lambda>i. \<not> admission_failure i) is \<Longrightarrow> core_run is c = (actions, c') \<Longrightarrow>
     (sc_closing c \<longrightarrow> sc_closing c') \<and> flags_ok c' \<and>
     (sc_close_action_issued c \<longrightarrow> sc_close_action_issued c') \<and>
     closes actions = (if sc_close_action_issued c' \<and> \<not> sc_close_action_issued c then 1 else 0)"
proof (induction "is" arbitrary: c actions)
  case Nil
  then show ?case by simp
next
  case (Cons i "is")
  let ?c1 = "core_turn i c"
  obtain as2 where r: "core_run is ?c1 = (as2, c')" "actions = sc_actions ?c1 @ as2"
    using Cons.prems(3) by (auto simp: Let_def split: prod.splits)
  have t: "closing_once (sc_closing c) (sc_close_action_issued c) ?c1"
    using closing_turn Cons.prems by auto
  then have "flags_ok ?c1" by (simp add: closing_once_def flags_ok_def)
  then have "(sc_closing ?c1 \<longrightarrow> sc_closing c') \<and> flags_ok c' \<and>
      (sc_close_action_issued ?c1 \<longrightarrow> sc_close_action_issued c') \<and>
      closes as2 = (if sc_close_action_issued c' \<and> \<not> sc_close_action_issued ?c1 then 1 else 0)"
    using Cons.IH [OF _ _ r(1)] Cons.prems by simp
  with t r(2) show ?case
    by (cases "sc_close_action_issued c"; cases "sc_close_action_issued ?c1";
        cases "sc_close_action_issued c'") (simp_all add: closing_once_def)
qed

lemma core_run_append:
  "core_run (is1 @ is2) c =
     (let (as1, c1) = core_run is1 c; (as2, c2) = core_run is2 c1 in (as1 @ as2, c2))"
  by (induction is1 arbitrary: c) (simp_all add: Let_def split_beta)

text \<open>C26: The generation is closed at most once: in any run without a Writer admission failure the
  core emits at most one close action, a core that is closing after a part of the run, with or without
  having emitted the action yet, is closing at its end, and it is closing whenever the action has been
  emitted.\<close>

theorem generation_closes_once:
  assumes "list_all (\<lambda>i. \<not> admission_failure i) (is1 @ is2)"
    and "core_run is1 (session_core_new cfg) = (actions1, c1)"
    and "core_run is2 c1 = (actions2, c2)"
  shows "core_run (is1 @ is2) (session_core_new cfg) = (actions1 @ actions2, c2) \<and>
         closes (actions1 @ actions2) \<le> 1 \<and>
         (closes (actions1 @ actions2) = 1 \<longleftrightarrow> sc_close_action_issued c2) \<and>
         (closes (actions1 @ actions2) = 1 \<longrightarrow> sc_closing c2) \<and>
         (sc_closing c1 \<longrightarrow> sc_closing c2) \<and>
         (closes actions1 = 1 \<longrightarrow> closes actions2 = 0)"
proof -
  have new: "flags_ok (session_core_new cfg)" "\<not> sc_close_action_issued (session_core_new cfg)"
    by (simp_all add: flags_ok_def session_core_new_def)
  have quiet: "list_all (\<lambda>i. \<not> admission_failure i) is1" "list_all (\<lambda>i. \<not> admission_failure i) is2"
    using assms(1) by simp_all
  note first = closing_run [OF new(1) quiet(1) assms(2)]
  then have "flags_ok c1" by blast
  note second = closing_run [OF this quiet(2) assms(3)]
  show ?thesis
    using first second new(2) assms(2,3)
    by (auto simp: core_run_append flags_ok_def split: if_splits)
qed

lemma generation_closes_once_witness:
  "\<exists>actions1 actions2 c1 c2. core_run [In_Shutdown LocalStop 1] (session_core_new (core_config_new (SessionId 1))) = (actions1, c1) \<and>
     core_run [In_Shutdown LocalDisconnect 2] c1 = (actions2, c2) \<and>
     sc_closing c1 \<and> sc_closing c2 \<and> closes (actions1 @ actions2) \<le> 1"
proof -
  obtain actions1 c1 where r1: "core_run [In_Shutdown LocalStop 1] (session_core_new (core_config_new (SessionId 1))) = (actions1, c1)"
    by fastforce
  obtain actions2 c2 where r2: "core_run [In_Shutdown LocalDisconnect 2] c1 = (actions2, c2)" by fastforce
  have "sc_closing c1"
    using r1 by (auto simp: on_shutdown_def request_close_def accept_time_def Let_def session_core_new_def fresh_batch_def)
  with generation_closes_once [OF _ r1 r2] r1 r2 show ?thesis by (auto simp del: core_run.simps)
qed

subsection \<open>Frame identities\<close>

fun sent_id :: "core_action \<Rightarrow> write_id list" where
  "sent_id (SendFrame w _) = [w]"
| "sent_id _ = []"

definition sent_ids :: "core_action list \<Rightarrow> write_id list" where
  "sent_ids actions = concat (map sent_id actions)"

lemma sent_ids_append [simp]: "sent_ids (xs @ ys) = sent_ids xs @ sent_ids ys"
  by (simp add: sent_ids_def)

lemma sent_ids_simps [simp]:
  "sent_ids [] = []"
  "sent_ids [CompleteCommand k r] = []"
  "sent_ids [SendFrame w m] = [w]"
  "sent_ids [SessionStateChanged s] = []"
  "sent_ids [DeliverPrimary d i] = []"
  "sent_ids [CloseGeneration x b] = []"
  by (simp_all add: sent_ids_def)

text \<open>The next identifier as a number; an exhausted allocator is past the last one.\<close>

definition next_id :: "session_core \<Rightarrow> nat" where
  "next_id c = (case sc_next_write_id c of None \<Rightarrow> 2 ^ 64 | Some w \<Rightarrow> unat w)"

lemma next_id_succ:
  "next_id (c\<lparr>sc_next_write_id := checked_succ w\<rparr>) = Suc (unat w)"
proof (cases "w = - 1")
  case True
  then show ?thesis by (simp add: next_id_def checked_succ_def unsigned_minus_1_eq_mask mask_eq_exp_minus_1)
next
  case False
  then show ?thesis by (simp add: next_id_def checked_succ_def unat_succ)
qed

definition write_ids :: "nat \<Rightarrow> session_core \<Rightarrow> bool" where
  "write_ids n c \<longleftrightarrow>
     n \<le> next_id c \<and> sorted_wrt (<) (map unat (sent_ids (sc_actions c))) \<and>
     (\<forall>w \<in> set (sent_ids (sc_actions c)). n \<le> unat w \<and> unat w < next_id c)"

definition fresh_id :: "nat \<Rightarrow> write_id \<Rightarrow> session_core \<Rightarrow> bool" where
  "fresh_id n w c \<longleftrightarrow>
     n \<le> unat w \<and> unat w < next_id c \<and> (\<forall>v \<in> set (sent_ids (sc_actions c)). unat v < unat w)"

lemma next_id_cong: "sc_next_write_id c' = sc_next_write_id c \<Longrightarrow> next_id c' = next_id c"
  by (simp add: next_id_def)

lemma silent_ids:
  assumes "\<And>c c'. P c \<Longrightarrow> next_id c' = next_id c \<Longrightarrow>
      sent_ids (sc_actions c') = sent_ids (sc_actions c) \<Longrightarrow> P c'"
  shows "core_silent P"
proof (rule core_silent.intro)
  show "P c \<Longrightarrow> hard c' = hard c \<Longrightarrow> P c'" for c c'
    by (erule assms) (simp_all add: hard_def next_id_def)
  show "P c \<Longrightarrow> P (request_close reason barrier c)" for c reason barrier
    by (erule assms) (simp_all add: request_close_def Let_def next_id_def)
qed ((erule assms; simp add: emit_def next_id_def)+)

lemma write_ids_silent: "core_silent (write_ids n)"
  by (rule silent_ids) (simp add: write_ids_def)

lemma fresh_ids_silent: "core_silent (\<lambda>c. write_ids n c \<and> fresh_id n w c)"
  by (rule silent_ids) (simp add: write_ids_def fresh_id_def)

lemma write_ids_send:
  "write_ids n c \<Longrightarrow> fresh_id n w c \<Longrightarrow> write_ids n (add_write w kind k m c)"
  by (auto simp: write_ids_def fresh_id_def add_write_def next_id_def sorted_wrt_append)

interpretation ids: core_data "write_ids n" "fresh_id n" for n
proof (intro_locales)
  show "core_silent (write_ids n)" by (rule write_ids_silent)
  show "core_control_axioms (write_ids n) (fresh_id n)"
  proof (rule core_control_axioms.intro)
    show "core_silent (\<lambda>c. write_ids n c \<and> fresh_id n w c)" for w by (rule fresh_ids_silent)
    show "write_ids n (c\<lparr>sc_next_write_id := checked_succ w\<rparr>) \<and>
        fresh_id n w (c\<lparr>sc_next_write_id := checked_succ w\<rparr>)"
      if "write_ids n c" "sc_next_write_id c = Some w" for c w
    proof -
      have "next_id c = unat w" using that by (simp add: next_id_def)
      with that show ?thesis
        unfolding write_ids_def fresh_id_def next_id_succ by auto
    qed
  qed (auto simp: write_ids_send, auto simp: write_ids_def next_id_def)
  show "core_data_axioms (write_ids n) (fresh_id n)"
    by standard (auto simp: write_ids_send, (auto simp: write_ids_def fresh_id_def next_id_def
        insert_data_transaction_def insert_reply_contract_def)+)
qed

lemma write_ids_turn: "write_ids (next_id c) (core_turn i c)"
proof -
  have start: "write_ids (next_id c) (fresh_batch c)"
    by (simp add: write_ids_def next_id_def)
  have opened: "write_ids (next_id c) (open_command k kind (fresh_batch c))" for k kind
    by (simp add: write_ids_def next_id_def open_command_def)
  have failed: "write_ids (next_id c) (on_shutdown reason (Some w) now c)" for reason w now
    by (rule ids.on_shutdown_failed_law [OF _ start]) (simp add: write_ids_def next_id_def)
  show ?thesis
    using start opened failed
    by (cases i) (auto simp: ids.on_connected_law ids.on_message_law
      ids.on_inbound_violation_law ids.on_write_outcome_law ids.on_shutdown_law
      ids.finish_shutdown_drain_law ids.advance_time_law ids.finalize_writer_law
      intro: ids.on_command_law ids.on_reply_law)
qed

lemma write_ids_run:
  "sorted_wrt (<) (map unat (sent_ids (fst (core_run is c)))) \<and>
   (\<forall>w \<in> set (sent_ids (fst (core_run is c))). next_id c \<le> unat w)"
proof (induction "is" arbitrary: c)
  case (Cons i "is")
  let ?c1 = "core_turn i c"
  have t: "next_id c \<le> next_id ?c1" "sorted_wrt (<) (map unat (sent_ids (sc_actions ?c1)))"
    "\<And>w. w \<in> set (sent_ids (sc_actions ?c1)) \<Longrightarrow> next_id c \<le> unat w \<and> unat w < next_id ?c1"
    using write_ids_turn [of c i] by (auto simp: write_ids_def)
  have r: "fst (core_run (i # is) c) = sc_actions ?c1 @ fst (core_run is ?c1)"
    by (simp add: Let_def case_prod_beta)
  have ih: "sorted_wrt (<) (map unat (sent_ids (fst (core_run is ?c1))))"
    "\<And>w. w \<in> set (sent_ids (fst (core_run is ?c1))) \<Longrightarrow> next_id ?c1 \<le> unat w"
    using Cons.IH [of ?c1] by auto
  have "unat x < unat y" if "x \<in> set (sent_ids (sc_actions ?c1))"
    "y \<in> set (sent_ids (fst (core_run is ?c1)))" for x y
    using t(3) [OF that(1)] ih(2) [OF that(2)] by simp
  moreover have "next_id c \<le> unat w" if "w \<in> set (sent_ids (fst (core_run is ?c1)))" for w
    using ih(2) [OF that] t(1) by simp
  ultimately show ?case
    unfolding r using t(2,3) ih(1) by (auto simp: sorted_wrt_append)
qed simp

text \<open>C31: Frame identities never repeat: over any run, the write identifiers of the frames the core
  emits are strictly increasing, so no two frames share one and the allocator never wraps.\<close>

theorem write_ids_increase:
  "sorted_wrt (<) (map unat (sent_ids (fst (core_run is (session_core_new cfg)))))"
  using write_ids_run by blast

subsection \<open>Capacities\<close>

definition bounded :: "session_core_config \<Rightarrow> session_core \<Rightarrow> bool" where
  "bounded cfg c \<longleftrightarrow>
     sc_config c = cfg \<and>
     om_ok (sc_open_commands c) \<and> om_ok (sc_data_transactions c) \<and> om_ok (sc_pending_writes c) \<and>
     om_ok (sc_reply_contracts c) \<and>
     length (sc_data_transactions c) \<le> cf_transaction_capacity cfg \<and>
     length (sc_reply_contracts c) \<le> cf_reply_capacity cfg \<and>
     length (tb_entries (sc_tombstones c)) \<le> cf_tombstone_capacity cfg \<and>
     tb_capacity (sc_tombstones c) = cf_tombstone_capacity cfg \<and>
     (\<forall>w \<in> set (om_keys (sc_pending_writes c)). unat w < next_id c) \<and>
     (\<forall>(system, t) \<in> set (sc_data_transactions c). rc_system_bytes (dt_contract t) = system)"

lemma om_remove_subset: "set (om_remove k m) \<subseteq> set m"
  by (auto simp: om_remove_def)

lemma om_lookup_in: "om_lookup m k = Some v \<Longrightarrow> (k, v) \<in> set m"
  by (simp add: om_lookup_def map_of_SomeD)

lemma bounded_update:
  assumes "bounded cfg c" "om_lookup (sc_data_transactions c) system = Some t"
  shows "bounded cfg (c\<lparr>sc_data_transactions :=
           om_insert system (t\<lparr>dt_deadline := deadline\<rparr>) (sc_data_transactions c)\<rparr>)"
  using assms om_lookup_in [OF assms(2)]
  by (auto simp: bounded_def om.insert_ok next_id_def length_om_insert_present dest!: om_pairs_insert)

lemma bounded_silent: "core_silent (bounded cfg)"
proof (rule core_silent.intro)
  show "bounded cfg c \<Longrightarrow> hard c' = hard c \<Longrightarrow> bounded cfg c'" for c c'
    by (simp add: bounded_def hard_def next_id_def)
  show "bounded cfg c \<Longrightarrow> bounded cfg (request_close reason barrier c)" for c reason barrier
    by (simp add: bounded_def request_close_def Let_def next_id_def)
  show "bounded cfg c \<Longrightarrow> bounded cfg (emit k r c)" for c k r
    by (simp add: bounded_def emit_def next_id_def om.remove_ok)
  show "bounded cfg c \<Longrightarrow> bounded cfg (c\<lparr>sc_data_transactions := om_remove s (sc_data_transactions c)\<rparr>)"
    for c s
    using om_remove_subset [of s "sc_data_transactions c"] length_om_remove_le [of s "sc_data_transactions c"]
    by (fastforce simp: bounded_def next_id_def om.remove_ok)
  show "bounded cfg c \<Longrightarrow> bounded cfg (c\<lparr>sc_tombstones := tombstones_insert r (sc_tombstones c)\<rparr>)" for c r
    using tombstones_insert_ok [of "sc_tombstones c" r]
    by (simp add: bounded_def next_id_def tombstones_ok_def)
  show "bounded cfg c \<Longrightarrow> bounded cfg (c\<lparr>sc_reply_contracts := om_remove i (sc_reply_contracts c)\<rparr>)" for c i
    using length_om_remove_le [of i "sc_reply_contracts c"]
    by (simp add: bounded_def next_id_def om.remove_ok)
  show "bounded cfg c \<Longrightarrow> bounded cfg (c\<lparr>sc_pending_writes := om_remove w (sc_pending_writes c)\<rparr>)" for c w
    by (simp add: bounded_def next_id_def om.remove_ok om.set_keys_remove)
  show "bounded cfg c \<Longrightarrow> om_lookup (sc_data_transactions c) system = Some t \<Longrightarrow>
      bounded cfg (c\<lparr>sc_data_transactions :=
        om_insert system (t\<lparr>dt_deadline := deadline\<rparr>) (sc_data_transactions c)\<rparr>)" for c system t deadline
    by (rule bounded_update)
qed (simp_all add: bounded_def next_id_def)

definition below_next :: "write_id \<Rightarrow> session_core \<Rightarrow> bool" where
  "below_next w c \<longleftrightarrow> unat w < next_id c"

lemma below_next_silent: "core_silent (\<lambda>c. bounded cfg c \<and> below_next w c)"
proof -
  have "core_silent (below_next w)"
    by (rule silent_ids) (simp add: below_next_def)
  with bounded_silent [of cfg] show ?thesis by (rule core_silent_conj)
qed

lemma bounded_send: "bounded cfg c \<Longrightarrow> below_next w c \<Longrightarrow> bounded cfg (add_write w kind k m c)"
  by (simp add: bounded_def below_next_def add_write_def next_id_def om.insert_ok om.set_keys_insert)

lemma bounded_next: "bounded cfg c \<Longrightarrow> sc_next_write_id c = Some w \<Longrightarrow>
    bounded cfg (c\<lparr>sc_next_write_id := checked_succ w\<rparr>) \<and>
    below_next w (c\<lparr>sc_next_write_id := checked_succ w\<rparr>)"
proof -
  assume A: "bounded cfg c" "sc_next_write_id c = Some w"
  then have "\<forall>v \<in> set (om_keys (sc_pending_writes c)). unat v < unat w"
    by (simp add: bounded_def next_id_def)
  with A(1) show ?thesis
    unfolding bounded_def below_next_def next_id_succ by (auto simp: less_Suc_eq)
qed

interpretation bnd: core_data "bounded cfg" below_next for cfg
proof (intro_locales)
  show "core_silent (bounded cfg)" by (rule bounded_silent)
  show "core_control_axioms (bounded cfg) below_next"
  proof (rule core_control_axioms.intro)
    show "core_silent (\<lambda>c. bounded cfg c \<and> below_next w c)" for w by (rule below_next_silent)
  qed (auto simp: bounded_send bounded_next, simp add: bounded_def next_id_def)
  show "core_data_axioms (bounded cfg) below_next"
  proof (rule core_data_axioms.intro)
    show "bounded cfg (insert_data_transaction system t c)"
      if "bounded cfg c" "length (sc_data_transactions c) < cf_transaction_capacity (sc_config c)"
        "rc_system_bytes (dt_contract t) = system" for c system t
      using that length_om_insert_le [of "sc_data_transactions c" system t]
      by (auto simp: bounded_def insert_data_transaction_def om.insert_ok next_id_def
          dest!: om_pairs_insert)
    show "bounded cfg (push (DeliverPrimary m (Some i)) (insert_reply_contract i h c))"
      if "bounded cfg c" "length (sc_reply_contracts c) < cf_reply_capacity (sc_config c)" for c m i h
      using that length_om_insert_le [of "sc_reply_contracts c" i h]
      by (auto simp: bounded_def insert_reply_contract_def om.insert_ok next_id_def)
  qed (auto simp: bounded_send, (simp_all add: bounded_def below_next_def next_id_def
        insert_data_transaction_def))
qed

lemma bounded_turn: "bounded cfg c \<Longrightarrow> bounded cfg (core_turn i c)"
proof -
  assume B: "bounded cfg c"
  then have start: "bounded cfg (fresh_batch c)" by (simp add: bounded_def next_id_def)
  then have opened: "bounded cfg (open_command k kind (fresh_batch c))" for k kind
    by (simp add: bounded_def next_id_def open_command_def om.insert_ok)
  have failed: "bounded cfg (on_shutdown reason (Some w) now c)" for reason w now
    by (rule bnd.on_shutdown_failed_law [OF _ start]) (simp add: bounded_def next_id_def)
  show ?thesis
    using start opened failed
    by (cases i) (auto simp: bnd.on_connected_law bnd.on_message_law
      bnd.on_inbound_violation_law bnd.on_write_outcome_law bnd.on_shutdown_law
      bnd.finish_shutdown_drain_law bnd.advance_time_law bnd.finalize_writer_law
      intro: bnd.on_command_law bnd.on_reply_law)
qed

lemma bounded_run: "bounded cfg c \<Longrightarrow> bounded cfg (snd (core_run is c))"
  by (induction "is" arbitrary: c) (auto simp: Let_def bounded_turn case_prod_beta)

lemma bounded_new: "bounded cfg (session_core_new cfg)"
  by (simp add: bounded_def session_core_new_def tombstones_new_def)

text \<open>C30: Resources stay bounded: after any run the live requests, the reply capabilities and the
  tombstones are within the configured capacities, the registries of commands, requests, pending
  writes and reply capabilities have unique keys, a request is registered under its own system bytes,
  and pending writes carry identifiers already allocated.\<close>

theorem core_stays_bounded: "bounded cfg (snd (core_run is (session_core_new cfg)))"
  by (rule bounded_run [OF bounded_new])

end
