(* ===== verification/Hsms_Coherence.thy ===== *)
theory Hsms_Coherence
  imports Hsms_Safety
begin

section \<open>Coherence of the session core\<close>

text \<open>
  The registries of the core refer to each other: a pending write names the command it will
  complete and the transaction it belongs to, transactions name their command and their write, the
  drain names its command. \<open>coh dd K c\<close> says that the references agree, where \<open>K\<close> is the set
  of open commands the running handler has taken out of its registries and not yet completed or put
  back, and \<open>dd\<close> that the drain is about to be dropped. Between turns \<open>dd\<close> is false and
  \<open>K\<close> empty. The last clause is the blame: a close for a runtime invariant is in the batch only
  when an identifier space is exhausted.
\<close>

definition w_cmd :: "(write_id, pending_write) omap \<Rightarrow> write_id \<Rightarrow> command_id option" where
  "w_cmd m w = (case om_lookup m w of None \<Rightarrow> None | Some p \<Rightarrow> pw_command_id p)"

definition w_kind :: "(write_id, pending_write) omap \<Rightarrow> write_id \<Rightarrow> pending_write_kind option" where
  "w_kind m w = map_option pw_kind (om_lookup m w)"

definition a_cmd :: "control_transaction option \<Rightarrow> command_id option" where
  "a_cmd a = (case a of None \<Rightarrow> None | Some t \<Rightarrow> ct_command_id t)"

lemma a_cmd_simps [simp]: "a_cmd None = None" "a_cmd (Some t) = ct_command_id t"
  by (simp_all add: a_cmd_def)

text \<open>The kind of command a pending write of each kind may carry.\<close>

fun write_command_kind :: "pending_write_kind \<Rightarrow> open_command_kind option" where
  "write_command_kind PW_TransactionRequest = Some Open_Control"
| "write_command_kind (PW_DataSend _) = Some Open_Send"
| "write_command_kind (PW_DataRequest _) = Some Open_Request"
| "write_command_kind PW_Separate = Some Open_Control"
| "write_command_kind PW_Response = None"

definition below :: "'a::linorder \<Rightarrow> 'a option \<Rightarrow> bool" where
  "below x next = (case next of None \<Rightarrow> True | Some n \<Rightarrow> x < n)"

definition exhausted :: "session_core \<Rightarrow> bool" where
  "exhausted c \<longleftrightarrow> sc_next_write_id c = None \<or> sc_next_reply_id c = None"

definition registries_ok :: "session_core \<Rightarrow> bool" where
  "registries_ok c \<longleftrightarrow>
     om_ok (sc_open_commands c) \<and> om_ok (sc_data_transactions c) \<and> om_ok (sc_pending_writes c) \<and>
     om_ok (sc_deferred_errors c) \<and>
     (\<forall>w. om_lookup (sc_pending_writes c) w \<noteq> None \<longrightarrow> below w (sc_next_write_id c)) \<and>
     (\<forall>s. om_lookup (sc_data_transactions c) s \<noteq> None \<longrightarrow> below s (sc_next_system_bytes c))"

text \<open>A request write that will not complete with a deferred error still has its transaction.\<close>

definition carried :: "session_core \<Rightarrow> write_id \<Rightarrow> command_id \<Rightarrow> pending_write_kind \<Rightarrow> bool" where
  "carried c w k kind \<longleftrightarrow>
     (kind = PW_TransactionRequest \<longrightarrow>
        (\<exists>t. sc_active_transaction c = Some t \<and> ct_write_id t = w \<and> ct_command_id t = Some k)) \<and>
     (\<forall>s. kind = PW_DataRequest s \<longrightarrow>
        (\<exists>t. om_lookup (sc_data_transactions c) s = Some t \<and> dt_write_id t = w \<and> dt_command_id t = k))"

definition writes_ok :: "command_id set \<Rightarrow> session_core \<Rightarrow> bool" where
  "writes_ok K c \<longleftrightarrow>
     (\<forall>w k. w_cmd (sc_pending_writes c) w = Some k \<longrightarrow>
        om_lookup (sc_open_commands c) k \<noteq> None \<and>
        (\<forall>w'. w_cmd (sc_pending_writes c) w' = Some k \<longrightarrow> w' = w) \<and>
        (\<forall>kind. w_kind (sc_pending_writes c) w = Some kind \<longrightarrow>
           write_command_kind kind = om_lookup (sc_open_commands c) k \<and>
           (kind \<noteq> PW_TransactionRequest \<longrightarrow> a_cmd (sc_active_transaction c) \<noteq> Some k) \<and>
           (k \<notin> K \<longrightarrow> om_lookup (sc_deferred_errors c) k = None \<longrightarrow> carried c w k kind)))"

definition active_ok :: "command_id set \<Rightarrow> session_core \<Rightarrow> bool" where
  "active_ok K c \<longleftrightarrow>
     (\<forall>k. a_cmd (sc_active_transaction c) = Some k \<longrightarrow>
        k \<notin> K \<and> om_lookup (sc_open_commands c) k = Some Open_Control \<and>
        om_lookup (sc_deferred_errors c) k = None) \<and>
     (\<forall>t. sc_active_transaction c = Some t \<longrightarrow>
        below (ct_write_id t) (sc_next_write_id c) \<and>
        (if ct_deadline t = None
         then w_kind (sc_pending_writes c) (ct_write_id t) = Some PW_TransactionRequest \<and>
              w_cmd (sc_pending_writes c) (ct_write_id t) = ct_command_id t
         else om_lookup (sc_pending_writes c) (ct_write_id t) = None))"

definition data_ok :: "command_id set \<Rightarrow> session_core \<Rightarrow> bool" where
  "data_ok K c \<longleftrightarrow>
     (\<forall>s t. om_lookup (sc_data_transactions c) s = Some t \<longrightarrow>
        rc_system_bytes (dt_contract t) = s \<and> dt_command_id t \<notin> K \<and>
        om_lookup (sc_open_commands c) (dt_command_id t) = Some Open_Request \<and>
        om_lookup (sc_deferred_errors c) (dt_command_id t) = None \<and>
        (\<forall>s' t'. om_lookup (sc_data_transactions c) s' = Some t' \<longrightarrow>
           dt_command_id t' = dt_command_id t \<longrightarrow> s' = s) \<and>
        below (dt_write_id t) (sc_next_write_id c) \<and>
        (if dt_deadline t = None
         then w_kind (sc_pending_writes c) (dt_write_id t) = Some (PW_DataRequest s) \<and>
              w_cmd (sc_pending_writes c) (dt_write_id t) = Some (dt_command_id t)
         else om_lookup (sc_pending_writes c) (dt_write_id t) = None))"

definition drain_ok :: "bool \<Rightarrow> command_id set \<Rightarrow> session_core \<Rightarrow> bool" where
  "drain_ok dd K c \<longleftrightarrow>
     (\<forall>d. sc_deselect_drain c = Some d \<longrightarrow> dd \<or> sc_closing c \<or>
        sc_active_transaction c = None \<and> dr_command_id d \<notin> K \<and>
        om_lookup (sc_open_commands c) (dr_command_id d) = Some Open_Control \<and>
        (\<forall>w. w_cmd (sc_pending_writes c) w \<noteq> Some (dr_command_id d)))"

definition deferred_ok :: "command_id set \<Rightarrow> session_core \<Rightarrow> bool" where
  "deferred_ok K c \<longleftrightarrow>
     (\<forall>k. om_lookup (sc_deferred_errors c) k \<noteq> None \<longrightarrow>
        k \<in> K \<or> (\<exists>w. w_cmd (sc_pending_writes c) w = Some k))"

text \<open>Every open command waits for something.\<close>

definition awaited :: "session_core \<Rightarrow> command_id \<Rightarrow> bool" where
  "awaited c k \<longleftrightarrow>
     (\<exists>w. w_cmd (sc_pending_writes c) w = Some k) \<or> a_cmd (sc_active_transaction c) = Some k \<or>
     (\<exists>s t. om_lookup (sc_data_transactions c) s = Some t \<and> dt_command_id t = k) \<or>
     (\<exists>d. sc_deselect_drain c = Some d \<and> dr_command_id d = k)"

definition open_ok :: "command_id set \<Rightarrow> session_core \<Rightarrow> bool" where
  "open_ok K c \<longleftrightarrow>
     (\<forall>k. om_lookup (sc_open_commands c) k \<noteq> None \<longrightarrow> k \<in> K \<or> sc_closing c \<or> awaited c k)"

definition clock_ok :: "session_core \<Rightarrow> bool" where
  "clock_ok c \<longleftrightarrow>
     (\<forall>a. sc_last_activity c = Some a \<longrightarrow> (\<exists>now. sc_last_now c = Some now \<and> a \<le> now))"

text \<open>Before the connection there is nothing to wait for.\<close>

definition idle_ok :: "session_core \<Rightarrow> bool" where
  "idle_ok c \<longleftrightarrow> (sc_state c = None \<longrightarrow>
     sc_active_transaction c = None \<and> sc_data_transactions c = [] \<and> sc_pending_writes c = [] \<and>
     sc_deselect_drain c = None)"

definition blameless :: "session_core \<Rightarrow> bool" where
  "blameless c \<longleftrightarrow>
     (\<forall>b. CloseGeneration RuntimeInvariant b \<in> set (sc_actions c) \<longrightarrow> exhausted c)"

definition coh :: "bool \<Rightarrow> command_id set \<Rightarrow> session_core \<Rightarrow> bool" where
  "coh dd K c \<longleftrightarrow>
     registries_ok c \<and> writes_ok K c \<and> active_ok K c \<and> data_ok K c \<and> drain_ok dd K c \<and>
     deferred_ok K c \<and> open_ok K c \<and> clock_ok c \<and> idle_ok c \<and> blameless c"

lemmas coh_parts = registries_ok_def writes_ok_def active_ok_def data_ok_def drain_ok_def
  deferred_ok_def open_ok_def clock_ok_def idle_ok_def blameless_def awaited_def carried_def

lemma cohI:
  "registries_ok c \<Longrightarrow> writes_ok K c \<Longrightarrow> active_ok K c \<Longrightarrow> data_ok K c \<Longrightarrow> drain_ok dd K c \<Longrightarrow>
   deferred_ok K c \<Longrightarrow> open_ok K c \<Longrightarrow> clock_ok c \<Longrightarrow> idle_ok c \<Longrightarrow> blameless c \<Longrightarrow> coh dd K c"
  by (simp add: coh_def)

lemma cohE:
  assumes "coh dd K c"
  obtains "registries_ok c" "writes_ok K c" "active_ok K c" "data_ok K c" "drain_ok dd K c"
    "deferred_ok K c" "open_ok K c" "clock_ok c" "idle_ok c" "blameless c"
  using assms by (simp add: coh_def)

subsection \<open>Views of the pending writes\<close>

lemma w_cmd_detach [simp]:
  "w_cmd (om_map_values (detach k) m) w = (if w_cmd m w = Some k then None else w_cmd m w)"
  by (auto simp: w_cmd_def detach_def split: option.splits)

lemma ex_w_cmd_detach [simp]:
  "(\<exists>w. w_cmd (om_map_values (detach k) m) w = Some k') \<longleftrightarrow> k' \<noteq> k \<and> (\<exists>w. w_cmd m w = Some k')"
  by (auto simp: w_cmd_def detach_def split: option.splits if_splits)

lemma w_kind_detach [simp]: "w_kind (om_map_values (detach k) m) = w_kind m"
proof
  show "w_kind (om_map_values (detach k) m) w = w_kind m w" for w
    by (cases "om_lookup m w") (simp_all add: w_kind_def detach_def)
qed

lemma w_cmd_insert:
  "om_ok m \<Longrightarrow> w_cmd (om_insert w p m) w' = (if w = w' then pw_command_id p else w_cmd m w')"
  by (simp add: w_cmd_def om.lookup_insert)

lemma w_kind_insert:
  "om_ok m \<Longrightarrow> w_kind (om_insert w p m) w' = (if w = w' then Some (pw_kind p) else w_kind m w')"
  by (simp add: w_kind_def om.lookup_insert)

lemma w_cmd_remove: "w_cmd (om_remove w m) w' = (if w = w' then None else w_cmd m w')"
  by (simp add: w_cmd_def om.lookup_remove)

lemma w_kind_remove: "w_kind (om_remove w m) w' = (if w = w' then None else w_kind m w')"
  by (simp add: w_kind_def om.lookup_remove)

lemma w_empty [simp]: "w_cmd [] w = None" "w_kind [] w = None"
  by (simp_all add: w_cmd_def w_kind_def)

lemma w_cmd_kind: "w_cmd m w = Some k \<Longrightarrow> \<exists>kind. w_kind m w = Some kind"
  by (auto simp: w_cmd_def w_kind_def split: option.splits)

lemma has_pending_write_iff:
  "om_ok (sc_pending_writes c) \<Longrightarrow>
     has_pending_write k c \<longleftrightarrow> (\<exists>w. w_cmd (sc_pending_writes c) w = Some k)"
  unfolding has_pending_write_def list_ex_iff w_cmd_def
  by (metis (no_types, lifting) om_values_lookup option.case_eq_if option.distinct(1) option.exhaust_sel
      option.sel)

lemmas w_simps = w_cmd_insert w_kind_insert w_cmd_remove w_kind_remove
lemmas om_simps = om.lookup_insert om.lookup_remove om.insert_ok om.remove_ok

subsection \<open>Taking a command out of a registry and completing it\<close>

text \<open>The commands a registry other than the pending writes holds.\<close>

definition held :: "bool \<Rightarrow> session_core \<Rightarrow> command_id \<Rightarrow> bool" where
  "held dd c k \<longleftrightarrow> a_cmd (sc_active_transaction c) = Some k \<or>
     (\<exists>s t. om_lookup (sc_data_transactions c) s = Some t \<and> dt_command_id t = k) \<or>
     (\<not> dd \<and> \<not> sc_closing c \<and> (\<exists>d. sc_deselect_drain c = Some d \<and> dr_command_id d = k))"

lemma flux_not_held: "coh dd K c \<Longrightarrow> k \<in> K \<Longrightarrow> \<not> held dd c k"
  unfolding coh_def active_ok_def data_ok_def drain_ok_def held_def by blast

lemma coh_flux:
  assumes "coh dd K c" "\<not> held dd c k"
  shows "coh dd (insert k K) c"
  using assms(1)
proof (rule cohE, intro cohI)
  assume p: "writes_ok K c" "active_ok K c" "data_ok K c" "drain_ok dd K c"
    "deferred_ok K c" "open_ok K c"
  show "writes_ok (insert k K) c" using p(1) unfolding writes_ok_def by blast
  show "active_ok (insert k K) c" using p(2) assms(2) unfolding active_ok_def held_def by blast
  show "data_ok (insert k K) c" using p(3) assms(2) unfolding data_ok_def held_def by blast
  show "drain_ok dd (insert k K) c" using p(4) assms(2) unfolding drain_ok_def held_def by blast
  show "deferred_ok (insert k K) c" using p(5) unfolding deferred_ok_def by blast
  show "open_ok (insert k K) c" using p(6) unfolding open_ok_def by blast
qed

lemma coh_emit:
  assumes c: "coh dd (insert k K) c" and "k \<notin> K"
  shows "coh dd K (emit k r c)"
proof -
  have nh: "\<not> held dd c k" using flux_not_held [OF c] by simp
  let ?c = "emit k r c"
  show ?thesis using c
  proof (rule cohE, intro cohI)
    assume p: "registries_ok c" "writes_ok (insert k K) c" "active_ok (insert k K) c"
      "data_ok (insert k K) c" "drain_ok dd (insert k K) c" "deferred_ok (insert k K) c"
      "open_ok (insert k K) c" "clock_ok c" "idle_ok c" "blameless c"
    show "registries_ok ?c" using p(1) by (auto simp: emit_def registries_ok_def om.remove_ok)
    show "writes_ok K ?c"
      using p(2) nh by (auto simp: emit_def writes_ok_def carried_def held_def om.lookup_remove)
    show "active_ok K ?c"
      using p(3) nh by (auto simp: emit_def active_ok_def held_def om.lookup_remove)
    show "data_ok K ?c"
      using p(4) nh by (auto simp: emit_def data_ok_def held_def om.lookup_remove)
    show "drain_ok dd K ?c"
      using p(5) nh by (auto simp: emit_def drain_ok_def held_def om.lookup_remove)
    show "deferred_ok K ?c"
      using p(6) by (auto simp: emit_def deferred_ok_def om.lookup_remove simp del: w_cmd_detach)
    show "open_ok K ?c"
      using p(7) by (auto simp: emit_def open_ok_def awaited_def om.lookup_remove simp del: w_cmd_detach)
    show "clock_ok ?c" using p(8) by (simp add: clock_ok_def emit_def)
    show "idle_ok ?c" using p(9) by (auto simp: idle_ok_def emit_def om_map_values_def)
    show "blameless ?c" using p(10) by (auto simp: blameless_def emit_def exhausted_def)
  qed
qed

lemma coh_open:
  "coh dd K c \<Longrightarrow> om_ok (sc_open_commands c)"
  by (simp add: coh_def registries_ok_def)

lemma coh_complete_error:
  "coh dd (insert k K) c \<Longrightarrow> k \<notin> K \<Longrightarrow> om_lookup (sc_open_commands c) k \<noteq> None \<Longrightarrow>
     coh dd K (complete_error k e c)"
  by (auto simp: complete_error_def complete_error_with_def emit_completion_with_def coh_emit)

lemma coh_complete_control:
  "coh dd (insert k K) c \<Longrightarrow> k \<notin> K \<Longrightarrow> om_lookup (sc_open_commands c) k = Some Open_Control \<Longrightarrow>
     coh dd K (complete_control k r c)"
  by (simp add: complete_control_def emit_completion_def emit_completion_with_def coh_emit)

lemma coh_complete_ok:
  "coh dd (insert k K) c \<Longrightarrow> k \<notin> K \<Longrightarrow> om_lookup (sc_open_commands c) k = Some Open_Control \<Longrightarrow>
     coh dd K (complete_ok k c)"
  by (simp add: complete_ok_def coh_complete_control)

lemma coh_complete_send:
  "coh dd (insert k K) c \<Longrightarrow> k \<notin> K \<Longrightarrow> om_lookup (sc_open_commands c) k = Some Open_Send \<Longrightarrow>
     coh dd K (complete_send k r c)"
  by (simp add: complete_send_def emit_completion_def emit_completion_with_def coh_emit)

lemma coh_complete_request:
  "coh dd (insert k K) c \<Longrightarrow> k \<notin> K \<Longrightarrow> om_lookup (sc_open_commands c) k = Some Open_Request \<Longrightarrow>
     coh dd K (complete_request k r c)"
  by (simp add: complete_request_def emit_completion_def emit_completion_with_def coh_emit)

lemma coh_quiet [simp]:
  "coh dd K (c\<lparr>sc_notice := n\<rparr>) = coh dd K c"
  "coh dd K (c\<lparr>sc_selection_deadline := t\<rparr>) = coh dd K c"
  "coh dd K (c\<lparr>sc_idle_deadline := t\<rparr>) = coh dd K c"
  "coh dd K (c\<lparr>sc_tombstones := tb\<rparr>) = coh dd K c"
  "coh dd K (c\<lparr>sc_reply_contracts := rs\<rparr>) = coh dd K c"
  "coh dd K (c\<lparr>sc_close_action_issued := b\<rparr>) = coh dd K c"
  by (simp_all add: coh_def coh_parts exhausted_def)

lemma coh_state [simp]: "coh dd K c \<Longrightarrow> coh dd K (c\<lparr>sc_state := Some s\<rparr>)"
  by (simp add: coh_def coh_parts exhausted_def)

lemma coh_push:
  "coh dd K c \<Longrightarrow> (\<And>b. a \<noteq> CloseGeneration RuntimeInvariant b) \<Longrightarrow> coh dd K (push a c)"
  by (auto simp: coh_def coh_parts exhausted_def)

lemma writes_ok_weaken:
  assumes "writes_ok K c" "sc_open_commands c' = sc_open_commands c"
    "sc_pending_writes c' = sc_pending_writes c"
    "\<And>k. a_cmd (sc_active_transaction c') = Some k \<Longrightarrow> a_cmd (sc_active_transaction c) = Some k"
    "\<And>w k kind. w_cmd (sc_pending_writes c) w = Some k \<Longrightarrow>
       (k \<notin> K \<Longrightarrow> om_lookup (sc_deferred_errors c) k = None \<Longrightarrow> carried c w k kind) \<Longrightarrow>
       k \<notin> K' \<Longrightarrow> om_lookup (sc_deferred_errors c') k = None \<Longrightarrow> carried c' w k kind"
  shows "writes_ok K' c'"
  using assms unfolding writes_ok_def by metis

lemma writes_ok_weaken_all:
  assumes "writes_ok K c" "sc_open_commands c' = sc_open_commands c"
    "sc_pending_writes c' = sc_pending_writes c"
    "\<And>k. a_cmd (sc_active_transaction c') = Some k \<Longrightarrow> a_cmd (sc_active_transaction c) = Some k"
    "\<And>k. om_lookup (sc_open_commands c) k \<noteq> None \<Longrightarrow> k \<in> K'"
  shows "writes_ok K' c'"
  using assms unfolding writes_ok_def by metis

lemma data_ok_open:
  "data_ok K c \<Longrightarrow> om_lookup (sc_data_transactions c) s = Some t \<Longrightarrow>
     om_lookup (sc_open_commands c) (dt_command_id t) = Some Open_Request"
  by (simp add: data_ok_def)

lemma coh_drop_active:
  assumes "coh dd K c" "sc_active_transaction c = Some t"
  shows "coh dd (set_option (ct_command_id t) \<union> K) (c\<lparr>sc_active_transaction := None\<rparr>)"
  using assms(1)
proof (rule cohE, intro cohI)
  let ?c = "c\<lparr>sc_active_transaction := None\<rparr>" and ?K = "set_option (ct_command_id t) \<union> K"
  assume p: "registries_ok c" "writes_ok K c" "active_ok K c" "data_ok K c" "drain_ok dd K c"
      "deferred_ok K c" "open_ok K c" "clock_ok c" "idle_ok c" "blameless c"
  note a = assms(2)
  show "registries_ok ?c" using p(1) by (simp add: registries_ok_def)
  show "writes_ok ?K ?c" using p(2) a by (auto simp: writes_ok_def carried_def a_cmd_def)
  show "active_ok ?K ?c" by (simp add: active_ok_def a_cmd_def)
  show "data_ok ?K ?c" using p(3,4) a by (fastforce simp: data_ok_def active_ok_def a_cmd_def)
  show "drain_ok dd ?K ?c" using p(5) a by (auto simp: drain_ok_def)
  show "deferred_ok ?K ?c" using p(6) by (auto simp: deferred_ok_def)
  show "open_ok ?K ?c" using p(7) a by (auto simp: open_ok_def awaited_def a_cmd_def)
  show "clock_ok ?c" "idle_ok ?c" "blameless ?c"
    using p(8-10) by (auto simp: clock_ok_def idle_ok_def blameless_def exhausted_def)
qed

lemma active_cmd_open:
  "coh dd K c \<Longrightarrow> sc_active_transaction c = Some t \<Longrightarrow> ct_command_id t = Some k \<Longrightarrow>
     k \<notin> K \<and> om_lookup (sc_open_commands c) k = Some Open_Control"
  by (auto simp: coh_def active_ok_def a_cmd_def)

lemma coh_finish_active:
  assumes "coh dd K c" "sc_active_transaction c = Some t"
  shows "coh dd K (complete_control_transaction t r (c\<lparr>sc_active_transaction := None\<rparr>))"
  using coh_drop_active [OF assms] active_cmd_open [OF assms]
  by (cases "ct_command_id t") (auto simp: complete_control_transaction_def intro: coh_complete_control)

lemma data_cmds_remove:
  fixes m :: "(system_bytes, data_transaction) omap"
  assumes "om_lookup m s = Some t" "om_lookup m s' = Some t'" "dt_command_id t' \<noteq> dt_command_id t"
  shows "\<exists>s'' t''. om_lookup (om_remove s m) s'' = Some t'' \<and> dt_command_id t'' = dt_command_id t'"
proof -
  have "om_lookup (om_remove s m) s' = Some t'" using assms by (auto simp: om.lookup_remove)
  then show ?thesis by blast
qed

lemma coh_drop_data:
  assumes "coh dd K c" "om_lookup (sc_data_transactions c) s = Some t"
  shows "coh dd (insert (dt_command_id t) K)
           (c\<lparr>sc_data_transactions := om_remove s (sc_data_transactions c)\<rparr>)"
  using assms(1)
proof (rule cohE, intro cohI)
  let ?c = "c\<lparr>sc_data_transactions := om_remove s (sc_data_transactions c)\<rparr>"
    and ?K = "insert (dt_command_id t) K"
  assume p: "registries_ok c" "writes_ok K c" "active_ok K c" "data_ok K c" "drain_ok dd K c"
      "deferred_ok K c" "open_ok K c" "clock_ok c" "idle_ok c" "blameless c"
  note a = assms(2)
  have k: "om_lookup (sc_open_commands c) (dt_command_id t) = Some Open_Request"
    using p(4) a by (simp add: data_ok_def)
  show "registries_ok ?c" using p(1) by (auto simp: registries_ok_def om_simps)
  show "writes_ok ?K ?c"
  proof (rule writes_ok_weaken [OF p(2)])
    show "carried ?c w k kind" if "k \<notin> K \<Longrightarrow> om_lookup (sc_deferred_errors c) k = None \<Longrightarrow> carried c w k kind"
        "k \<notin> ?K" "om_lookup (sc_deferred_errors ?c) k = None" for w k kind
      using a that by (auto simp: carried_def om_simps)
  qed auto
  show "active_ok ?K ?c" using p(3) k by (auto simp: active_ok_def)
  show "data_ok ?K ?c" using p(4) a by (auto simp: data_ok_def om_simps)
  show "drain_ok dd ?K ?c" using p(5) k by (auto simp: drain_ok_def)
  show "deferred_ok ?K ?c" using p(6) by (auto simp: deferred_ok_def)
  show "open_ok ?K ?c" using p(7) by (auto simp: open_ok_def awaited_def intro: data_cmds_remove [OF a])
  show "clock_ok ?c" "idle_ok ?c" "blameless ?c"
    using p(8-10) by (auto simp: clock_ok_def idle_ok_def blameless_def exhausted_def om_remove_def)
qed

lemma data_cmd_open:
  "coh dd K c \<Longrightarrow> om_lookup (sc_data_transactions c) s = Some t \<Longrightarrow>
     dt_command_id t \<notin> K \<and> om_lookup (sc_open_commands c) (dt_command_id t) = Some Open_Request \<and>
     rc_system_bytes (dt_contract t) = s"
  by (auto simp: coh_def data_ok_def)

lemma drain_facts:
  assumes "coh False K c" "sc_deselect_drain c = Some d" "\<not> sc_closing c"
  shows "dr_command_id d \<notin> K" "om_lookup (sc_open_commands c) (dr_command_id d) = Some Open_Control"
    "\<forall>w. w_cmd (sc_pending_writes c) w \<noteq> Some (dr_command_id d)" "sc_active_transaction c = None"
    "sc_state c \<noteq> None"
  using assms by (auto simp: coh_def drain_ok_def idle_ok_def)

lemma coh_drop_drain:
  assumes "coh False K c" "sc_deselect_drain c = Some d" "\<not> sc_closing c"
  shows "coh dd (insert (dr_command_id d) K) (c\<lparr>sc_deselect_drain := None\<rparr>)"
  using assms(1)
proof (rule cohE, intro cohI)
  let ?c = "c\<lparr>sc_deselect_drain := None\<rparr>" and ?K = "insert (dr_command_id d) K"
  assume p: "registries_ok c" "writes_ok K c" "active_ok K c" "data_ok K c" "drain_ok False K c"
      "deferred_ok K c" "open_ok K c" "clock_ok c" "idle_ok c" "blameless c"
  note a = assms(2,3) drain_facts [OF assms]
  show "registries_ok ?c" using p(1) by (simp add: registries_ok_def)
  show "writes_ok ?K ?c" using p(2) a by (auto simp: writes_ok_def carried_def)
  show "active_ok ?K ?c" using p(3) a by (auto simp: active_ok_def a_cmd_def)
  have "dt_command_id t \<noteq> dr_command_id d" if "om_lookup (sc_data_transactions c) s = Some t" for s t
    using data_ok_open [OF p(4) that] a(4) by auto
  then show "data_ok ?K ?c" using p(4) by (simp add: data_ok_def)
  show "drain_ok dd ?K ?c" by (simp add: drain_ok_def)
  show "deferred_ok ?K ?c" using p(6) by (auto simp: deferred_ok_def)
  show "open_ok ?K ?c" using p(7) a by (auto simp: open_ok_def awaited_def)
  show "clock_ok ?c" "idle_ok ?c" "blameless ?c"
    using p(8-10) by (auto simp: clock_ok_def idle_ok_def blameless_def exhausted_def)
qed

subsection \<open>Deferring, completing everything, closing\<close>

lemma coh_defer:
  assumes "coh dd (insert k K) c" "k \<notin> K" "w_cmd (sc_pending_writes c) w = Some k"
  shows "coh dd K (defer_error k e c)"
proof -
  have nh: "\<not> held dd c k" using flux_not_held [OF assms(1)] by simp
  let ?c = "defer_error k e c"
  show ?thesis using assms(1)
  proof (rule cohE, intro cohI)
    assume p: "registries_ok c" "writes_ok (insert k K) c" "active_ok (insert k K) c"
      "data_ok (insert k K) c" "drain_ok dd (insert k K) c" "deferred_ok (insert k K) c"
      "open_ok (insert k K) c" "clock_ok c" "idle_ok c" "blameless c"
    have okd: "om_ok (sc_deferred_errors c)" using p(1) by (simp add: registries_ok_def)
    show "registries_ok ?c" using p(1) by (auto simp: defer_error_def registries_ok_def om_simps)
    show "writes_ok K ?c"
    proof (rule writes_ok_weaken [OF p(2)])
      show "carried ?c w k' kind"
        if "k' \<notin> insert k K \<Longrightarrow> om_lookup (sc_deferred_errors c) k' = None \<Longrightarrow> carried c w k' kind"
          "k' \<notin> K" "om_lookup (sc_deferred_errors ?c) k' = None" for w k' kind
      proof -
        have "k' \<noteq> k" "om_lookup (sc_deferred_errors c) k' = None"
          using that(3) okd by (auto simp: defer_error_def om_simps split: if_splits)
        then show ?thesis using that(1,2) by (auto simp: defer_error_def carried_def)
      qed
    qed (auto simp: defer_error_def split: if_splits)
    show "active_ok K ?c"
      using p(3) okd by (auto simp: defer_error_def active_ok_def om_simps)
    show "data_ok K ?c"
      using p(4) okd by (auto simp: defer_error_def data_ok_def om_simps)
    show "drain_ok dd K ?c" using p(5) by (auto simp: defer_error_def drain_ok_def)
    show "deferred_ok K ?c"
      using p(6) okd assms(3) by (auto simp: defer_error_def deferred_ok_def om_simps)
    show "open_ok K ?c"
      using p(7) assms(3) by (auto simp: defer_error_def open_ok_def awaited_def)
    show "clock_ok ?c" "idle_ok ?c" "blameless ?c"
      using p(8-10) by (auto simp: defer_error_def clock_ok_def idle_ok_def blameless_def exhausted_def)
  qed
qed

lemma complete_error_open_others:
  "om_lookup (sc_open_commands c) k \<noteq> None \<Longrightarrow> k' \<noteq> k \<Longrightarrow>
     om_lookup (sc_open_commands (complete_error k e c)) k' = om_lookup (sc_open_commands c) k'"
  by (auto simp: complete_error_def complete_error_with_def emit_completion_with_def emit_def
      om.lookup_remove)

lemma complete_error_registries:
  "om_lookup (sc_open_commands c) k \<noteq> None \<Longrightarrow>
     sc_active_transaction (complete_error k e c) = sc_active_transaction c \<and>
     sc_data_transactions (complete_error k e c) = sc_data_transactions c \<and>
     sc_deselect_drain (complete_error k e c) = sc_deselect_drain c"
  by (auto simp: complete_error_def complete_error_with_def emit_completion_with_def emit_def)

lemma coh_complete_or_defer:
  assumes "coh dd (insert k K) c" "k \<notin> K" "om_lookup (sc_open_commands c) k \<noteq> None"
  shows "coh dd K (complete_or_defer e k c) \<and>
    (\<forall>k'. k' \<noteq> k \<longrightarrow> om_lookup (sc_open_commands (complete_or_defer e k c)) k' =
        om_lookup (sc_open_commands c) k') \<and>
    sc_active_transaction (complete_or_defer e k c) = sc_active_transaction c \<and>
    sc_data_transactions (complete_or_defer e k c) = sc_data_transactions c"
proof -
  have "om_ok (sc_pending_writes c)" using assms(1) by (simp add: coh_def registries_ok_def)
  note h = has_pending_write_iff [OF this, of k]
  show ?thesis
  proof (cases "has_pending_write k c")
    case True
    with h obtain w where "w_cmd (sc_pending_writes c) w = Some k" by auto
    with True coh_defer [OF assms(1,2)] show ?thesis
      by (simp add: complete_or_defer_def complete_or_defer_with_def defer_error_def)
  next
    case False
    with coh_complete_error [OF assms] complete_error_open_others [OF assms(3)]
      complete_error_registries [OF assms(3)] show ?thesis
      by (simp add: complete_or_defer_def complete_or_defer_with_def flip: complete_error_def)
  qed
qed

lemma coh_fold_complete_or_defer:
  "coh dd (set ks \<union> K) c \<Longrightarrow> distinct ks \<Longrightarrow> set ks \<inter> K = {} \<Longrightarrow>
     (\<forall>k \<in> set ks. om_lookup (sc_open_commands c) k \<noteq> None) \<Longrightarrow>
     coh dd K (fold (complete_or_defer e) ks c) \<and>
     (\<forall>k'. k' \<notin> set ks \<longrightarrow> om_lookup (sc_open_commands (fold (complete_or_defer e) ks c)) k' =
        om_lookup (sc_open_commands c) k') \<and>
     sc_active_transaction (fold (complete_or_defer e) ks c) = sc_active_transaction c \<and>
     sc_data_transactions (fold (complete_or_defer e) ks c) = sc_data_transactions c"
proof (induction ks arbitrary: c)
  case (Cons k ks)
  have "coh dd (insert k (set ks \<union> K)) c" "k \<notin> set ks \<union> K" using Cons.prems by auto
  note step = coh_complete_or_defer [OF this, of e]
  let ?c1 = "complete_or_defer e k c"
  have "coh dd K (fold (complete_or_defer e) ks ?c1) \<and>
    (\<forall>k'. k' \<notin> set ks \<longrightarrow> om_lookup (sc_open_commands (fold (complete_or_defer e) ks ?c1)) k' =
        om_lookup (sc_open_commands ?c1) k') \<and>
    sc_active_transaction (fold (complete_or_defer e) ks ?c1) = sc_active_transaction ?c1 \<and>
    sc_data_transactions (fold (complete_or_defer e) ks ?c1) = sc_data_transactions ?c1"
    using step Cons.prems by (intro Cons.IH) (simp_all, metis)
  then show ?case using step Cons.prems by simp
qed simp

lemma coh_clear:
  assumes "coh dd K c" "K \<subseteq> K'" "set (om_keys (sc_open_commands c)) \<subseteq> K'"
  shows "coh True K' (clear_transactions c)"
  using assms(1)
proof (rule cohE, intro cohI)
  let ?c = "clear_transactions c"
  assume p: "registries_ok c" "writes_ok K c" "active_ok K c" "data_ok K c" "drain_ok dd K c"
      "deferred_ok K c" "open_ok K c" "clock_ok c" "idle_ok c" "blameless c"
  show "registries_ok ?c" using p(1) by (auto simp: registries_ok_def clear_transactions_def)
  have all: "om_lookup (sc_open_commands c) k \<noteq> None \<Longrightarrow> k \<in> K'" for k
    using assms(3) om.keys_lookup by blast
  show "writes_ok K' ?c"
    using p(2) all by (rule_tac writes_ok_weaken_all) (auto simp: clear_transactions_def)
  show "active_ok K' ?c" "data_ok K' ?c" "drain_ok True K' ?c"
    by (simp_all add: clear_transactions_def active_ok_def data_ok_def drain_ok_def)
  show "deferred_ok K' ?c"
    using p(6) assms(2) by (auto simp: deferred_ok_def clear_transactions_def)
  show "open_ok K' ?c" using all by (simp add: open_ok_def clear_transactions_def)
  show "clock_ok ?c" "idle_ok ?c" "blameless ?c"
    using p(8-10)
    by (auto simp: clear_transactions_def clock_ok_def idle_ok_def blameless_def exhausted_def)
qed

interpretation spent: core_data exhausted "\<lambda>_ _. True"
proof (intro_locales)
  show silent: "core_silent exhausted"
    by standard (auto simp: exhausted_def hard_def emit_def request_close_def Let_def)
  show "core_control_axioms exhausted (\<lambda>_ _. True)"
  proof (rule core_control_axioms.intro)
    show "core_silent (\<lambda>c. exhausted c \<and> True)" for w :: write_id
      using silent by simp
  qed (auto simp: exhausted_def add_write_def)
  show "core_data_axioms exhausted (\<lambda>_ _. True)"
    by standard (auto simp: exhausted_def add_write_def insert_data_transaction_def
        insert_reply_contract_def)
qed

lemma coh_complete_all:
  assumes "coh dd K c" "K \<subseteq> set (om_keys (sc_open_commands c))"
  shows "coh True {} (complete_all e c)"
proof -
  let ?ks = "om_keys (sc_open_commands c)"
  have "coh True (set ?ks \<union> {}) (clear_transactions c)" using coh_clear [OF assms] by simp
  moreover have "om_lookup (sc_open_commands (clear_transactions c)) k \<noteq> None" if "k \<in> set ?ks" for k
    using that om.keys_lookup [of k "sc_open_commands c"] by (simp add: clear_transactions_def)
  moreover have "distinct ?ks" using coh_open [OF assms(1)] by (rule om.keys_distinct)
  moreover have "om_keys (sc_open_commands (clear_transactions c)) = ?ks"
    by (simp add: clear_transactions_def)
  ultimately show ?thesis
    by (simp add: complete_all_def complete_all_with_def Let_def coh_fold_complete_or_defer
        flip: complete_or_defer_def)
qed

lemma coh_request_close:
  assumes "coh True {} c" "reason \<noteq> RuntimeInvariant \<or> exhausted c"
  shows "coh dd {} (request_close reason barrier c)"
  using assms by (auto simp: request_close_def Let_def coh_def coh_parts exhausted_def)

lemma coh_close_all:
  assumes "coh dd K c" "K \<subseteq> set (om_keys (sc_open_commands c))"
    "reason \<noteq> RuntimeInvariant \<or> exhausted c"
  shows "coh dd' {} (request_close reason barrier (complete_all e c))"
  by (rule coh_request_close [OF coh_complete_all [OF assms(1,2)]])
    (use assms(3) in \<open>auto intro: spent.complete_all_law\<close>)

lemma coh_fail:
  assumes "coh dd K c" "K \<subseteq> set (om_keys (sc_open_commands c))" "exhausted c"
  shows "coh dd' {} (fail_runtime_invariant c)"
  unfolding fail_runtime_invariant_eq [OF coh_open, OF assms(1)]
  by (rule coh_close_all [OF assms(1,2)]) (simp add: assms(3))

lemma open_keys: "k \<in> set (om_keys (sc_open_commands c)) \<longleftrightarrow> om_lookup (sc_open_commands c) k \<noteq> None"
  by (rule om.keys_lookup)

subsection \<open>What completing keeps\<close>

lemma fold_keeps: "(\<And>x c. f (g x c) = f c) \<Longrightarrow> f (fold g xs c) = f c"
  by (induction xs arbitrary: c) auto

lemma state_with:
  assumes "\<And>c. sc_state (F c) = sc_state c"
  shows "sc_state (emit_completion_with F k r c) = sc_state c"
    and "sc_state (complete_error_with F k e c) = sc_state c"
    and "sc_state (complete_or_defer_with F e k c) = sc_state c"
    and "sc_state (complete_all_with F e c) = sc_state c"
proof -
  show 1: "sc_state (emit_completion_with F k r c) = sc_state c" for k r c
    by (simp add: emit_completion_with_def emit_def assms)
  show 2: "sc_state (complete_error_with F k e c) = sc_state c" for k e c
    by (simp add: complete_error_with_def assms 1 split: option.split)
  show 3: "sc_state (complete_or_defer_with F e k c) = sc_state c" for k e c
    by (simp add: complete_or_defer_with_def defer_error_def 2)
  have "sc_state (fold (complete_or_defer_with F e) ks c) = sc_state c" for ks c
    by (rule fold_keeps) (rule 3)
  then show "sc_state (complete_all_with F e c) = sc_state c"
    by (simp add: complete_all_with_def Let_def clear_transactions_def)
qed

lemma state_request_close [simp]: "sc_state (request_close reason barrier c) = sc_state c"
  by (simp add: request_close_def Let_def)

lemma state_fail [simp]: "sc_state (fail_runtime_invariant c) = sc_state c"
  by (simp add: fail_runtime_invariant_def state_with)

lemma state_kept [simp]:
  "sc_state (emit_completion k r c) = sc_state c"
  "sc_state (complete_error k e c) = sc_state c"
  "sc_state (complete_all e c) = sc_state c"
  "sc_state (complete_or_defer e k c) = sc_state c"
  by (simp_all add: emit_completion_def complete_error_def complete_all_def complete_or_defer_def
      state_with)

lemma state_complete [simp]:
  "sc_state (complete_control k res c) = sc_state c"
  "sc_state (complete_ok k c) = sc_state c"
  "sc_state (complete_control_transaction t res c) = sc_state c"
  by (auto simp: complete_control_def complete_ok_def complete_control_transaction_def split: option.split)

lemma state_complete_data [simp]: "sc_state (complete_data_for_deselection c) = sc_state c"
proof -
  have "sc_state (fold (complete_or_defer SessionDeselected) ks c) = sc_state c" for ks c
    by (rule fold_keeps) simp
  then show ?thesis by (simp add: complete_data_for_deselection_def Let_def)
qed

lemma state_allocate:
  "allocate_write_id c = (w, c') \<Longrightarrow> sc_state c' = sc_state c"
  "allocate_request_identifiers c = (ids, c') \<Longrightarrow> sc_state c' = sc_state c"
  by (auto simp: allocate_write_id_def allocate_request_identifiers_def allocate_system_bytes_def
      split: option.splits if_splits prod.splits)

lemma state_add_write [simp]: "sc_state (add_write w kind k m c) = sc_state c"
  by (simp add: add_write_def)

lemma state_start_transaction [simp]: "sc_state (start_transaction kind k c) = sc_state c"
  by (auto simp: start_transaction_def Let_def split: prod.split option.split dest!: state_allocate)

lemma state_progress_deselect [simp]: "sc_state (progress_deselect now c) = sc_state c"
  by (simp add: progress_deselect_def split: option.split)

lemma state_expire_requests [simp]: "sc_state (fold expire_request ts c) = sc_state c"
  by (rule fold_keeps) (simp add: expire_request_def retire_data_transaction_def)

subsection \<open>Allocating and sending\<close>

lemma below_succ: "below (x::'a::len word) (Some n) \<Longrightarrow> below x (checked_succ n)"
  using checked_succ_Some [of n] by (auto simp: below_def word_less_nat_alt split: option.splits)

lemma below_fresh: "below (n::'a::len word) (checked_succ n)"
  using checked_succ_Some [of n] by (auto simp: below_def word_less_nat_alt split: option.splits)

lemma not_below_self [simp]: "\<not> below x (Some x)"
  by (simp add: below_def)

definition fresh_write :: "session_core \<Rightarrow> write_id \<Rightarrow> bool" where
  "fresh_write c w \<longleftrightarrow> below w (sc_next_write_id c) \<and> om_lookup (sc_pending_writes c) w = None \<and>
     (\<forall>t. sc_active_transaction c = Some t \<longrightarrow> ct_write_id t \<noteq> w) \<and>
     (\<forall>s t. om_lookup (sc_data_transactions c) s = Some t \<longrightarrow> dt_write_id t \<noteq> w)"

lemma writes_below:
  assumes "coh dd K c"
  shows "om_lookup (sc_pending_writes c) w \<noteq> None \<Longrightarrow> below w (sc_next_write_id c)"
    and "sc_active_transaction c = Some t \<Longrightarrow> below (ct_write_id t) (sc_next_write_id c)"
    and "om_lookup (sc_data_transactions c) s = Some d \<Longrightarrow> below (dt_write_id d) (sc_next_write_id c)"
    and "om_lookup (sc_data_transactions c) s \<noteq> None \<Longrightarrow> below s (sc_next_system_bytes c)"
  using assms by (simp_all add: coh_def registries_ok_def active_ok_def data_ok_def)

lemma coh_next_write:
  assumes "coh dd K c" "sc_next_write_id c = Some w"
  shows "coh dd K (c\<lparr>sc_next_write_id := checked_succ w\<rparr>) \<and>
         fresh_write (c\<lparr>sc_next_write_id := checked_succ w\<rparr>) w"
proof
  show "coh dd K (c\<lparr>sc_next_write_id := checked_succ w\<rparr>)"
    using assms(1)
  proof (rule cohE, intro cohI)
    let ?c = "c\<lparr>sc_next_write_id := checked_succ w\<rparr>"
    assume p: "registries_ok c" "writes_ok K c" "active_ok K c" "data_ok K c" "drain_ok dd K c"
      "deferred_ok K c" "open_ok K c" "clock_ok c" "idle_ok c" "blameless c"
    have below: "below x (sc_next_write_id c) \<Longrightarrow> below x (checked_succ w)" for x
      by (simp add: assms(2) below_succ)
    show "registries_ok ?c" using p(1) by (simp add: registries_ok_def below)
    show "writes_ok K ?c" using p(2) by (simp add: writes_ok_def carried_def)
    show "active_ok K ?c" using p(3) by (simp add: active_ok_def below)
    show "data_ok K ?c" using p(4) by (simp add: data_ok_def below)
    show "drain_ok dd K ?c" "deferred_ok K ?c" "open_ok K ?c" "clock_ok ?c" "idle_ok ?c"
      using p(5-9)
      by (simp_all add: drain_ok_def deferred_ok_def open_ok_def awaited_def clock_ok_def idle_ok_def)
    show "blameless ?c" using p(10) assms(2) by (simp add: blameless_def exhausted_def)
  qed
  show "fresh_write (c\<lparr>sc_next_write_id := checked_succ w\<rparr>) w"
  proof -
    have "om_lookup (sc_pending_writes c) w = None"
      using writes_below(1) [OF assms(1), of w] assms(2) by (cases "om_lookup (sc_pending_writes c) w") auto
    moreover have "ct_write_id t \<noteq> w" if "sc_active_transaction c = Some t" for t
      using writes_below(2) [OF assms(1) that] assms(2) by auto
    moreover have "dt_write_id t \<noteq> w" if "om_lookup (sc_data_transactions c) s = Some t" for s t
      using writes_below(3) [OF assms(1) that] assms(2) by auto
    ultimately show ?thesis by (simp add: fresh_write_def below_fresh)
  qed
qed

lemma coh_next_system:
  assumes "coh dd K c" "sc_next_system_bytes c = Some s"
  shows "coh dd K (c\<lparr>sc_next_system_bytes := checked_succ s\<rparr>)"
proof -
  have below: "below x (sc_next_system_bytes c) \<Longrightarrow> below x (checked_succ s)" for x
    by (simp add: assms(2) below_succ)
  show ?thesis using assms(1) by (simp add: coh_def coh_parts exhausted_def below)
qed

lemma allocate_write:
  assumes "allocate_write_id c = (Some w, c')" "coh dd K c"
  shows "coh dd K c' \<and> fresh_write c' w \<and> c' = c\<lparr>sc_next_write_id := checked_succ w\<rparr>"
  using assms coh_next_write [OF assms(2)]
  by (auto simp: allocate_write_id_def split: option.splits)

lemma allocate_write_None:
  assumes "allocate_write_id c = (None, c')"
  shows "c' = c \<and> exhausted c"
  using assms by (auto simp: allocate_write_id_def exhausted_def split: option.splits)

lemma allocate_request:
  assumes "allocate_request_identifiers c = (Some (system, w), c')" "coh dd K c"
  shows "coh dd K c' \<and> fresh_write c' w \<and> om_lookup (sc_data_transactions c') system = None \<and>
    below system (sc_next_system_bytes c') \<and>
    c' = c\<lparr>sc_next_write_id := checked_succ w, sc_next_system_bytes := checked_succ system\<rparr>"
proof -
  have n: "sc_next_write_id c = Some w" "sc_next_system_bytes c = Some system"
    and c': "c' = c\<lparr>sc_next_write_id := checked_succ w, sc_next_system_bytes := checked_succ system\<rparr>"
    using assms(1)
    by (auto simp: allocate_request_identifiers_def allocate_write_id_def allocate_system_bytes_def
        split: option.splits if_splits)
  note w = coh_next_write [OF assms(2) n(1)]
  have "coh dd K c'"
    using coh_next_system [OF w [THEN conjunct1]] n(2) by (simp add: c')
  moreover have "fresh_write c' w" using w by (simp add: c' fresh_write_def)
  moreover have "om_lookup (sc_data_transactions c) system = None"
    using writes_below(4) [OF assms(2)] n(2) not_below_self [of system] by fastforce
  ultimately show ?thesis by (simp add: c' below_fresh)
qed

lemma allocate_request_None:
  assumes "allocate_request_identifiers c = (None, c')" "coh dd K c"
    "K \<subseteq> set (om_keys (sc_open_commands c))"
  shows "coh dd' {} c'"
  using assms coh_fail [OF assms(2,3)] coh_close_all [OF assms(2,3)]
  by (auto simp: allocate_request_identifiers_def allocate_write_id_def allocate_system_bytes_def
      exhausted_def split: option.splits if_splits)

lemma data_ok_writes:
  assumes "data_ok K c" "K' \<subseteq> K" "sc_data_transactions c' = sc_data_transactions c"
    "sc_open_commands c' = sc_open_commands c" "sc_next_write_id c' = sc_next_write_id c"
    "\<And>k. om_lookup (sc_deferred_errors c) k = None \<Longrightarrow> om_lookup (sc_deferred_errors c') k = None"
    "\<And>s t. om_lookup (sc_data_transactions c) s = Some t \<Longrightarrow>
       om_lookup (sc_pending_writes c') (dt_write_id t) = om_lookup (sc_pending_writes c) (dt_write_id t)"
  shows "data_ok K' c'"
proof -
  have "w_cmd (sc_pending_writes c') (dt_write_id t) = w_cmd (sc_pending_writes c) (dt_write_id t)"
    "w_kind (sc_pending_writes c') (dt_write_id t) = w_kind (sc_pending_writes c) (dt_write_id t)"
    if "om_lookup (sc_data_transactions c) s = Some t" for s t
    using assms(7) [OF that] by (simp_all add: w_cmd_def w_kind_def)
  with assms show ?thesis unfolding data_ok_def by (simp add: subset_iff) blast
qed

lemma coh_add_write:
  assumes c: "coh dd (set_option cmd \<union> K) c" and f: "fresh_write c w" and st: "sc_state c \<noteq> None"
    and k: "\<And>k. cmd = Some k \<Longrightarrow> k \<notin> K \<and> write_command_kind kind = om_lookup (sc_open_commands c) k \<and>
        om_lookup (sc_open_commands c) k \<noteq> None \<and> (\<forall>w. w_cmd (sc_pending_writes c) w \<noteq> Some k)"
    and kind: "\<not> awaits_response kind"
  shows "coh dd K (add_write w kind cmd m c)"
  using c
proof (rule cohE, intro cohI)
  let ?c = "add_write w kind cmd m c" and ?K = "set_option cmd \<union> K"
  assume p: "registries_ok c" "writes_ok ?K c" "active_ok ?K c" "data_ok ?K c" "drain_ok dd ?K c"
      "deferred_ok ?K c" "open_ok ?K c" "clock_ok c" "idle_ok c" "blameless c"
  have okp: "om_ok (sc_pending_writes c)" using p(1) by (simp add: registries_ok_def)
  note f' = f [unfolded fresh_write_def]
  have wn: "w_cmd (sc_pending_writes c) w = None" "w_kind (sc_pending_writes c) w = None"
    using f' by (simp_all add: w_cmd_def w_kind_def)
  have ne: "kind \<noteq> PW_TransactionRequest" "kind \<noteq> PW_DataRequest s" for s using kind by auto
  show "registries_ok ?c"
    using p(1) f' by (auto simp: add_write_def registries_ok_def om_simps split: if_splits)
  have wc: "w_cmd (sc_pending_writes ?c) w' = (if w = w' then cmd else w_cmd (sc_pending_writes c) w')"
    and wk: "w_kind (sc_pending_writes ?c) w' = (if w = w' then Some kind else w_kind (sc_pending_writes c) w')"
    for w' using okp by (simp_all add: add_write_def w_simps)
  have same: "sc_open_commands ?c = sc_open_commands c" "sc_active_transaction ?c = sc_active_transaction c"
    "sc_deferred_errors ?c = sc_deferred_errors c" "carried ?c = carried c"
    by (simp_all add: add_write_def carried_def fun_eq_iff)
  show "writes_ok K ?c"
    unfolding writes_ok_def same
  proof (intro allI impI)
    fix w' k' assume w': "w_cmd (sc_pending_writes ?c) w' = Some k'"
    show "om_lookup (sc_open_commands c) k' \<noteq> None \<and>
       (\<forall>w''. w_cmd (sc_pending_writes ?c) w'' = Some k' \<longrightarrow> w'' = w') \<and>
       (\<forall>kind. w_kind (sc_pending_writes ?c) w' = Some kind \<longrightarrow>
          write_command_kind kind = om_lookup (sc_open_commands c) k' \<and>
          (kind \<noteq> PW_TransactionRequest \<longrightarrow> a_cmd (sc_active_transaction c) \<noteq> Some k') \<and>
          (k' \<notin> K \<longrightarrow> om_lookup (sc_deferred_errors c) k' = None \<longrightarrow> carried c w' k' kind))"
    proof (cases "w' = w")
      case True
      with w' have "cmd = Some k'" by (simp add: wc)
      with k [OF this] p(3) ne True show ?thesis
        unfolding wc wk by (auto simp: active_ok_def carried_def)
    next
      case False
      with w' have old: "w_cmd (sc_pending_writes c) w' = Some k'" by (auto simp: wc)
      with k have "cmd \<noteq> Some k'" by blast
      with p(2) [unfolded writes_ok_def, rule_format, OF old] False show ?thesis
        unfolding wc wk by (auto split: if_splits)
    qed
  qed
  show "active_ok K ?c"
    using p(3) okp wn f' by (auto simp: add_write_def active_ok_def om_simps w_simps split: if_splits)
  show "data_ok K ?c"
  proof (rule data_ok_writes [OF p(4)])
    show "om_lookup (sc_pending_writes ?c) (dt_write_id t') = om_lookup (sc_pending_writes c) (dt_write_id t')"
      if "om_lookup (sc_data_transactions c) s = Some t'" for s t'
    proof -
      have "dt_write_id t' \<noteq> w" using f' that by blast
      then show ?thesis using okp by (simp add: add_write_def om_simps)
    qed
  qed (auto simp: add_write_def)
  show "drain_ok dd K ?c"
    using p(5) okp by (auto simp: add_write_def drain_ok_def w_simps split: if_splits)
  have grow: "(\<exists>w. w_cmd (sc_pending_writes ?c) w = Some k') \<longleftrightarrow>
      cmd = Some k' \<or> (\<exists>w. w_cmd (sc_pending_writes c) w = Some k')" for k'
    unfolding wc using wn(1) by (metis option.distinct(1))
  show "deferred_ok K ?c" using p(6) by (auto simp: deferred_ok_def same grow)
  show "open_ok K ?c"
    using p(7) by (auto simp: open_ok_def awaited_def same grow) (auto simp: add_write_def)
  show "clock_ok ?c" "idle_ok ?c" "blameless ?c"
    using p(8-10) st by (auto simp: add_write_def clock_ok_def idle_ok_def blameless_def exhausted_def)
qed

text \<open>A command of no pending write: the ones a handler may send a frame for.\<close>

definition unwritten :: "session_core \<Rightarrow> command_id \<Rightarrow> bool" where
  "unwritten c k \<longleftrightarrow>
     (\<forall>w. w_cmd (sc_pending_writes c) w \<noteq> Some k) \<and> om_lookup (sc_deferred_errors c) k = None"

text \<open>The two kinds of writes that start a transaction: \<open>t\<close> and the write are registered together.\<close>

lemma coh_add_transaction:
  assumes c: "coh dd (set_option (ct_command_id t) \<union> K) c" and f: "fresh_write c (ct_write_id t)"
    and st: "sc_state c \<noteq> None" and a: "sc_active_transaction c = None" "sc_deselect_drain c = None"
    and k: "\<And>k. ct_command_id t = Some k \<Longrightarrow>
        k \<notin> K \<and> om_lookup (sc_open_commands c) k = Some Open_Control \<and> unwritten c k"
    and d: "ct_deadline t = None"
  shows "coh dd K (add_write (ct_write_id t) PW_TransactionRequest (ct_command_id t) m
                     (c\<lparr>sc_active_transaction := Some t\<rparr>))" (is "coh dd K ?c")
  using c
proof (rule cohE, intro cohI)
  let ?K = "set_option (ct_command_id t) \<union> K" and ?w = "ct_write_id t" and ?cmd = "ct_command_id t"
  assume p: "registries_ok c" "writes_ok ?K c" "active_ok ?K c" "data_ok ?K c" "drain_ok dd ?K c"
      "deferred_ok ?K c" "open_ok ?K c" "clock_ok c" "idle_ok c" "blameless c"
  have okp: "om_ok (sc_pending_writes c)" using p(1) by (simp add: registries_ok_def)
  note f' = f [unfolded fresh_write_def]
  have wn: "w_cmd (sc_pending_writes c) ?w = None" "w_kind (sc_pending_writes c) ?w = None"
    using f' by (simp_all add: w_cmd_def w_kind_def)
  have wc: "w_cmd (sc_pending_writes ?c) w' = (if ?w = w' then ?cmd else w_cmd (sc_pending_writes c) w')"
    and wk: "w_kind (sc_pending_writes ?c) w' =
        (if ?w = w' then Some PW_TransactionRequest else w_kind (sc_pending_writes c) w')"
    for w' using okp by (simp_all add: add_write_def w_simps)
  have same: "sc_open_commands ?c = sc_open_commands c" "sc_active_transaction ?c = Some t"
    "sc_deferred_errors ?c = sc_deferred_errors c"
    "sc_data_transactions ?c = sc_data_transactions c"
    by (simp_all add: add_write_def)
  show "registries_ok ?c"
    using p(1) f' by (auto simp: add_write_def registries_ok_def om_simps split: if_splits)
  show "writes_ok K ?c"
    unfolding writes_ok_def same
  proof (intro allI impI)
    fix w' k' assume w': "w_cmd (sc_pending_writes ?c) w' = Some k'"
    show "om_lookup (sc_open_commands c) k' \<noteq> None \<and>
       (\<forall>w''. w_cmd (sc_pending_writes ?c) w'' = Some k' \<longrightarrow> w'' = w') \<and>
       (\<forall>kind. w_kind (sc_pending_writes ?c) w' = Some kind \<longrightarrow>
          write_command_kind kind = om_lookup (sc_open_commands c) k' \<and>
          (kind \<noteq> PW_TransactionRequest \<longrightarrow> a_cmd (Some t) \<noteq> Some k') \<and>
          (k' \<notin> K \<longrightarrow> om_lookup (sc_deferred_errors c) k' = None \<longrightarrow> carried ?c w' k' kind))"
    proof (cases "w' = ?w")
      case True
      with w' have "?cmd = Some k'" by (simp add: wc)
      with k [OF this] True show ?thesis
        unfolding wc wk carried_def same by (auto simp: unwritten_def)
    next
      case False
      with w' have old: "w_cmd (sc_pending_writes c) w' = Some k'" by (auto simp: wc)
      with k have "?cmd \<noteq> Some k'" by (auto simp: unwritten_def)
      with p(2) [unfolded writes_ok_def, rule_format, OF old] False a show ?thesis
        unfolding wc wk by (auto simp: carried_def same split: if_splits)
    qed
  qed
  show "active_ok K ?c"
    using k f' d okp by (auto simp: active_ok_def same unwritten_def add_write_def w_simps)
  show "data_ok K ?c"
  proof (rule data_ok_writes [OF p(4)])
    show "om_lookup (sc_pending_writes ?c) (dt_write_id t') = om_lookup (sc_pending_writes c) (dt_write_id t')"
      if "om_lookup (sc_data_transactions c) s = Some t'" for s t'
    proof -
      have "dt_write_id t' \<noteq> ?w" using f' that by blast
      then show ?thesis using okp by (simp add: add_write_def om_simps)
    qed
  qed (auto simp: add_write_def)
  show "drain_ok dd K ?c" using a by (simp add: add_write_def drain_ok_def)
  have grow: "(\<exists>w. w_cmd (sc_pending_writes ?c) w = Some k') \<longleftrightarrow>
      ?cmd = Some k' \<or> (\<exists>w. w_cmd (sc_pending_writes c) w = Some k')" for k'
    unfolding wc using wn(1) by (metis option.distinct(1))
  show "deferred_ok K ?c" using p(6) by (auto simp: deferred_ok_def same grow)
  show "open_ok K ?c"
    using p(7) a by (auto simp: open_ok_def awaited_def same grow) (auto simp: add_write_def)
  show "clock_ok ?c" "idle_ok ?c" "blameless ?c"
    using p(8-10) st by (auto simp: add_write_def clock_ok_def idle_ok_def blameless_def exhausted_def)
qed

lemma coh_add_request:
  assumes c: "coh dd (insert k K) c" and f: "fresh_write c w" and st: "sc_state c \<noteq> None"
    and s: "om_lookup (sc_data_transactions c) s = None" "below s (sc_next_system_bytes c)"
    and k: "k \<notin> K" "om_lookup (sc_open_commands c) k = Some Open_Request" "unwritten c k"
    and t: "dt_command_id t = k" "dt_write_id t = w" "dt_deadline t = None"
      "rc_system_bytes (dt_contract t) = s"
  shows "coh dd K (add_write w (PW_DataRequest s) (Some k) m (insert_data_transaction s t c))"
    (is "coh dd K ?c")
  using c
proof (rule cohE, intro cohI)
  assume p: "registries_ok c" "writes_ok (insert k K) c" "active_ok (insert k K) c"
    "data_ok (insert k K) c" "drain_ok dd (insert k K) c" "deferred_ok (insert k K) c"
    "open_ok (insert k K) c" "clock_ok c" "idle_ok c" "blameless c"
  have okp: "om_ok (sc_pending_writes c)" and okd: "om_ok (sc_data_transactions c)"
    using p(1) by (simp_all add: registries_ok_def)
  note f' = f [unfolded fresh_write_def]
  have wn: "w_cmd (sc_pending_writes c) w = None" "w_kind (sc_pending_writes c) w = None"
    using f' by (simp_all add: w_cmd_def w_kind_def)
  have wc: "w_cmd (sc_pending_writes ?c) w' = (if w = w' then Some k else w_cmd (sc_pending_writes c) w')"
    and wk: "w_kind (sc_pending_writes ?c) w' =
        (if w = w' then Some (PW_DataRequest s) else w_kind (sc_pending_writes c) w')"
    and wl: "om_lookup (sc_pending_writes ?c) w' = None \<longleftrightarrow> w \<noteq> w' \<and> om_lookup (sc_pending_writes c) w' = None"
    for w' using okp by (simp_all add: add_write_def insert_data_transaction_def w_simps om_simps)
  have dl: "om_lookup (sc_data_transactions ?c) s' =
      (if s = s' then Some t else om_lookup (sc_data_transactions c) s')" for s'
    using okd by (simp add: add_write_def insert_data_transaction_def om_simps)
  have same: "sc_open_commands ?c = sc_open_commands c" "sc_deselect_drain ?c = sc_deselect_drain c"
    "sc_active_transaction ?c = sc_active_transaction c" "sc_closing ?c = sc_closing c"
    "sc_deferred_errors ?c = sc_deferred_errors c" "sc_next_write_id ?c = sc_next_write_id c"
    by (simp_all add: add_write_def insert_data_transaction_def)
  show "registries_ok ?c"
    using p(1) f' s
    by (auto simp: add_write_def insert_data_transaction_def registries_ok_def om_simps split: if_splits)
  show "writes_ok K ?c"
    unfolding writes_ok_def same
  proof (intro allI impI)
    fix w' k' assume w': "w_cmd (sc_pending_writes ?c) w' = Some k'"
    show "om_lookup (sc_open_commands c) k' \<noteq> None \<and>
       (\<forall>w''. w_cmd (sc_pending_writes ?c) w'' = Some k' \<longrightarrow> w'' = w') \<and>
       (\<forall>kind. w_kind (sc_pending_writes ?c) w' = Some kind \<longrightarrow>
          write_command_kind kind = om_lookup (sc_open_commands c) k' \<and>
          (kind \<noteq> PW_TransactionRequest \<longrightarrow> a_cmd (sc_active_transaction c) \<noteq> Some k') \<and>
          (k' \<notin> K \<longrightarrow> om_lookup (sc_deferred_errors c) k' = None \<longrightarrow> carried ?c w' k' kind))"
    proof (cases "w' = w")
      case True
      with w' have "k' = k" by (simp add: wc)
      with k t True p(3) show ?thesis
        unfolding wc wk by (auto simp: carried_def dl unwritten_def active_ok_def)
    next
      case False
      with w' have old: "w_cmd (sc_pending_writes c) w' = Some k'" by (auto simp: wc)
      with k have "k \<noteq> k'" by (auto simp: unwritten_def)
      with p(2) [unfolded writes_ok_def, rule_format, OF old] False s show ?thesis
        unfolding wc wk by (auto simp: carried_def same dl split: if_splits)
    qed
  qed
  show "active_ok K ?c" using p(3) f' wn by (auto simp: active_ok_def same wc wk wl)
  show "data_ok K ?c"
    unfolding data_ok_def same
  proof (intro allI impI)
    fix s1 t1 assume l: "om_lookup (sc_data_transactions ?c) s1 = Some t1"
    have old: "dt_command_id t' \<noteq> k" if "om_lookup (sc_data_transactions c) s' = Some t'" for s' t'
      using p(4) that by (auto simp: data_ok_def)
    show "rc_system_bytes (dt_contract t1) = s1 \<and> dt_command_id t1 \<notin> K \<and>
        om_lookup (sc_open_commands c) (dt_command_id t1) = Some Open_Request \<and>
        om_lookup (sc_deferred_errors c) (dt_command_id t1) = None \<and>
        (\<forall>s' t'. om_lookup (sc_data_transactions ?c) s' = Some t' \<longrightarrow>
           dt_command_id t' = dt_command_id t1 \<longrightarrow> s' = s1) \<and>
        below (dt_write_id t1) (sc_next_write_id c) \<and>
        (if dt_deadline t1 = None
         then w_kind (sc_pending_writes ?c) (dt_write_id t1) = Some (PW_DataRequest s1) \<and>
              w_cmd (sc_pending_writes ?c) (dt_write_id t1) = Some (dt_command_id t1)
         else om_lookup (sc_pending_writes ?c) (dt_write_id t1) = None)"
    proof (cases "s1 = s")
      case True
      with l have "t1 = t" by (simp add: dl)
      with True k t f' show ?thesis
        unfolding wc wk dl by (auto simp: unwritten_def dest: old)
    next
      case False
      with l have l': "om_lookup (sc_data_transactions c) s1 = Some t1" by (simp add: dl)
      have "dt_write_id t1 \<noteq> w" using f' l' by blast
      with p(4) [unfolded data_ok_def, rule_format, OF l'] old [OF l'] t show ?thesis
        unfolding wc wk wl dl by auto
    qed
  qed
  show "drain_ok dd K ?c" using p(5) by (auto simp: drain_ok_def same wc split: if_splits)
  have grow: "(\<exists>w. w_cmd (sc_pending_writes ?c) w = Some k') \<longleftrightarrow>
      k = k' \<or> (\<exists>w. w_cmd (sc_pending_writes c) w = Some k')" for k'
    unfolding wc using wn(1) by (metis option.distinct(1) option.inject)
  show "deferred_ok K ?c" using p(6) by (auto simp: deferred_ok_def same grow)
  have "\<exists>s'' t'. om_lookup (sc_data_transactions ?c) s'' = Some t' \<and> dt_command_id t' = k'"
    if "om_lookup (sc_data_transactions c) s' = Some t'" "dt_command_id t' = k'" for s' t' k'
    using that s by (intro exI [of _ s'] exI [of _ t']) (auto simp: dl)
  then show "open_ok K ?c"
    using p(7) by (auto simp: open_ok_def awaited_def same grow)
  show "clock_ok ?c" "idle_ok ?c" "blameless ?c"
    using p(8-10) st
    by (auto simp: add_write_def insert_data_transaction_def clock_ok_def idle_ok_def blameless_def
        exhausted_def)
qed

subsection \<open>Time\<close>

text \<open>All the timers fit the clock at \<open>now\<close>; then they fit it at any earlier instant.\<close>

definition timers_fit :: "session_core_config \<Rightarrow> mono_time \<Rightarrow> bool" where
  "timers_fit cfg now \<longleftrightarrow>
     (\<forall>d \<in> {to_t3 (cf_timeouts cfg), to_t6 (cf_timeouts cfg), to_t7 (cf_timeouts cfg),
             cf_drain_timeout cfg} \<union> set_option (to_linktest (cf_timeouts cfg)).
        mono_checked_add now d \<noteq> None)"

lemma mono_checked_add_earlier:
  "mono_checked_add now d \<noteq> None \<Longrightarrow> t \<le> now \<Longrightarrow> mono_checked_add t d \<noteq> None"
  by (auto simp: mono_checked_add_def split: if_splits)

lemma timers_fit_earlier: "timers_fit cfg now \<Longrightarrow> t \<le> now \<Longrightarrow> timers_fit cfg t"
  unfolding timers_fit_def using mono_checked_add_earlier by blast

definition in_order :: "mono_time \<Rightarrow> session_core \<Rightarrow> bool" where
  "in_order now c \<longleftrightarrow> (case sc_last_now c of None \<Rightarrow> True | Some t \<Rightarrow> t \<le> now)"

lemma accept_time_in_order:
  "in_order now c \<Longrightarrow> accept_time now c = (True, c\<lparr>sc_last_now := Some now\<rparr>)"
  by (auto simp: accept_time_def in_order_def split: option.splits)

lemma coh_last_now:
  "coh dd K c \<Longrightarrow> in_order now c \<Longrightarrow> coh dd K (c\<lparr>sc_last_now := Some now\<rparr>)"
  by (auto simp: coh_def coh_parts exhausted_def in_order_def)

lemma coh_fresh_batch: "coh dd K c \<Longrightarrow> coh dd K (fresh_batch c)"
  by (simp add: coh_def coh_parts exhausted_def fresh_batch_def)

lemma coh_open_command:
  assumes "coh dd {} c" "om_lookup (sc_open_commands c) k = None"
  shows "coh dd {k} (open_command k kind c) \<and> unwritten (open_command k kind c) k"
  using assms(1)
proof (rule cohE, intro conjI cohI)
  let ?c = "open_command k kind c"
  assume p: "registries_ok c" "writes_ok {} c" "active_ok {} c"
    "data_ok {} c" "drain_ok dd {} c" "deferred_ok {} c" "open_ok {} c" "clock_ok c" "idle_ok c"
    "blameless c"
  have oko: "om_ok (sc_open_commands c)" using p(1) by (simp add: registries_ok_def)
  have nw: "w_cmd (sc_pending_writes c) w \<noteq> Some k" for w
    using p(2) assms(2) unfolding writes_ok_def by blast
  then show "unwritten ?c k"
    using p(6) by (auto simp: unwritten_def deferred_ok_def open_command_def)
  show "registries_ok ?c" using p(1) by (simp add: registries_ok_def open_command_def om_simps)
  show "writes_ok {k} ?c"
    using p(2) nw oko
    by (auto simp: writes_ok_def carried_def open_command_def om_simps simp del: not_None_eq)
  show "active_ok {k} ?c" "data_ok {k} ?c" "drain_ok dd {k} ?c"
    using p(3-5) assms(2) oko nw
    by (auto simp: active_ok_def data_ok_def drain_ok_def open_command_def om_simps)
  show "deferred_ok {k} ?c" using p(6) by (auto simp: deferred_ok_def open_command_def)
  show "open_ok {k} ?c"
    using p(7) oko by (auto simp: open_ok_def awaited_def open_command_def om_simps)
  show "clock_ok ?c" "idle_ok ?c" "blameless ?c"
    using p(8-10) by (auto simp: open_command_def clock_ok_def idle_ok_def blameless_def exhausted_def)
qed

lemma coh_arm_selection:
  "coh dd K c \<Longrightarrow> timers_fit (sc_config c) now \<Longrightarrow> coh dd K (arm_selection_timeout now c)"
  by (auto simp: arm_selection_timeout_def timers_fit_def Let_def)

lemma record_activity_eq:
  assumes "clock_ok c" "timers_fit (sc_config c) now" "sc_last_now c = Some now" "t \<le> now"
  shows "\<exists>a d. a \<le> now \<and> record_activity t c = c\<lparr>sc_last_activity := Some a, sc_idle_deadline := d\<rparr>"
proof -
  let ?a = "case sc_last_activity c of None \<Rightarrow> t | Some p \<Rightarrow> max p t"
  have a: "?a \<le> now"
    using assms(1,3,4) by (auto simp: clock_ok_def split: option.split)
  then have "\<And>d. to_linktest (cf_timeouts (sc_config c)) = Some d \<Longrightarrow> mono_checked_add ?a d \<noteq> None"
    using mono_checked_add_earlier [OF _ a] assms(2) by (auto simp: timers_fit_def)
  with a show ?thesis
    by (intro exI [of _ ?a]) (auto simp: record_activity_def Let_def split: option.split)
qed

lemma coh_activity:
  "coh dd K c \<Longrightarrow> sc_last_now c = Some now \<Longrightarrow> a \<le> now \<Longrightarrow>
     coh dd K (c\<lparr>sc_last_activity := Some a, sc_idle_deadline := d\<rparr>)"
  by (simp add: coh_def coh_parts exhausted_def)

lemma coh_record_activity:
  assumes "coh dd K c" "timers_fit (sc_config c) now" "sc_last_now c = Some now" "t \<le> now"
  shows "coh dd K (record_activity t c)"
proof -
  obtain a d where "a \<le> now"
    "record_activity t c = c\<lparr>sc_last_activity := Some a, sc_idle_deadline := d\<rparr>"
    using record_activity_eq [OF _ assms(2-4)] assms(1) by (auto simp: coh_def)
  then show ?thesis using coh_activity [OF assms(1,3)] by simp
qed

end
