(* ===== verification/Hsms_Progress.thy ===== *)
theory Hsms_Progress
  imports Hsms_Coherence
begin

section \<open>Coherence of every turn\<close>

text \<open>
  Each handler takes a coherent core to a coherent core, when its environment keeps its part: time
  does not run backwards and the timers fit the clock, command identities are fresh, write outcomes
  name pending writes. Two consequences are stated over whole runs: the core closes the generation
  for a runtime invariant only when an identifier space is exhausted, and every open command of a
  core that is not closing waits for the Writer or for an armed deadline.
\<close>

interpretation cfg: core_data "\<lambda>c. sc_config c = g" "\<lambda>_ _. True" for g
proof (intro_locales)
  show silent: "core_silent (\<lambda>c. sc_config c = g)"
    by standard (auto simp: hard_def emit_def request_close_def Let_def)
  show "core_control_axioms (\<lambda>c. sc_config c = g) (\<lambda>_ _. True)"
  proof (rule core_control_axioms.intro)
    show "core_silent (\<lambda>c. sc_config c = g \<and> True)" for w :: write_id
      using silent by simp
  qed (auto simp: add_write_def)
  show "core_data_axioms (\<lambda>c. sc_config c = g) (\<lambda>_ _. True)"
    by standard (auto simp: add_write_def insert_data_transaction_def insert_reply_contract_def)
qed

text \<open>No silent effect attaches a command to a write.\<close>

context core_silent
begin

lemma finish_optional_law:
  "P c \<Longrightarrow> P (case sc_active_transaction d of
      None \<Rightarrow> c
    | Some t \<Rightarrow> complete_control_transaction t r (c\<lparr>sc_active_transaction := None\<rparr>))"
  by (auto simp: quiet_updates split: option.split intro!: complete_control_transaction_law)

lemma abort_drain_law:
  "P c \<Longrightarrow> P (case sc_deselect_drain d of
      None \<Rightarrow> c
    | Some drain \<Rightarrow> complete_error (dr_command_id drain) e (c\<lparr>sc_deselect_drain := None\<rparr>))"
  by (auto simp: quiet_updates split: option.split intro!: complete_error_law)

end

interpretation nowrite: core_silent "\<lambda>c. \<forall>w. w_cmd (sc_pending_writes c) w \<noteq> Some k" for k
  by standard (auto simp: hard_def emit_def request_close_def Let_def w_simps)

lemma flux_keys:
  "(\<And>k. k \<in> K \<Longrightarrow> om_lookup (sc_open_commands c) k \<noteq> None) \<Longrightarrow> K \<subseteq> set (om_keys (sc_open_commands c))"
  using open_keys by blast

interpretation unused: core_silent "\<lambda>c. sc_next_write_id c = n \<and> om_lookup (sc_pending_writes c) v = None"
  for n v
  by standard (auto simp: hard_def emit_def request_close_def Let_def om_simps)

subsection \<open>Sending\<close>

lemma coh_send_response:
  assumes "coh dd {} c" "sc_state c \<noteq> None"
  shows "coh dd {} (send_response m c)"
proof -
  obtain w c' where a: "allocate_write_id c = (w, c')" by fastforce
  show ?thesis
  proof (cases w)
    case None
    with a allocate_write_None [of c c'] coh_fail [OF assms(1)] show ?thesis
      by (auto simp: send_response_def)
  next
    case (Some v)
    with a have al: "coh dd {} c' \<and> fresh_write c' v \<and> c' = c\<lparr>sc_next_write_id := checked_succ v\<rparr>"
      using allocate_write [OF _ assms(1)] by blast
    then have "coh dd {} (add_write v PW_Response None (Control m) c')"
      using assms(2) by (intro coh_add_write) auto
    with a Some show ?thesis by (simp add: send_response_def)
  qed
qed

lemma coh_start_transaction:
  assumes "coh False (set_option cmd) c" "sc_state c \<noteq> None" "sc_active_transaction c = None"
    "sc_deselect_drain c = None"
    and k: "\<And>k. cmd = Some k \<Longrightarrow>
        om_lookup (sc_open_commands c) k = Some Open_Control \<and> unwritten c k"
  shows "coh False {} (start_transaction kind cmd c)"
proof -
  obtain ids c' where a: "allocate_request_identifiers c = (ids, c')" by fastforce
  have K: "set_option cmd \<subseteq> set (om_keys (sc_open_commands c))"
    using k by (intro flux_keys) auto
  show ?thesis
  proof (cases ids)
    case None
    with a allocate_request_None [OF _ assms(1) K] show ?thesis by (simp add: start_transaction_def)
  next
    case (Some p)
    then obtain y v where p: "ids = Some (y, v)" by (cases p) auto
    note al = allocate_request [OF a [unfolded p] assms(1)]
    let ?t = "\<lparr>ct_kind = kind, ct_command_id = cmd, ct_session_id = CONTROL_SESSION,
                ct_system_bytes = y, ct_write_id = v, ct_deadline = None\<rparr>"
    have "coh False {} (add_write (ct_write_id ?t) PW_TransactionRequest (ct_command_id ?t) m
        (c'\<lparr>sc_active_transaction := Some ?t\<rparr>))" for m
      using al assms k by (intro coh_add_transaction) (auto simp: unwritten_def)
    with a p show ?thesis by (simp add: start_transaction_def Let_def)
  qed
qed

lemma coh_start_select:
  assumes "coh False {k} c" "sc_deselect_drain c = None"
    "om_lookup (sc_open_commands c) k = Some Open_Control" "unwritten c k"
  shows "coh False {} (start_select k c)" "coh False {} (start_linktest k c)"
  using assms
  by (auto simp: start_select_def start_linktest_def intro!: coh_complete_error coh_start_transaction)

subsection \<open>Deselection\<close>

lemma coh_set_drain:
  assumes "coh False {k} c" "sc_active_transaction c = None" "sc_state c \<noteq> None"
    "om_lookup (sc_open_commands c) k = Some Open_Control" "unwritten c k" "dr_command_id d = k"
    "sc_deselect_drain c = None"
  shows "coh False {} (c\<lparr>sc_deselect_drain := Some d\<rparr>)"
  using assms(1)
proof (rule cohE, intro cohI)
  let ?c = "c\<lparr>sc_deselect_drain := Some d\<rparr>"
  assume p: "registries_ok c" "writes_ok {k} c" "active_ok {k} c" "data_ok {k} c" "drain_ok False {k} c"
      "deferred_ok {k} c" "open_ok {k} c" "clock_ok c" "idle_ok c" "blameless c"
  note a = assms(2-7)
  show "registries_ok ?c" using p(1) by (simp add: registries_ok_def)
  show "writes_ok {} ?c"
    using p(2) by (rule writes_ok_weaken) (use a(4) in \<open>auto simp: carried_def unwritten_def\<close>)
  show "active_ok {} ?c" "data_ok {} ?c" using p(3,4) by (auto simp: active_ok_def data_ok_def)
  show "drain_ok False {} ?c" using a by (auto simp: drain_ok_def unwritten_def)
  show "deferred_ok {} ?c" using p(6) a(4) by (auto simp: deferred_ok_def unwritten_def)
  show "open_ok {} ?c" using p(7) a(5,6) by (auto simp: open_ok_def awaited_def)
  show "clock_ok ?c" "idle_ok ?c" "blameless ?c"
    using p(8-10) a(2) by (auto simp: clock_ok_def idle_ok_def blameless_def exhausted_def)
qed

lemma coh_progress_deselect:
  assumes "coh False {} c"
  shows "coh False {} (progress_deselect now c)"
proof (cases "sc_closing c \<or> sc_deselect_drain c = None")
  case True
  with assms show ?thesis by (auto simp: progress_deselect_def)
next
  case False
  then obtain d where d: "sc_deselect_drain c = Some d" "\<not> sc_closing c" by auto
  note f = drain_facts [OF assms d]
  have drop: "coh False {dr_command_id d} (c\<lparr>sc_deselect_drain := None\<rparr>)"
    using coh_drop_drain [OF assms d] by simp
  have "unwritten c (dr_command_id d)"
    using f(3) assms by (auto simp: unwritten_def coh_def deferred_ok_def)
  then have "unwritten (c\<lparr>sc_deselect_drain := None\<rparr>) (dr_command_id d)" by (simp add: unwritten_def)
  with drop f d assms show ?thesis
    by (auto simp: progress_deselect_def
        intro!: coh_complete_error coh_complete_ok coh_start_transaction)
qed

lemma coh_start_deselect:
  assumes "coh False {k} c" "om_lookup (sc_open_commands c) k = Some Open_Control" "unwritten c k"
    "timers_fit (sc_config c) now"
  shows "coh False {} (start_deselect k now c)"
  using assms
  by (auto simp: start_deselect_def timers_fit_def split: option.split
      intro!: coh_complete_error coh_progress_deselect coh_set_drain)

lemma commit_deselection_eq:
  assumes "timers_fit (sc_config c) now"
  shows "commit_deselection now c =
    (if sc_state c \<noteq> Some NotSelected
     then push (SessionStateChanged NotSelected)
        (c\<lparr>sc_state := Some NotSelected, sc_reply_contracts := [],
           sc_selection_deadline := mono_checked_add now (to_t7 (cf_timeouts (sc_config c)))\<rparr>)
     else c)"
  using assms
  by (auto simp: commit_deselection_def arm_selection_timeout_def timers_fit_def Let_def)

lemma coh_commit_deselection:
  assumes "coh dd K c" "timers_fit (sc_config c) now"
  shows "coh dd K (commit_deselection now c)"
proof -
  have "coh dd K (c\<lparr>sc_state := Some NotSelected, sc_reply_contracts := [], sc_selection_deadline := d\<rparr>)"
    for d using coh_state [OF assms(1), of NotSelected] by simp
  with assms show ?thesis by (simp add: commit_deselection_eq coh_push)
qed

lemma coh_receive_deselect_request:
  assumes "coh False {} c" "sc_state c \<noteq> None" "timers_fit (sc_config c) now"
  shows "coh False {} (receive_deselect_request session system now c)"
  using assms coh_send_response [OF assms(1,2)] cfg.send_response_law [of c "sc_config c"]
  by (simp add: receive_deselect_request_def Let_def coh_commit_deselection)

text \<open>The common end of a control transaction answered by the peer.\<close>

lemma coh_finish_after:
  assumes "coh dd {} c" "sc_active_transaction c = Some t"
    and "\<And>K. coh dd K (c\<lparr>sc_active_transaction := None\<rparr>) \<Longrightarrow> coh dd K (f (c\<lparr>sc_active_transaction := None\<rparr>))"
    and "sc_open_commands (f (c\<lparr>sc_active_transaction := None\<rparr>)) = sc_open_commands c"
  shows "coh dd {} (complete_control_transaction t r (f (c\<lparr>sc_active_transaction := None\<rparr>)))"
  using assms(3) [OF coh_drop_active [OF assms(1,2)]] active_cmd_open [OF assms(1,2)] assms(4)
  by (cases "ct_command_id t") (auto simp: complete_control_transaction_def intro: coh_complete_control)

lemma coh_receive_deselect_response:
  assumes "coh False {} c" "sc_state c \<noteq> None" "timers_fit (sc_config c) now"
  shows "coh False {} (receive_deselect_response session status system now c)"
proof -
  have "coh False {} (complete_control_transaction t r
      (commit_deselection now (c\<lparr>sc_active_transaction := None\<rparr>)))"
    if "sc_active_transaction c = Some t" for t r
    using assms(3) that
    by (intro coh_finish_after [OF assms(1)] coh_commit_deselection) (auto simp: commit_deselection_eq)
  with assms show ?thesis
    by (auto simp: receive_deselect_response_def send_transaction_not_open_reject_def Let_def
        split: option.split intro!: coh_send_response coh_finish_active)
qed

subsection \<open>Select, Linktest and Separate\<close>

lemma coh_receive_select_request:
  assumes "coh False {} c" "sc_state c \<noteq> None"
  shows "coh False {} (receive_select_request session system c)"
proof -
  have "coh False {} (c\<lparr>sc_state := Some Selected, sc_selection_deadline := None\<rparr>)"
    using coh_state [OF assms(1)] by simp
  with assms show ?thesis
    by (auto simp: receive_select_request_def Let_def intro!: coh_push coh_send_response)
qed

lemma coh_receive_select_response:
  assumes "coh False {} c" "sc_state c \<noteq> None"
  shows "coh False {} (receive_select_response session status system c)"
proof -
  let ?f = "\<lambda>c. push (SessionStateChanged Selected)
      (c\<lparr>sc_state := Some Selected, sc_selection_deadline := None\<rparr>)"
  have push: "coh False K (?f c)" if "coh False K c" for K c
    using coh_state [OF that, of Selected] by (intro coh_push) auto
  have "coh False {} (complete_control_transaction t r (?f (c\<lparr>sc_active_transaction := None\<rparr>)))"
    if "sc_active_transaction c = Some t" for t r
    using that by (intro coh_finish_after [OF assms(1), where f = ?f] push) simp_all
  with assms show ?thesis
    by (auto simp: receive_select_response_def send_transaction_not_open_reject_def Let_def
        split: option.split intro!: coh_send_response coh_finish_active)
qed

lemma coh_receive_linktest_response:
  assumes "coh False {} c" "sc_state c \<noteq> None"
  shows "coh False {} (receive_linktest_response system c)"
  using assms
  by (auto simp: receive_linktest_response_def send_transaction_not_open_reject_def
      split: option.split intro!: coh_send_response coh_finish_active)

text \<open>The data commands are the open ones of kind Send and Request.\<close>

lemma data_command_ids:
  assumes "om_ok (m :: (command_id, open_command_kind) omap)"
  shows "set (map fst (filter (\<lambda>(_, kind). kind = Open_Send \<or> kind = Open_Request) m)) =
      {k. om_lookup m k = Some Open_Send \<or> om_lookup m k = Some Open_Request}"
    and "distinct (map fst (filter (\<lambda>(_, kind). kind = Open_Send \<or> kind = Open_Request) m))"
proof -
  have d: "distinct (map fst m)" using om.keys_distinct [OF assms] by (simp add: om_keys_def)
  then show "distinct (map fst (filter (\<lambda>(_, kind). kind = Open_Send \<or> kind = Open_Request) m))"
    by (rule distinct_map_filter)
  show "set (map fst (filter (\<lambda>(_, kind). kind = Open_Send \<or> kind = Open_Request) m)) =
      {k. om_lookup m k = Some Open_Send \<or> om_lookup m k = Some Open_Request}"
    using d by (force simp: om_lookup_def image_iff)
qed

lemma coh_complete_data:
  assumes "coh dd K c" "\<And>k. k \<in> K \<Longrightarrow> om_lookup (sc_open_commands c) k = Some Open_Control"
  shows "coh dd K (complete_data_for_deselection c) \<and>
    (\<forall>k. om_lookup (sc_open_commands c) k = Some Open_Control \<longrightarrow>
       om_lookup (sc_open_commands (complete_data_for_deselection c)) k = Some Open_Control) \<and>
    sc_active_transaction (complete_data_for_deselection c) = sc_active_transaction c \<and>
    sc_data_transactions (complete_data_for_deselection c) = []"
proof -
  let ?c = "c\<lparr>sc_data_transactions := []\<rparr>"
  define ks where "ks = map fst (filter (\<lambda>(_, kind). kind = Open_Send \<or> kind = Open_Request) (sc_open_commands c))"
  note ids = data_command_ids [OF coh_open [OF assms(1)], folded ks_def]
  have "coh dd (set ks \<union> K) ?c" using assms(1)
  proof (rule cohE, intro cohI)
    let ?K = "set ks \<union> K"
    assume p: "registries_ok c" "writes_ok K c" "active_ok K c" "data_ok K c" "drain_ok dd K c"
      "deferred_ok K c" "open_ok K c" "clock_ok c" "idle_ok c" "blameless c"
    show "registries_ok ?c" using p(1) by (auto simp: registries_ok_def)
    show "writes_ok ?K ?c"
      unfolding writes_ok_def
    proof (intro allI impI)
      fix w k assume "w_cmd (sc_pending_writes ?c) w = Some k"
      then have "w_cmd (sc_pending_writes c) w = Some k" by simp
      from p(2) [unfolded writes_ok_def, rule_format, OF this]
      show "om_lookup (sc_open_commands ?c) k \<noteq> None \<and>
        (\<forall>w'. w_cmd (sc_pending_writes ?c) w' = Some k \<longrightarrow> w' = w) \<and>
        (\<forall>kind. w_kind (sc_pending_writes ?c) w = Some kind \<longrightarrow>
           write_command_kind kind = om_lookup (sc_open_commands ?c) k \<and>
           (kind \<noteq> PW_TransactionRequest \<longrightarrow> a_cmd (sc_active_transaction ?c) \<noteq> Some k) \<and>
           (k \<notin> ?K \<longrightarrow> om_lookup (sc_deferred_errors ?c) k = None \<longrightarrow> carried ?c w k kind))"
        by (auto simp: ids carried_def)
    qed
    show "active_ok ?K ?c" using p(3) by (auto simp: active_ok_def ids)
    show "data_ok ?K ?c" by (simp add: data_ok_def)
    show "drain_ok dd ?K ?c" using p(5) by (auto simp: drain_ok_def ids)
    show "deferred_ok ?K ?c" using p(6) by (auto simp: deferred_ok_def)
    have "k \<in> set ks" if "om_lookup (sc_data_transactions c) s = Some t" "dt_command_id t = k" for s t k
      using data_ok_open [OF p(4) that(1)] that(2) by (simp add: ids)
    then show "open_ok ?K ?c" using p(7) by (auto simp: open_ok_def awaited_def)
    show "clock_ok ?c" "idle_ok ?c" "blameless ?c"
      using p(8-10) by (auto simp: clock_ok_def idle_ok_def blameless_def exhausted_def)
  qed
  moreover have "\<forall>k \<in> set ks. om_lookup (sc_open_commands ?c) k \<noteq> None" by (auto simp: ids)
  moreover have "set ks \<inter> K = {}" using assms(2) by (auto simp: ids)
  ultimately show ?thesis
    using coh_fold_complete_or_defer [of dd ks K ?c SessionDeselected] ids
    by (auto simp: complete_data_for_deselection_def Let_def ks_def)
qed

lemma coh_finish_optional:
  assumes "coh dd K c"
  shows "coh dd K (case sc_active_transaction c of
      None \<Rightarrow> c
    | Some t \<Rightarrow> complete_control_transaction t r (c\<lparr>sc_active_transaction := None\<rparr>))"
  using assms by (auto split: option.split intro: coh_finish_active)

lemma coh_drop_flag: "coh False K c \<Longrightarrow> coh True K c"
  by (auto simp: coh_def drain_ok_def)

lemma coh_receive_separate:
  assumes "coh False {} c"
  shows "coh False {} (receive_separate c)"
proof -
  let ?c1 = "c\<lparr>sc_state := Some NotSelected\<rparr>"
  define c2 where "c2 = (case sc_active_transaction ?c1 of
      None \<Rightarrow> ?c1
    | Some t \<Rightarrow> complete_control_transaction t (Err (Protocol TransactionAborted))
                  (?c1\<lparr>sc_active_transaction := None\<rparr>))"
  have "coh False {} c2"
    unfolding c2_def using coh_state [OF assms, of NotSelected] by (rule coh_finish_optional)
  then have "coh False {} (complete_data_for_deselection c2)"
    using coh_complete_data by blast
  then have "coh True {} (push (SessionStateChanged NotSelected) (complete_data_for_deselection c2))"
    by (intro coh_push coh_drop_flag) auto
  then have "coh False {} (request_close SeparateReceived Immediate
      (push (SessionStateChanged NotSelected) (complete_data_for_deselection c2)))"
    by (rule coh_request_close) simp
  with assms show ?thesis
    unfolding receive_separate_def Let_def c2_def [symmetric] by simp
qed

lemma coh_closing: "coh dd K c \<Longrightarrow> coh dd' K (c\<lparr>sc_closing := True\<rparr>)"
  by (simp add: coh_def coh_parts exhausted_def)

lemma control_open_kept:
  assumes "om_lookup (sc_open_commands c) k = Some Open_Control" "k' \<noteq> k"
  shows "om_lookup (sc_open_commands (complete_control k r c)) k' = om_lookup (sc_open_commands c) k'"
  using assms
  by (simp add: complete_control_def emit_completion_def emit_completion_with_def emit_def
      om.lookup_remove)

lemma finish_active_registries:
  assumes "coh dd K c" "sc_active_transaction c = Some t"
  defines "c' \<equiv> \<lambda>r. complete_control_transaction t r (c\<lparr>sc_active_transaction := None\<rparr>)"
  shows "sc_active_transaction (c' r) = None"
    and "k \<in> K \<Longrightarrow> om_lookup (sc_open_commands (c' r)) k = om_lookup (sc_open_commands c) k"
  using active_cmd_open [OF assms(1,2)]
  by (auto simp: c'_def complete_control_transaction_def complete_control_def emit_completion_def
      emit_completion_with_def emit_def om.lookup_remove split: option.split)

lemma coh_start_separate:
  assumes c: "coh False (set_option cmd) c" "\<not> sc_closing c" and reason: "reason \<noteq> RuntimeInvariant"
    and k: "\<And>k. cmd = Some k \<Longrightarrow>
        om_lookup (sc_open_commands c) k = Some Open_Control \<and> unwritten c k"
  shows "coh False {} (start_separate cmd reason c)"
proof (cases "sc_state c = Some Selected")
  case False
  with assms show ?thesis
    by (auto simp: start_separate_def split: option.split intro: coh_complete_error)
next
  case True
  obtain ids c1 where a: "allocate_request_identifiers c = (ids, c1)" by fastforce
  have K: "set_option cmd \<subseteq> set (om_keys (sc_open_commands c))"
    using k by (intro flux_keys) auto
  show ?thesis
  proof (cases ids)
    case None
    with a True allocate_request_None [OF _ c(1) K] show ?thesis by (simp add: start_separate_def)
  next
    case (Some p)
    then obtain y v where p: "ids = Some (y, v)" by (cases p) auto
    note al = allocate_request [OF a [unfolded p] c(1)]
    let ?K = "set_option cmd" and ?c2 = "c1\<lparr>sc_state := Some NotSelected, sc_closing := True\<rparr>"
    define ready where "ready c \<longleftrightarrow> coh False ?K c \<and>
        (\<forall>k. cmd = Some k \<longrightarrow> om_lookup (sc_open_commands c) k = Some Open_Control)" for c
    define c3 where "c3 = (case sc_deselect_drain ?c2 of None \<Rightarrow> ?c2
      | Some drain \<Rightarrow> complete_error (dr_command_id drain) (Protocol TransactionAborted)
                        (?c2\<lparr>sc_deselect_drain := None\<rparr>))"
    define c4 where "c4 = (case sc_active_transaction c3 of None \<Rightarrow> c3
      | Some t \<Rightarrow> complete_control_transaction t (Err (Protocol TransactionAborted))
                    (c3\<lparr>sc_active_transaction := None\<rparr>))"
    define c5 where "c5 = complete_data_for_deselection c4"
    have r2: "ready ?c2"
      using al k coh_closing [OF coh_state] by (auto simp: ready_def)
    have r3: "ready c3"
    proof (cases "sc_deselect_drain c")
      case None
      with al r2 show ?thesis by (simp add: c3_def)
    next
      case (Some d)
      then have d: "sc_deselect_drain c1 = Some d" "\<not> sc_closing c1" using al c(2) by simp_all
      have "coh False (insert (dr_command_id d) ?K) (c1\<lparr>sc_deselect_drain := None\<rparr>)"
        using coh_drop_drain [OF _ d] al by blast
      note closed = coh_closing [OF coh_state [OF this, of NotSelected], of False]
      have "?c2\<lparr>sc_deselect_drain := None\<rparr> = c1\<lparr>sc_deselect_drain := None\<rparr>
          \<lparr>sc_state := Some NotSelected, sc_closing := True\<rparr>" by simp
      with closed have "coh False (insert (dr_command_id d) ?K) (?c2\<lparr>sc_deselect_drain := None\<rparr>)"
        by metis
      note f = drain_facts(1,2) [OF al [THEN conjunct1] d]
      have "om_lookup (sc_open_commands (?c2\<lparr>sc_deselect_drain := None\<rparr>)) (dr_command_id d) \<noteq> None"
        using f by simp
      note ce = coh_complete_error [OF \<open>coh False _ (?c2\<lparr>sc_deselect_drain := None\<rparr>)\<close> f(1) this]
        complete_error_open_others [OF this]
      have "om_lookup (sc_open_commands c1) k' = Some Open_Control \<and> k' \<noteq> dr_command_id d"
        if "cmd = Some k'" for k' using that k al f(1) by auto
      with ce d show ?thesis by (simp add: c3_def ready_def)
    qed
    have c3: "coh False ?K c3" using r3 by (simp add: ready_def)
    have r4: "ready c4" "sc_active_transaction c4 = None"
      using r3 coh_finish_optional [OF c3] finish_active_registries [OF c3]
      by (auto simp: ready_def c4_def split: option.split)
    have r5: "ready c5" "sc_active_transaction c5 = None" "sc_data_transactions c5 = []"
      using coh_complete_data [of False ?K c4] r4 by (auto simp: c5_def ready_def)
    have "sc_next_write_id c5 = sc_next_write_id c1 \<and> om_lookup (sc_pending_writes c5) v = None"
      unfolding c5_def c4_def c3_def using al
      by (intro unused.complete_data_law unused.finish_optional_law unused.abort_drain_law)
        (auto simp: fresh_write_def)
    moreover have "\<forall>w. w_cmd (sc_pending_writes c5) w \<noteq> Some k'" if "cmd = Some k'" for k'
      unfolding c5_def c4_def c3_def using al k [OF that]
      by (intro nowrite.complete_data_law nowrite.finish_optional_law nowrite.abort_drain_law)
        (auto simp: unwritten_def)
    moreover have "sc_state c5 \<noteq> None"
      by (auto simp: c5_def c4_def c3_def split: option.split)
    ultimately have "coh False {} (add_write v PW_Separate cmd m c5)" for m
      using r5 al by (intro coh_add_write) (auto simp: ready_def fresh_write_def)
    then have "coh False {} (request_close reason (AfterWrite v) (push (SessionStateChanged NotSelected)
        (add_write v PW_Separate cmd m c5)))" for m
      using reason by (intro coh_request_close coh_drop_flag coh_push) auto
    moreover have "start_separate cmd reason c =
        request_close reason (AfterWrite v) (push (SessionStateChanged NotSelected)
          (add_write v PW_Separate cmd (Control (SeparateRequest CONTROL_SESSION y)) c5))"
      unfolding start_separate_def Let_def c5_def c4_def c3_def using True a p by simp
    ultimately show ?thesis by simp
  qed
qed

subsection \<open>Rejects and data\<close>

lemma coh_retire:
  assumes "coh dd {} c" "om_lookup (sc_data_transactions c) s = Some t"
  shows "coh dd {dt_command_id t} (retire_data_transaction t c)"
    "om_lookup (sc_open_commands (retire_data_transaction t c)) (dt_command_id t) = Some Open_Request"
    "retire_data_transaction t c =
       c\<lparr>sc_data_transactions := om_remove s (sc_data_transactions c),
         sc_tombstones := tombstones_insert (dt_contract t) (sc_tombstones c)\<rparr>"
proof -
  note o = data_cmd_open [OF assms]
  show r: "retire_data_transaction t c =
       c\<lparr>sc_data_transactions := om_remove s (sc_data_transactions c),
         sc_tombstones := tombstones_insert (dt_contract t) (sc_tombstones c)\<rparr>"
    using o by (simp add: retire_data_transaction_def)
  show "coh dd {dt_command_id t} (retire_data_transaction t c)"
    using coh_drop_data [OF assms] by (simp add: r)
  show "om_lookup (sc_open_commands (retire_data_transaction t c)) (dt_command_id t) = Some Open_Request"
    using o by (simp add: r)
qed

lemma send_not_held:
  assumes "coh dd K c" "om_lookup (sc_open_commands c) k = Some Open_Send"
  shows "\<not> held dd c k"
  using assms by (auto simp: held_def coh_def active_ok_def data_ok_def drain_ok_def)

lemma coh_apply_reject:
  assumes "coh False {} c" "target \<in> set (reject_targets session byte_2 reason system c)"
  shows "coh False {} (apply_reject target reason c)"
proof (cases target)
  case (RT_Control t)
  with assms have "sc_active_transaction c = Some t"
    by (auto simp: reject_targets_def Let_def split: option.splits pending_write_kind.splits if_splits)
  with RT_Control assms show ?thesis by (simp add: apply_reject_def coh_finish_active)
next
  case (RT_DataRequest t)
  with assms have "t \<in> set (om_values (sc_data_transactions c))"
    by (auto simp: reject_targets_def Let_def split: option.splits pending_write_kind.splits if_splits)
  moreover have "om_ok (sc_data_transactions c)" using assms(1) by (simp add: coh_def registries_ok_def)
  ultimately obtain s where "om_lookup (sc_data_transactions c) s = Some t"
    by (auto simp: om_values_lookup)
  note r = coh_retire [OF assms(1) this]
  from RT_DataRequest r(1,2) show ?thesis by (auto simp: apply_reject_def intro!: coh_complete_error)
next
  case (RT_DataSend k)
  with assms(2) obtain p corr where p: "p \<in> set (om_values (sc_pending_writes c))"
    "pw_kind p = PW_DataSend corr" "pw_command_id p = Some k"
    by (auto simp: reject_targets_def Let_def split: option.splits pending_write_kind.splits if_splits)
      (metis)
  have "om_ok (sc_pending_writes c)" using assms(1) by (simp add: coh_def registries_ok_def)
  with p obtain w where "om_lookup (sc_pending_writes c) w = Some p" by (auto simp: om_values_lookup)
  with p have "w_cmd (sc_pending_writes c) w = Some k" "w_kind (sc_pending_writes c) w = Some (PW_DataSend corr)"
    by (simp_all add: w_cmd_def w_kind_def)
  with assms(1) have o: "om_lookup (sc_open_commands c) k = Some Open_Send"
    unfolding coh_def writes_ok_def by (metis write_command_kind.simps(2))
  from coh_flux [OF assms(1) send_not_held [OF assms(1) o]] o RT_DataSend
  show ?thesis by (auto simp: apply_reject_def intro: coh_complete_error)
qed

lemma coh_receive_reject:
  assumes "coh False {} c"
  shows "coh False {} (snd (receive_reject session byte_2 reason system c))"
  using assms coh_apply_reject [OF assms, of _ session byte_2 reason system]
  by (auto simp: receive_reject_def split: list.split)

lemma coh_receive_data:
  assumes "coh dd {} c"
  shows "coh dd {} (snd (receive_data m c))"
proof (cases "om_lookup (sc_data_transactions c) (dh_system_bytes (dm_header m))")
  case None
  with assms show ?thesis by (simp add: receive_data_def)
next
  case (Some t)
  note r = coh_retire [OF assms Some]
  have "coh dd {} (complete_request (dt_command_id t) res (retire_data_transaction t c))" for res
    using r(1,2) by (intro coh_complete_request) auto
  with Some assms show ?thesis
    by (auto simp: receive_data_def Let_def r(3) split: response_match.split)
qed

lemma coh_receive_inbound_data:
  assumes "coh False {} c" "sc_state c \<noteq> None"
  shows "coh False {} (receive_inbound_data m c)"
proof -
  have "coh False {} (c\<lparr>sc_next_reply_id := n\<rparr>)" if "sc_next_reply_id c = Some k" for n k
    using assms(1) that
    by (simp add: coh_def registries_ok_def writes_ok_def active_ok_def data_ok_def drain_ok_def
        deferred_ok_def open_ok_def awaited_def carried_def clock_ok_def idle_ok_def)
      (simp add: blameless_def exhausted_def)
  then have deliver: "coh False {} (push (DeliverPrimary m (Some k)) (insert_reply_contract k h c))"
    if "sc_next_reply_id c = Some k" for k h
    using that by (intro coh_push) (simp_all add: insert_reply_contract_def)
  show ?thesis
    using assms deliver coh_receive_data [OF assms(1), of m]
    by (auto simp: receive_inbound_data_def Let_def case_prod_beta split: option.split
        intro!: coh_send_response coh_close_all coh_fail coh_push simp: exhausted_def)
qed

subsection \<open>Deadlines\<close>

lemma coh_expire_request:
  assumes "coh dd {} c" "om_lookup (sc_data_transactions c) s = Some t"
  shows "coh dd {} (expire_request t c)"
    and "om_lookup (sc_data_transactions (expire_request t c)) s' =
      (if s' = s then None else om_lookup (sc_data_transactions c) s')"
  using coh_retire [OF assms]
  by (auto simp: expire_request_def emit_completion_def emit_completion_with_def coh_emit)
    (auto simp: emit_def om_simps)

lemma coh_expire_requests:
  "coh dd {} c \<Longrightarrow> distinct ts \<Longrightarrow>
     \<forall>t \<in> set ts. om_lookup (sc_data_transactions c) (rc_system_bytes (dt_contract t)) = Some t \<Longrightarrow>
     coh dd {} (fold expire_request ts c)"
proof (induction ts arbitrary: c)
  case (Cons t ts)
  then have t: "om_lookup (sc_data_transactions c) (rc_system_bytes (dt_contract t)) = Some t" by simp
  note e = coh_expire_request [OF Cons.prems(1) t]
  have "rc_system_bytes (dt_contract t') \<noteq> rc_system_bytes (dt_contract t)" if "t' \<in> set ts" for t'
    using Cons.prems(2,3) that t by (metis distinct.simps(2) list.set_intros(2) option.inject)
  then show ?case using e Cons.prems by (auto intro!: Cons.IH)
qed simp

lemma expired_requests_found:
  assumes "coh dd {} c"
  shows "distinct (expired_requests now c)"
    and "t \<in> set (expired_requests now c) \<Longrightarrow>
      om_lookup (sc_data_transactions c) (rc_system_bytes (dt_contract t)) = Some t"
proof -
  let ?m = "sc_data_transactions c"
  have ok: "om_ok ?m" using assms by (simp add: coh_def registries_ok_def)
  have found: "om_lookup ?m (rc_system_bytes (dt_contract t)) = Some t" if "t \<in> set (om_values ?m)" for t
    using that data_cmd_open [OF assms] om_values_lookup [OF ok] by blast
  then show "t \<in> set (expired_requests now c) \<Longrightarrow>
      om_lookup (sc_data_transactions c) (rc_system_bytes (dt_contract t)) = Some t"
    by (auto simp: expired_requests_def)
  have keys: "distinct (om_keys ?m)" using ok by (rule om.keys_distinct)
  then have "map (\<lambda>t. rc_system_bytes (dt_contract t)) (om_values ?m) = om_keys ?m"
    using data_cmd_open [OF assms]
    by (auto simp: om_values_def om_keys_def om_lookup_def intro!: map_cong)
  with keys have "distinct (om_values ?m)" by (metis distinct_map)
  then show "distinct (expired_requests now c)" by (simp add: expired_requests_def)
qed

lemma coh_probe_idle:
  "coh False {} c \<Longrightarrow> sc_state c \<noteq> None \<Longrightarrow> coh False {} (probe_idle now c)"
  by (auto simp: probe_idle_def intro!: coh_start_transaction)

lemma coh_close_for_timeout:
  "coh dd {} c \<Longrightarrow> coh dd' {} (close_for_timeout kind c)"
  by (simp add: close_for_timeout_def coh_close_all)

lemma coh_expire_deadlines:
  assumes "coh False {} c"
  shows "coh False {} (expire_deadlines now c)"
proof -
  have ex: "coh False {} (fold expire_request (expired_requests now c) c)"
    by (rule coh_expire_requests [OF assms]) (use expired_requests_found [OF assms] in auto)
  show ?thesis
    using assms ex coh_progress_deselect [OF ex]
    by (auto simp: expire_deadlines_def Let_def split: option.split
        intro!: coh_close_for_timeout coh_finish_active coh_probe_idle)
qed

subsection \<open>Inputs\<close>

lemma coh_on_connected:
  assumes "coh False {} c" "in_order now c" "timers_fit (sc_config c) now" "sc_state c = None"
    "\<not> sc_closing c"
  shows "coh False {} (on_connected now c)"
proof -
  let ?c1 = "(fresh_batch c)\<lparr>sc_last_now := Some now\<rparr>"
  let ?c2 = "arm_selection_timeout now (?c1\<lparr>sc_state := Some NotSelected\<rparr>)"
  have o: "in_order now (fresh_batch c)" using assms(2) by (simp add: in_order_def fresh_batch_def)
  have "coh False {} ?c1" using coh_last_now [OF coh_fresh_batch [OF assms(1)] o] .
  then have "coh False {} ?c2"
    using assms(3) coh_state [of False "{}" ?c1 NotSelected]
    by (intro coh_arm_selection) (simp_all add: fresh_batch_def)
  moreover have "sc_last_now ?c2 = Some now" "sc_config ?c2 = sc_config c"
    using assms(3) by (auto simp: arm_selection_timeout_def timers_fit_def Let_def fresh_batch_def)
  ultimately have "coh False {} (record_activity now ?c2)"
    using assms(3) by (intro coh_record_activity) auto
  then show ?thesis
    using assms(4,5) accept_time_in_order [OF o]
    by (simp add: on_connected_def Let_def coh_push fresh_batch_def)
qed

lemma coh_start_data:
  assumes "coh False {k} c" "unwritten c k"
    "om_lookup (sc_open_commands c) k = Some (if reply then Open_Request else Open_Send)"
  shows "coh False {} (start_data k m reply c)"
proof -
  have err: "coh False {} (complete_error k e c)" for e
    using assms by (intro coh_complete_error) auto
  have K: "{k} \<subseteq> set (om_keys (sc_open_commands c))" using assms(3) by (simp add: open_keys)
  obtain ids c1 where a: "allocate_request_identifiers c = (ids, c1)" by fastforce
  show ?thesis
  proof (cases ids)
    case None
    with a allocate_request_None [OF _ assms(1) K] err show ?thesis
      by (simp add: start_data_def Let_def)
  next
    case (Some p)
    then obtain y v where p: "ids = Some (y, v)" by (cases p) auto
    note al = allocate_request [OF a [unfolded p] assms(1)]
    have k1: "unwritten c1 k" "sc_open_commands c1 = sc_open_commands c" "sc_state c1 = sc_state c"
      using al assms(2) by (auto simp: unwritten_def)
    have send: "coh False {} (add_write v (PW_DataSend w) (Some k) msg c1)"
      if "sc_state c \<noteq> None" "\<not> reply" for w msg
      using al k1 assms(3) that by (intro coh_add_write) (auto simp: unwritten_def)
    have request: "coh False {} (add_write v (PW_DataRequest y) (Some k) msg (insert_data_transaction y t c1))"
      if "sc_state c \<noteq> None" "reply" "dt_command_id t = k" "dt_write_id t = v" "dt_deadline t = None"
        "rc_system_bytes (dt_contract t) = y" for t msg
      using al k1 assms(3) that by (intro coh_add_request) auto
    show ?thesis
      using a p err al send request
      by (auto simp: start_data_def Let_def)
  qed
qed

end
