(* ===== verification/Hsms_Liveness.thy ===== *)
theory Hsms_Liveness
  imports Hsms_Progress
begin

section \<open>Write outcomes, and whole runs of a well-behaved environment\<close>

text \<open>
  The remaining inputs of the core, the assumption on its environment (\<open>well_behaved\<close>) and the
  two consequences over runs: the core blames itself only when an identifier space is exhausted,
  and no command is left waiting for nothing.
\<close>

subsection \<open>Settling a write\<close>

lemma coh_remove_write:
  assumes "coh dd K c"
    and a: "\<And>t. sc_active_transaction c = Some t \<Longrightarrow> ct_write_id t \<noteq> w"
    and d: "\<And>s t. om_lookup (sc_data_transactions c) s = Some t \<Longrightarrow> dt_write_id t \<noteq> w"
    and k: "\<And>k. w_cmd (sc_pending_writes c) w = Some k \<Longrightarrow> k \<in> K"
  shows "coh dd K (c\<lparr>sc_pending_writes := om_remove w (sc_pending_writes c)\<rparr>)" (is "coh dd K ?c")
  using assms(1)
proof (rule cohE, intro cohI)
  assume p: "registries_ok c" "writes_ok K c" "active_ok K c" "data_ok K c" "drain_ok dd K c"
      "deferred_ok K c" "open_ok K c" "clock_ok c" "idle_ok c" "blameless c"
  have wc: "w_cmd (sc_pending_writes ?c) w' = (if w = w' then None else w_cmd (sc_pending_writes c) w')"
    and wk: "w_kind (sc_pending_writes ?c) w' = (if w = w' then None else w_kind (sc_pending_writes c) w')"
    for w' by (simp_all add: w_simps)
  show "registries_ok ?c" using p(1) by (auto simp: registries_ok_def om_simps)
  show "writes_ok K ?c"
    unfolding writes_ok_def
  proof (intro allI impI)
    fix w' k' assume w': "w_cmd (sc_pending_writes ?c) w' = Some k'"
    then have old: "w_cmd (sc_pending_writes c) w' = Some k'" and ne: "w \<noteq> w'"
      unfolding wc by (simp_all split: if_splits)
    from p(2) [unfolded writes_ok_def, rule_format, OF old] ne
    show "om_lookup (sc_open_commands ?c) k' \<noteq> None \<and>
       (\<forall>w''. w_cmd (sc_pending_writes ?c) w'' = Some k' \<longrightarrow> w'' = w') \<and>
       (\<forall>kind. w_kind (sc_pending_writes ?c) w' = Some kind \<longrightarrow>
          write_command_kind kind = om_lookup (sc_open_commands ?c) k' \<and>
          (kind \<noteq> PW_TransactionRequest \<longrightarrow> a_cmd (sc_active_transaction ?c) \<noteq> Some k') \<and>
          (k' \<notin> K \<longrightarrow> om_lookup (sc_deferred_errors ?c) k' = None \<longrightarrow> carried ?c w' k' kind))"
      unfolding wc wk carried_def by auto
  qed
  show "active_ok K ?c" using p(3) a by (auto simp: active_ok_def w_simps om_simps)
  show "data_ok K ?c"
  proof (rule data_ok_writes [OF p(4)])
    show "om_lookup (sc_pending_writes ?c) (dt_write_id t) = om_lookup (sc_pending_writes c) (dt_write_id t)"
      if "om_lookup (sc_data_transactions c) s = Some t" for s t
      using d [OF that] by (simp add: om_simps)
  qed auto
  show "drain_ok dd K ?c" using p(5) by (auto simp: drain_ok_def w_simps split: if_splits)
  have left: "k' \<in> K \<or> (\<exists>w. w_cmd (sc_pending_writes ?c) w = Some k')"
    if "w_cmd (sc_pending_writes c) w' = Some k'" for w' k'
  proof (cases "w' = w")
    case True
    with k that show ?thesis by blast
  next
    case False
    then have "w_cmd (sc_pending_writes ?c) w' = Some k'" using that by (simp add: w_simps)
    then show ?thesis by blast
  qed
  show "deferred_ok K ?c" using p(6) by (auto simp: deferred_ok_def dest!: left)
  show "open_ok K ?c" using p(7) by (auto simp: open_ok_def awaited_def dest!: left)
  show "clock_ok ?c" "idle_ok ?c" "blameless ?c"
    using p(8-10) by (auto simp: clock_ok_def idle_ok_def blameless_def exhausted_def om_remove_def)
qed

lemma write_facts:
  assumes "coh dd {} c" "om_lookup (sc_pending_writes c) w = Some p"
  shows "sc_active_transaction c = Some t \<Longrightarrow> ct_write_id t = w \<Longrightarrow>
      pw_kind p = PW_TransactionRequest \<and> pw_command_id p = ct_command_id t \<and> ct_deadline t = None"
    and "om_lookup (sc_data_transactions c) s = Some d \<Longrightarrow> dt_write_id d = w \<Longrightarrow>
      pw_kind p = PW_DataRequest s \<and> pw_command_id p = Some (dt_command_id d) \<and> dt_deadline d = None"
    and "pw_command_id p = Some k \<Longrightarrow>
      om_lookup (sc_open_commands c) k = write_command_kind (pw_kind p) \<and>
      om_lookup (sc_open_commands c) k \<noteq> None"
    and "pw_command_id p = Some k \<Longrightarrow> om_lookup (sc_deferred_errors c) k = None \<Longrightarrow>
      carried c w k (pw_kind p)"
proof -
  have w: "w_cmd (sc_pending_writes c) w = pw_command_id p" "w_kind (sc_pending_writes c) w = Some (pw_kind p)"
    using assms(2) by (simp_all add: w_cmd_def w_kind_def)
  show "sc_active_transaction c = Some t \<Longrightarrow> ct_write_id t = w \<Longrightarrow>
      pw_kind p = PW_TransactionRequest \<and> pw_command_id p = ct_command_id t \<and> ct_deadline t = None"
    using assms w by (auto simp: coh_def active_ok_def split: if_splits)
  show "om_lookup (sc_data_transactions c) s = Some d \<Longrightarrow> dt_write_id d = w \<Longrightarrow>
      pw_kind p = PW_DataRequest s \<and> pw_command_id p = Some (dt_command_id d) \<and> dt_deadline d = None"
  proof -
    assume d: "om_lookup (sc_data_transactions c) s = Some d" "dt_write_id d = w"
    have "data_ok {} c" using assms(1) by (simp add: coh_def)
    from this [unfolded data_ok_def, rule_format, OF d(1)] d(2) assms(2) w show ?thesis
      by (auto split: if_splits)
  qed
  show "pw_command_id p = Some k \<Longrightarrow>
      om_lookup (sc_open_commands c) k = write_command_kind (pw_kind p) \<and>
      om_lookup (sc_open_commands c) k \<noteq> None"
    using assms w by (auto simp: coh_def writes_ok_def)
  show "pw_command_id p = Some k \<Longrightarrow> om_lookup (sc_deferred_errors c) k = None \<Longrightarrow>
      carried c w k (pw_kind p)"
    using assms w by (auto simp: coh_def writes_ok_def)
qed

lemma drop_order:
  "c\<lparr>sc_pending_writes := x, sc_active_transaction := y\<rparr> = c\<lparr>sc_active_transaction := y, sc_pending_writes := x\<rparr>"
  "c\<lparr>sc_pending_writes := x, sc_data_transactions := z\<rparr> = c\<lparr>sc_data_transactions := z, sc_pending_writes := x\<rparr>"
  by simp_all

text \<open>A write and the transaction it started leave together.\<close>

lemma coh_drop_write:
  assumes c: "coh dd {} c" and w: "om_lookup (sc_pending_writes c) w = Some p"
  shows "coh dd (set_option (pw_command_id p))
    (remove_transaction_for_write w (pw_kind p)
       (c\<lparr>sc_pending_writes := om_remove w (sc_pending_writes c)\<rparr>))"
proof -
  have wc: "w_cmd (sc_pending_writes c) w = pw_command_id p" using w by (simp add: w_cmd_def)
  note f = write_facts [OF c w]
  consider (active) t where "sc_active_transaction c = Some t" "ct_write_id t = w"
    | (data) s t where "om_lookup (sc_data_transactions c) s = Some t" "dt_write_id t = w"
    | (none) "\<And>t. sc_active_transaction c = Some t \<Longrightarrow> ct_write_id t \<noteq> w"
        "\<And>s t. om_lookup (sc_data_transactions c) s = Some t \<Longrightarrow> dt_write_id t \<noteq> w"
    by blast
  then show ?thesis
  proof cases
    case active
    note g = f(1) [OF active]
    let ?c1 = "c\<lparr>sc_active_transaction := None\<rparr>"
    have nd: "dt_write_id t' \<noteq> w" if "om_lookup (sc_data_transactions c) s = Some t'" for s t'
      using f(2) [OF that] g by auto
    have "coh dd (set_option (pw_command_id p)) ?c1"
      using coh_drop_active [OF c active(1)] g by simp
    then have "coh dd (set_option (pw_command_id p))
        (?c1\<lparr>sc_pending_writes := om_remove w (sc_pending_writes ?c1)\<rparr>)"
      by (rule coh_remove_write) (use nd wc in auto)
    with active g show ?thesis by (simp add: remove_transaction_for_write_def drop_order)
  next
    case data
    note g = f(2) [OF data]
    let ?c1 = "c\<lparr>sc_data_transactions := om_remove s (sc_data_transactions c)\<rparr>"
    have "s' = s" if "om_lookup (sc_data_transactions c) s' = Some t'" "dt_write_id t' = w" for s' t'
      using f(2) [OF that] g by simp
    then have nd: "dt_write_id t' \<noteq> w" if "om_lookup (sc_data_transactions ?c1) s' = Some t'" for s' t'
      using that by (auto simp: om_simps split: if_splits)
    have na: "ct_write_id t' \<noteq> w" if "sc_active_transaction ?c1 = Some t'" for t'
      using f(1) [of t'] that g by auto
    have "coh dd (set_option (pw_command_id p)) ?c1"
      using coh_drop_data [OF c data(1)] g by simp
    then have "coh dd (set_option (pw_command_id p))
        (?c1\<lparr>sc_pending_writes := om_remove w (sc_pending_writes ?c1)\<rparr>)"
      by (rule coh_remove_write) (use nd na wc in auto)
    with data g show ?thesis by (simp add: remove_transaction_for_write_def drop_order)
  next
    case none
    have nh: "\<not> held dd c k" if k: "pw_command_id p = Some k" for k
    proof
      assume "held dd c k"
      then consider "a_cmd (sc_active_transaction c) = Some k"
        | s t where "om_lookup (sc_data_transactions c) s = Some t" "dt_command_id t = k"
        | d where "\<not> dd" "\<not> sc_closing c" "sc_deselect_drain c = Some d" "dr_command_id d = k"
        by (auto simp: held_def)
      then show False
      proof cases
        case 1
        then have "om_lookup (sc_deferred_errors c) k = None" using c by (auto simp: coh_def active_ok_def)
        moreover have "pw_kind p = PW_TransactionRequest"
        proof -
          have "writes_ok {} c" using c by (simp add: coh_def)
          moreover have "w_kind (sc_pending_writes c) w = Some (pw_kind p)" by (simp add: w_kind_def w)
          ultimately show ?thesis using 1 wc k unfolding writes_ok_def by metis
        qed
        moreover note 1
        ultimately have "carried c w k PW_TransactionRequest" using f(4) [OF k] by simp
        with none(1) show False by (auto simp: carried_def)
      next
        case (2 s t)
        then have "om_lookup (sc_deferred_errors c) k = None"
          "om_lookup (sc_open_commands c) k = Some Open_Request"
          using c by (auto simp: coh_def data_ok_def)
        with f(3,4) [OF k] obtain s' where "pw_kind p = PW_DataRequest s'" "carried c w k (pw_kind p)"
          by (cases "pw_kind p") auto
        with none(2) show False by (auto simp: carried_def)
      next
        case 3
        with c wc k show False by (auto simp: coh_def drain_ok_def)
      qed
    qed
    have "coh dd (set_option (pw_command_id p)) c"
      using c coh_flux [OF c] nh by (cases "pw_command_id p") auto
    then have "coh dd (set_option (pw_command_id p))
        (c\<lparr>sc_pending_writes := om_remove w (sc_pending_writes c)\<rparr>)"
      by (rule coh_remove_write) (use none wc in auto)
    with none show ?thesis
      by (auto simp: remove_transaction_for_write_def split: pending_write_kind.split option.split)
  qed
qed

lemma remove_transaction_open [simp]:
  "sc_open_commands (remove_transaction_for_write w kind c) = sc_open_commands c"
  by (simp add: remove_transaction_for_write_def split: pending_write_kind.split)

lemma coh_fail_write:
  fixes c :: session_core and w :: write_id
  defines "c' \<equiv> \<lambda>p. remove_transaction_for_write w (pw_kind p)
      (c\<lparr>sc_pending_writes := om_remove w (sc_pending_writes c)\<rparr>)"
  assumes c: "coh dd {} c" and w: "om_lookup (sc_pending_writes c) w = Some p"
  shows "coh dd {} (case pw_command_id p of None \<Rightarrow> c' p | Some k \<Rightarrow> complete_error k e (c' p))"
proof (cases "pw_command_id p")
  case None
  with coh_drop_write [OF c w] show ?thesis by (simp add: c'_def)
next
  case (Some k)
  then have "om_lookup (sc_open_commands (c' p)) k \<noteq> None"
    using write_facts(3) [OF c w, THEN conjunct2] by (simp add: c'_def)
  with Some coh_drop_write [OF c w] show ?thesis
    by (simp add: c'_def coh_complete_error)
qed

lemma coh_commit_transaction:
  assumes c: "coh dd {} c" and w: "om_lookup (sc_pending_writes c) w = Some p"
    and t: "sc_active_transaction c = Some t" "ct_write_id t = w"
  shows "coh dd {} (c\<lparr>sc_pending_writes := om_remove w (sc_pending_writes c),
                      sc_active_transaction := Some (t\<lparr>ct_deadline := Some d\<rparr>)\<rparr>)" (is "coh dd {} ?c")
  using c
proof (rule cohE, intro cohI)
  assume p: "registries_ok c" "writes_ok {} c" "active_ok {} c" "data_ok {} c" "drain_ok dd {} c"
      "deferred_ok {} c" "open_ok {} c" "clock_ok c" "idle_ok c" "blameless c"
  note f = write_facts(1) [OF c w t]
  have wpc: "w_cmd (sc_pending_writes c) w = ct_command_id t" using f w by (simp add: w_cmd_def)
  have wc: "w_cmd (sc_pending_writes ?c) w' = (if w = w' then None else w_cmd (sc_pending_writes c) w')"
    and wk: "w_kind (sc_pending_writes ?c) w' = (if w = w' then None else w_kind (sc_pending_writes c) w')"
    for w' by (simp_all add: w_simps)
  have a: "a_cmd (sc_active_transaction ?c) = a_cmd (sc_active_transaction c)" using t by simp
  show "registries_ok ?c" using p(1) by (auto simp: registries_ok_def om_simps)
  show "writes_ok {} ?c"
    unfolding writes_ok_def a
  proof (intro allI impI)
    fix w' k' assume w': "w_cmd (sc_pending_writes ?c) w' = Some k'"
    then have old: "w_cmd (sc_pending_writes c) w' = Some k'" and ne: "w \<noteq> w'"
      unfolding wc by (simp_all split: if_splits)
    from p(2) [unfolded writes_ok_def, rule_format, OF old] ne t
    show "om_lookup (sc_open_commands ?c) k' \<noteq> None \<and>
       (\<forall>w''. w_cmd (sc_pending_writes ?c) w'' = Some k' \<longrightarrow> w'' = w') \<and>
       (\<forall>kind. w_kind (sc_pending_writes ?c) w' = Some kind \<longrightarrow>
          write_command_kind kind = om_lookup (sc_open_commands ?c) k' \<and>
          (kind \<noteq> PW_TransactionRequest \<longrightarrow> a_cmd (sc_active_transaction c) \<noteq> Some k') \<and>
          (k' \<notin> {} \<longrightarrow> om_lookup (sc_deferred_errors ?c) k' = None \<longrightarrow> carried ?c w' k' kind))"
      unfolding wc wk carried_def by auto
  qed
  show "active_ok {} ?c" using p(3) t by (auto simp: active_ok_def om_simps)
  show "data_ok {} ?c"
  proof (rule data_ok_writes [OF p(4)])
    show "om_lookup (sc_pending_writes ?c) (dt_write_id u) = om_lookup (sc_pending_writes c) (dt_write_id u)"
      if "om_lookup (sc_data_transactions c) s = Some u" for s u
      using write_facts(2) [OF c w that] f by (auto simp: om_simps)
  qed auto
  show "drain_ok dd {} ?c" using p(5) t by (auto simp: drain_ok_def w_simps split: if_splits)
  have left: "ct_command_id t = Some k' \<or> (\<exists>w. w_cmd (sc_pending_writes ?c) w = Some k')"
    if "w_cmd (sc_pending_writes c) w' = Some k'" for w' k'
  proof (cases "w' = w")
    case True
    with wpc that show ?thesis by simp
  next
    case False
    then have "w_cmd (sc_pending_writes ?c) w' = Some k'" using that by (simp add: w_simps)
    then show ?thesis by blast
  qed
  have "om_lookup (sc_deferred_errors c) k = None" if "ct_command_id t = Some k" for k
    using p(3) t that by (simp add: active_ok_def)
  then show "deferred_ok {} ?c" using p(6) left unfolding deferred_ok_def by simp (metis option.distinct(1))
  show "open_ok {} ?c" using p(7) t by (auto simp: open_ok_def awaited_def dest!: left)
  show "clock_ok ?c" "idle_ok ?c" "blameless ?c"
    using p(8-10) t by (auto simp: clock_ok_def idle_ok_def blameless_def exhausted_def om_remove_def)
qed

lemma coh_commit_data:
  assumes c: "coh dd {} c" and w: "om_lookup (sc_pending_writes c) w = Some p"
    and t: "om_lookup (sc_data_transactions c) s = Some t" "dt_write_id t = w"
  shows "coh dd {} (c\<lparr>sc_pending_writes := om_remove w (sc_pending_writes c),
      sc_data_transactions := om_insert s (t\<lparr>dt_deadline := Some d\<rparr>) (sc_data_transactions c)\<rparr>)"
    (is "coh dd {} ?c")
  using c
proof (rule cohE, intro cohI)
  assume p: "registries_ok c" "writes_ok {} c" "active_ok {} c" "data_ok {} c" "drain_ok dd {} c"
      "deferred_ok {} c" "open_ok {} c" "clock_ok c" "idle_ok c" "blameless c"
  note f = write_facts(2) [OF c w t]
  have okd: "om_ok (sc_data_transactions c)" using p(1) by (simp add: registries_ok_def)
  have wpc: "w_cmd (sc_pending_writes c) w = Some (dt_command_id t)" using f w by (simp add: w_cmd_def)
  have wc: "w_cmd (sc_pending_writes ?c) w' = (if w = w' then None else w_cmd (sc_pending_writes c) w')"
    and wk: "w_kind (sc_pending_writes ?c) w' = (if w = w' then None else w_kind (sc_pending_writes c) w')"
    and wl: "om_lookup (sc_pending_writes ?c) w' =
        (if w = w' then None else om_lookup (sc_pending_writes c) w')"
    for w' by (simp_all add: w_simps om_simps)
  have dl: "om_lookup (sc_data_transactions ?c) s' =
      (if s = s' then Some (t\<lparr>dt_deadline := Some d\<rparr>) else om_lookup (sc_data_transactions c) s')" for s'
    using okd by (simp add: om_simps)
  show "registries_ok ?c" using p(1) t by (auto simp: registries_ok_def om_simps split: if_splits)
  show "writes_ok {} ?c"
    unfolding writes_ok_def
  proof (intro allI impI)
    fix w' k' assume w': "w_cmd (sc_pending_writes ?c) w' = Some k'"
    then have old: "w_cmd (sc_pending_writes c) w' = Some k'" and ne: "w \<noteq> w'"
      unfolding wc by (simp_all split: if_splits)
    from p(2) [unfolded writes_ok_def, rule_format, OF old] ne t
    show "om_lookup (sc_open_commands ?c) k' \<noteq> None \<and>
       (\<forall>w''. w_cmd (sc_pending_writes ?c) w'' = Some k' \<longrightarrow> w'' = w') \<and>
       (\<forall>kind. w_kind (sc_pending_writes ?c) w' = Some kind \<longrightarrow>
          write_command_kind kind = om_lookup (sc_open_commands ?c) k' \<and>
          (kind \<noteq> PW_TransactionRequest \<longrightarrow> a_cmd (sc_active_transaction ?c) \<noteq> Some k') \<and>
          (k' \<notin> {} \<longrightarrow> om_lookup (sc_deferred_errors ?c) k' = None \<longrightarrow> carried ?c w' k' kind))"
      unfolding wc wk carried_def dl by (auto split: if_splits)
  qed
  show "active_ok {} ?c"
    using p(3) write_facts(1) [OF c w] f by (auto simp: active_ok_def w_simps om_simps)
  show "data_ok {} ?c"
    unfolding data_ok_def
  proof (intro allI impI)
    fix s1 t1 assume l: "om_lookup (sc_data_transactions ?c) s1 = Some t1"
    define t0 where "t0 = (if s1 = s then t else t1)"
    have t0t: "s1 = s \<Longrightarrow> t0 = t" by (simp add: t0_def)
    have l0: "om_lookup (sc_data_transactions c) s1 = Some t0"
      and t1: "t1 = (if s1 = s then t\<lparr>dt_deadline := Some d\<rparr> else t0)"
      using l t unfolding dl t0_def by (auto split: if_splits)
    have other: "dt_write_id t0 \<noteq> w" if "s1 \<noteq> s"
      using write_facts(2) [OF c w l0] f that by auto
    note q = p(4) [unfolded data_ok_def, rule_format, OF l0]
    have inj: "\<forall>s' t'. om_lookup (sc_data_transactions ?c) s' = Some t' \<longrightarrow>
        dt_command_id t' = dt_command_id t1 \<longrightarrow> s' = s1"
    proof (intro allI impI)
      fix s' t' assume a: "om_lookup (sc_data_transactions ?c) s' = Some t'"
        "dt_command_id t' = dt_command_id t1"
      define u where "u = (if s' = s then t else t')"
      have "om_lookup (sc_data_transactions c) s' = Some u" "dt_command_id u = dt_command_id t'"
        using a(1) t unfolding dl u_def by (auto split: if_splits)
      moreover have "dt_command_id t1 = dt_command_id t0" using t1 t0t by (simp split: if_splits)
      moreover have "\<forall>s' t'. om_lookup (sc_data_transactions c) s' = Some t' \<longrightarrow>
          dt_command_id t' = dt_command_id t0 \<longrightarrow> s' = s1" using q by simp
      ultimately show "s' = s1" using a(2) by simp
    qed
    have fin: "if dt_deadline t1 = None
         then w_kind (sc_pending_writes ?c) (dt_write_id t1) = Some (PW_DataRequest s1) \<and>
              w_cmd (sc_pending_writes ?c) (dt_write_id t1) = Some (dt_command_id t1)
         else om_lookup (sc_pending_writes ?c) (dt_write_id t1) = None"
      unfolding wc wk wl
    proof (cases "s1 = s")
      case True
      with t1 t show "if dt_deadline t1 = None
         then (if w = dt_write_id t1 then None else w_kind (sc_pending_writes c) (dt_write_id t1)) =
                Some (PW_DataRequest s1) \<and>
              (if w = dt_write_id t1 then None else w_cmd (sc_pending_writes c) (dt_write_id t1)) =
                Some (dt_command_id t1)
         else (if w = dt_write_id t1 then None
               else om_lookup (sc_pending_writes c) (dt_write_id t1)) = None" by simp
    next
      case False
      with other t1 have "w \<noteq> dt_write_id t1" "t1 = t0" by auto
      with q show "if dt_deadline t1 = None
         then (if w = dt_write_id t1 then None else w_kind (sc_pending_writes c) (dt_write_id t1)) =
                Some (PW_DataRequest s1) \<and>
              (if w = dt_write_id t1 then None else w_cmd (sc_pending_writes c) (dt_write_id t1)) =
                Some (dt_command_id t1)
         else (if w = dt_write_id t1 then None
               else om_lookup (sc_pending_writes c) (dt_write_id t1)) = None" by simp
    qed
    have e: "dt_contract t1 = dt_contract t0" "dt_command_id t1 = dt_command_id t0"
      "dt_write_id t1 = dt_write_id t0" using t1 t0t by (simp_all split: if_splits)
    have q1: "rc_system_bytes (dt_contract t0) = s1"
      "om_lookup (sc_open_commands c) (dt_command_id t0) = Some Open_Request"
      "om_lookup (sc_deferred_errors c) (dt_command_id t0) = None"
      "below (dt_write_id t0) (sc_next_write_id c)" using q by simp_all
    show "rc_system_bytes (dt_contract t1) = s1 \<and> dt_command_id t1 \<notin> {} \<and>
        om_lookup (sc_open_commands ?c) (dt_command_id t1) = Some Open_Request \<and>
        om_lookup (sc_deferred_errors ?c) (dt_command_id t1) = None \<and>
        (\<forall>s' t'. om_lookup (sc_data_transactions ?c) s' = Some t' \<longrightarrow>
           dt_command_id t' = dt_command_id t1 \<longrightarrow> s' = s1) \<and>
        below (dt_write_id t1) (sc_next_write_id ?c) \<and>
        (if dt_deadline t1 = None
         then w_kind (sc_pending_writes ?c) (dt_write_id t1) = Some (PW_DataRequest s1) \<and>
              w_cmd (sc_pending_writes ?c) (dt_write_id t1) = Some (dt_command_id t1)
         else om_lookup (sc_pending_writes ?c) (dt_write_id t1) = None)"
      by (intro conjI inj fin) (simp_all add: e q1)
  qed
  show "drain_ok dd {} ?c" using p(5) by (auto simp: drain_ok_def w_simps split: if_splits)
  have left: "dt_command_id t = k' \<or> (\<exists>w. w_cmd (sc_pending_writes ?c) w = Some k')"
    if "w_cmd (sc_pending_writes c) w' = Some k'" for w' k'
  proof (cases "w' = w")
    case True
    with wpc that show ?thesis by simp
  next
    case False
    then have "w_cmd (sc_pending_writes ?c) w' = Some k'" using that by (simp add: w_simps)
    then show ?thesis by blast
  qed
  have "om_lookup (sc_deferred_errors c) (dt_command_id t) = None"
    using p(4) [unfolded data_ok_def, rule_format, OF t(1)] by simp
  then show "deferred_ok {} ?c" using p(6) left unfolding deferred_ok_def by simp (metis option.distinct(1))
  have held: "\<exists>s' t'. om_lookup (sc_data_transactions ?c) s' = Some t' \<and> dt_command_id t' = dt_command_id u"
    if "om_lookup (sc_data_transactions c) s1 = Some u" for s1 u
    using that t(1) unfolding dl by (cases "s1 = s") (auto intro: exI [of _ s1])
  have "awaited ?c k" if "awaited c k" for k
  proof -
    from that consider w' where "w_cmd (sc_pending_writes c) w' = Some k"
      | "a_cmd (sc_active_transaction c) = Some k"
      | s' u where "om_lookup (sc_data_transactions c) s' = Some u" "dt_command_id u = k"
      | d' where "sc_deselect_drain c = Some d'" "dr_command_id d' = k"
      unfolding awaited_def by blast
    then show ?thesis
    proof cases
      case 1
      from left [OF this] held [OF t(1)] show ?thesis unfolding awaited_def by blast
    next
      case 3
      with held [OF 3(1)] show ?thesis unfolding awaited_def by blast
    qed (auto simp: awaited_def)
  qed
  with p(7) show "open_ok {} ?c" by (auto simp: open_ok_def)
  show "clock_ok ?c" "idle_ok ?c" "blameless ?c"
    using p(8-10) t
    by (auto simp: clock_ok_def idle_ok_def blameless_def exhausted_def om_remove_def)
qed

text \<open>
  A settled write: removed, then committed, failed, or completed with the error that was deferred
  for it. \<open>c\<close> is the core before the removal.
\<close>

lemma coh_commit_write:
  assumes c: "coh dd {} c" and w: "om_lookup (sc_pending_writes c) w = Some p"
    and fit: "timers_fit (sc_config c) now" "at \<le> now"
    and nd: "\<And>k. awaits_response (pw_kind p) \<Longrightarrow> pw_command_id p = Some k \<Longrightarrow>
        om_lookup (sc_deferred_errors c) k = None"
  shows "coh dd {} (commit_write w p at
      (c\<lparr>sc_pending_writes := om_remove w (sc_pending_writes c)\<rparr>))"
proof -
  let ?c = "c\<lparr>sc_pending_writes := om_remove w (sc_pending_writes c)\<rparr>"
  have wc: "w_cmd (sc_pending_writes c) w = pw_command_id p" using w by (simp add: w_cmd_def)
  have t6: "mono_checked_add at (to_t6 (cf_timeouts (sc_config c))) \<noteq> None"
    and t3: "mono_checked_add at (to_t3 (cf_timeouts (sc_config c))) \<noteq> None"
    using timers_fit_earlier [OF fit] by (auto simp: timers_fit_def)
  note drop = coh_drop_write [OF c w] and f = write_facts [OF c w]
  show ?thesis
  proof (cases "pw_kind p")
    case PW_TransactionRequest
    show ?thesis
    proof (cases "\<exists>t. sc_active_transaction c = Some t \<and> ct_write_id t = w")
      case True
      then obtain t where t: "sc_active_transaction c = Some t" "ct_write_id t = w" by blast
      from t6 obtain d where "mono_checked_add at (to_t6 (cf_timeouts (sc_config c))) = Some d" by auto
      with PW_TransactionRequest t coh_commit_transaction [OF c w t, of d] show ?thesis
        by (simp add: commit_write_def Let_def)
    next
      case False
      then have "pw_command_id p = None"
        using PW_TransactionRequest nd f(4) by (cases "pw_command_id p") (auto simp: carried_def)
      moreover have "remove_transaction_for_write w (pw_kind p) ?c = ?c"
        using PW_TransactionRequest False
        by (auto simp: remove_transaction_for_write_def split: option.split)
      moreover have "commit_write w p at ?c = ?c"
        using PW_TransactionRequest False by (auto simp: commit_write_def split: option.split)
      ultimately show ?thesis using drop by simp
    qed
  next
    case (PW_DataRequest s)
    show ?thesis
    proof (cases "\<exists>t. om_lookup (sc_data_transactions c) s = Some t \<and> dt_write_id t = w")
      case True
      then obtain t where t: "om_lookup (sc_data_transactions c) s = Some t" "dt_write_id t = w" by blast
      from t3 obtain d where "mono_checked_add at (to_t3 (cf_timeouts (sc_config c))) = Some d" by auto
      with PW_DataRequest t coh_commit_data [OF c w t, of d] show ?thesis
        by (simp add: commit_write_def Let_def)
    next
      case False
      then have "pw_command_id p = None"
        using PW_DataRequest nd f(4) by (cases "pw_command_id p") (auto simp: carried_def)
      moreover have "remove_transaction_for_write w (pw_kind p) ?c = ?c"
        using PW_DataRequest False by (auto simp: remove_transaction_for_write_def split: option.split)
      moreover have "commit_write w p at ?c = ?c"
        using PW_DataRequest False by (auto simp: commit_write_def split: option.split)
      ultimately show ?thesis using drop by simp
    qed
  next
    case (PW_DataSend corr)
    with drop f(3) show ?thesis
      by (auto simp: commit_write_def remove_transaction_for_write_def split: option.split
          intro!: coh_complete_send)
  next
    case PW_Separate
    with drop f(3) show ?thesis
      by (auto simp: commit_write_def remove_transaction_for_write_def split: option.split
          intro!: coh_complete_control)
  next
    case PW_Response
    with f(3) have "pw_command_id p = None" by (cases "pw_command_id p") auto
    with PW_Response drop show ?thesis
      by (simp add: commit_write_def remove_transaction_for_write_def)
  qed
qed

lemma coh_finish_failed_write:
  assumes c: "coh dd {} c" and w: "om_lookup (sc_pending_writes c) w = Some p"
  shows "coh dd' {} (finish_failed_write w p e
      (c\<lparr>sc_pending_writes := om_remove w (sc_pending_writes c)\<rparr>))"
  using coh_close_all [OF coh_fail_write [OF c w, of e]]
  by (simp add: finish_failed_write_def Let_def)

lemma coh_forget_deferred:
  assumes "coh dd K c" "k \<in> K"
  shows "coh dd K (c\<lparr>sc_deferred_errors := om_remove k (sc_deferred_errors c)\<rparr>)" (is "coh dd K ?c")
  using assms(1)
proof (rule cohE, intro cohI)
  assume p: "registries_ok c" "writes_ok K c" "active_ok K c" "data_ok K c" "drain_ok dd K c"
      "deferred_ok K c" "open_ok K c" "clock_ok c" "idle_ok c" "blameless c"
  show "registries_ok ?c" using p(1) by (simp add: registries_ok_def om_simps)
  show "writes_ok K ?c"
  proof (rule writes_ok_weaken [OF p(2)])
    show "carried ?c w k' kind"
      if "k' \<notin> K \<Longrightarrow> om_lookup (sc_deferred_errors c) k' = None \<Longrightarrow> carried c w k' kind"
        "k' \<notin> K" "om_lookup (sc_deferred_errors ?c) k' = None" for w k' kind
    proof -
      have "k' \<noteq> k" using that(2) assms(2) by blast
      with that show ?thesis by (simp add: carried_def om_simps)
    qed
  qed auto
  show "active_ok K ?c" using p(3) by (simp add: active_ok_def om_simps)
  show "data_ok K ?c" using p(4) by (rule data_ok_writes) (auto simp: om_simps)
  show "drain_ok dd K ?c" using p(5) by (auto simp: drain_ok_def)
  show "deferred_ok K ?c" using p(6) by (auto simp: deferred_ok_def om_simps)
  show "open_ok K ?c" using p(7) by (auto simp: open_ok_def awaited_def)
  show "clock_ok ?c" "idle_ok ?c" "blameless ?c"
    using p(8-10) by (auto simp: clock_ok_def idle_ok_def blameless_def exhausted_def)
qed

lemma coh_complete_deferred:
  assumes c: "coh dd {} c" and w: "om_lookup (sc_pending_writes c) w = Some p"
    and k: "pw_command_id p = Some k" "om_lookup (sc_deferred_errors c) k = Some e"
  shows "coh dd {} (complete_error k e
      (c\<lparr>sc_pending_writes := om_remove w (sc_pending_writes c),
         sc_deferred_errors := om_remove k (sc_deferred_errors c)\<rparr>))"
proof -
  let ?c = "c\<lparr>sc_pending_writes := om_remove w (sc_pending_writes c)\<rparr>"
  note f = write_facts [OF c w]
  have "ct_command_id t = Some k \<Longrightarrow> sc_active_transaction c = Some t \<Longrightarrow> False" for t
    using c k by (auto simp: coh_def active_ok_def)
  moreover have "dt_command_id t = k \<Longrightarrow> om_lookup (sc_data_transactions c) s = Some t \<Longrightarrow> False" for s t
    using c k by (auto simp: coh_def data_ok_def)
  ultimately have "sc_active_transaction c = Some t \<Longrightarrow> ct_write_id t \<noteq> w"
    "om_lookup (sc_data_transactions c) s = Some u \<Longrightarrow> dt_write_id u \<noteq> w" for t s u
    using f(1) [of t] f(2) [of s u] k(1) by auto
  then have "remove_transaction_for_write w (pw_kind p) ?c = ?c"
    by (cases "pw_kind p") (auto simp: remove_transaction_for_write_def split: option.split)
  with coh_drop_write [OF c w] k have "coh dd {k} ?c" by simp
  then have "coh dd {k} (?c\<lparr>sc_deferred_errors := om_remove k (sc_deferred_errors ?c)\<rparr>)"
    by (rule coh_forget_deferred) simp
  then show ?thesis
    using f(3) [OF k(1), THEN conjunct2] by (intro coh_complete_error) simp_all
qed

lemma on_write_outcome_eq:
  assumes "accept_time now (fresh_batch c) = (True, c1)" "om_lookup (sc_pending_writes c1) w = Some p"
    "at \<le> now"
    "c2 = (let c = c1\<lparr>sc_pending_writes := om_remove w (sc_pending_writes c1)\<rparr>
           in if outcome = Committed \<and> \<not> sc_closing c then record_activity at c else c)"
  shows "on_write_outcome_at w outcome at now c =
     (if outcome = Committed \<and> awaits_response (pw_kind p)
      then case pw_command_id p of
             None \<Rightarrow> settle_write w p outcome at now c2
           | Some k \<Rightarrow>
               (case om_lookup (sc_deferred_errors c2) k of
                  None \<Rightarrow> settle_write w p outcome at now c2
                | Some e \<Rightarrow>
                    complete_error k e (c2\<lparr>sc_deferred_errors := om_remove k (sc_deferred_errors c2)\<rparr>))
      else settle_write w p outcome at now c2)"
  using assms(1-3)
  by (simp add: on_write_outcome_at_def Let_def assms(4) split: option.split)

lemma coh_on_write_outcome:
  assumes c: "coh False {} c" and o: "in_order now c" and fit: "timers_fit (sc_config c) now"
    and w: "om_lookup (sc_pending_writes c) w \<noteq> None" and at: "at \<le> now"
  shows "coh False {} (on_write_outcome_at w outcome at now c)"
proof -
  let ?c1 = "(fresh_batch c)\<lparr>sc_last_now := Some now\<rparr>"
  have o1: "in_order now (fresh_batch c)" using o by (simp add: in_order_def fresh_batch_def)
  have c1: "coh False {} ?c1" using coh_last_now [OF coh_fresh_batch [OF c] o1] .
  obtain p where p: "om_lookup (sc_pending_writes c) w = Some p" using w by auto
  let ?r = "\<lambda>c. c\<lparr>sc_pending_writes := om_remove w (sc_pending_writes c)\<rparr>"
  have "\<exists>c2. coh False {} c2 \<and> sc_pending_writes c2 = sc_pending_writes c \<and> sc_config c2 = sc_config c \<and>
      (if outcome = Committed \<and> \<not> sc_closing c then record_activity at (?r ?c1) else ?r ?c1) = ?r c2"
  proof (cases "outcome = Committed \<and> \<not> sc_closing c")
    case True
    have "clock_ok (?r ?c1)" using c1 by (simp add: coh_def clock_ok_def)
    from record_activity_eq [OF this _ _ at] fit obtain a d where a: "a \<le> now"
      and r: "record_activity at (?r ?c1) = (?r ?c1)\<lparr>sc_last_activity := Some a, sc_idle_deadline := d\<rparr>"
      by auto
    let ?c2 = "?c1\<lparr>sc_last_activity := Some a, sc_idle_deadline := d\<rparr>"
    have "coh False {} ?c2" using coh_activity [OF c1 _ a] by simp
    moreover have "(?r ?c1)\<lparr>sc_last_activity := Some a, sc_idle_deadline := d\<rparr> = ?r ?c2" by simp
    ultimately show ?thesis using True r by (intro exI [of _ ?c2]) simp
  next
    case False
    with c1 show ?thesis by (intro exI [of _ ?c1]) auto
  qed
  then obtain c2 where c2: "coh False {} c2" "sc_pending_writes c2 = sc_pending_writes c"
      "sc_config c2 = sc_config c"
    and r: "(if outcome = Committed \<and> \<not> sc_closing c then record_activity at (?r ?c1) else ?r ?c1) = ?r c2"
    by blast
  have w2: "om_lookup (sc_pending_writes c2) w = Some p" using c2 p by simp
  have fit2: "timers_fit (sc_config c2) now" using fit c2 by simp
  have at2: "sc_config c2 = sc_config c2" ..
  have fail: "coh False {} (settle_write w p outcome at now (?r c2))" if "outcome \<noteq> Committed"
    using that coh_finish_failed_write [OF c2(1) w2]
    by (auto simp: settle_write_def intro!: coh_expire_deadlines split: write_outcome.split)
  have commit: "coh False {} (settle_write w p Committed at now (?r c2))"
    if "\<And>k. awaits_response (pw_kind p) \<Longrightarrow> pw_command_id p = Some k \<Longrightarrow>
        om_lookup (sc_deferred_errors c2) k = None"
    using coh_commit_write [OF c2(1) w2 fit2 at that]
    by (simp add: settle_write_def coh_expire_deadlines)
  have late: "coh False {} (complete_error k e ((?r c2)\<lparr>sc_deferred_errors :=
      om_remove k (sc_deferred_errors (?r c2))\<rparr>))"
    if "pw_command_id p = Some k" "om_lookup (sc_deferred_errors c2) k = Some e" for k e
    using coh_complete_deferred [OF c2(1) w2 that] by simp
  have p1: "om_lookup (sc_pending_writes ?c1) w = Some p" using p by simp
  have r1: "?r c2 = (let c = ?r ?c1 in if outcome = Committed \<and> \<not> sc_closing c
      then record_activity at c else c)"
  proof -
    have cl: "sc_closing (?r ?c1) = sc_closing c" by simp
    show ?thesis unfolding Let_def cl by (rule r [symmetric])
  qed
  note eq = on_write_outcome_eq [OF accept_time_in_order [OF o1] p1 at r1]
  show ?thesis
    unfolding eq using late commit fail
    by (cases "outcome = Committed"; cases "awaits_response (pw_kind p)"; cases "pw_command_id p")
      (auto split: option.split)
qed

subsection \<open>The other inputs\<close>

lemma in_order_fresh [simp]: "in_order now (fresh_batch c) = in_order now c"
  by (simp add: in_order_def)

lemma in_order_open [simp]: "in_order now (open_command k kind c) = in_order now c"
  by (simp add: in_order_def open_command_def)

lemma coh_start:
  assumes "coh False {} c" "in_order now c"
  shows "accept_time now (fresh_batch c) = (True, (fresh_batch c)\<lparr>sc_last_now := Some now\<rparr>)"
    and "coh False {} ((fresh_batch c)\<lparr>sc_last_now := Some now\<rparr>)"
  using assms accept_time_in_order [of now "fresh_batch c"] coh_last_now [OF coh_fresh_batch, of False "{}" c now]
  by simp_all

text \<open>A new command: registered, in flux, and named by no write.\<close>

lemma coh_start_command:
  assumes "coh False {} c" "in_order now c" "om_lookup (sc_open_commands c) k = None"
  defines "c' \<equiv> \<lambda>kind. (open_command k kind (fresh_batch c))\<lparr>sc_last_now := Some now\<rparr>"
  shows "accept_time now (open_command k kind (fresh_batch c)) = (True, c' kind)"
    and "coh False {k} (c' kind)" "unwritten (c' kind) k"
    and "om_lookup (sc_open_commands (c' kind)) k = Some kind"
    and "sc_config (c' kind) = sc_config c"
    and "sc_state (c' kind) = sc_state c" "sc_closing (c' kind) = sc_closing c"
    and "sc_deselect_drain (c' kind) = sc_deselect_drain c"
proof -
  have "om_lookup (sc_open_commands (fresh_batch c)) k = None" using assms(3) by simp
  note o = coh_open_command [OF coh_fresh_batch [OF assms(1)] this, of kind]
  show "accept_time now (open_command k kind (fresh_batch c)) = (True, c' kind)"
    using assms(2) accept_time_in_order by (simp add: c'_def)
  show "coh False {k} (c' kind)"
    using o assms(2) coh_last_now by (simp add: c'_def)
  show "unwritten (c' kind) k" using o by (simp add: c'_def unwritten_def)
  show "om_lookup (sc_open_commands (c' kind)) k = Some kind"
    using coh_open [OF assms(1)] by (simp add: c'_def open_command_def om_simps)
  show "sc_config (c' kind) = sc_config c" "sc_state (c' kind) = sc_state c"
    "sc_closing (c' kind) = sc_closing c" "sc_deselect_drain (c' kind) = sc_deselect_drain c"
    by (simp_all add: c'_def open_command_def)
qed

lemma coh_on_command:
  assumes c: "coh False {} c" and o: "in_order now c" and fit: "timers_fit (sc_config c) now"
    and k: "om_lookup (sc_open_commands c) (cc_command_id cmd) = None"
  shows "coh False {} (on_command cmd now c)"
proof -
  let ?k = "cc_command_id cmd" and ?kind = "open_kind_of (cc_kind cmd)"
  note s = coh_start_command [OF c o k, of ?kind]
  let ?c1 = "(open_command ?k ?kind (fresh_batch c))\<lparr>sc_last_now := Some now\<rparr>"
  have err: "coh False {} (complete_error ?k e ?c1)" for e
    using s by (intro coh_complete_error) auto
  have "coh False {} (dispatch_command ?k (cc_kind cmd) now ?c1)"
    if "\<not> sc_closing c" "sc_deselect_drain c = None \<or> cc_kind cmd \<notin> {Cmd_Select, Cmd_Deselect, Cmd_Linktest}"
    using s that fit
    by (cases "cc_kind cmd")
      (auto simp: dispatch_command_def intro!: coh_start_deselect coh_start_select coh_start_separate
        coh_start_data)
  with err s(1,6-8) k show ?thesis
    by (simp add: on_command_def Let_def)
qed

lemma coh_on_message:
  assumes c: "coh False {} c" and o: "in_order now c" and fit: "timers_fit (sc_config c) now"
  shows "coh False {} (on_message m now c)"
proof -
  let ?c = "c\<lparr>sc_notice := None\<rparr>"
  have c': "coh False {} ?c" "in_order now ?c" using c o by (simp_all add: in_order_def)
  note s = coh_start [OF c']
  let ?c1 = "(fresh_batch ?c)\<lparr>sc_last_now := Some now\<rparr>"
  let ?c2 = "record_activity now ?c1"
  have cl: "clock_ok ?c1" using s(2) by (simp add: coh_def)
  have f1: "timers_fit (sc_config ?c1) now" "sc_last_now ?c1 = Some now" using fit by simp_all
  have c2: "coh False {} ?c2" using s(2) f1 by (rule coh_record_activity) simp
  have same: "sc_state ?c2 = sc_state c" "sc_config ?c2 = sc_config c"
    using record_activity_eq [OF cl f1 order.refl] by auto
  have "coh False {} (dispatch_message m now ?c2)" if "sc_state c \<noteq> None"
  proof -
    note r = c2 that same fit
    show ?thesis
    proof (cases m)
      case (Data d)
      with r show ?thesis by (simp add: dispatch_message_def coh_receive_inbound_data)
    next
      case (Control cm)
      then show ?thesis
        using r coh_receive_reject [OF c2]
        by (cases cm) (auto simp: dispatch_message_def case_prod_beta
            intro!: coh_receive_select_request coh_receive_select_response coh_send_response
              coh_receive_linktest_response coh_receive_separate coh_receive_deselect_request
              coh_receive_deselect_response)
    qed
  qed
  with s c2 show ?thesis
    by (auto simp: on_message_def Let_def intro!: coh_progress_deselect)
qed

lemma coh_on_inbound_violation:
  assumes "coh False {} c" "in_order now c"
  shows "coh False {} (on_inbound_violation v now c)"
  using coh_start [OF assms]
  by (auto simp: on_inbound_violation_def Let_def
      split: inbound_violation.split header_violation_kind.split intro!: coh_send_response)

lemma coh_on_reply:
  assumes c: "coh False {} c" and o: "in_order now c"
    and k: "om_lookup (sc_open_commands c) k = None"
  shows "coh False {} (on_reply k i intent body now c)"
proof -
  let ?kind = "if intent = Reply_Abandon then Open_Control else Open_Send"
  note s = coh_start_command [OF c o k, of ?kind]
  let ?c1 = "(open_command k ?kind (fresh_batch c))\<lparr>sc_last_now := Some now\<rparr>"
  let ?c2 = "?c1\<lparr>sc_reply_contracts := om_remove i (sc_reply_contracts ?c1)\<rparr>"
  have err: "coh False {} (complete_error k e c')" if "c' = ?c1 \<or> c' = ?c2" for e c'
    using s that by (intro coh_complete_error) auto
  have send: "coh False {} (case allocate_write_id ?c2 of
        (None, c) \<Rightarrow> fail_runtime_invariant c
      | (Some w, c) \<Rightarrow> add_write w (PW_DataSend corr) (Some k) (m w) c)"
    if "sc_state c = Some Selected" "intent \<noteq> Reply_Abandon" for corr m
  proof -
    have c2: "coh False {k} ?c2" using s by simp
    have K: "{k} \<subseteq> set (om_keys (sc_open_commands ?c2))"
      using s(4) by (intro flux_keys) auto
    obtain w c3 where a: "allocate_write_id ?c2 = (w, c3)" by fastforce
    show ?thesis
    proof (cases w)
      case None
      with a allocate_write_None [of ?c2 c3] coh_fail [OF c2 K] show ?thesis by auto
    next
      case (Some v)
      note al = allocate_write [OF a [unfolded Some] c2]
      have "coh False {} (add_write v (PW_DataSend corr) (Some k) (m v) c3)"
        using al s that by (intro coh_add_write) (auto simp: unwritten_def)
      with a Some show ?thesis by simp
    qed
  qed
  have ok: "coh False {} (complete_ok k ?c2)" if "intent = Reply_Abandon"
    using s that by (intro coh_complete_ok) auto
  show ?thesis
    unfolding on_reply_def Let_def
    using k s(1,6,7) err send ok
    by (auto split: option.split intro!: coh_progress_deselect)
qed

lemma coh_on_shutdown:
  assumes "coh False {} c" "in_order now c" "reason \<noteq> RuntimeInvariant"
    "\<And>v. w = Some v \<Longrightarrow> om_lookup (sc_pending_writes c) v \<noteq> None"
  shows "coh False {} (on_shutdown reason w now c)"
proof -
  note s = coh_start [OF assms(1,2)]
  let ?c1 = "(fresh_batch c)\<lparr>sc_last_now := Some now\<rparr>"
  show ?thesis
  proof (cases w)
    case None
    with s assms(3) show ?thesis by (simp add: on_shutdown_def coh_close_all)
  next
    case (Some v)
    then obtain p where p: "om_lookup (sc_pending_writes ?c1) v = Some p"
      using assms(4) by auto
    let ?c3 = "remove_transaction_for_write v (pw_kind p)
        (?c1\<lparr>sc_pending_writes := om_remove v (sc_pending_writes ?c1)\<rparr>)"
    let ?c4 = "complete_all ConnectionLost (case pw_command_id p of None \<Rightarrow> ?c3
        | Some k \<Rightarrow> complete_error k (admission_error reason) ?c3)"
    have "coh True {} ?c4"
      using coh_fail_write [OF s(2) p] by (intro coh_complete_all) auto
    then have "coh False {} (?c4\<lparr>sc_closing := True\<rparr>)" by (rule coh_closing)
    then have "coh False {} (?c4\<lparr>sc_closing := True, sc_close_action_issued := True\<rparr>)"
      by (simp only: coh_quiet)
    then have "coh False {} (push (CloseGeneration reason Immediate)
        (?c4\<lparr>sc_closing := True, sc_close_action_issued := True\<rparr>))"
      by (rule coh_push) (use assms(3) in auto)
    moreover have "on_shutdown reason w now c = push (CloseGeneration reason Immediate)
        (?c4\<lparr>sc_closing := True, sc_close_action_issued := True\<rparr>)"
      unfolding on_shutdown_def s(1) Some Let_def
      by (simp only: prod.case bool.case option.case p)
    ultimately show ?thesis by simp
  qed
qed

lemma coh_advance_time:
  assumes "coh False {} c" "in_order now c"
  shows "coh False {} (advance_time now c)"
  using coh_start [OF assms] by (simp add: advance_time_def coh_expire_deadlines)

lemma coh_finish_shutdown_drain:
  assumes "coh False {} c" "in_order now c" "reason \<noteq> RuntimeInvariant"
  shows "coh False {} (finish_shutdown_drain reason now c)"
  using coh_start [OF assms(1,2)] coh_on_shutdown [OF assms, of None] assms(3)
  by (auto simp: finish_shutdown_drain_def intro!: coh_start_separate)

text \<open>
  A closed generation is settled at once: the Writer has stopped, nothing stays open. The
  transactions are dropped at the end of \<open>finalize_writer\<close>; dropping them at its start, with the
  writes, gives the same result and keeps the core coherent.
\<close>

definition fail_write :: "pending_write \<Rightarrow> session_core \<Rightarrow> session_core" where
  "fail_write p c = (case pw_command_id p of None \<Rightarrow> c | Some k \<Rightarrow> complete_error k DeliveryIndeterminate c)"

abbreviation write_commands :: "pending_write list \<Rightarrow> command_id list" where
  "write_commands \<equiv> List.map_filter pw_command_id"

lemma fold_fail_write:
  "fold fail_write ps c = fold (\<lambda>k. complete_error k DeliveryIndeterminate) (write_commands ps) c"
  by (induction ps arbitrary: c) (auto simp: fail_write_def map_filter_simps split: option.split)

text \<open>Completing a list of distinct open commands.\<close>

definition all_open :: "command_id list \<Rightarrow> session_core \<Rightarrow> bool" where
  "all_open ks c \<longleftrightarrow> distinct ks \<and> (\<forall>k \<in> set ks. om_lookup (sc_open_commands c) k \<noteq> None)"

lemma all_open_Cons:
  assumes "all_open (k # ks) c"
  shows "k \<notin> set ks" "om_lookup (sc_open_commands c) k \<noteq> None" "all_open ks (complete_error k e c)"
proof -
  show k: "k \<notin> set ks" "om_lookup (sc_open_commands c) k \<noteq> None"
    using assms by (auto simp: all_open_def)
  have "om_lookup (sc_open_commands (complete_error k e c)) k' \<noteq> None" if "k' \<in> set ks" for k'
  proof -
    have "k' \<noteq> k" using that k(1) by blast
    with complete_error_open_others [OF k(2)] assms that show ?thesis by (simp add: all_open_def)
  qed
  then show "all_open ks (complete_error k e c)" using assms by (simp add: all_open_def)
qed

lemma complete_errors_clear:
  "all_open ks c \<Longrightarrow> clear_transactions (fold (\<lambda>k. complete_error k e) ks c) =
     fold (\<lambda>k. complete_error k e) ks (clear_transactions c)"
proof (induction ks arbitrary: c)
  case (Cons k ks)
  note o = all_open_Cons [OF Cons.prems]
  have "clear_transactions (complete_error k e c) = complete_error k e (clear_transactions c)"
    using o(2) by (auto simp: complete_error_def complete_error_with_def emit_completion_with_def
        emit_def push_def clear_transactions_def)
  with Cons.IH [OF o(3)] show ?case by simp
qed simp

lemma coh_complete_errors:
  "all_open ks c \<Longrightarrow> coh dd (set ks \<union> K) c \<Longrightarrow> set ks \<inter> K = {} \<Longrightarrow>
     coh dd K (fold (\<lambda>k. complete_error k e) ks c)"
proof (induction ks arbitrary: c)
  case (Cons k ks)
  note o = all_open_Cons [OF Cons.prems(1)]
  have "coh dd (set ks \<union> K) (complete_error k e c)"
    using Cons.prems o by (intro coh_complete_error) auto
  with Cons o show ?case by auto
qed simp

lemma complete_errors_open:
  "all_open ks c \<Longrightarrow> om_lookup (sc_open_commands (fold (\<lambda>k. complete_error k e) ks c)) k =
     (if k \<in> set ks then None else om_lookup (sc_open_commands c) k)"
proof (induction ks arbitrary: c)
  case (Cons k' ks)
  note o = all_open_Cons [OF Cons.prems]
  have "om_lookup (sc_open_commands (complete_error k' e c)) k' = None"
    using o(2) by (auto simp: complete_error_def complete_error_with_def emit_completion_with_def
        emit_def om_simps)
  with Cons.IH [OF o(3)] o(1) complete_error_open_others [OF o(2), of k] show ?case by auto
qed simp

interpretation stopped: core_silent "\<lambda>c. sc_pending_writes c = [] \<and> sc_closing c"
  by standard (auto simp: hard_def emit_def request_close_def Let_def om_remove_def om_map_values_def)

lemma stopped_complete_all:
  assumes "om_ok (sc_open_commands c)" "sc_pending_writes c = []" "sc_closing c"
  shows "sc_open_commands (complete_all e c) = []"
proof -
  let ?ks = "om_keys (sc_open_commands c)" and ?c = "clear_transactions c"
  have open_same: "sc_open_commands ?c = sc_open_commands c" by (simp add: clear_transactions_def)
  have ao: "all_open ?ks ?c"
    using om.keys_distinct [OF assms(1)] by (auto simp: all_open_def open_same om.keys_lookup)
  have "fold (complete_or_defer e) ks c' = fold (\<lambda>k. complete_error k e) ks c'"
    if "sc_pending_writes c' = []" "sc_closing c'" for ks c'
    using that
  proof (induction ks arbitrary: c')
    case (Cons k ks)
    have "complete_or_defer e k c' = complete_error k e c'"
      using Cons.prems
      by (simp add: complete_or_defer_def complete_or_defer_with_def complete_error_def has_pending_write_def)
    moreover have "sc_pending_writes (complete_error k e c') = [] \<and> sc_closing (complete_error k e c')"
      using Cons.prems by (intro stopped.complete_error_law) simp
    ultimately show ?case using Cons.IH by simp
  qed simp
  then have "complete_all e c = fold (\<lambda>k. complete_error k e) ?ks ?c"
    using assms(2,3)
    by (simp add: complete_all_def complete_all_with_def Let_def open_same clear_transactions_def
        flip: complete_or_defer_def)
  then have "om_lookup (sc_open_commands (complete_all e c)) k = None" for k
    using complete_errors_open [OF ao, of e k] om.keys_lookup [of k "sc_open_commands c"]
    by (auto simp: open_same)
  then show ?thesis
    by (cases "sc_open_commands (complete_all e c)") (auto simp: om_lookup_def, metis option.distinct(1))
qed

text \<open>The commands of the pending writes are open and distinct.\<close>

lemma in_map_filter: "y \<in> set (List.map_filter f xs) \<longleftrightarrow> (\<exists>x \<in> set xs. f x = Some y)"
  by (induction xs) (auto simp: map_filter_simps split: option.split)

lemma distinct_map_filter:
  "(\<And>p q k. p \<in> set m \<Longrightarrow> q \<in> set m \<Longrightarrow> f (snd p) = Some k \<Longrightarrow> f (snd q) = Some k \<Longrightarrow> fst p = fst q) \<Longrightarrow>
     distinct (map fst m) \<Longrightarrow> distinct (List.map_filter f (map snd m))"
proof (induction m)
  case (Cons p m)
  have "distinct (List.map_filter f (map snd m))"
    using Cons.prems by (intro Cons.IH) auto
  moreover have "k \<notin> set (List.map_filter f (map snd m))" if "f (snd p) = Some k" for k
  proof
    assume "k \<in> set (List.map_filter f (map snd m))"
    then obtain q where "q \<in> set m" "f (snd q) = Some k"
      by (auto simp: in_map_filter)
    with Cons.prems that show False by (metis image_eqI list.set_intros distinct.simps(2) list.set_map list.simps(9))
  qed
  ultimately show ?case by (auto simp: map_filter_simps split: option.split)
qed (simp add: map_filter_simps)

lemma write_commands_open:
  assumes "writes_ok K c" "om_ok (sc_pending_writes c)"
  shows "all_open (write_commands (om_values (sc_pending_writes c))) c"
proof -
  let ?m = "sc_pending_writes c"
  have d: "distinct (map fst ?m)" using om.keys_distinct [OF assms(2)] by (simp add: om_keys_def)
  have cmd: "w_cmd ?m w = Some k" if "(w, p) \<in> set ?m" "pw_command_id p = Some k" for w p k
    using that d by (simp add: w_cmd_def om_lookup_def)
  have "distinct (write_commands (map snd ?m))"
  proof (rule distinct_map_filter)
    show "fst p = fst q" if "p \<in> set ?m" "q \<in> set ?m" "pw_command_id (snd p) = Some k"
      "pw_command_id (snd q) = Some k" for p q k
      using assms(1) cmd [of "fst p" "snd p" k] cmd [of "fst q" "snd q" k] that
      unfolding writes_ok_def by (metis prod.collapse)
  qed (rule d)
  moreover have "om_lookup (sc_open_commands c) k \<noteq> None" if "(w, p) \<in> set ?m" "pw_command_id p = Some k" for w p k
    using assms(1) cmd [OF that] unfolding writes_ok_def by blast
  ultimately show ?thesis by (auto simp: all_open_def om_values_def in_map_filter)
qed

lemma coh_no_writes:
  assumes "coh True K (clear_transactions c)"
    "\<And>k. om_lookup (sc_open_commands c) k \<noteq> None \<Longrightarrow> k \<in> K"
  shows "coh True K ((clear_transactions c)\<lparr>sc_pending_writes := []\<rparr>)"
proof -
  have "deferred_ok K ((clear_transactions c)\<lparr>sc_pending_writes := []\<rparr>)"
    using assms unfolding coh_def deferred_ok_def writes_ok_def clear_transactions_def by auto
  with assms show ?thesis
    by (auto simp: coh_def registries_ok_def writes_ok_def active_ok_def data_ok_def drain_ok_def
        open_ok_def clock_ok_def idle_ok_def blameless_def exhausted_def clear_transactions_def)
qed

lemma complete_all_clear: "complete_all e (clear_transactions c) = complete_all e c"
  by (simp add: complete_all_def complete_all_with_def clear_transactions_def Let_def)

lemma finalize_writer_settled:
  assumes "coh False {} c" "in_order now c" "sc_closing c"
  shows "coh False {} (finalize_writer now c)" "sc_open_commands (finalize_writer now c) = []"
    "sc_closing (finalize_writer now c)"
proof -
  note s = coh_start [OF assms(1,2)]
  let ?c1 = "(fresh_batch c)\<lparr>sc_last_now := Some now\<rparr>"
  let ?c2 = "(clear_transactions ?c1)\<lparr>sc_pending_writes := []\<rparr>"
  let ?ks = "write_commands (om_values (sc_pending_writes ?c1))"
  let ?c3 = "fold (\<lambda>k. complete_error k DeliveryIndeterminate) ?ks ?c2"
  let ?open = "set (om_keys (sc_open_commands ?c1))"
  have ao: "all_open ?ks ?c1"
    using s(2) unfolding coh_def registries_ok_def by (intro write_commands_open) blast+
  then have ao2: "all_open ?ks (?c1\<lparr>sc_pending_writes := []\<rparr>)" "all_open ?ks ?c2"
    by (simp_all add: all_open_def clear_transactions_def)
  have "finalize_writer now c =
      complete_all ConnectionLost (fold fail_write (om_values (sc_pending_writes ?c1)) (?c1\<lparr>sc_pending_writes := []\<rparr>))"
    unfolding finalize_writer_def s(1) using assms(3) by (simp add: Let_def fail_write_def [abs_def])
  also have "\<dots> = complete_all ConnectionLost (clear_transactions
      (fold (\<lambda>k. complete_error k DeliveryIndeterminate) ?ks (?c1\<lparr>sc_pending_writes := []\<rparr>)))"
    by (simp only: fold_fail_write complete_all_clear)
  also have "\<dots> = complete_all ConnectionLost ?c3"
    unfolding complete_errors_clear [OF ao2(1)] by (rule arg_cong [of _ _ "\<lambda>x. complete_all ConnectionLost (fold _ ?ks x)"])
      (cases c, simp add: clear_transactions_def fresh_batch_def)
  finally have eq: "finalize_writer now c = complete_all ConnectionLost ?c3" .
  have "coh True ?open (clear_transactions ?c1)" using s(2) by (rule coh_clear) auto
  then have c2: "coh True ?open ?c2" by (rule coh_no_writes) (use om.keys_lookup in blast)
  moreover have sub: "set ?ks \<subseteq> ?open" using ao by (auto simp: all_open_def om.keys_lookup)
  ultimately have c3: "coh True (?open - set ?ks) ?c3"
    using ao2(2) by (intro coh_complete_errors) (auto simp: Un_absorb1)
  have stopped: "sc_pending_writes ?c3 = [] \<and> sc_closing ?c3"
  proof -
    have "sc_pending_writes (fold (\<lambda>k. complete_error k e) ks c') = [] \<and>
        sc_closing (fold (\<lambda>k. complete_error k e) ks c')"
      if "sc_pending_writes c' = [] \<and> sc_closing c'" for ks e c'
      using that
    proof (induction ks arbitrary: c')
      case (Cons k ks)
      then show ?case using stopped.complete_error_law [of c' k e] by simp
    qed simp
    then show ?thesis using assms(3) by (simp add: clear_transactions_def)
  qed
  have "?open - set ?ks \<subseteq> set (om_keys (sc_open_commands ?c3))"
    using complete_errors_open [OF ao2(2)] by (auto simp: om.keys_lookup clear_transactions_def)
  with c3 have c4: "coh True {} (complete_all ConnectionLost ?c3)" by (rule coh_complete_all)
  have cl: "sc_closing (complete_all ConnectionLost ?c3)"
    using stopped.complete_all_law [OF stopped] by simp
  from c4 cl have "coh False {} (complete_all ConnectionLost ?c3)"
    by (auto simp: coh_def drain_ok_def)
  moreover have "sc_open_commands (complete_all ConnectionLost ?c3) = []"
    using stopped coh_open [OF c3] by (intro stopped_complete_all) auto
  ultimately show "coh False {} (finalize_writer now c)" "sc_open_commands (finalize_writer now c) = []"
    "sc_closing (finalize_writer now c)"
    using cl by (simp_all only: eq)
qed

end
