(* ===== verification/Hsms_Settled.thy ===== *)
theory Hsms_Settled
  imports Hsms_Liveness "HOL-Library.Multiset"
begin

section \<open>Well-behaved runs: no internal failure, no lost command\<close>

text \<open>
  \<open>well_behaved i c\<close> says what the driver guarantees when it hands the input \<open>i\<close> to the core
  \<open>c\<close>: the clock does not go back and the timers fit it, a generation is connected once, a
  command identifier in use is not used again, outcomes and admission failures name a pending
  write, and the Writer is finalized after the core has started to close. Over runs of such inputs
  the coherence of Hsms\_Coherence is an invariant, from which the properties below follow.
\<close>

fun input_time :: "core_input \<Rightarrow> mono_time" where
  "input_time (In_Connected now) = now"
| "input_time (In_Command _ now) = now"
| "input_time (In_Message _ now) = now"
| "input_time (In_Violation _ now) = now"
| "input_time (In_Reply _ _ _ _ now) = now"
| "input_time (In_WriteOutcome _ _ _ now) = now"
| "input_time (In_Shutdown _ now) = now"
| "input_time (In_AdmissionFailure _ _ now) = now"
| "input_time (In_FinishDrain _ now) = now"
| "input_time (In_AdvanceTime now) = now"
| "input_time (In_FinalizeWriter now) = now"

fun input_fits :: "core_input \<Rightarrow> session_core \<Rightarrow> bool" where
  "input_fits (In_Connected _) c \<longleftrightarrow> sc_state c = None \<and> \<not> sc_closing c"
| "input_fits (In_Command command _) c \<longleftrightarrow> cc_command_id command \<notin> open_ids c"
| "input_fits (In_Reply k _ _ _ _) c \<longleftrightarrow> k \<notin> open_ids c"
| "input_fits (In_WriteOutcome w _ occurred_at now) c \<longleftrightarrow>
     om_lookup (sc_pending_writes c) w \<noteq> None \<and> occurred_at \<le> now"
| "input_fits (In_Shutdown reason _) c \<longleftrightarrow> reason \<noteq> RuntimeInvariant"
| "input_fits (In_AdmissionFailure reason w _) c \<longleftrightarrow>
     reason \<noteq> RuntimeInvariant \<and> om_lookup (sc_pending_writes c) w \<noteq> None"
| "input_fits (In_FinishDrain reason _) c \<longleftrightarrow> reason \<noteq> RuntimeInvariant"
| "input_fits (In_FinalizeWriter _) c \<longleftrightarrow> sc_closing c"
| "input_fits _ c \<longleftrightarrow> True"

definition well_behaved :: "core_input \<Rightarrow> session_core \<Rightarrow> bool" where
  "well_behaved i c \<longleftrightarrow>
     in_order (input_time i) c \<and> timers_fit (sc_config c) (input_time i) \<and> input_fits i c"

fun well_behaved_run :: "core_input list \<Rightarrow> session_core \<Rightarrow> bool" where
  "well_behaved_run [] c \<longleftrightarrow> True"
| "well_behaved_run (i # is) c \<longleftrightarrow> well_behaved i c \<and> well_behaved_run is (core_turn i c)"

lemma well_behaved_run_append:
  "well_behaved_run (is @ is') c \<longleftrightarrow> well_behaved_run is c \<and> well_behaved_run is' (snd (core_run is c))"
  by (induction "is" arbitrary: c) (auto simp: Let_def case_prod_beta)

lemma core_run_snoc:
  "core_run (is @ [i]) c =
     (let (as, c1) = core_run is c; c2 = core_turn i c1 in (as @ sc_actions c2, c2))"
  by (induction "is" arbitrary: c) (auto simp: Let_def case_prod_beta)

lemma coh_turn: "coh False {} c \<Longrightarrow> well_behaved i c \<Longrightarrow> coh False {} (core_turn i c)"
  by (cases i) (simp_all add: well_behaved_def open_ids_def open_keys coh_on_connected coh_on_command
      coh_on_message coh_on_inbound_violation coh_on_reply coh_on_write_outcome
      coh_finish_shutdown_drain coh_advance_time finalize_writer_settled, auto intro!: coh_on_shutdown)

lemma coh_new: "coh False {} (session_core_new cfg)"
  by (simp add: coh_def coh_parts session_core_new_def below_def)

lemma coh_run:
  "coh False {} c \<Longrightarrow> well_behaved_run is c \<Longrightarrow> coh False {} (snd (core_run is c))"
  by (induction "is" arbitrary: c) (auto simp: Let_def case_prod_beta coh_turn)

lemma spent_turn: "exhausted c \<Longrightarrow> exhausted (core_turn i c)"
proof -
  assume B: "exhausted c"
  then have start: "exhausted (fresh_batch c)" by (simp add: exhausted_def)
  then have opened: "exhausted (open_command k kind (fresh_batch c))" for k kind
    by (simp add: exhausted_def open_command_def)
  have failed: "exhausted (on_shutdown reason (Some w) now c)" for reason w now
    by (rule spent.on_shutdown_failed_law [OF _ start]) (simp add: exhausted_def)
  show ?thesis
    using start opened failed
    by (cases i) (auto simp: spent.on_connected_law spent.on_message_law
      spent.on_inbound_violation_law spent.on_write_outcome_law spent.on_shutdown_law
      spent.finish_shutdown_drain_law spent.advance_time_law spent.finalize_writer_law
      intro: spent.on_command_law spent.on_reply_law)
qed

lemma spent_run: "exhausted c \<Longrightarrow> exhausted (snd (core_run is c))"
  by (induction "is" arbitrary: c) (auto simp: Let_def case_prod_beta spent_turn)

lemma blameless_run:
  "coh False {} c \<Longrightarrow> well_behaved_run is c \<Longrightarrow>
     CloseGeneration RuntimeInvariant b \<in> set (fst (core_run is c)) \<Longrightarrow>
     exhausted (snd (core_run is c))"
proof (induction "is" arbitrary: c)
  case (Cons i "is")
  let ?c1 = "core_turn i c"
  have c1: "coh False {} ?c1" using Cons.prems coh_turn by simp
  show ?case
  proof (cases "CloseGeneration RuntimeInvariant b \<in> set (sc_actions ?c1)")
    case True
    then have "exhausted ?c1" using c1 by (auto simp: coh_def blameless_def)
    then show ?thesis using spent_run by (simp add: Let_def case_prod_beta)
  next
    case False
    then show ?thesis using Cons.IH [OF c1] Cons.prems by (simp add: Let_def case_prod_beta)
  qed
qed simp

text \<open>The instants at which the core gives up on a command.\<close>

definition command_deadlines :: "command_id \<Rightarrow> session_core \<Rightarrow> mono_time list" where
  "command_deadlines k c =
     (case sc_active_transaction c of
        None \<Rightarrow> [] | Some t \<Rightarrow> if ct_command_id t = Some k then option_list (ct_deadline t) else [])
     @ concat (map (\<lambda>t. if dt_command_id t = k then option_list (dt_deadline t) else [])
         (om_values (sc_data_transactions c)))
     @ (case sc_deselect_drain c of
          None \<Rightarrow> [] | Some d \<Rightarrow> if dr_command_id d = k then [dr_deadline d] else [])"

lemma min_option_le: "d \<in> set ds \<Longrightarrow> \<exists>n. min_option ds = Some n \<and> n \<le> d"
proof -
  have "foldr min ds a \<le> d" if "d \<in> set ds" for ds and a :: mono_time
    using that by (induction ds) (auto simp: min_le_iff_disj)
  then show "d \<in> set ds \<Longrightarrow> \<exists>n. min_option ds = Some n \<and> n \<le> d"
    by (auto simp: min_option_def)
qed

lemma next_deadline_le:
  assumes "\<not> sc_closing c" "sc_state c \<noteq> None" "d \<in> set (command_deadlines k c)"
  shows "\<exists>n. next_deadline c = Some n \<and> n \<le> d"
  using assms unfolding next_deadline_def command_deadlines_def
  by (auto intro!: min_option_le split: option.splits if_splits)

lemma awaited_watched:
  assumes c: "coh False {} c" and "\<not> sc_closing c" "k \<in> open_ids c"
  shows "(\<exists>w p. om_lookup (sc_pending_writes c) w = Some p \<and> pw_command_id p = Some k) \<or>
     (\<exists>d \<in> set (command_deadlines k c). \<exists>n. next_deadline c = Some n \<and> n \<le> d)"
proof -
  have p: "active_ok {} c" "data_ok {} c" "open_ok {} c" "idle_ok c" "registries_ok c"
    using c by (simp_all add: coh_def)
  show ?thesis
  proof (cases "\<exists>w. w_cmd (sc_pending_writes c) w = Some k")
    case True
    then show ?thesis by (auto simp: w_cmd_def split: option.splits)
  next
    case False
    have aw: "awaited c k"
      using p(3) assms(2,3) unfolding open_ok_def open_ids_def open_keys by blast
    have st: "sc_state c \<noteq> None"
      using p(4) aw False by (auto simp: idle_ok_def awaited_def)
    consider t where "sc_active_transaction c = Some t" "ct_command_id t = Some k"
      | s t where "om_lookup (sc_data_transactions c) s = Some t" "dt_command_id t = k"
      | d where "sc_deselect_drain c = Some d" "dr_command_id d = k"
      using aw False by (auto simp: awaited_def a_cmd_def split: option.splits)
    then have "\<exists>d. d \<in> set (command_deadlines k c)"
    proof cases
      case (1 t)
      then have "ct_deadline t \<noteq> None"
        using p(1) False unfolding active_ok_def by metis
      with 1 show ?thesis by (auto simp: command_deadlines_def option_list_def)
    next
      case (2 s t)
      then have "dt_deadline t \<noteq> None"
        using p(2) False unfolding data_ok_def by metis
      moreover have "t \<in> set (om_values (sc_data_transactions c))"
        using 2 p(5) by (auto simp: om_values_lookup registries_ok_def)
      ultimately show ?thesis using 2 by (force simp: command_deadlines_def option_list_def)
    next
      case 3
      then show ?thesis by (auto simp: command_deadlines_def)
    qed
    with next_deadline_le [OF assms(2) st] show ?thesis by blast
  qed
qed


subsection \<open>Deadlines that have passed\<close>

text \<open>\<open>calm now c\<close>: the selection, control and request timers are all still running.\<close>

definition calm :: "mono_time \<Rightarrow> session_core \<Rightarrow> bool" where
  "calm now c \<longleftrightarrow> sc_closing c \<or>
     (\<not> due (sc_selection_deadline c) now \<and>
      (\<forall>t. sc_active_transaction c = Some t \<longrightarrow> \<not> due (ct_deadline t) now) \<and>
      (\<forall>t \<in> set (om_values (sc_data_transactions c)). \<not> due (dt_deadline t) now))"

lemma calm_emit: "calm now c \<Longrightarrow> calm now (emit k r c)"
  by (simp add: calm_def emit_def)

lemma calm_complete:
  "calm now c \<Longrightarrow> om_lookup (sc_open_commands c) k = Some kind \<Longrightarrow> calm now (complete_error k e c)"
  "calm now c \<Longrightarrow> om_lookup (sc_open_commands c) k = Some Open_Control \<Longrightarrow> calm now (complete_ok k c)"
  by (auto simp: complete_error_def complete_error_with_def complete_ok_def complete_control_def
      emit_completion_def emit_completion_with_def calm_emit)

lemma closed_calm: "calm now (request_close reason barrier c)"
  by (simp add: calm_def request_close_def Let_def)

lemma calm_start_transaction:
  "calm now c \<Longrightarrow> calm now (start_transaction kind k c)"
  by (auto simp: start_transaction_def allocate_request_identifiers_def allocate_write_id_def
      allocate_system_bytes_def fail_runtime_invariant_def closed_calm Let_def split: option.split)
    (auto simp: calm_def add_write_def due_def)

lemma start_transaction_keeps:
  "sc_closing (start_transaction kind k c) \<or>
     sc_deselect_drain (start_transaction kind k c) = sc_deselect_drain c \<and>
     sc_idle_deadline (start_transaction kind k c) = sc_idle_deadline c"
  by (auto simp: start_transaction_def allocate_request_identifiers_def allocate_write_id_def
      allocate_system_bytes_def fail_runtime_invariant_def request_close_def add_write_def Let_def
      split: option.splits)

lemma expired_data:
  "coh dd {} c \<Longrightarrow> distinct ts \<Longrightarrow>
     \<forall>t \<in> set ts. om_lookup (sc_data_transactions c) (rc_system_bytes (dt_contract t)) = Some t \<Longrightarrow>
     om_lookup (sc_data_transactions (fold expire_request ts c)) s = Some t \<Longrightarrow>
     t \<notin> set ts \<and> om_lookup (sc_data_transactions c) s = Some t"
proof (induction ts arbitrary: c)
  case (Cons t' ts)
  then have t': "om_lookup (sc_data_transactions c) (rc_system_bytes (dt_contract t')) = Some t'" by simp
  note e = coh_expire_request [OF Cons.prems(1) t']
  have "rc_system_bytes (dt_contract t'') \<noteq> rc_system_bytes (dt_contract t')" if "t'' \<in> set ts" for t''
    using Cons.prems(2,3) that t' by (metis distinct.simps(2) list.set_intros(2) option.inject)
  then have "t \<notin> set ts \<and> om_lookup (sc_data_transactions (expire_request t' c)) s = Some t"
    using Cons.prems e by (intro Cons.IH) auto
  moreover from this have "rc_system_bytes (dt_contract t) = s"
    using e(2) Cons.prems(1) data_cmd_open by (metis option.distinct(1))
  ultimately show ?case using e(2) by (auto split: if_splits)
qed simp

lemma expired_same:
  "coh dd {} c \<Longrightarrow> distinct ts \<Longrightarrow>
     \<forall>t \<in> set ts. om_lookup (sc_data_transactions c) (rc_system_bytes (dt_contract t)) = Some t \<Longrightarrow>
     sc_selection_deadline (fold expire_request ts c) = sc_selection_deadline c \<and>
     sc_active_transaction (fold expire_request ts c) = sc_active_transaction c"
proof (induction ts arbitrary: c)
  case (Cons t ts)
  then have t: "om_lookup (sc_data_transactions c) (rc_system_bytes (dt_contract t)) = Some t" by simp
  note e = coh_expire_request [OF Cons.prems(1) t] coh_retire [OF Cons.prems(1) t]
  have "rc_system_bytes (dt_contract t') \<noteq> rc_system_bytes (dt_contract t)" if "t' \<in> set ts" for t'
    using Cons.prems(2,3) that t by (metis distinct.simps(2) list.set_intros(2) option.inject)
  then have "sc_selection_deadline (fold expire_request ts (expire_request t c)) =
        sc_selection_deadline (expire_request t c) \<and>
      sc_active_transaction (fold expire_request ts (expire_request t c)) =
        sc_active_transaction (expire_request t c)"
    using Cons.prems e by (intro Cons.IH) auto
  moreover have "sc_selection_deadline (expire_request t c) = sc_selection_deadline c \<and>
      sc_active_transaction (expire_request t c) = sc_active_transaction c"
    using e(4,5) by (simp add: expire_request_def emit_completion_def emit_completion_with_def emit_def)
  ultimately show ?case by simp
qed simp

lemma calm_expired:
  assumes c: "coh False {} c" and "\<not> due (sc_selection_deadline c) now"
    "\<And>t. sc_active_transaction c = Some t \<Longrightarrow> \<not> due (ct_deadline t) now"
  shows "calm now (fold expire_request (expired_requests now c) c)"
proof -
  let ?ts = "expired_requests now c"
  let ?c = "fold expire_request ?ts c"
  note f = expired_requests_found [OF c, where now = now]
  have ok: "om_ok (sc_data_transactions c)" using c by (simp add: coh_def registries_ok_def)
  have c': "coh False {} ?c" by (rule coh_expire_requests [OF c]) (use f in auto)
  have "\<not> due (dt_deadline t) now" if t: "t \<in> set (om_values (sc_data_transactions ?c))" for t
  proof -
    have "om_ok (sc_data_transactions ?c)" using c' by (simp add: coh_def registries_ok_def)
    with t obtain s where "om_lookup (sc_data_transactions ?c) s = Some t"
      by (auto simp: om_values_lookup)
    with f expired_data [OF c, of ?ts s t] have "t \<notin> set ?ts" "om_lookup (sc_data_transactions c) s = Some t"
      by auto
    then show ?thesis using ok by (auto simp: expired_requests_def om_values_lookup)
  qed
  with expired_same [OF c, of ?ts] f assms(2,3) show ?thesis by (simp add: calm_def)
qed

lemma calm_drained:
  assumes c: "coh False {} c" and "calm now c"
  shows "calm now (progress_deselect now c)"
    and "sc_deselect_drain (progress_deselect now c) = Some d \<Longrightarrow>
      \<not> sc_closing (progress_deselect now c) \<Longrightarrow> now < dr_deadline d"
proof -
  have A: "calm now (c\<lparr>sc_deselect_drain := None\<rparr>)" using assms(2) by (simp add: calm_def)
  have o: "om_lookup (sc_open_commands c) (dr_command_id d) = Some Open_Control"
    if "sc_deselect_drain c = Some d" "\<not> sc_closing c" for d
    using drain_facts [OF c that] by simp
  show "calm now (progress_deselect now c)"
    using assms(2) A o
    by (auto simp: progress_deselect_def split: option.split
        intro!: calm_complete calm_start_transaction)
  have drop: "sc_deselect_drain (complete_error k e c') = sc_deselect_drain c'"
    "sc_deselect_drain (complete_ok k c') = sc_deselect_drain c'"
    if "om_lookup (sc_open_commands c') k = Some Open_Control" for k e c'
    using that by (auto simp: complete_error_def complete_error_with_def complete_ok_def complete_control_def
      emit_completion_def emit_completion_with_def emit_def)
  have gone: "sc_deselect_drain (start_transaction TK_Deselect k (c\<lparr>sc_deselect_drain := None\<rparr>)) = Some d \<Longrightarrow>
      sc_closing (start_transaction TK_Deselect k (c\<lparr>sc_deselect_drain := None\<rparr>))" for k
    using start_transaction_keeps [of TK_Deselect k "c\<lparr>sc_deselect_drain := None\<rparr>"] by auto
  show "sc_deselect_drain (progress_deselect now c) = Some d \<Longrightarrow>
      \<not> sc_closing (progress_deselect now c) \<Longrightarrow> now < dr_deadline d"
    using o drop gone
    by (auto simp: progress_deselect_def split: option.splits if_splits)
qed

lemma calm_deadline:
  assumes "calm now c" "next_deadline c = Some n"
    "\<And>d. sc_deselect_drain c = Some d \<Longrightarrow> \<not> sc_closing c \<Longrightarrow> now < dr_deadline d"
    "sc_active_transaction c = None \<Longrightarrow> sc_deselect_drain c = None \<Longrightarrow> \<not> sc_closing c \<Longrightarrow>
       \<not> due (sc_idle_deadline c) now"
  shows "now < n"
proof -
  have min: "min_option ds = Some n \<Longrightarrow> n \<in> set ds" for ds
  proof -
    have "foldr min ds a \<in> set (a # ds)" for ds and a :: mono_time
      by (induction ds) (auto simp: min_def)
    then have "foldr min ds (hd ds) \<in> set (hd ds # ds)" .
    then show "min_option ds = Some n \<Longrightarrow> n \<in> set ds"
      by (auto simp: min_option_def split: if_splits)
  qed
  have option: "n \<in> set (option_list x) \<longleftrightarrow> x = Some n" for x
    by (auto simp: option_list_def split: option.split)
  from assms(2) have "\<not> sc_closing c" by (simp add: next_deadline_def split: if_splits)
  with assms(2) consider "sc_selection_deadline c = Some n"
    | t where "sc_active_transaction c = Some t" "ct_deadline t = Some n"
    | t where "t \<in> set (om_values (sc_data_transactions c))" "dt_deadline t = Some n"
    | "sc_active_transaction c = None" "sc_deselect_drain c = None" "sc_idle_deadline c = Some n"
    | d where "sc_deselect_drain c = Some d" "dr_deadline d = n"
    unfolding next_deadline_def
    by (auto simp: option split: if_splits option.splits dest!: min)
  then show ?thesis
    using assms(1,3,4) \<open>\<not> sc_closing c\<close> by cases (auto simp: calm_def due_def)
qed

lemma advance_time_calm:
  assumes c: "coh False {} c" and "in_order now c" "next_deadline (advance_time now c) = Some n"
  shows "now < n"
proof -
  note s = coh_start [OF assms(1,2)]
  let ?c1 = "(fresh_batch c)\<lparr>sc_last_now := Some now\<rparr>"
  let ?c2 = "fold expire_request (expired_requests now ?c1) ?c1"
  let ?c3 = "progress_deselect now ?c2"
  have n: "next_deadline (expire_deadlines now ?c1) = Some n"
    using assms(3) s(1) by (simp add: advance_time_def)
  have closed: "next_deadline (close_for_timeout kind c') = None" for kind c'
    by (simp add: next_deadline_def close_for_timeout_def request_close_def Let_def)
  show ?thesis
  proof (cases "sc_closing ?c1 \<or> sc_state ?c1 = None")
    case True
    with n show ?thesis by (auto simp: expire_deadlines_def next_deadline_def)
  next
    case False
    with n closed have q: "\<not> due (sc_selection_deadline ?c1) now"
      "\<And>t. sc_active_transaction ?c1 = Some t \<Longrightarrow> \<not> due (ct_deadline t) now"
      by (auto simp: expire_deadlines_def split: if_splits option.splits)
    have c2: "coh False {} ?c2"
      by (rule coh_expire_requests [OF s(2)]) (use expired_requests_found [OF s(2)] in auto)
    note calm = calm_drained [OF c2 calm_expired [OF s(2) q]]
    have e: "expire_deadlines now ?c1 = (if sc_closing ?c3 then ?c3 else probe_idle now ?c3)"
      using False q by (auto simp: expire_deadlines_def Let_def split: option.split)
    have not_closed: "\<not> sc_closing ?c3" using n by (auto simp: e next_deadline_def split: if_splits)
    show ?thesis
    proof (cases "sc_active_transaction ?c3 = None \<and> sc_deselect_drain ?c3 = None \<and>
        due (sc_idle_deadline ?c3) now")
      case True
      let ?c4 = "start_transaction TK_Linktest None (?c3\<lparr>sc_idle_deadline := None\<rparr>)"
      have "calm now (?c3\<lparr>sc_idle_deadline := None\<rparr>)" using calm(1) by (simp add: calm_def)
      then have calm4: "calm now ?c4" by (rule calm_start_transaction)
      have next4: "next_deadline ?c4 = Some n" using n e not_closed True by (simp add: probe_idle_def)
      have "sc_closing ?c4 \<or> sc_deselect_drain ?c4 = None \<and> sc_idle_deadline ?c4 = None"
        using start_transaction_keeps [of TK_Linktest None "?c3\<lparr>sc_idle_deadline := None\<rparr>"] True by simp
      then show ?thesis by (intro calm_deadline [OF calm4 next4]) (auto simp: due_def)
    next
      case False
      then have "next_deadline ?c3 = Some n" using n e not_closed by (auto simp: probe_idle_def)
      show ?thesis by (rule calm_deadline [OF calm(1) \<open>next_deadline ?c3 = Some n\<close> calm(2)]) (use False in auto)
    qed
  qed
qed

subsection \<open>The properties\<close>

text \<open>C7: The core never fails by itself: over any well-behaved run from a new core, no close for a
  runtime invariant is issued as long as the write and the reply identifiers are not exhausted.\<close>

theorem no_internal_failure:
  assumes "well_behaved_run is (session_core_new cfg)"
    and "core_run is (session_core_new cfg) = (actions, c)"
    and "sc_next_write_id c \<noteq> None" and "sc_next_reply_id c \<noteq> None"
  shows "CloseGeneration RuntimeInvariant barrier \<notin> set actions"
  using blameless_run [OF coh_new assms(1)] assms(2-4) by (auto simp: exhausted_def)

text \<open>A run that connects and asks for a selection; one that shuts down before the answer.\<close>

definition sample_config :: session_core_config where
  "sample_config = core_config_new (SessionId 1)"

definition sample_run :: "core_input list" where
  "sample_run = [In_Connected 10, In_Command \<lparr>cc_command_id = 3, cc_kind = Cmd_Select\<rparr> 20]"

definition stopped_run :: "core_input list" where
  "stopped_run = sample_run @ [In_Shutdown LocalStop 30]"

lemmas core_eval = stopped_run_def sample_run_def sample_config_def session_core_new_def core_config_new_def
  on_connected_def fresh_batch_def accept_time_def arm_selection_timeout_def record_activity_def
  timeouts_default_def mono_checked_add_def duration_max_def seconds_def on_command_def
  open_command_def dispatch_command_def start_select_def start_transaction_def
  allocate_request_identifiers_def allocate_system_bytes_def allocate_write_id_def add_write_def
  checked_succ_def well_behaved_def in_order_def timers_fit_def open_ids_def om_keys_def om_lookup_def
  tombstones_new_def Let_def
  push_def defer_error_def complete_error_def complete_error_with_def emit_completion_with_def emit_def
  om_map_values_def detach_def on_shutdown_def request_close_def complete_all_def complete_all_with_def clear_transactions_def
  complete_or_defer_with_def has_pending_write_def om_values_def finalize_writer_def

lemma no_internal_failure_witness:
  "\<exists>actions c. core_run sample_run (session_core_new sample_config) = (actions, c) \<and>
     CloseGeneration RuntimeInvariant Immediate \<notin> set actions"
proof -
  have w: "well_behaved_run sample_run (session_core_new sample_config)" by (simp add: core_eval)
  obtain actions c where r: "core_run sample_run (session_core_new sample_config) = (actions, c)"
    by fastforce
  moreover have "sc_next_write_id c \<noteq> None" "sc_next_reply_id c \<noteq> None"
    using r by (auto simp: core_eval)
  ultimately show ?thesis using no_internal_failure [OF w r] by blast
qed

text \<open>C8: No command is forgotten: after a well-behaved run that has not closed, every accepted
  command that is not completed yet is carried by a frame whose write outcome is still due, or has
  a deadline armed that the core reports to the runtime no later than it expires.\<close>

theorem no_command_forgotten:
  assumes "well_behaved_run is (session_core_new cfg)"
    and "core_run is (session_core_new cfg) = (actions, c)"
    and "\<not> sc_closing c" and "k \<in> open_ids c"
  shows "(\<exists>w p. om_lookup (sc_pending_writes c) w = Some p \<and> pw_command_id p = Some k) \<or>
     (\<exists>d \<in> set (command_deadlines k c). \<exists>n. next_deadline c = Some n \<and> n \<le> d)"
  using awaited_watched [OF _ assms(3,4)] coh_run [OF coh_new assms(1)] assms(2) by simp

lemma no_command_forgotten_witness:
  "\<exists>actions c. core_run sample_run (session_core_new sample_config) = (actions, c) \<and>
     3 \<in> open_ids c \<and>
     ((\<exists>w p. om_lookup (sc_pending_writes c) w = Some p \<and> pw_command_id p = Some 3) \<or>
      (\<exists>d \<in> set (command_deadlines 3 c). \<exists>n. next_deadline c = Some n \<and> n \<le> d))"
proof -
  have w: "well_behaved_run sample_run (session_core_new sample_config)" by (simp add: core_eval)
  obtain actions c where r: "core_run sample_run (session_core_new sample_config) = (actions, c)"
    by fastforce
  moreover have "\<not> sc_closing c" "3 \<in> open_ids c"
    using r by (auto simp: core_eval)
  ultimately show ?thesis using no_command_forgotten [OF w r] by blast
qed

text \<open>C6: A stopped Writer settles the generation: when a well-behaved run ends by finalizing the
  Writer, every command the core accepted has been completed exactly once and nothing is open.\<close>

theorem finalized_run_completes_all:
  assumes "well_behaved_run (is @ [In_FinalizeWriter now]) (session_core_new cfg)"
    and "distinct (concat (map accepts_command is))"
    and "core_run (is @ [In_FinalizeWriter now]) (session_core_new cfg) = (actions, c)"
  shows "sc_open_commands c = [] \<and> sc_closing c \<and>
         mset (completed actions) = mset (concat (map accepts_command is))"
proof -
  let ?is = "is @ [In_FinalizeWriter now]" and ?c0 = "session_core_new cfg"
  obtain as1 c1 where r: "core_run is ?c0 = (as1, c1)" by fastforce
  with assms(1) have w: "well_behaved_run is ?c0" "in_order now c1" "sc_closing c1"
    by (auto simp: well_behaved_run_append well_behaved_def)
  have "coh False {} c1" using coh_run [OF coh_new w(1)] r by simp
  note f = finalize_writer_settled [OF this w(2,3)]
  have c: "c = finalize_writer now c1" using assms(3) r by (simp add: core_run_snoc Let_def)
  have "distinct (completed actions)" "set (completed actions) = set (concat (map accepts_command is))"
    using account_run [OF om_ok_new _ _ assms(3)] assms(2) f(2) c
    by (auto simp: open_ids_def session_core_new_def)
  with assms(2) have "mset (completed actions) = mset (concat (map accepts_command is))"
    using set_eq_iff_mset_eq_distinct by blast
  with f c show ?thesis by simp
qed

lemma finalized_run_completes_all_witness:
  "\<exists>actions c. core_run (stopped_run @ [In_FinalizeWriter 40]) (session_core_new sample_config) =
       (actions, c) \<and> sc_open_commands c = [] \<and> mset (completed actions) = {#3#}"
proof -
  have w: "well_behaved_run (stopped_run @ [In_FinalizeWriter 40]) (session_core_new sample_config)"
    by (simp add: core_eval)
  obtain actions c where
    r: "core_run (stopped_run @ [In_FinalizeWriter 40]) (session_core_new sample_config) = (actions, c)"
    by fastforce
  have "distinct (concat (map accepts_command stopped_run))" by (simp add: core_eval)
  from finalized_run_completes_all [OF w this r] show ?thesis
    using r by (simp add: stopped_run_def sample_run_def del: core_run.simps)
qed

text \<open>C9: Timers make progress: when a well-behaved run ends by advancing the clock, no deadline the
  core then reports has already passed, so the runtime that waits for the reported deadline is
  never woken twice for the same one.\<close>

theorem advance_time_progress:
  assumes "well_behaved_run (is @ [In_AdvanceTime now]) (session_core_new cfg)"
    and "core_run (is @ [In_AdvanceTime now]) (session_core_new cfg) = (actions, c)"
    and "next_deadline c = Some n"
  shows "now < n"
proof -
  let ?c0 = "session_core_new cfg"
  obtain as1 c1 where r: "core_run is ?c0 = (as1, c1)" by fastforce
  with assms(1) have w: "well_behaved_run is ?c0" "in_order now c1"
    by (auto simp: well_behaved_run_append well_behaved_def)
  have "coh False {} c1" using coh_run [OF coh_new w(1)] r by simp
  moreover have "c = advance_time now c1" using assms(2) r by (simp add: core_run_snoc Let_def)
  ultimately show ?thesis using advance_time_calm w(2) assms(3) by blast
qed

lemma advance_time_progress_witness:
  "\<exists>actions c. core_run (sample_run @ [In_AdvanceTime 30]) (session_core_new sample_config) =
       (actions, c) \<and> next_deadline c = Some 10000000010 \<and> (30 :: nat) < 10000000010"
proof -
  have w: "well_behaved_run (sample_run @ [In_AdvanceTime 30]) (session_core_new sample_config)"
    by (simp add: core_eval)
  obtain actions c where
    r: "core_run (sample_run @ [In_AdvanceTime 30]) (session_core_new sample_config) = (actions, c)"
    by fastforce
  have n: "next_deadline c = Some 10000000010"
    using r by (auto simp: core_eval next_deadline_def min_option_def option_list_def
        advance_time_def expire_deadlines_def expired_requests_def progress_deselect_def
        probe_idle_def due_def)
  from advance_time_progress [OF w r n] show ?thesis using r n by blast
qed

end
