(* ===== verification/Hsms_Api.thy ===== *)
theory Hsms_Api
  imports Hsms_Session Hsms_Codec
begin

section \<open>Values exchanged with the application and with the Writer\<close>

text \<open>
  The message, capability and report types of \<open>src/hsms/api\<close> and the Writer's admission
  interface of \<open>src/hsms/generation/transport/writer.rs\<close>. The identity of an
  \<open>Arc<()>\<close>, which the source compares with \<open>Arc::ptr_eq\<close>, is a natural number. The trait
  \<open>WriterIngress\<close> is a record of its operations on a state of type \<open>'w\<close> with permits of type
  \<open>'p\<close>; the driver is modelled for every such record.
\<close>

subsection \<open>Messages and capabilities\<close>

datatype control_intent = Intent_Select | Intent_Deselect | Intent_Linktest | Intent_Separate

record send_receipt =
  sr_generation :: connection_generation

record secondary_message =
  sm_context :: message_context
  sm_stream :: stream
  sm_function :: sfunction
  sm_body :: "secs_item option"

record reply_token =
  rt_owner :: nat
  rt_capability_id :: reply_capability_id
  rt_generation :: connection_generation
  rt_normal_secondary_available :: bool

definition belongs_to :: "reply_token \<Rightarrow> nat \<Rightarrow> connection_generation \<Rightarrow> bool" where
  "belongs_to token owner generation \<longleftrightarrow>
     rt_owner token = owner \<and> rt_generation token = generation"

datatype inbound_token = Token_Reply reply_token | Token_Data

record inbound_primary =
  ip_message :: primary_message
  ip_token :: inbound_token
  ip_context :: message_context

datatype inbound_violation_kind =
    Kind_Header header_violation_kind
  | Kind_Payload payload_violation_kind

record inbound_protocol_error =
  pe_context :: message_context
  pe_kind :: inbound_violation_kind
  pe_source :: "decode_error option"

subsection \<open>Writer ingress\<close>

record outbound_frame =
  of_write_id :: write_id
  of_message :: protocol_message

datatype write_admission_error = Write_Full | Write_Closed | Write_Invariant
datatype data_reserve_error = Reserve_Full | Reserve_Closed
datatype data_permit_error = Permit_Invariant
datatype reserved_data_admission_error = Reserved_Closed | Reserved_Invariant

record ('w, 'p) writer_ingress =
  try_reserve_message :: "secs_item option \<Rightarrow> 'w \<Rightarrow> ('p, operation_error) result \<times> 'w"
  release_data :: "'p \<Rightarrow> 'w \<Rightarrow> (unit, data_permit_error) result \<times> 'w"
  admit_reserved_data ::
    "'p \<Rightarrow> outbound_frame \<Rightarrow> 'w \<Rightarrow> (unit, reserved_data_admission_error) result \<times> 'w"
  try_admit :: "outbound_frame \<Rightarrow> 'w \<Rightarrow> (unit, write_admission_error) result \<times> 'w"

end
