(* ===== verification/Hsms_Driver.thy ===== *)
theory Hsms_Driver
  imports Hsms_Api
begin

section \<open>The driver of one connection generation\<close>

text \<open>
  \<open>src/hsms/generation/driver/mod.rs\<close>: the single owner of the core. It queues accepted
  commands, presents them and every protocol input to the core, applies the batch of actions the
  core returns, keeps the completion endpoint of each command until its result is known, and closes
  the transport once.

  The driver is generic in its Writer, observer, completion endpoint and closer. The Writer is a
  record \<open>W\<close> of its operations and the state \<open>sd_writer\<close>. The other three are only told
  things: what they are told is the log \<open>sd_effects\<close>, in order. A method that takes
  \<open>&mut self\<close> is a function on the record \<open>session_driver\<close>; the core's batch is the field
  \<open>sc_actions\<close> of the core it returns. \<open>HashSet<WriteId>\<close> is a set, the
  \<open>BTreeMap\<close> of completions an ordered map, both queues are lists with the oldest entry first.
  Names of methods that the core also has are prefixed with \<open>driver_\<close>.
\<close>

subsection \<open>Results and queued commands\<close>

datatype driver_command_result =
    PrimaryRejected primary_message operation_error
  | ReplyRejected reply_intent reply_token "secs_item option" operation_error
  | Driver_Control "(unit, operation_error) result"
  | Driver_Send "(send_receipt, operation_error) result"
  | Driver_Request "(secondary_message, operation_error) result"

datatype 'c driver_effect =
    Observed session_state
  | Noticed connection_generation protocol_notice
  | Delivered 'c driver_command_result
  | TransportClose

datatype control_admission_error_kind =
    Control_Draining | Control_UnsupportedIntent | Control_Closing | Control_Full

datatype data_admission_error_kind =
    Data_Draining | Data_Closing | Data_Full | Data_Invalid operation_error

record 'c control_admission_error =
  ca_kind :: control_admission_error_kind
  ca_intent :: control_intent
  ca_completion :: 'c

record 'c data_admission_error =
  da_kind :: data_admission_error_kind
  da_message :: primary_message
  da_completion :: 'c

datatype accepted_command_kind =
    Accepted_Reply reply_intent reply_token "secs_item option"
  | Accepted_Control core_command_kind
  | Accepted_Send primary_message
  | Accepted_Request primary_message

datatype completion_kind = Kind_Control | Kind_Send | Kind_Request

fun completion_kind_of :: "accepted_command_kind \<Rightarrow> completion_kind" where
  "completion_kind_of (Accepted_Reply intent token body) =
     (if intent = Reply_Abandon then Kind_Control else Kind_Send)"
| "completion_kind_of (Accepted_Control kind) = Kind_Control"
| "completion_kind_of (Accepted_Send message) = Kind_Send"
| "completion_kind_of (Accepted_Request message) = Kind_Request"

fun requires_data_permit :: "accepted_command_kind \<Rightarrow> bool" where
  "requires_data_permit (Accepted_Reply intent token body) \<longleftrightarrow>
     intent = Reply_Secondary \<or> intent = Reply_Abort"
| "requires_data_permit (Accepted_Control kind) \<longleftrightarrow> False"
| "requires_data_permit (Accepted_Send message) \<longleftrightarrow> True"
| "requires_data_permit (Accepted_Request message) \<longleftrightarrow> True"

fun command_body :: "accepted_command_kind \<Rightarrow> secs_item option" where
  "command_body (Accepted_Reply intent token body) =
     (if intent = Reply_Secondary then body else None)"
| "command_body (Accepted_Control kind) = None"
| "command_body (Accepted_Send message) = pm_body message"
| "command_body (Accepted_Request message) = pm_body message"

fun rejected :: "accepted_command_kind \<Rightarrow> operation_error \<Rightarrow> driver_command_result" where
  "rejected (Accepted_Reply intent token body) error = ReplyRejected intent token body error"
| "rejected (Accepted_Send message) error = PrimaryRejected message error"
| "rejected (Accepted_Request message) error = PrimaryRejected message error"
| "rejected (Accepted_Control kind) error = Driver_Control (Err error)"

fun connection_lost_result :: "completion_kind \<Rightarrow> driver_command_result" where
  "connection_lost_result Kind_Control = Driver_Control (Err ConnectionLost)"
| "connection_lost_result Kind_Send = Driver_Send (Err ConnectionLost)"
| "connection_lost_result Kind_Request = Driver_Request (Err ConnectionLost)"

record 'c accepted_command =
  ac_byte_charge :: usize
  ac_kind :: accepted_command_kind
  ac_completion :: 'c

record 'c pending_completion =
  pc_kind :: completion_kind
  pc_completion :: 'c

record closing_state =
  cl_reason :: close_reason
  cl_barrier_write_id :: "write_id option"

datatype action_application_failure =
    InboundFull
  | ControlWriteAdmission write_id write_admission_error
  | ReservedDataAdmission write_id reserved_data_admission_error
  | MissingOrMultipleDataFrame write_id
  | DataPermitRelease data_permit_error
  | DuplicateOrUnknownCompletion
  | InvalidCompletionResult

subsection \<open>State\<close>

record ('w, 'c) session_driver =
  sd_generation :: connection_generation
  sd_token_owner :: nat
  sd_inbound :: "inbound_primary list"
  sd_inbound_capacity :: usize
  sd_protocol_errors :: "inbound_protocol_error list"
  sd_protocol_error_capacity :: usize
  sd_core :: session_core
  sd_writer :: 'w
  sd_effects :: "'c driver_effect list"
  sd_accepted_commands :: "'c accepted_command list"
  sd_command_capacity :: usize
  sd_command_byte_capacity :: usize
  sd_command_bytes :: usize
  sd_shutdown_draining :: bool
  sd_maximum_message_length :: usize
  sd_completions :: "(command_id, 'c pending_completion) omap"
  sd_admitted_writes :: "write_id set"
  sd_next_command_id :: "u64 option"
  sd_closing :: "closing_state option"
  sd_transport_closed :: bool

definition with_command_capacity ::
  "connection_generation \<Rightarrow> nat \<Rightarrow> session_core \<Rightarrow> 'w \<Rightarrow> usize \<Rightarrow> ('w, 'c) session_driver" where
  "with_command_capacity generation owner core writer capacity =
     \<lparr>sd_generation = generation, sd_token_owner = owner, sd_inbound = [],
      sd_inbound_capacity = el_application_event_capacity limits_default,
      sd_protocol_errors = [],
      sd_protocol_error_capacity = el_application_event_capacity limits_default,
      sd_core = core, sd_writer = writer, sd_effects = [], sd_accepted_commands = [],
      sd_command_capacity = capacity,
      sd_command_byte_capacity = unat (rp_command_bytes runtime_policy_default),
      sd_command_bytes = 0, sd_shutdown_draining = False,
      sd_maximum_message_length = el_max_message_length limits_default,
      sd_completions = [], sd_admitted_writes = {}, sd_next_command_id = Some 0,
      sd_closing = None, sd_transport_closed = False\<rparr>"

text \<open>
  \<open>owner\<close> is the identity of the fresh \<open>Arc\<close>. A validated configuration has a nonzero
  command capacity, so the \<open>expect\<close> on \<open>NonZeroUsize::new\<close> does not fire
  (\<open>limits_validate_Ok\<close>).
\<close>

definition driver_from_config ::
  "(duration \<Rightarrow> bool) \<Rightarrow> connection_generation \<Rightarrow> nat \<Rightarrow> 'addr endpoint_config \<Rightarrow> 'w \<Rightarrow>
     (('w, 'c) session_driver, config_error) result" where
  "driver_from_config clock_fits generation owner config writer =
     bind_res (endpoint_config_validate clock_fits config) (\<lambda>_.
       let core = session_core_new (core_config_from_endpoint config);
           driver = with_command_capacity generation owner core writer
                      (el_command_capacity (ec_limits config))
       in Ok (driver
            \<lparr>sd_inbound_capacity := el_application_event_capacity (ec_limits config),
             sd_protocol_error_capacity := rp_protocol_error_capacity (ec_runtime config),
             sd_command_byte_capacity := unat (rp_command_bytes (ec_runtime config)),
             sd_maximum_message_length := el_max_message_length (ec_limits config)\<rparr>))"

definition effect :: "'c driver_effect \<Rightarrow> ('w, 'c) session_driver \<Rightarrow> ('w, 'c) session_driver" where
  "effect e d = d\<lparr>sd_effects := sd_effects d @ [e]\<rparr>"

text \<open>\<open>completion.complete(result)\<close> consumes the endpoint.\<close>

definition complete_endpoint ::
  "'c \<Rightarrow> driver_command_result \<Rightarrow> ('w, 'c) session_driver \<Rightarrow> ('w, 'c) session_driver" where
  "complete_endpoint completion result = effect (Delivered completion result)"

subsection \<open>Admission of commands\<close>

fun core_command_kind_of :: "control_intent \<Rightarrow> core_command_kind option" where
  "core_command_kind_of Intent_Select = Some Cmd_Select"
| "core_command_kind_of Intent_Deselect = Some Cmd_Deselect"
| "core_command_kind_of Intent_Linktest = Some Cmd_Linktest"
| "core_command_kind_of Intent_Separate = Some Cmd_Separate"

definition enqueue ::
  "usize \<Rightarrow> accepted_command_kind \<Rightarrow> 'c \<Rightarrow> ('w, 'c) session_driver \<Rightarrow> ('w, 'c) session_driver" where
  "enqueue charge kind completion d =
     d\<lparr>sd_accepted_commands := sd_accepted_commands d @
         [\<lparr>ac_byte_charge = charge, ac_kind = kind, ac_completion = completion\<rparr>]\<rparr>"

definition try_accept_control ::
  "control_intent \<Rightarrow> 'c \<Rightarrow> ('w, 'c) session_driver \<Rightarrow>
     (unit, 'c control_admission_error) result \<times> ('w, 'c) session_driver" where
  "try_accept_control intent completion d =
     (let refuse = (\<lambda>kind. (Err \<lparr>ca_kind = kind, ca_intent = intent, ca_completion = completion\<rparr>, d))
      in if sd_closing d \<noteq> None then refuse Control_Closing
         else
           case core_command_kind_of intent of
             None \<Rightarrow> refuse Control_UnsupportedIntent
           | Some kind \<Rightarrow>
               if sd_shutdown_draining d then refuse Control_Draining
               else if length (sd_accepted_commands d) \<ge> sd_command_capacity d
               then refuse Control_Full
               else (Ok (), enqueue 0 (Accepted_Control kind) completion d))"

text \<open>\<open>command_charge\<close>: the size of the complete frame, checked against both budgets.\<close>

definition command_charge ::
  "secs_item option \<Rightarrow> ('w, 'c) session_driver \<Rightarrow> (usize, operation_error) result" where
  "command_charge body d =
     (case prepare_body body of
        Inl e \<Rightarrow> Err (Encode e)
      | Inr plan \<Rightarrow>
          let text_length = body_plan_length plan in
          bind_res (ok_or (case checked_add text_length 10 of
                             None \<Rightarrow> None
                           | Some n \<Rightarrow> if n \<le> sd_maximum_message_length d then Some n else None)
                      (OutboundFrameTooLarge text_length (sd_maximum_message_length d)))
            (\<lambda>message_length.
          bind_res (ok_or (checked_add message_length 4) Backpressure) (\<lambda>charge.
            if charge > sd_command_byte_capacity d - sd_command_bytes d then Err Backpressure
            else Ok charge)))"

definition try_accept_data ::
  "primary_message \<Rightarrow> 'c \<Rightarrow> bool \<Rightarrow> ('w, 'c) session_driver \<Rightarrow>
     (unit, 'c data_admission_error) result \<times> ('w, 'c) session_driver" where
  "try_accept_data message completion reply_expected d =
     (let refuse = (\<lambda>kind. (Err \<lparr>da_kind = kind, da_message = message, da_completion = completion\<rparr>, d))
      in if sd_closing d \<noteq> None then refuse Data_Closing
         else if sd_shutdown_draining d then refuse Data_Draining
         else if length (sd_accepted_commands d) \<ge> sd_command_capacity d then refuse Data_Full
         else
           case command_charge (pm_body message) d of
             Inl error \<Rightarrow> refuse (if error = Backpressure then Data_Full else Data_Invalid error)
           | Inr charge \<Rightarrow>
               (Ok (), enqueue charge
                  (if reply_expected then Accepted_Request message else Accepted_Send message)
                  completion (d\<lparr>sd_command_bytes := sd_command_bytes d + charge\<rparr>)))"

definition try_accept_send ::
  "primary_message \<Rightarrow> 'c \<Rightarrow> ('w, 'c) session_driver \<Rightarrow>
     (unit, 'c data_admission_error) result \<times> ('w, 'c) session_driver" where
  "try_accept_send message completion = try_accept_data message completion False"

definition try_accept_request ::
  "primary_message \<Rightarrow> 'c \<Rightarrow> ('w, 'c) session_driver \<Rightarrow>
     (unit, 'c data_admission_error) result \<times> ('w, 'c) session_driver" where
  "try_accept_request message completion = try_accept_data message completion True"

definition try_accept_reply ::
  "reply_intent \<Rightarrow> reply_token \<Rightarrow> secs_item option \<Rightarrow> 'c \<Rightarrow> ('w, 'c) session_driver \<Rightarrow>
     (unit, 'c \<times> driver_command_result) result \<times> ('w, 'c) session_driver" where
  "try_accept_reply intent token body completion d =
     (let error =
            (if sd_closing d \<noteq> None then Some ConnectionLost
             else if intent \<noteq> Reply_Abandon \<and> replies_blocked (sd_core d) then Some Draining
             else if \<not> belongs_to token (sd_token_owner d) (sd_generation d)
             then Some ReplyCapabilityUnavailable
             else if intent = Reply_Secondary \<and> \<not> rt_normal_secondary_available token
             then Some ReplyRequiresAbort
             else if length (sd_accepted_commands d) \<ge> sd_command_capacity d
             then Some Backpressure
             else None);
          kind = Accepted_Reply intent token body
      in case error of
           Some error \<Rightarrow> (Err (completion, rejected kind error), d)
         | None \<Rightarrow>
             (case command_charge body d of
                Inl error \<Rightarrow> (Err (completion, rejected kind error), d)
              | Inr charge \<Rightarrow>
                  (Ok (), enqueue charge kind completion
                     (d\<lparr>sd_command_bytes := sd_command_bytes d + charge\<rparr>))))"

subsection \<open>Closing\<close>

definition begin_closing ::
  "close_reason \<Rightarrow> close_barrier \<Rightarrow> ('w, 'c) session_driver \<Rightarrow> ('w, 'c) session_driver" where
  "begin_closing reason barrier d =
     (case sd_closing d of
        Some closing \<Rightarrow>
          if barrier = Immediate
          then d\<lparr>sd_closing := Some (closing\<lparr>cl_barrier_write_id := None\<rparr>)\<rparr> else d
      | None \<Rightarrow>
          d\<lparr>sd_closing := Some
              \<lparr>cl_reason = reason,
               cl_barrier_write_id =
                 (case barrier of Immediate \<Rightarrow> None | AfterWrite write_id \<Rightarrow> Some write_id)\<rparr>\<rparr>)"

definition satisfy_close_barrier ::
  "write_id \<Rightarrow> ('w, 'c) session_driver \<Rightarrow> ('w, 'c) session_driver" where
  "satisfy_close_barrier write_id d =
     (case sd_closing d of
        None \<Rightarrow> d
      | Some closing \<Rightarrow>
          if cl_barrier_write_id closing = Some write_id
          then d\<lparr>sd_closing := Some (closing\<lparr>cl_barrier_write_id := None\<rparr>)\<rparr> else d)"

definition owns_command :: "command_id \<Rightarrow> session_core \<Rightarrow> bool" where
  "owns_command command_id c \<longleftrightarrow> om_lookup (sc_open_commands c) command_id \<noteq> None"

text \<open>\<open>pop_front\<close> and the release of the entry's charge.\<close>

definition dequeue ::
  "('w, 'c) session_driver \<Rightarrow> ('c accepted_command \<times> ('w, 'c) session_driver) option" where
  "dequeue d =
     (case sd_accepted_commands d of
        [] \<Rightarrow> None
      | accepted # rest \<Rightarrow>
          Some (accepted, d\<lparr>sd_accepted_commands := rest,
                            sd_command_bytes := sd_command_bytes d - ac_byte_charge accepted\<rparr>))"

definition complete_orphan ::
  "command_id \<Rightarrow> ('w, 'c) session_driver \<Rightarrow> ('w, 'c) session_driver" where
  "complete_orphan command_id d =
     (case om_lookup (sd_completions d) command_id of
        None \<Rightarrow> d
      | Some pending \<Rightarrow>
          complete_endpoint (pc_completion pending) (connection_lost_result (pc_kind pending))
            (d\<lparr>sd_completions := om_remove command_id (sd_completions d)\<rparr>))"

function reject_queue :: "('w, 'c) session_driver \<Rightarrow> ('w, 'c) session_driver" where
  "reject_queue d =
     (case dequeue d of
        None \<Rightarrow> d
      | Some (accepted, d) \<Rightarrow>
          reject_queue (complete_endpoint (ac_completion accepted)
            (rejected (ac_kind accepted) ConnectionLost) d))"
  by pat_completeness auto
termination
  by (relation "measure (\<lambda>d. length (sd_accepted_commands d))")
    (auto simp: dequeue_def complete_endpoint_def effect_def split: list.splits)

declare reject_queue.simps [simp del]

definition drain_accepted_commands :: "('w, 'c) session_driver \<Rightarrow> ('w, 'c) session_driver" where
  "drain_accepted_commands d =
     (let orphaned = filter (\<lambda>k. \<not> owns_command k (sd_core d)) (om_keys (sd_completions d))
      in reject_queue (fold complete_orphan orphaned d))"

definition finish_close_if_ready :: "('w, 'c) session_driver \<Rightarrow> ('w, 'c) session_driver" where
  "finish_close_if_ready d =
     (let ready = (case sd_closing d of
                     None \<Rightarrow> False | Some closing \<Rightarrow> cl_barrier_write_id closing = None)
      in if \<not> ready \<or> sd_transport_closed d then d
         else drain_accepted_commands ((effect TransportClose d)\<lparr>sd_transport_closed := True\<rparr>))"

subsection \<open>Applying a batch of actions\<close>

definition has_admitted_write :: "write_id \<Rightarrow> ('w, 'c) session_driver \<Rightarrow> bool" where
  "has_admitted_write write_id d \<longleftrightarrow> write_id \<in> sd_admitted_writes d"

definition materialize_result ::
  "('w, 'c) session_driver \<Rightarrow> completion_kind \<Rightarrow> core_command_result \<Rightarrow>
     driver_command_result option" where
  "materialize_result d kind result =
     (case (kind, result) of
        (Kind_Control, Result_Control r) \<Rightarrow> Some (Driver_Control r)
      | (Kind_Send, Result_Send (Inr committed)) \<Rightarrow>
          if \<not> has_admitted_write committed d then None
          else Some (Driver_Send (Ok \<lparr>sr_generation = sd_generation d\<rparr>))
      | (Kind_Send, Result_Send (Inl error)) \<Rightarrow> Some (Driver_Send (Err error))
      | (Kind_Request, Result_Request (Inr matched)) \<Rightarrow>
          let header = ms_header matched
          in Some (Driver_Request (Ok
               \<lparr>sm_context = context_from_data (sd_generation d) header,
                sm_stream = dh_stream header, sm_function = dh_function header,
                sm_body = ms_body matched\<rparr>))
      | (Kind_Request, Result_Request (Inl error)) \<Rightarrow> Some (Driver_Request (Err error))
      | (Kind_Request, RequestTimedOut header) \<Rightarrow>
          Some (Driver_Request (Err (RequestTimeout (context_from_data (sd_generation d) header))))
      | _ \<Rightarrow> None)"

definition deliver_primary ::
  "data_message \<Rightarrow> reply_capability_id option \<Rightarrow> ('w, 'c) session_driver \<Rightarrow> inbound_primary" where
  "deliver_primary message capability d =
     (let header = dm_header message
      in \<lparr>ip_message = \<lparr>pm_stream = dh_stream header, pm_function = dh_function header,
                        pm_body = dm_body message\<rparr>,
          ip_token =
            (case capability of
               Some k \<Rightarrow> Token_Reply
                 \<lparr>rt_owner = sd_token_owner d, rt_capability_id = k,
                  rt_generation = sd_generation d,
                  rt_normal_secondary_available = function_get (dh_function header) < 255\<rparr>
             | None \<Rightarrow> Token_Data),
          ip_context = context_from_data (sd_generation d) header\<rparr>)"

text \<open>A write the Writer took ownership of; a second one with the same identity is refused.\<close>

definition note_admitted ::
  "write_id \<Rightarrow> ('w, 'c) session_driver \<Rightarrow>
     (unit, action_application_failure) result \<times> ('w, 'c) session_driver" where
  "note_admitted write_id d =
     (if write_id \<in> sd_admitted_writes d then (Err DuplicateOrUnknownCompletion, d)
      else (Ok (), d\<lparr>sd_admitted_writes := insert write_id (sd_admitted_writes d)\<rparr>))"

definition admit_control ::
  "('w, 'p) writer_ingress \<Rightarrow> outbound_frame \<Rightarrow> ('w, 'c) session_driver \<Rightarrow>
     (unit, action_application_failure) result \<times> ('w, 'c) session_driver" where
  "admit_control W frame d =
     (case try_admit W frame (sd_writer d) of
        (Inl error, w) \<Rightarrow> (Err (ControlWriteAdmission (of_write_id frame) error), d\<lparr>sd_writer := w\<rparr>)
      | (Inr _, w) \<Rightarrow> note_admitted (of_write_id frame) (d\<lparr>sd_writer := w\<rparr>))"

definition admit_data ::
  "('w, 'p) writer_ingress \<Rightarrow> 'p \<Rightarrow> outbound_frame \<Rightarrow> ('w, 'c) session_driver \<Rightarrow>
     (unit, action_application_failure) result \<times> ('w, 'c) session_driver" where
  "admit_data W permit frame d =
     (case admit_reserved_data W permit frame (sd_writer d) of
        (Inl error, w) \<Rightarrow> (Err (ReservedDataAdmission (of_write_id frame) error), d\<lparr>sd_writer := w\<rparr>)
      | (Inr _, w) \<Rightarrow> note_admitted (of_write_id frame) (d\<lparr>sd_writer := w\<rparr>))"

definition complete_command ::
  "command_id \<Rightarrow> core_command_result \<Rightarrow> ('w, 'c) session_driver \<Rightarrow>
     (unit, action_application_failure) result \<times> ('w, 'c) session_driver" where
  "complete_command command_id result d =
     (case om_lookup (sd_completions d) command_id of
        None \<Rightarrow> (Err DuplicateOrUnknownCompletion, d)
      | Some pending \<Rightarrow>
          (case materialize_result d (pc_kind pending) result of
             None \<Rightarrow> (Err InvalidCompletionResult, d)
           | Some result \<Rightarrow>
               (Ok (), complete_endpoint (pc_completion pending) result
                  (d\<lparr>sd_completions := om_remove command_id (sd_completions d)\<rparr>))))"

text \<open>One action, the batch's loop with its breaks, and the batch with its optional data permit.\<close>

fun apply_action ::
  "('w, 'p) writer_ingress \<Rightarrow> core_action \<Rightarrow> 'p option \<Rightarrow> ('w, 'c) session_driver \<Rightarrow>
     'p option \<times> (unit, action_application_failure) result \<times> ('w, 'c) session_driver" where
  "apply_action W (DeliverPrimary message capability) permit d =
     (permit,
      if length (sd_inbound d) \<ge> sd_inbound_capacity d then (Err InboundFull, d)
      else (Ok (), d\<lparr>sd_inbound := sd_inbound d @ [deliver_primary message capability d]\<rparr>))"
| "apply_action W (SendFrame write_id message) permit d =
     (let frame = \<lparr>of_write_id = write_id, of_message = message\<rparr>
      in case message of
           Control _ \<Rightarrow> (permit, admit_control W frame d)
         | Data _ \<Rightarrow>
             (case permit of
                None \<Rightarrow> (None, Err (MissingOrMultipleDataFrame write_id), d)
              | Some p \<Rightarrow> (None, admit_data W p frame d)))"
| "apply_action W (SessionStateChanged state) permit d = (permit, Ok (), effect (Observed state) d)"
| "apply_action W (CompleteCommand command_id result) permit d =
     (permit, complete_command command_id result d)"
| "apply_action W (CloseGeneration reason barrier) permit d =
     (permit, Ok (), begin_closing reason barrier d)"

fun apply_loop ::
  "('w, 'p) writer_ingress \<Rightarrow> core_action list \<Rightarrow> 'p option \<Rightarrow> ('w, 'c) session_driver \<Rightarrow>
     'p option \<times> (unit, action_application_failure) result \<times> ('w, 'c) session_driver" where
  "apply_loop W [] permit d = (permit, Ok (), d)"
| "apply_loop W (action # actions) permit d =
     (case apply_action W action permit d of
        (permit, Inl failure, d) \<Rightarrow> (permit, Err failure, d)
      | (permit, Inr _, d) \<Rightarrow> apply_loop W actions permit d)"

definition apply_action_batch ::
  "('w, 'p) writer_ingress \<Rightarrow> core_action list \<Rightarrow> 'p option \<Rightarrow> ('w, 'c) session_driver \<Rightarrow>
     (unit, action_application_failure) result \<times> ('w, 'c) session_driver" where
  "apply_action_batch W actions permit d =
     (case apply_loop W actions permit d of
        (None, result, d) \<Rightarrow> (result, d)
      | (Some p, result, d) \<Rightarrow>
          (case release_data W p (sd_writer d) of
             (Inl error, w) \<Rightarrow> (Err (DataPermitRelease error), d\<lparr>sd_writer := w\<rparr>)
           | (Inr _, w) \<Rightarrow> (result, d\<lparr>sd_writer := w\<rparr>)))"

text \<open>
  The core's batch is applied to the driver that holds the core it came from:
  \<open>apply_core\<close> stores the core and applies what it returned.
\<close>

definition apply_core ::
  "('w, 'p) writer_ingress \<Rightarrow> session_core \<Rightarrow> 'p option \<Rightarrow> ('w, 'c) session_driver \<Rightarrow>
     (unit, action_application_failure) result \<times> ('w, 'c) session_driver" where
  "apply_core W core permit d = apply_action_batch W (sc_actions core) permit (d\<lparr>sd_core := core\<rparr>)"

definition shutdown_after_driver_failure ::
  "('w, 'p) writer_ingress \<Rightarrow> close_reason \<Rightarrow> write_id option \<Rightarrow> mono_time \<Rightarrow>
     ('w, 'c) session_driver \<Rightarrow> ('w, 'c) session_driver" where
  "shutdown_after_driver_failure W reason failed_write_id now d =
     (case apply_core W (on_shutdown reason failed_write_id now (sd_core d)) None d of
        (Inl _, d) \<Rightarrow> begin_closing reason Immediate (begin_closing RuntimeInvariant Immediate d)
      | (Inr _, d) \<Rightarrow> begin_closing reason Immediate d)"

fun failure_cause :: "action_application_failure \<Rightarrow> close_reason \<times> write_id option" where
  "failure_cause InboundFull = (ApplicationBackpressure, None)"
| "failure_cause (ControlWriteAdmission write_id Write_Full) = (ControlBackpressure, Some write_id)"
| "failure_cause (ControlWriteAdmission write_id Write_Closed) = (TransportLost, Some write_id)"
| "failure_cause (ControlWriteAdmission write_id Write_Invariant) = (RuntimeInvariant, Some write_id)"
| "failure_cause (ReservedDataAdmission write_id Reserved_Closed) = (TransportLost, Some write_id)"
| "failure_cause (ReservedDataAdmission write_id Reserved_Invariant) = (RuntimeInvariant, Some write_id)"
| "failure_cause (MissingOrMultipleDataFrame write_id) = (RuntimeInvariant, Some write_id)"
| "failure_cause (DataPermitRelease Permit_Invariant) = (RuntimeInvariant, None)"
| "failure_cause DuplicateOrUnknownCompletion = (RuntimeInvariant, None)"
| "failure_cause InvalidCompletionResult = (RuntimeInvariant, None)"

definition handle_action_failure_with_reason ::
  "('w, 'p) writer_ingress \<Rightarrow> action_application_failure \<Rightarrow> mono_time \<Rightarrow> close_reason option \<Rightarrow>
     ('w, 'c) session_driver \<Rightarrow> ('w, 'c) session_driver" where
  "handle_action_failure_with_reason W failure now first_reason d =
     (let (reason, failed_write_id) = failure_cause failure
      in shutdown_after_driver_failure W
           (case first_reason of None \<Rightarrow> reason | Some first \<Rightarrow> first) failed_write_id now d)"

definition handle_action_failure ::
  "('w, 'p) writer_ingress \<Rightarrow> action_application_failure \<Rightarrow> mono_time \<Rightarrow>
     ('w, 'c) session_driver \<Rightarrow> ('w, 'c) session_driver" where
  "handle_action_failure W failure now = handle_action_failure_with_reason W failure now None"

definition settle_batch ::
  "('w, 'p) writer_ingress \<Rightarrow> mono_time \<Rightarrow>
     (unit, action_application_failure) result \<times> ('w, 'c) session_driver \<Rightarrow>
     ('w, 'c) session_driver" where
  "settle_batch W now outcome =
     (case outcome of
        (Inl failure, d) \<Rightarrow> handle_action_failure W failure now d
      | (Inr _, d) \<Rightarrow> d)"

definition apply_actions_without_finishing_close ::
  "('w, 'p) writer_ingress \<Rightarrow> session_core \<Rightarrow> mono_time \<Rightarrow> ('w, 'c) session_driver \<Rightarrow>
     ('w, 'c) session_driver" where
  "apply_actions_without_finishing_close W core now d = settle_batch W now (apply_core W core None d)"

definition apply_actions ::
  "('w, 'p) writer_ingress \<Rightarrow> session_core \<Rightarrow> mono_time \<Rightarrow> ('w, 'c) session_driver \<Rightarrow>
     ('w, 'c) session_driver" where
  "apply_actions W core now d =
     finish_close_if_ready (apply_actions_without_finishing_close W core now d)"

definition apply_actions_with_data_permit ::
  "('w, 'p) writer_ingress \<Rightarrow> session_core \<Rightarrow> 'p option \<Rightarrow> mono_time \<Rightarrow> ('w, 'c) session_driver \<Rightarrow>
     ('w, 'c) session_driver" where
  "apply_actions_with_data_permit W core permit now d =
     finish_close_if_ready (settle_batch W now (apply_core W core permit d))"

definition driver_fail_runtime_invariant ::
  "('w, 'p) writer_ingress \<Rightarrow> mono_time \<Rightarrow> ('w, 'c) session_driver \<Rightarrow> ('w, 'c) session_driver" where
  "driver_fail_runtime_invariant W now d =
     finish_close_if_ready (begin_closing RuntimeInvariant Immediate
       (apply_actions_without_finishing_close W
          (on_shutdown RuntimeInvariant None now (sd_core d)) now d))"

subsection \<open>Inputs\<close>

definition driver_on_connected ::
  "('w, 'p) writer_ingress \<Rightarrow> mono_time \<Rightarrow> ('w, 'c) session_driver \<Rightarrow>
     bool \<times> ('w, 'c) session_driver" where
  "driver_on_connected W now d =
     (if sd_closing d \<noteq> None then (False, d)
      else (True, apply_actions W (on_connected now (sd_core d)) now d))"

definition process_due_deadlines ::
  "('w, 'p) writer_ingress \<Rightarrow> mono_time \<Rightarrow> ('w, 'c) session_driver \<Rightarrow> ('w, 'c) session_driver" where
  "process_due_deadlines W now d =
     (if sd_closing d = None \<and> due (next_deadline (sd_core d)) now
      then apply_actions W (advance_time now (sd_core d)) now d else d)"

definition allocate_command_id ::
  "('w, 'c) session_driver \<Rightarrow> command_id option \<times> ('w, 'c) session_driver" where
  "allocate_command_id d =
     (case sd_next_command_id d of
        None \<Rightarrow> (None, d)
      | Some v \<Rightarrow> (Some v, d\<lparr>sd_next_command_id := checked_succ v\<rparr>))"

text \<open>\<open>into_core_kind\<close> and the call that presents the command to the core.\<close>

definition present_to_core ::
  "command_id \<Rightarrow> accepted_command_kind \<Rightarrow> mono_time \<Rightarrow> session_core \<Rightarrow> session_core" where
  "present_to_core command_id kind now c =
     (case kind of
        Accepted_Reply intent token body \<Rightarrow>
          on_reply command_id (rt_capability_id token) intent body now c
      | Accepted_Control kind \<Rightarrow> on_command \<lparr>cc_command_id = command_id, cc_kind = kind\<rparr> now c
      | Accepted_Send message \<Rightarrow>
          on_command \<lparr>cc_command_id = command_id, cc_kind = Cmd_Send message\<rparr> now c
      | Accepted_Request message \<Rightarrow>
          on_command \<lparr>cc_command_id = command_id, cc_kind = Cmd_Request message\<rparr> now c)"

definition reply_draining :: "accepted_command_kind \<Rightarrow> session_core \<Rightarrow> bool" where
  "reply_draining kind c \<longleftrightarrow>
     (case kind of
        Accepted_Reply intent _ _ \<Rightarrow> intent = Reply_Secondary \<or> intent = Reply_Abort
      | _ \<Rightarrow> False) \<and> replies_blocked c"

text \<open>The part of \<open>drive_next_command\<close> after the Writer reservation.\<close>

definition present_command ::
  "('w, 'p) writer_ingress \<Rightarrow> 'c accepted_command \<Rightarrow> 'p option \<Rightarrow> mono_time \<Rightarrow>
     ('w, 'c) session_driver \<Rightarrow> ('w, 'c) session_driver" where
  "present_command W accepted permit now d =
     (case allocate_command_id d of
        (None, d) \<Rightarrow>
          let d = (case permit of
                     None \<Rightarrow> d
                   | Some p \<Rightarrow> d\<lparr>sd_writer := snd (release_data W p (sd_writer d))\<rparr>)
          in driver_fail_runtime_invariant W now
               (complete_endpoint (ac_completion accepted) (rejected (ac_kind accepted) ConnectionLost) d)
      | (Some command_id, d) \<Rightarrow>
          let d = d\<lparr>sd_completions :=
                      om_insert command_id
                        \<lparr>pc_kind = completion_kind_of (ac_kind accepted),
                         pc_completion = ac_completion accepted\<rparr> (sd_completions d)\<rparr>
          in apply_actions_with_data_permit W
               (present_to_core command_id (ac_kind accepted) now (sd_core d)) permit now d)"

text \<open>The part of it after the command has left the queue.\<close>

definition drive_accepted ::
  "('w, 'p) writer_ingress \<Rightarrow> 'c accepted_command \<Rightarrow> mono_time \<Rightarrow> ('w, 'c) session_driver \<Rightarrow>
     ('w, 'c) session_driver" where
  "drive_accepted W accepted now d =
     (let reject = (\<lambda>error. complete_endpoint (ac_completion accepted)
                              (rejected (ac_kind accepted) error))
      in if reply_draining (ac_kind accepted) (sd_core d) then reject Draining d
         else if requires_data_permit (ac_kind accepted)
         then
           (case try_reserve_message W (command_body (ac_kind accepted)) (sd_writer d) of
              (Inr permit, w) \<Rightarrow> present_command W accepted (Some permit) now (d\<lparr>sd_writer := w\<rparr>)
            | (Inl error, w) \<Rightarrow>
                let d = reject error (d\<lparr>sd_writer := w\<rparr>)
                in if error = ConnectionLost
                   then finish_close_if_ready
                          (shutdown_after_driver_failure W TransportLost None now d)
                   else d)
         else present_command W accepted None now d)"

definition drive_next_command ::
  "('w, 'p) writer_ingress \<Rightarrow> mono_time \<Rightarrow> ('w, 'c) session_driver \<Rightarrow>
     bool \<times> ('w, 'c) session_driver" where
  "drive_next_command W now d =
     (let d = process_due_deadlines W now d
      in if sd_closing d \<noteq> None then (False, d)
         else
           case dequeue d of
             None \<Rightarrow> (False, d)
           | Some (accepted, d) \<Rightarrow> (True, drive_accepted W accepted now d))"

definition driver_on_message ::
  "('w, 'p) writer_ingress \<Rightarrow> protocol_message \<Rightarrow> mono_time \<Rightarrow> ('w, 'c) session_driver \<Rightarrow>
     bool \<times> ('w, 'c) session_driver" where
  "driver_on_message W message now d =
     (let d = process_due_deadlines W now d
      in if sd_closing d \<noteq> None then (False, d)
         else
           let d = apply_actions W (on_message message now (sd_core d)) now d;
               (notice, core) = take_notice (sd_core d);
               d = d\<lparr>sd_core := core\<rparr>
           in (True,
               case notice of
                 None \<Rightarrow> d
               | Some notice \<Rightarrow> effect (Noticed (sd_generation d) notice) d))"

definition driver_on_shutdown ::
  "('w, 'p) writer_ingress \<Rightarrow> close_reason \<Rightarrow> write_id option \<Rightarrow> mono_time \<Rightarrow>
     ('w, 'c) session_driver \<Rightarrow> ('w, 'c) session_driver" where
  "driver_on_shutdown W reason failed_write_id now d =
     finish_close_if_ready (begin_closing reason Immediate
       (apply_actions_without_finishing_close W
          (on_shutdown reason failed_write_id now (sd_core d)) now d))"

definition report_violation ::
  "('w, 'p) writer_ingress \<Rightarrow> inbound_violation \<Rightarrow> inbound_protocol_error \<Rightarrow> mono_time \<Rightarrow>
     ('w, 'c) session_driver \<Rightarrow> bool \<times> ('w, 'c) session_driver" where
  "report_violation W violation report now d =
     (if length (sd_protocol_errors d) \<ge> sd_protocol_error_capacity d
      then (False, driver_on_shutdown W ApplicationBackpressure None now d)
      else
        let d = d\<lparr>sd_protocol_errors := sd_protocol_errors d @ [report]\<rparr>
        in (True, apply_actions W (on_inbound_violation violation now (sd_core d)) now d))"

definition on_decode_step_with_header ::
  "('w, 'p) writer_ingress \<Rightarrow> codec_step \<Rightarrow> bytes option \<Rightarrow> mono_time \<Rightarrow> ('w, 'c) session_driver \<Rightarrow>
     bool \<times> ('w, 'c) session_driver" where
  "on_decode_step_with_header W step raw_header now d =
     (case step of
        Message message \<Rightarrow> driver_on_message W message now d
      | _ \<Rightarrow>
          let d = process_due_deadlines W now d;
              context = (\<lambda>context. case raw_header of
                           None \<Rightarrow> context
                         | Some header \<Rightarrow> context_from_header (sd_generation d) header)
          in if sd_closing d \<noteq> None then (False, d)
             else
               case step of
                 HeaderViolationStep violation \<Rightarrow>
                   report_violation W (Header_violation violation)
                     \<lparr>pe_context = context (context_from_header (sd_generation d) (hv_header violation)),
                      pe_kind = Kind_Header (hv_kind violation), pe_source = None\<rparr> now d
               | PayloadViolationStep violation source \<Rightarrow>
                   report_violation W (Payload_violation violation)
                     \<lparr>pe_context = context (context_from_data (sd_generation d) (pv_header violation)),
                      pe_kind = Kind_Payload (pv_kind violation), pe_source = Some source\<rparr> now d
               | _ \<Rightarrow> (False, driver_fail_runtime_invariant W now d))"

definition set_delivery_capacity ::
  "usize \<Rightarrow> usize \<Rightarrow> ('w, 'c) session_driver \<Rightarrow> ('w, 'c) session_driver" where
  "set_delivery_capacity primaries errors d =
     d\<lparr>sd_inbound_capacity := primaries, sd_protocol_error_capacity := errors\<rparr>"

definition take_protocol_error ::
  "('w, 'c) session_driver \<Rightarrow> inbound_protocol_error option \<times> ('w, 'c) session_driver" where
  "take_protocol_error d =
     (case sd_protocol_errors d of
        [] \<Rightarrow> (None, d)
      | report # rest \<Rightarrow> (Some report, d\<lparr>sd_protocol_errors := rest\<rparr>))"

definition take_inbound ::
  "('w, 'c) session_driver \<Rightarrow> inbound_primary option \<times> ('w, 'c) session_driver" where
  "take_inbound d =
     (case sd_inbound d of
        [] \<Rightarrow> (None, d)
      | primary # rest \<Rightarrow> (Some primary, d\<lparr>sd_inbound := rest\<rparr>))"

definition driver_on_write_outcome_at ::
  "('w, 'p) writer_ingress \<Rightarrow> write_id \<Rightarrow> write_outcome \<Rightarrow> mono_time \<Rightarrow> mono_time \<Rightarrow>
     ('w, 'c) session_driver \<Rightarrow> ('w, 'c) session_driver" where
  "driver_on_write_outcome_at W write_id outcome occurred_at now d =
     (let d = (if outcome = Committed then process_due_deadlines W now d else d);
          d = apply_actions_without_finishing_close W
                (on_write_outcome_at write_id outcome occurred_at now (sd_core d)) now d;
          d = d\<lparr>sd_admitted_writes := sd_admitted_writes d - {write_id}\<rparr>
      in finish_close_if_ready (satisfy_close_barrier write_id d))"

definition begin_shutdown_drain :: "('w, 'c) session_driver \<Rightarrow> ('w, 'c) session_driver" where
  "begin_shutdown_drain d = d\<lparr>sd_shutdown_draining := True\<rparr>"

definition shutdown_drain_ready :: "('w, 'c) session_driver \<Rightarrow> bool" where
  "shutdown_drain_ready d \<longleftrightarrow>
     sd_accepted_commands d = [] \<and> length (sc_open_commands (sd_core d)) = 0 \<and>
     length (sc_reply_contracts (sd_core d)) = 0 \<and> sd_admitted_writes d = {}"

definition driver_finish_shutdown_drain ::
  "('w, 'p) writer_ingress \<Rightarrow> close_reason \<Rightarrow> mono_time \<Rightarrow> ('w, 'c) session_driver \<Rightarrow>
     ('w, 'c) session_driver" where
  "driver_finish_shutdown_drain W reason now d =
     (let d = d\<lparr>sd_shutdown_draining := True\<rparr>
      in finish_close_if_ready
           (case apply_core W (finish_shutdown_drain reason now (sd_core d)) None d of
              (Inl failure, d) \<Rightarrow> handle_action_failure_with_reason W failure now (Some reason) d
            | (Inr _, d) \<Rightarrow> d))"

definition driver_advance_time ::
  "('w, 'p) writer_ingress \<Rightarrow> mono_time \<Rightarrow> ('w, 'c) session_driver \<Rightarrow>
     bool \<times> ('w, 'c) session_driver" where
  "driver_advance_time W now d =
     (if sd_closing d \<noteq> None then (False, d)
      else (True, apply_actions W (advance_time now (sd_core d)) now d))"

definition on_writer_stopped ::
  "('w, 'p) writer_ingress \<Rightarrow> mono_time \<Rightarrow> ('w, 'c) session_driver \<Rightarrow> ('w, 'c) session_driver" where
  "on_writer_stopped W now d =
     (let d = (if sd_closing d = None then driver_on_shutdown W RuntimeInvariant None now d else d);
          d = apply_actions_without_finishing_close W (finalize_writer now (sd_core d)) now d;
          d = d\<lparr>sd_admitted_writes := {}\<rparr>;
          d = (case sd_closing d of
                 None \<Rightarrow> d
               | Some closing \<Rightarrow> d\<lparr>sd_closing := Some (closing\<lparr>cl_barrier_write_id := None\<rparr>)\<rparr>)
      in drain_accepted_commands (finish_close_if_ready d))"

end
