(* ===== verification/Hsms_Writer.thy ===== *)
theory Hsms_Writer
  imports Hsms_Driver
begin

section \<open>The bounded Writer ingress\<close>

text \<open>
  The admission side of \<open>src/hsms/generation/transport/bounded_writer.rs\<close>: two independent
  lanes of slots, a byte budget for data frames and one common FIFO, with the capacity of every
  frame charged until its result is consumed.

  The semaphores, the channel and the clock are those of the tokio crate and the standard library;
  the record \<open>tokio\<close> holds the operations that the code calls, and \<open>tokio_laws\<close> what their
  documentation promises of them, in terms of the free permits of a semaphore and the free places
  and queued frames of a channel. An owned permit that is dropped gives its capacity back, so every
  early return of the source that drops permits is written out as such.
\<close>

subsection \<open>What the code calls\<close>

type_synonym instant = nat

datatype lane = Data_lane | Control_lane

record charge =
  cg_lane :: lane
  cg_bytes :: "usize option"

record queued_frame =
  qf_write_id :: write_id
  qf_bytes :: bytes
  qf_deadline :: instant
  qf_charge :: charge

record ('s, 'q) tokio =
  sem_new :: "usize \<Rightarrow> 's"
  sem_try_acquire :: "usize \<Rightarrow> 's \<Rightarrow> 's option"
  sem_release :: "usize \<Rightarrow> 's \<Rightarrow> 's"
  ch_new :: "usize \<Rightarrow> 'q"
  ch_is_closed :: "'q \<Rightarrow> bool"
  ch_try_reserve :: "'q \<Rightarrow> 'q option"
  ch_unreserve :: "'q \<Rightarrow> 'q"
  ch_send :: "queued_frame \<Rightarrow> 'q \<Rightarrow> 'q"
  ch_recv :: "'q \<Rightarrow> (queued_frame \<times> 'q) option"
  ch_close :: "'q \<Rightarrow> 'q"
  sem_max_permits :: usize
  instant_checked_add :: "instant \<Rightarrow> duration \<Rightarrow> instant option"

definition tokio_laws ::
  "('s, 'q) tokio \<Rightarrow> ('s \<Rightarrow> nat) \<Rightarrow> ('q \<Rightarrow> nat) \<Rightarrow> ('q \<Rightarrow> queued_frame list) \<Rightarrow> bool" where
  "tokio_laws T available places queued \<longleftrightarrow>
     (\<forall>n. available (sem_new T n) = n) \<and>
     (\<forall>n s. case sem_try_acquire T n s of
        None \<Rightarrow> available s < n | Some s' \<Rightarrow> n \<le> available s \<and> available s' = available s - n) \<and>
     (\<forall>n s. available (sem_release T n s) = available s + n) \<and>
     (\<forall>n. places (ch_new T n) = n \<and> queued (ch_new T n) = [] \<and> \<not> ch_is_closed T (ch_new T n)) \<and>
     (\<forall>q. case ch_try_reserve T q of
        None \<Rightarrow> ch_is_closed T q \<or> places q = 0
      | Some q' \<Rightarrow> 0 < places q \<and> places q' = places q - 1 \<and> queued q' = queued q \<and>
          ch_is_closed T q' = ch_is_closed T q) \<and>
     (\<forall>q. places (ch_unreserve T q) = places q + 1 \<and> queued (ch_unreserve T q) = queued q \<and>
        ch_is_closed T (ch_unreserve T q) = ch_is_closed T q) \<and>
     (\<forall>q f. places (ch_send T f q) = places q \<and> queued (ch_send T f q) = queued q @ [f] \<and>
        ch_is_closed T (ch_send T f q) = ch_is_closed T q) \<and>
     (\<forall>q. case ch_recv T q of
        None \<Rightarrow> queued q = []
      | Some (f, q') \<Rightarrow> queued q = f # queued q' \<and> places q' = places q + 1 \<and>
          ch_is_closed T q' = ch_is_closed T q) \<and>
     (\<forall>q. places (ch_close T q) = places q \<and> queued (ch_close T q) = queued q \<and>
        ch_is_closed T (ch_close T q))"

subsection \<open>State and construction\<close>

record writer_policy =
  wp_data_bytes :: u32
  wp_residence :: duration
  wp_active_write :: duration

record prepared_data =
  pd_owner :: nat
  pd_bytes :: bytes
  pd_charge :: charge

text \<open>\<open>bw_now\<close> is what \<open>Instant::now()\<close> returns; only the environment changes it.\<close>

record ('s, 'q) bounded_writer =
  bw_owner :: nat
  bw_queue :: 'q
  bw_control_slots :: 's
  bw_data_slots :: 's
  bw_data_bytes :: 's
  bw_limits :: endpoint_limits
  bw_policy :: writer_policy
  bw_now :: instant

definition bounded_writer_new ::
  "('s, 'q) tokio \<Rightarrow> nat \<Rightarrow> endpoint_limits \<Rightarrow> writer_policy \<Rightarrow> instant \<Rightarrow>
     (('s, 'q) bounded_writer, string) result" where
  "bounded_writer_new T owner L policy epoch =
     bind_res (ok_or (checked_add (el_data_lane_capacity L) (el_critical_lane_capacity L))
                     ''Writer capacity overflow'') (\<lambda>count.
       if count > sem_max_permits T \<or> wp_data_bytes policy < 14 \<or>
          unat (wp_data_bytes policy) > sem_max_permits T
       then Err ''Writer capacity is not representable''
       else if wp_residence policy = 0 \<or> wp_active_write policy = 0 \<or>
          instant_checked_add T epoch (wp_residence policy) = None \<or>
          instant_checked_add T epoch (wp_active_write policy) = None
       then Err ''Writer deadline is not representable''
       else Ok \<lparr>bw_owner = owner, bw_queue = ch_new T count,
                bw_control_slots = sem_new T (el_critical_lane_capacity L),
                bw_data_slots = sem_new T (el_data_lane_capacity L),
                bw_data_bytes = sem_new T (unat (wp_data_bytes policy)),
                bw_limits = L, bw_policy = policy, bw_now = epoch\<rparr>)"

definition bounded_writer_from_config ::
  "('s, 'q) tokio \<Rightarrow> (duration \<Rightarrow> bool) \<Rightarrow> nat \<Rightarrow> 'addr endpoint_config \<Rightarrow> instant \<Rightarrow>
     (('s, 'q) bounded_writer, config_error) result" where
  "bounded_writer_from_config T clock_fits owner config epoch =
     bind_res (endpoint_config_validate clock_fits config) (\<lambda>_.
       let policy = ec_runtime config in
       case bounded_writer_new T owner (ec_limits config)
              \<lparr>wp_data_bytes = rp_write_bytes policy, wp_residence = rp_residence policy,
               wp_active_write = rp_write policy\<rparr> epoch of
         Inl description \<Rightarrow> Err (RuntimePolicyError description)
       | Inr w \<Rightarrow> Ok w)"

definition admission_deadline :: "('s, 'q) tokio \<Rightarrow> ('s, 'q) bounded_writer \<Rightarrow> instant option" where
  "admission_deadline T w = instant_checked_add T (bw_now w) (wp_residence (bw_policy w))"

subsection \<open>Dropping permits\<close>

definition release_slot ::
  "('s, 'q) tokio \<Rightarrow> lane \<Rightarrow> ('s, 'q) bounded_writer \<Rightarrow> ('s, 'q) bounded_writer" where
  "release_slot T lane w =
     (case lane of
        Data_lane \<Rightarrow> w\<lparr>bw_data_slots := sem_release T 1 (bw_data_slots w)\<rparr>
      | Control_lane \<Rightarrow> w\<lparr>bw_control_slots := sem_release T 1 (bw_control_slots w)\<rparr>)"

definition drop_charge ::
  "('s, 'q) tokio \<Rightarrow> charge \<Rightarrow> ('s, 'q) bounded_writer \<Rightarrow> ('s, 'q) bounded_writer" where
  "drop_charge T charge w =
     release_slot T (cg_lane charge)
       (case cg_bytes charge of
          None \<Rightarrow> w | Some n \<Rightarrow> w\<lparr>bw_data_bytes := sem_release T n (bw_data_bytes w)\<rparr>)"

definition drop_permit ::
  "('s, 'q) tokio \<Rightarrow> prepared_data \<Rightarrow> ('s, 'q) bounded_writer \<Rightarrow> ('s, 'q) bounded_writer" where
  "drop_permit T permit w =
     drop_charge T (pd_charge permit) (w\<lparr>bw_queue := ch_unreserve T (bw_queue w)\<rparr>)"

subsection \<open>Admission\<close>

definition bw_try_reserve_message ::
  "('s, 'q) tokio \<Rightarrow> secs_item option \<Rightarrow> ('s, 'q) bounded_writer \<Rightarrow>
     (prepared_data, operation_error) result \<times> ('s, 'q) bounded_writer" where
  "bw_try_reserve_message T body w =
     (if ch_is_closed T (bw_queue w) then (Err ConnectionLost, w)
      else
        case prepare_body body of
          Inl e \<Rightarrow> (Err (Encode e), w)
        | Inr plan \<Rightarrow>
            (case plan_data (el_max_message_length (bw_limits w)) (body_plan_length plan) of
               Inl _ \<Rightarrow>
                 (Err (OutboundFrameTooLarge (body_plan_length plan)
                    (el_max_message_length (bw_limits w))), w)
             | Inr frame \<Rightarrow>
                 if fp_encoded_length frame > 0xFFFFFFFF then (Err Backpressure, w)
                 else
                   let n = fp_encoded_length frame in
                   case sem_try_acquire T 1 (bw_data_slots w) of
                     None \<Rightarrow> (Err Backpressure, w)
                   | Some slots \<Rightarrow>
                       let w = w\<lparr>bw_data_slots := slots\<rparr> in
                       case sem_try_acquire T n (bw_data_bytes w) of
                         None \<Rightarrow> (Err Backpressure, release_slot T Data_lane w)
                       | Some byte_permits \<Rightarrow>
                           let w = w\<lparr>bw_data_bytes := byte_permits\<rparr>;
                               charge = \<lparr>cg_lane = Data_lane, cg_bytes = Some n\<rparr>
                           in case ch_try_reserve T (bw_queue w) of
                                None \<Rightarrow>
                                  (Err (if ch_is_closed T (bw_queue w) then ConnectionLost
                                        else Backpressure), drop_charge T charge w)
                              | Some queue \<Rightarrow>
                                  let w = w\<lparr>bw_queue := queue\<rparr>;
                                      permit = (\<lambda>encoded. \<lparr>pd_owner = bw_owner w,
                                                  pd_bytes = encoded, pd_charge = charge\<rparr>)
                                  in case body_plan_write_into plan (replicate 14 0) of
                                       Inl e \<Rightarrow> (Err (Encode e), drop_permit T (permit []) w)
                                     | Inr encoded \<Rightarrow> (Ok (permit encoded), w)))"

definition bw_try_reserve_data ::
  "('s, 'q) tokio \<Rightarrow> ('s, 'q) bounded_writer \<Rightarrow>
     (prepared_data, data_reserve_error) result \<times> ('s, 'q) bounded_writer" where
  "bw_try_reserve_data T w =
     (case bw_try_reserve_message T None w of
        (Inl error, w) \<Rightarrow> (Err (if error = ConnectionLost then Reserve_Closed else Reserve_Full), w)
      | (Inr permit, w) \<Rightarrow> (Ok permit, w))"

text \<open>A permit of another Writer is dropped too, which gives capacity to that Writer, not to this one.\<close>

definition bw_release_data ::
  "('s, 'q) tokio \<Rightarrow> prepared_data \<Rightarrow> ('s, 'q) bounded_writer \<Rightarrow>
     (unit, data_permit_error) result \<times> ('s, 'q) bounded_writer" where
  "bw_release_data T permit w =
     (if bw_owner w \<noteq> pd_owner permit then (Err Permit_Invariant, w)
      else (Ok (), drop_permit T permit w))"

definition bw_admit_reserved_data ::
  "('s, 'q) tokio \<Rightarrow> prepared_data \<Rightarrow> outbound_frame \<Rightarrow> ('s, 'q) bounded_writer \<Rightarrow>
     (unit, reserved_data_admission_error) result \<times> ('s, 'q) bounded_writer" where
  "bw_admit_reserved_data T permit frame w =
     (if bw_owner w \<noteq> pd_owner permit then (Err Reserved_Invariant, w)
      else if ch_is_closed T (bw_queue w) then (Err Reserved_Closed, drop_permit T permit w)
      else
        case of_message frame of
          Control _ \<Rightarrow> (Err Reserved_Invariant, drop_permit T permit w)
        | Data message \<Rightarrow>
            (case stamp_frame (bw_limits w) (pd_bytes permit) (dm_header message) of
               None \<Rightarrow> (Err Reserved_Invariant, drop_permit T permit w)
             | Some stamped \<Rightarrow>
                 (case admission_deadline T w of
                    None \<Rightarrow> (Err Reserved_Invariant, drop_permit T permit w)
                  | Some deadline \<Rightarrow>
                      (Ok (), w\<lparr>bw_queue := ch_send T
                         \<lparr>qf_write_id = of_write_id frame, qf_bytes = stamped,
                          qf_deadline = deadline, qf_charge = pd_charge permit\<rparr> (bw_queue w)\<rparr>))))"

definition bw_try_admit ::
  "('s, 'q) tokio \<Rightarrow> outbound_frame \<Rightarrow> ('s, 'q) bounded_writer \<Rightarrow>
     (unit, write_admission_error) result \<times> ('s, 'q) bounded_writer" where
  "bw_try_admit T frame w =
     (case of_message frame of
        Data _ \<Rightarrow> (Err Write_Invariant, w)
      | Control message \<Rightarrow>
          if ch_is_closed T (bw_queue w) then (Err Write_Closed, w)
          else
            (case sem_try_acquire T 1 (bw_control_slots w) of
               None \<Rightarrow> (Err Write_Full, w)
             | Some slots \<Rightarrow>
                 let w = w\<lparr>bw_control_slots := slots\<rparr>;
                     charge = \<lparr>cg_lane = Control_lane, cg_bytes = None\<rparr>
                 in case ch_try_reserve T (bw_queue w) of
                      None \<Rightarrow>
                        (Err (if ch_is_closed T (bw_queue w) then Write_Closed else Write_Full),
                         drop_charge T charge w)
                    | Some queue \<Rightarrow>
                        let w = w\<lparr>bw_queue := queue\<rparr> in
                        case admission_deadline T w of
                          None \<Rightarrow>
                            (Err Write_Invariant,
                             drop_charge T charge (w\<lparr>bw_queue := ch_unreserve T (bw_queue w)\<rparr>))
                        | Some deadline \<Rightarrow>
                            (Ok (), w\<lparr>bw_queue := ch_send T
                               \<lparr>qf_write_id = of_write_id frame, qf_bytes = encode_control message,
                                qf_deadline = deadline, qf_charge = charge\<rparr> (bw_queue w)\<rparr>)))"

text \<open>The Writer as the driver sees it.\<close>

definition bounded_ingress ::
  "('s, 'q) tokio \<Rightarrow> (('s, 'q) bounded_writer, prepared_data) writer_ingress" where
  "bounded_ingress T =
     \<lparr>try_reserve_message = bw_try_reserve_message T, release_data = bw_release_data T,
      admit_reserved_data = bw_admit_reserved_data T, try_admit = bw_try_admit T\<rparr>"

subsection \<open>What the Writer promises\<close>

text \<open>
  The specification knows only whether the Writer is open, how much of each budget is free, and the
  wire bytes of the frames admitted and not yet taken, in order.
\<close>

record writer_spec =
  ws_open :: bool
  ws_data :: nat
  ws_control :: nat
  ws_bytes :: nat
  ws_fifo :: "(write_id \<times> bytes) list"

definition spec_reserve ::
  "endpoint_limits \<Rightarrow> secs_item option \<Rightarrow> writer_spec \<Rightarrow> (bytes, operation_error) result \<times> writer_spec"
where
  "spec_reserve L body s =
     (if \<not> ws_open s then (Err ConnectionLost, s)
      else
        case reserve_frame L body of
          Inl e \<Rightarrow> (Err e, s)
        | Inr frame \<Rightarrow>
            if ws_data s = 0 \<or> ws_bytes s < length frame then (Err Backpressure, s)
            else (Ok frame, s\<lparr>ws_data := ws_data s - 1, ws_bytes := ws_bytes s - length frame\<rparr>))"

definition spec_release :: "bytes \<Rightarrow> writer_spec \<Rightarrow> writer_spec" where
  "spec_release frame s = s\<lparr>ws_data := ws_data s + 1, ws_bytes := ws_bytes s + length frame\<rparr>"

definition spec_admit_data ::
  "bytes \<Rightarrow> write_id \<Rightarrow> data_header \<Rightarrow> writer_spec \<Rightarrow>
     (unit, reserved_data_admission_error) result \<times> writer_spec" where
  "spec_admit_data frame write_id header s =
     (if \<not> ws_open s then (Err Reserved_Closed, spec_release frame s)
      else (Ok (), s\<lparr>ws_fifo := ws_fifo s @
              [(write_id, framed (data_header_bytes header @ drop 14 frame))]\<rparr>))"

definition spec_admit_control ::
  "write_id \<Rightarrow> control_message \<Rightarrow> writer_spec \<Rightarrow> (unit, write_admission_error) result \<times> writer_spec"
where
  "spec_admit_control write_id message s =
     (if \<not> ws_open s then (Err Write_Closed, s)
      else if ws_control s = 0 then (Err Write_Full, s)
      else (Ok (), s\<lparr>ws_control := ws_control s - 1,
                     ws_fifo := ws_fifo s @ [(write_id, framed (control_header_bytes message))]\<rparr>))"

definition writer_abs ::
  "('s, 'q) tokio \<Rightarrow> ('s \<Rightarrow> nat) \<Rightarrow> ('q \<Rightarrow> queued_frame list) \<Rightarrow> ('s, 'q) bounded_writer \<Rightarrow> writer_spec"
where
  "writer_abs T available queued w =
     \<lparr>ws_open = (\<not> ch_is_closed T (bw_queue w)), ws_data = available (bw_data_slots w),
      ws_control = available (bw_control_slots w), ws_bytes = available (bw_data_bytes w),
      ws_fifo = map (\<lambda>f. (qf_write_id f, qf_bytes f)) (queued (bw_queue w))\<rparr>"

text \<open>
  The common queue has a free place for every free slot of either lane, because a frame gives its
  slot back only after it has left the queue.
\<close>

definition writer_ok :: "('s \<Rightarrow> nat) \<Rightarrow> ('q \<Rightarrow> nat) \<Rightarrow> ('s, 'q) bounded_writer \<Rightarrow> bool" where
  "writer_ok available places w \<longleftrightarrow>
     available (bw_control_slots w) + available (bw_data_slots w) \<le> places (bw_queue w)"

definition permit_for :: "('s, 'q) bounded_writer \<Rightarrow> bytes \<Rightarrow> prepared_data \<Rightarrow> bool" where
  "permit_for w frame p \<longleftrightarrow>
     p = \<lparr>pd_owner = bw_owner w, pd_bytes = frame,
          pd_charge = \<lparr>cg_lane = Data_lane, cg_bytes = Some (length frame)\<rparr>\<rparr> \<and>
     (\<exists>body. reserve_frame (bw_limits w) body = Ok frame)"

lemma tokio_lawsD:
  assumes "tokio_laws T available places queued"
  shows "available (sem_new T n) = n" "places (ch_new T n) = n" "queued (ch_new T n) = []"
    "\<not> ch_is_closed T (ch_new T n)"
    "sem_try_acquire T n s = None \<Longrightarrow> available s < n"
    "sem_try_acquire T n s = Some s' \<Longrightarrow> n \<le> available s \<and> available s' = available s - n"
    "available (sem_release T n s) = available s + n"
    "ch_try_reserve T q = None \<Longrightarrow> ch_is_closed T q \<or> places q = 0"
    "ch_try_reserve T q = Some q' \<Longrightarrow> 0 < places q \<and> places q' = places q - 1 \<and>
       queued q' = queued q \<and> ch_is_closed T q' = ch_is_closed T q"
    "places (ch_unreserve T q) = places q + 1" "queued (ch_unreserve T q) = queued q"
    "ch_is_closed T (ch_unreserve T q) = ch_is_closed T q"
    "places (ch_send T f q) = places q" "queued (ch_send T f q) = queued q @ [f]"
    "ch_is_closed T (ch_send T f q) = ch_is_closed T q"
    "ch_recv T q = Some (f, q') \<Longrightarrow> queued q = f # queued q' \<and> places q' = places q + 1 \<and>
       ch_is_closed T q' = ch_is_closed T q"
    "places (ch_close T q) = places q" "queued (ch_close T q) = queued q" "ch_is_closed T (ch_close T q)"
proof -
  note laws = assms [unfolded tokio_laws_def]
  show "sem_try_acquire T n s = None \<Longrightarrow> available s < n"
    "sem_try_acquire T n s = Some s' \<Longrightarrow> n \<le> available s \<and> available s' = available s - n"
    using laws [THEN conjunct2, THEN conjunct1, THEN spec [of _ n], THEN spec [of _ s]] by simp_all
  show "ch_try_reserve T q = None \<Longrightarrow> ch_is_closed T q \<or> places q = 0"
    "ch_try_reserve T q = Some q' \<Longrightarrow> 0 < places q \<and> places q' = places q - 1 \<and>
       queued q' = queued q \<and> ch_is_closed T q' = ch_is_closed T q"
    using laws [THEN conjunct2, THEN conjunct2, THEN conjunct2, THEN conjunct2, THEN conjunct1,
        THEN spec [of _ q]] by simp_all
  show "ch_recv T q = Some (f, q') \<Longrightarrow> queued q = f # queued q' \<and> places q' = places q + 1 \<and>
       ch_is_closed T q' = ch_is_closed T q"
    using laws [THEN conjunct2, THEN conjunct2, THEN conjunct2, THEN conjunct2, THEN conjunct2,
        THEN conjunct2, THEN conjunct2, THEN conjunct1, THEN spec [of _ q]] by simp
qed (use assms in \<open>simp_all add: tokio_laws_def\<close>)

lemma reserve_refines:
  assumes T: "tokio_laws T available places queued" and ok: "writer_ok available places w"
    and r: "bw_try_reserve_message T body w = (r, w')"
  shows "writer_ok available places w' \<and>
    (case r of
       Inl e \<Rightarrow> spec_reserve (bw_limits w) body (writer_abs T available queued w) =
         (Err e, writer_abs T available queued w')
     | Inr p \<Rightarrow> \<exists>frame. permit_for w' frame p \<and> bw_limits w' = bw_limits w \<and>
         spec_reserve (bw_limits w) body (writer_abs T available queued w) =
         (Ok frame, writer_abs T available queued w'))"
proof (cases "ch_is_closed T (bw_queue w)")
  case True
  with r ok show ?thesis
    by (auto simp: bw_try_reserve_message_def spec_reserve_def writer_abs_def)
next
  case unclosed: False
  let ?L = "el_max_message_length (bw_limits w)"
  show ?thesis
  proof (cases "reserve_frame (bw_limits w) body")
    case (Inl e)
    then have "r = Err e" "w' = w"
      using r unclosed prepare_body_Ok [of body]
      by (auto simp: bw_try_reserve_message_def reserve_frame_def split: sum.splits if_splits)
    with Inl unclosed ok show ?thesis by (simp add: spec_reserve_def writer_abs_def)
  next
    case (Inr frame)
    from Inr obtain plan where plan: "prepare_body body = Ok plan"
      by (auto simp: reserve_frame_def split: sum.splits)
    note pb = prepare_body_Ok [OF plan, of "replicate 14 0"]
    obtain fp where fp: "plan_data ?L (body_plan_length plan) = Ok fp"
      "fp_encoded_length fp \<le> 0xFFFFFFFF"
      using Inr plan by (auto simp: reserve_frame_def split: sum.splits if_splits)
    have frame: "frame = replicate 14 0 @ body_bytes body" using reserve_frame_Ok [OF Inr] by simp
    have n: "fp_encoded_length fp = length frame" using fp(1) pb frame by (simp add: plan_data_Ok)
    note start = r [unfolded bw_try_reserve_message_def Let_def, simplified unclosed plan fp n]
    show ?thesis
    proof (cases "sem_try_acquire T 1 (bw_data_slots w)")
      case None
      then have "available (bw_data_slots w) = 0" using tokio_lawsD(5) [OF T None] by simp
      with start None fp n Inr unclosed ok show ?thesis
        by (auto simp: spec_reserve_def writer_abs_def)
    next
      case (Some slots)
      note slot = tokio_lawsD(6) [OF T Some]
      show ?thesis
      proof (cases "sem_try_acquire T (length frame) (bw_data_bytes w)")
        case None
        with start Some fp n unclosed have "r = Err Backpressure"
          "w' = release_slot T Data_lane (w\<lparr>bw_data_slots := slots\<rparr>)" by auto
        then show ?thesis
          using tokio_lawsD(5) [OF T None] slot Inr unclosed ok tokio_lawsD(7) [OF T]
          by (simp add: spec_reserve_def writer_abs_def release_slot_def writer_ok_def)
      next
        case acquired: (Some byte_permits)
        note bytes = tokio_lawsD(6) [OF T acquired]
        obtain queue where queue: "ch_try_reserve T (bw_queue w) = Some queue"
          using tokio_lawsD(8) [OF T, of "bw_queue w"] unclosed slot ok
          by (cases "ch_try_reserve T (bw_queue w)") (auto simp: writer_ok_def)
        from start Some acquired queue fp n unclosed pb frame
        have "r = Ok \<lparr>pd_owner = bw_owner w, pd_bytes = frame,
            pd_charge = \<lparr>cg_lane = Data_lane, cg_bytes = Some (length frame)\<rparr>\<rparr>"
          "w' = w\<lparr>bw_data_slots := slots, bw_data_bytes := byte_permits, bw_queue := queue\<rparr>"
          by auto
        then show ?thesis
          using slot bytes tokio_lawsD(9) [OF T queue] Inr unclosed ok
          by (auto simp: spec_reserve_def writer_abs_def permit_for_def writer_ok_def)
      qed
    qed
  qed
qed

lemma drop_refines:
  assumes "tokio_laws T available places queued" "writer_ok available places w" "permit_for w frame p"
  shows "writer_ok available places (drop_permit T p w) \<and>
    writer_abs T available queued (drop_permit T p w) = spec_release frame (writer_abs T available queued w)"
  using assms(2,3) tokio_lawsD [OF assms(1)]
  by (simp add: permit_for_def drop_permit_def drop_charge_def release_slot_def writer_ok_def
      writer_abs_def spec_release_def)

lemma release_refines:
  assumes "tokio_laws T available places queued" "writer_ok available places w" "permit_for w frame p"
    and "bw_release_data T p w = (r, w')"
  shows "writer_ok available places w' \<and> r = Ok () \<and>
    writer_abs T available queued w' = spec_release frame (writer_abs T available queued w)"
  using drop_refines [OF assms(1-3)] assms(3,4) by (auto simp: bw_release_data_def permit_for_def)

lemma admit_data_refines:
  assumes T: "tokio_laws T available places queued" and ok: "writer_ok available places w"
    and p: "permit_for w frame p" and now: "admission_deadline T w \<noteq> None"
    and r: "bw_admit_reserved_data T p \<lparr>of_write_id = k, of_message = Data m\<rparr> w = (r, w')"
  shows "writer_ok available places w' \<and>
    spec_admit_data frame k (dm_header m) (writer_abs T available queued w) =
      (r, writer_abs T available queued w')"
proof (cases "ch_is_closed T (bw_queue w)")
  case True
  with r p drop_refines [OF T ok p] show ?thesis
    by (auto simp: bw_admit_reserved_data_def spec_admit_data_def permit_for_def) (simp_all add: writer_abs_def)
next
  case False
  obtain body where body: "reserve_frame (bw_limits w) body = Ok frame"
    using p by (auto simp: permit_for_def)
  have "stamp_frame (bw_limits w) frame (dm_header m) =
      Some (framed (data_header_bytes (dm_header m) @ drop 14 frame))"
    using stamp_reserved [OF body] reserve_frame_Ok [OF body] by simp
  with False r p now show ?thesis
    using ok tokio_lawsD(13-15) [OF T]
    by (auto simp: bw_admit_reserved_data_def spec_admit_data_def permit_for_def writer_abs_def
        writer_ok_def)
qed

lemma admit_control_refines:
  assumes T: "tokio_laws T available places queued" and ok: "writer_ok available places w"
    and now: "admission_deadline T w \<noteq> None"
    and r: "bw_try_admit T \<lparr>of_write_id = k, of_message = Control m\<rparr> w = (r, w')"
  shows "writer_ok available places w' \<and>
    spec_admit_control k m (writer_abs T available queued w) = (r, writer_abs T available queued w')"
proof (cases "ch_is_closed T (bw_queue w)")
  case True
  with r ok show ?thesis by (auto simp: bw_try_admit_def spec_admit_control_def writer_abs_def)
next
  case unclosed: False
  show ?thesis
  proof (cases "sem_try_acquire T 1 (bw_control_slots w)")
    case None
    then show ?thesis
      using tokio_lawsD(5) [OF T None] unclosed r ok
      by (auto simp: bw_try_admit_def spec_admit_control_def writer_abs_def)
  next
    case (Some slots)
    note slot = tokio_lawsD(6) [OF T Some]
    obtain queue where queue: "ch_try_reserve T (bw_queue w) = Some queue"
      using tokio_lawsD(8) [OF T, of "bw_queue w"] unclosed slot ok
      by (cases "ch_try_reserve T (bw_queue w)") (auto simp: writer_ok_def)
    obtain deadline where d: "admission_deadline T (w\<lparr>bw_control_slots := slots, bw_queue := queue\<rparr>) = Some deadline"
      using now by (auto simp: admission_deadline_def)
    from r unclosed Some queue d show ?thesis
      using slot tokio_lawsD(9) [OF T queue] tokio_lawsD(13-15) [OF T] ok
      by (auto simp: bw_try_admit_def spec_admit_control_def writer_abs_def writer_ok_def Let_def
          encode_control_framed)
  qed
qed

lemma new_writer_refines:
  assumes "tokio_laws T available places queued" "bounded_writer_new T owner L policy epoch = Ok w"
  shows "writer_ok available places w \<and>
    writer_abs T available queued w =
      \<lparr>ws_open = True, ws_data = el_data_lane_capacity L, ws_control = el_critical_lane_capacity L,
       ws_bytes = unat (wp_data_bytes policy), ws_fifo = []\<rparr> \<and>
    bw_limits w = L"
  using assms(2) tokio_lawsD(1-4) [OF assms(1)]
  by (auto simp: bounded_writer_new_def res_simps checked_add_def writer_ok_def writer_abs_def
      split: if_splits)

text \<open>An instance of the laws: counters, and a list with a flag.\<close>

definition counting_tokio :: "(nat, bool \<times> nat \<times> queued_frame list) tokio" where
  "counting_tokio =
     \<lparr>sem_new = (\<lambda>n. n), sem_try_acquire = (\<lambda>n s. if n \<le> s then Some (s - n) else None),
      sem_release = (\<lambda>n s. s + n), ch_new = (\<lambda>n. (False, n, [])), ch_is_closed = fst,
      ch_try_reserve = (\<lambda>(c, p, fs). if c \<or> p = 0 then None else Some (c, p - 1, fs)),
      ch_unreserve = (\<lambda>(c, p, fs). (c, p + 1, fs)), ch_send = (\<lambda>f (c, p, fs). (c, p, fs @ [f])),
      ch_recv = (\<lambda>(c, p, fs). case fs of [] \<Rightarrow> None | f # fs \<Rightarrow> Some (f, (c, p + 1, fs))),
      ch_close = (\<lambda>(c, p, fs). (True, p, fs)), sem_max_permits = 2 ^ 61 - 1,
      instant_checked_add = (\<lambda>t d. Some (t + d))\<rparr>"

lemma counting_tokio_laws: "tokio_laws counting_tokio id (\<lambda>(_, p, _). p) (\<lambda>(_, _, fs). fs)"
  by (auto simp: tokio_laws_def counting_tokio_def split: list.split)

definition sample_writer :: "(nat, bool \<times> nat \<times> queued_frame list) bounded_writer" where
  "sample_writer = \<lparr>bw_owner = 0, bw_queue = (False, 288, []), bw_control_slots = 32, bw_data_slots = 256,
     bw_data_bytes = 64 * 1024 * 1024, bw_limits = limits_default,
     bw_policy = \<lparr>wp_data_bytes = 64 * 1024 * 1024, wp_residence = seconds 10, wp_active_write = seconds 10\<rparr>,
     bw_now = 0\<rparr>"

lemma sample_writer_new:
  "bounded_writer_from_config counting_tokio (\<lambda>_. True) 0 (endpoint_config_new Active () (SessionId 7)) 0 =
     Ok sample_writer"
  unfolding bounded_writer_from_config_def endpoint_config_default_valid bind_res_simps
  by (simp add: bounded_writer_new_def checked_add_def usize_max_def endpoint_config_new_def Let_def
      limits_default_def runtime_policy_default_def counting_tokio_def sample_writer_def seconds_def)

text \<open>C21: The bounded Writer refines its contract. The contract knows whether the Writer is open, how
  much of each lane and of the byte budget is free, and the wire bytes admitted in order: reserving
  takes exactly one data slot and the frame's bytes or changes nothing, releasing gives them back, and
  an admission appends exactly the encoding of the frame and fails for lack of capacity only in its own
  lane. Every operation returns what the contract returns and leaves the Writer in the state the
  contract says.\<close>

theorem bounded_writer_refines:
  assumes T: "tokio_laws T available places queued" and ok: "writer_ok available places w"
    and now: "admission_deadline T w \<noteq> None"
  shows "(\<forall>body r w'. bw_try_reserve_message T body w = (r, w') \<longrightarrow> writer_ok available places w' \<and>
      (case r of
         Inl e \<Rightarrow> spec_reserve (bw_limits w) body (writer_abs T available queued w) =
           (Err e, writer_abs T available queued w')
       | Inr p \<Rightarrow> \<exists>frame. permit_for w' frame p \<and> bw_limits w' = bw_limits w \<and>
           spec_reserve (bw_limits w) body (writer_abs T available queued w) =
           (Ok frame, writer_abs T available queued w'))) \<and>
    (\<forall>p frame r w'. permit_for w frame p \<and> bw_release_data T p w = (r, w') \<longrightarrow>
      writer_ok available places w' \<and> r = Ok () \<and>
      writer_abs T available queued w' = spec_release frame (writer_abs T available queued w)) \<and>
    (\<forall>p frame k m r w'. permit_for w frame p \<and>
      bw_admit_reserved_data T p \<lparr>of_write_id = k, of_message = Data m\<rparr> w = (r, w') \<longrightarrow>
      writer_ok available places w' \<and>
      spec_admit_data frame k (dm_header m) (writer_abs T available queued w) =
        (r, writer_abs T available queued w')) \<and>
    (\<forall>k m r w'. bw_try_admit T \<lparr>of_write_id = k, of_message = Control m\<rparr> w = (r, w') \<longrightarrow>
      writer_ok available places w' \<and>
      spec_admit_control k m (writer_abs T available queued w) = (r, writer_abs T available queued w'))"
  by (intro conjI allI impI; (elim conjE)?)
    (use reserve_refines [OF T ok] release_refines [OF T ok] admit_data_refines [OF T ok _ now]
      admit_control_refines [OF T ok now] in \<open>simp_all\<close>)

lemma bounded_writer_refines_witness:
  "\<exists>r w'. bw_try_admit counting_tokio \<lparr>of_write_id = 4, of_message = Control (LinktestRequest 7)\<rparr> sample_writer =
     (r, w') \<and>
   spec_admit_control 4 (LinktestRequest 7) (writer_abs counting_tokio id (\<lambda>(_, _, fs). fs) sample_writer) =
     (r, writer_abs counting_tokio id (\<lambda>(_, _, fs). fs) w')"
proof -
  have "writer_ok id (\<lambda>(_, p, _). p) sample_writer" "admission_deadline counting_tokio sample_writer \<noteq> None"
    by (simp_all add: writer_ok_def sample_writer_def admission_deadline_def counting_tokio_def)
  note refines = bounded_writer_refines [OF counting_tokio_laws this, THEN conjunct2, THEN conjunct2,
      THEN conjunct2, rule_format, of 4 "LinktestRequest 7"]
  obtain r w' where r: "bw_try_admit counting_tokio
      \<lparr>of_write_id = 4, of_message = Control (LinktestRequest 7)\<rparr> sample_writer = (r, w')" by fastforce
  from refines [OF this] r show ?thesis by blast
qed

end
