(* ===== verification/Hsms_Transport.thy ===== *)
theory Hsms_Transport
  imports Hsms_Writer
begin

section \<open>Reading and writing frames on a byte stream\<close>

text \<open>
  \<open>src/hsms/generation/transport/io.rs\<close> and the worker loop of \<open>bounded_writer.rs\<close>. A \<open>tokio::select!\<close> returns the first of its branches that
  is ready, in the order given; which one that is depends on the environment. So an asynchronous
  loop is a function of the list of what its successive waits returned, and its result is
  \<open>None\<close> while it still waits after the last of them.
\<close>

subsection \<open>Transport faults\<close>

datatype io_error_kind =
    Io_ConnectionReset | Io_BrokenPipe | Io_UnexpectedEof | Io_TimedOut | Io_WriteZero | Io_other

fun io_transport_fault :: "io_error_kind \<Rightarrow> transport_fault" where
  "io_transport_fault Io_ConnectionReset = ConnectionReset"
| "io_transport_fault Io_BrokenPipe = BrokenPipe"
| "io_transport_fault Io_UnexpectedEof = UnexpectedEof"
| "io_transport_fault Io_TimedOut = TimedOut"
| "io_transport_fault Io_WriteZero = WriteZero"
| "io_transport_fault Io_other = OtherFault"

subsection \<open>Writing one frame\<close>

datatype write_event =
    Write_cancelled
  | Write_deadline
  | Write_done usize
  | Write_error io_error_kind

definition failed_write :: "usize \<Rightarrow> transport_fault \<Rightarrow> write_outcome" where
  "failed_write offset fault = (if offset = 0 then NotWritten fault else Indeterminate fault)"

text \<open>
  The loop of \<open>write_frame\<close> from an offset. The second component is the offset at the return,
  the number of bytes the stream has taken.
\<close>

fun write_from :: "bytes \<Rightarrow> usize \<Rightarrow> write_event list \<Rightarrow> (write_outcome \<times> usize) option" where
  "write_from frame offset [] =
     (if offset < length frame then None else Some (Committed, offset))"
| "write_from frame offset (event # events) =
     (if offset < length frame
      then
        (case event of
           Write_cancelled \<Rightarrow> Some (failed_write offset Cancelled, offset)
         | Write_deadline \<Rightarrow> Some (failed_write offset TimedOut, offset)
         | Write_error kind \<Rightarrow> Some (failed_write offset (io_transport_fault kind), offset)
         | Write_done written \<Rightarrow>
             if written = 0 then Some (failed_write offset WriteZero, offset)
             else write_from frame (offset + written) events)
      else Some (Committed, offset))"

definition write_frame :: "bytes \<Rightarrow> write_event list \<Rightarrow> (write_outcome \<times> usize) option" where
  "write_frame frame events = write_from frame 0 events"

text \<open>\<open>AsyncWrite\<close>: a write takes no more bytes than it was offered.\<close>

fun offered :: "bytes \<Rightarrow> usize \<Rightarrow> write_event list \<Rightarrow> bool" where
  "offered frame offset [] = True"
| "offered frame offset (Write_done written # events) \<longleftrightarrow>
     offset + written \<le> length frame \<and> offered frame (offset + written) events"
| "offered frame offset (_ # events) = True"

lemma write_from_settles:
  "length frame \<le> offset + length events \<Longrightarrow> write_from frame offset events \<noteq> None"
  by (induction frame offset events rule: write_from.induct) (auto split: write_event.split)

lemma write_from_outcome:
  assumes "write_from frame offset events = Some (outcome, n)" "offset \<le> length frame"
    "offered frame offset events"
  shows "offset \<le> n \<and> n \<le> length frame \<and> (outcome = Committed \<longleftrightarrow> n = length frame) \<and>
    ((\<exists>fault. outcome = NotWritten fault) \<longleftrightarrow> n = 0 \<and> n \<noteq> length frame)"
  using assms
  by (induction frame offset events rule: write_from.induct)
    (auto simp: failed_write_def split: if_splits write_event.splits)

text \<open>C23: Writing a frame always ends, after at most as many waits as the frame has bytes, and its outcome
  is exactly what the peer can have seen: Committed if and only if the stream has taken the whole
  frame, NotWritten if and only if it has taken nothing of a nonempty one.\<close>

theorem write_frame_settles:
  assumes "length frame \<le> length events" "offered frame 0 events"
  shows "\<exists>outcome n. write_frame frame events = Some (outcome, n) \<and> n \<le> length frame \<and>
    (outcome = Committed \<longleftrightarrow> n = length frame) \<and>
    ((\<exists>fault. outcome = NotWritten fault) \<longleftrightarrow> n = 0 \<and> frame \<noteq> [])"
proof -
  obtain outcome n where w: "write_from frame 0 events = Some (outcome, n)"
    using write_from_settles [of frame 0 events] assms(1) by auto
  from write_from_outcome [OF w _ assms(2)] w show ?thesis
    by (intro exI [of _ outcome] exI [of _ n]) (auto simp: write_frame_def)
qed

lemma write_frame_settles_witness:
  "\<exists>outcome n. write_frame [1, 2, 3] [Write_done 2, Write_deadline, Write_cancelled] = Some (outcome, n) \<and>
     n \<le> 3 \<and> outcome \<noteq> Committed"
proof -
  from write_frame_settles [of "[1, 2, 3]" "[Write_done 2, Write_deadline, Write_cancelled]"]
  obtain outcome n where w: "write_frame [1, 2, 3] [Write_done 2, Write_deadline, Write_cancelled] = Some (outcome, n)"
    "n \<le> 3" "outcome = Committed \<longleftrightarrow> n = 3" by auto
  moreover have "n = 2" using w(1) by (simp add: write_frame_def)
  ultimately show ?thesis by auto
qed

subsection \<open>The Writer's worker\<close>

record writer_report =
  wr_write_id :: write_id
  wr_outcome :: write_outcome
  wr_occurred_at :: mono_time
  wr_charge :: charge

text \<open>
  \<open>WriterWorker::run\<close> reacts to the cancellation signal, which it only awaits before its first
  fault, to the entries of the queue and to the end of the queue (\<open>recv\<close> returns nothing). An entry
  comes with the times read before and after the write, with the events of the write and with what
  \<open>try_send\<close> of its report finds: whether the consumer of the reports is still there. The entry's
  deadline, the minimum of the admission deadline and the active one, is what makes
  \<open>Write_deadline\<close> one of the events. The result is the list of the reports that were taken, the
  bytes the stream has taken, the terminal fault and how the worker stands.
\<close>

datatype worker_input =
    Worker_cancelled
  | Worker_queue_closed
  | Worker_entry queued_frame instant "write_event list" instant bool

datatype worker_end =
    Worker_waits
  | Worker_queue_ended
  | Worker_consumer_lost

definition write_entry ::
  "('s, 'q) tokio \<Rightarrow> writer_policy \<Rightarrow> transport_fault option \<Rightarrow> instant \<Rightarrow> bytes \<Rightarrow> write_event list \<Rightarrow>
     (write_outcome \<times> usize) option" where
  "write_entry T policy terminal now frame events =
     (case terminal of
        Some fault \<Rightarrow> Some (NotWritten fault, 0)
      | None \<Rightarrow>
          if instant_checked_add T now (wp_active_write policy) = None
          then Some (NotWritten TimedOut, 0)
          else write_frame frame events)"

fun outcome_fault :: "write_outcome \<Rightarrow> transport_fault option" where
  "outcome_fault Committed = None"
| "outcome_fault (NotWritten fault) = Some fault"
| "outcome_fault (Indeterminate fault) = Some fault"

text \<open>
  \<open>terminal\<close> is set together with \<open>queue.close()\<close>, so it also says that admission has ended.
  A report that is not taken is dropped, and so is what is left of the queue: the worker returns.
\<close>

fun worker_run ::
  "('s, 'q) tokio \<Rightarrow> writer_policy \<Rightarrow> transport_fault option \<Rightarrow> worker_input list \<Rightarrow>
     writer_report list \<times> bytes \<times> transport_fault option \<times> worker_end" where
  "worker_run T policy terminal [] = ([], [], terminal, Worker_waits)"
| "worker_run T policy terminal (Worker_cancelled # inputs) =
     worker_run T policy (if terminal = None then Some Cancelled else terminal) inputs"
| "worker_run T policy terminal (Worker_queue_closed # inputs) = ([], [], terminal, Worker_queue_ended)"
| "worker_run T policy terminal (Worker_entry entry now events later consumer # inputs) =
     (case write_entry T policy terminal now (qf_bytes entry) events of
        None \<Rightarrow> ([], [], terminal, Worker_waits)
      | Some (outcome, n) \<Rightarrow>
          let report = \<lparr>wr_write_id = qf_write_id entry, wr_outcome = outcome,
                        wr_occurred_at = later, wr_charge = qf_charge entry\<rparr>;
              terminal = (case outcome_fault outcome of None \<Rightarrow> terminal | Some fault \<Rightarrow> Some fault)
          in if consumer
             then let (reports, wire, terminal, stands) = worker_run T policy terminal inputs
                  in (report # reports, take n (qf_bytes entry) @ wire, terminal, stands)
             else ([], take n (qf_bytes entry), terminal, Worker_consumer_lost))"

text \<open>The entries the queue gives before it ends, each with whether its report is taken.\<close>

fun entries :: "worker_input list \<Rightarrow> (queued_frame \<times> bool) list" where
  "entries [] = []"
| "entries (Worker_cancelled # inputs) = entries inputs"
| "entries (Worker_queue_closed # inputs) = []"
| "entries (Worker_entry entry _ _ _ consumer # inputs) = (entry, consumer) # entries inputs"

fun entries_ready :: "worker_input list \<Rightarrow> bool" where
  "entries_ready [] = True"
| "entries_ready (Worker_cancelled # inputs) = entries_ready inputs"
| "entries_ready (Worker_queue_closed # inputs) = True"
| "entries_ready (Worker_entry entry _ events _ _ # inputs) \<longleftrightarrow>
     length (qf_bytes entry) \<le> length events \<and> offered (qf_bytes entry) 0 events \<and> qf_bytes entry \<noteq> [] \<and>
     entries_ready inputs"

lemma write_entry_settles:
  assumes "length frame \<le> length events" "offered frame 0 events" "frame \<noteq> []"
  shows "\<exists>outcome n. write_entry T policy terminal now frame events = Some (outcome, n) \<and>
    n \<le> length frame \<and> (outcome = Committed \<longleftrightarrow> n = length frame) \<and>
    (terminal \<noteq> None \<longrightarrow> outcome = NotWritten (the terminal) \<and> n = 0)"
proof -
  obtain outcome n where w: "write_from frame 0 events = Some (outcome, n)"
    using write_from_settles [of frame 0 events] assms(1) by auto
  from write_from_outcome [OF w _ assms(2)] w assms(3) show ?thesis
    by (cases terminal) (auto simp: write_entry_def write_frame_def)
qed

text \<open>
  After a fault nothing more is written: \<open>wire\<close> is then empty and every report says so.
\<close>

lemma worker_terminal:
  assumes "worker_run T policy (Some fault) inputs = (reports, wire, terminal, stands)"
  shows "wire = [] \<and> terminal \<noteq> None \<and> (\<forall>r \<in> set reports. \<exists>f. wr_outcome r = NotWritten f) \<and>
    map wr_write_id reports = map (qf_write_id \<circ> fst) (takeWhile snd (entries inputs)) \<and>
    (stands = Worker_consumer_lost \<longleftrightarrow> False \<in> snd ` set (entries inputs))"
  using assms
proof (induction inputs arbitrary: fault reports wire)
  case (Cons i inputs)
  then show ?case
    by (cases i) (auto simp: write_entry_def Let_def split: prod.splits if_splits)
qed auto

text \<open>
  What the bytes on the wire are: the first \<open>k\<close> frames, and of the next one a proper part. The
  reports \<open>rs\<close> cover the frames up to the first whose report was not taken.
\<close>

definition wire_is :: "queued_frame list \<Rightarrow> writer_report list \<Rightarrow> bytes \<Rightarrow> nat \<Rightarrow> bool" where
  "wire_is frames rs wire k \<longleftrightarrow>
     k \<le> length frames \<and> k \<le> Suc (length rs) \<and>
     (\<forall>i < length rs. wr_outcome (rs ! i) = Committed \<longleftrightarrow> i < k) \<and>
     (\<exists>part. wire = concat (map qf_bytes (take k frames)) @ part \<and>
        (part \<noteq> [] \<longrightarrow> k < length frames \<and> k \<le> length rs \<and>
           (\<exists>missing. missing \<noteq> [] \<and> part @ missing = qf_bytes (frames ! k))))"

lemma wire_is_committed:
  assumes "wire_is frames rs wire k" "wr_outcome r = Committed"
  shows "wire_is (f # frames) (r # rs) (qf_bytes f @ wire) (Suc k)"
  using assms by (auto simp: wire_is_def nth_Cons split: nat.split)

lemma wire_is_stopped:
  assumes "n < length (qf_bytes f)" "\<forall>r \<in> set rs. wr_outcome r \<noteq> Committed"
  shows "wire_is (f # frames) rs (take n (qf_bytes f)) 0"
proof -
  have "take n (qf_bytes f) @ drop n (qf_bytes f) = qf_bytes f" "drop n (qf_bytes f) \<noteq> []"
    using assms(1) by simp_all
  then have "\<exists>missing. missing \<noteq> [] \<and> take n (qf_bytes f) @ missing = qf_bytes f" by blast
  with assms(2) show ?thesis unfolding wire_is_def by (intro conjI exI [of _ "take n (qf_bytes f)"]) simp_all
qed

lemma wire_is_lost: "wire_is (f # frames) [] (qf_bytes f) (Suc 0)"
  by (simp add: wire_is_def)

lemma worker_run_outcome:
  assumes "entries_ready inputs" "worker_run T policy None inputs = (reports, wire, terminal, stands)"
  shows "map wr_write_id reports = map (qf_write_id \<circ> fst) (takeWhile snd (entries inputs)) \<and>
    (stands = Worker_consumer_lost \<longleftrightarrow> False \<in> snd ` set (entries inputs)) \<and>
    (\<exists>k. wire_is (map fst (entries inputs)) reports wire k)"
  using assms
proof (induction inputs arbitrary: reports wire)
  case Nil
  then show ?case by (simp add: wire_is_def)
next
  case (Cons i inputs)
  show ?case
  proof (cases i)
    case Worker_queue_closed
    with Cons.prems show ?thesis by (simp add: wire_is_def)
  next
    case Worker_cancelled
    then have "worker_run T policy (Some Cancelled) inputs = (reports, wire, terminal, stands)"
      using Cons.prems by simp
    note t = worker_terminal [OF this]
    then have "wire_is (map fst (entries inputs)) reports wire 0"
      by (fastforce simp: wire_is_def dest: nth_mem)
    with t Worker_cancelled show ?thesis by auto
  next
    case (Worker_entry entry now events later consumer)
    let ?b = "qf_bytes entry"
    obtain outcome n where w: "write_entry T policy None now ?b events = Some (outcome, n)"
      "n \<le> length ?b" "outcome = Committed \<longleftrightarrow> n = length ?b"
      using write_entry_settles [of ?b events T policy None now] Cons.prems(1) Worker_entry by auto
    define report where "report = \<lparr>wr_write_id = qf_write_id entry, wr_outcome = outcome,
      wr_occurred_at = later, wr_charge = qf_charge entry\<rparr>"
    obtain rs ws t st where rest: "worker_run T policy (outcome_fault outcome) inputs = (rs, ws, t, st)"
      by (metis prod_cases4)
    show ?thesis
    proof (cases consumer)
      case False
      then have "reports = []" "wire = take n ?b" "stands = Worker_consumer_lost"
        using Cons.prems(2) Worker_entry w(1) by (auto simp: Let_def)
      moreover have "\<exists>k. wire_is (entry # map fst (entries inputs)) [] (take n ?b) k"
        using wire_is_lost [of entry] wire_is_stopped [of n entry "[]"] w(2)
        by (cases "n = length ?b") auto
      ultimately show ?thesis using Worker_entry False by simp
    next
      case True
      have eq: "reports = report # rs" "wire = take n ?b @ ws" "terminal = t" "stands = st"
        using Cons.prems(2) Worker_entry w(1) rest True by (cases outcome; auto simp: Let_def report_def)+
      show ?thesis
      proof (cases "outcome = Committed")
        case committed: True
        then have "worker_run T policy None inputs = (rs, ws, terminal, stands)" using rest eq by simp
        from Cons.IH [OF _ this] Cons.prems(1) Worker_entry obtain k where ih:
          "map wr_write_id rs = map (qf_write_id \<circ> fst) (takeWhile snd (entries inputs))"
          "stands = Worker_consumer_lost \<longleftrightarrow> False \<in> snd ` set (entries inputs)"
          "wire_is (map fst (entries inputs)) rs ws k" by auto
        from wire_is_committed [OF ih(3), of report entry] ih(1,2) eq True committed w Worker_entry
        show ?thesis by (auto simp: report_def)
      next
        case failed: False
        then obtain fault where "outcome_fault outcome = Some fault" by (cases outcome) auto
        then have r: "worker_run T policy (Some fault) inputs = (rs, ws, t, st)" using rest by simp
        note t = worker_terminal [OF r]
        have "wire_is (entry # map fst (entries inputs)) reports (take n ?b) 0"
          using t eq(1) failed w(2,3) by (intro wire_is_stopped) (auto simp: report_def)
        with t eq True Worker_entry show ?thesis by (auto simp: report_def)
      qed
    qed
  qed
qed

text \<open>C24: The Writer's worker is a FIFO that fails closed. When every write gets the waits it needs, each
  queued frame is reported exactly once and in queue order, up to the first whose report finds its
  consumer gone, where the worker returns, and all of them when the consumer stays; the bytes on the
  wire are the first k queued frames in that order, exactly those reported Committed (and at most
  the one whose report was lost), followed by at most a proper part of the next frame, and nothing of
  any frame after that.\<close>

theorem worker_fifo:
  assumes "entries_ready inputs" "worker_run T policy None inputs = (reports, wire, terminal, stands)"
  shows "map wr_write_id reports = map (qf_write_id \<circ> fst) (takeWhile snd (entries inputs)) \<and>
    (stands = Worker_consumer_lost \<longleftrightarrow> False \<in> snd ` set (entries inputs)) \<and>
    (stands \<noteq> Worker_consumer_lost \<longrightarrow> map wr_write_id reports = map (qf_write_id \<circ> fst) (entries inputs)) \<and>
    (\<exists>k. k \<le> length (entries inputs) \<and> k \<le> Suc (length reports) \<and>
       (\<forall>i < length reports. wr_outcome (reports ! i) = Committed \<longleftrightarrow> i < k) \<and>
       (\<exists>part. wire = concat (map (qf_bytes \<circ> fst) (take k (entries inputs))) @ part \<and>
          (part \<noteq> [] \<longrightarrow> k < length (entries inputs) \<and> k \<le> length reports \<and>
             (\<exists>missing. missing \<noteq> [] \<and> part @ missing = qf_bytes (fst (entries inputs ! k))))))"
proof -
  have "map wr_write_id reports = map (qf_write_id \<circ> fst) (takeWhile snd (entries inputs)) \<and>
    (stands = Worker_consumer_lost \<longleftrightarrow> False \<in> snd ` set (entries inputs)) \<and>
    (\<exists>k. wire_is (map fst (entries inputs)) reports wire k)"
    using assms by (rule worker_run_outcome)
  then obtain k where w: "map wr_write_id reports = map (qf_write_id \<circ> fst) (takeWhile snd (entries inputs))"
    "stands = Worker_consumer_lost \<longleftrightarrow> False \<in> snd ` set (entries inputs)"
    "wire_is (map fst (entries inputs)) reports wire k" by blast
  have all: "takeWhile snd (entries inputs) = entries inputs" if "stands \<noteq> Worker_consumer_lost"
    using that w(2) by (auto simp: takeWhile_eq_all_conv image_iff)
  show ?thesis
  proof (intro conjI exI [of _ k])
    show "stands \<noteq> Worker_consumer_lost \<longrightarrow> map wr_write_id reports = map (qf_write_id \<circ> fst) (entries inputs)"
      using w(1) by (intro impI) (drule all, simp only:)
  qed (use w in \<open>auto simp: wire_is_def take_map\<close>)
qed

text \<open>The first frame is committed and its consumer then goes: the second is written in part, unreported.\<close>

lemma worker_fifo_witness:
  "\<exists>r. worker_run counting_tokio \<lparr>wp_data_bytes = 14, wp_residence = 1, wp_active_write = 1\<rparr> None
     [Worker_entry \<lparr>qf_write_id = 4, qf_bytes = [1], qf_deadline = 9,
        qf_charge = \<lparr>cg_lane = Control_lane, cg_bytes = None\<rparr>\<rparr> 0 [Write_done 1] 0 True,
      Worker_entry \<lparr>qf_write_id = 5, qf_bytes = [2, 3], qf_deadline = 9,
        qf_charge = \<lparr>cg_lane = Control_lane, cg_bytes = None\<rparr>\<rparr> 0 [Write_done 1, Write_cancelled] 0 False]
     = ([r], [1, 2], Some Cancelled, Worker_consumer_lost) \<and> wr_write_id r = 4 \<and> wr_outcome r = Committed"
proof -
  let ?is = "[Worker_entry \<lparr>qf_write_id = 4, qf_bytes = [1], qf_deadline = 9,
        qf_charge = \<lparr>cg_lane = Control_lane, cg_bytes = None\<rparr>\<rparr> 0 [Write_done 1] 0 True,
      Worker_entry \<lparr>qf_write_id = 5, qf_bytes = [2, 3], qf_deadline = 9,
        qf_charge = \<lparr>cg_lane = Control_lane, cg_bytes = None\<rparr>\<rparr> 0 [Write_done 1, Write_cancelled] 0 False]"
  obtain r where r: "worker_run counting_tokio \<lparr>wp_data_bytes = 14, wp_residence = 1, wp_active_write = 1\<rparr> None ?is
      = ([r], [1, 2], Some Cancelled, Worker_consumer_lost)" "wr_outcome r = Committed"
    by (simp add: write_entry_def write_frame_def failed_write_def counting_tokio_def)
  from worker_fifo [OF _ r(1)] r show ?thesis by auto
qed

subsection \<open>Reading one frame\<close>

datatype read_event =
    Read_cancelled
  | Read_deadline
  | Read_bytes bytes
  | Read_error io_error_kind

datatype read_failure =
    EndOfStream frame_read_progress
  | Framing framing_fault
  | Transport transport_fault
  | IntercharacterTimeout
  | DeadlineOverflow

record read_frame =
  rd_header :: header_snapshot
  rd_decoded :: codec_step
  rd_occurred_at :: mono_time

record frame_reader =
  fr_codec :: hsms_codec
  fr_buffer :: bytes
  fr_last_progress :: "instant option"
  fr_epoch :: instant

definition frame_reader_new :: "endpoint_limits \<Rightarrow> decode_limits \<Rightarrow> instant \<Rightarrow> frame_reader" where
  "frame_reader_new L D epoch =
     \<lparr>fr_codec = hsms_codec_new L D, fr_buffer = [], fr_last_progress = None, fr_epoch = epoch\<rparr>"

text \<open>
  What one pass of the loop of \<open>next\<close> comes to before its wait: a result, or a request for at
  most that many bytes; \<open>now\<close> is the clock. \<open>Next_panic\<close> is the \<open>expect\<close> on the captured
  header.
\<close>

datatype next_step =
    Next_frame read_frame
  | Next_failed read_failure
  | Next_read usize frame_read_progress
  | Next_panic

fun needed_bytes :: "frame_read_progress \<Rightarrow> usize" where
  "needed_bytes (AwaitingLength bytes_seen) = 4 - unat bytes_seen"
| "needed_bytes (PartialBody target_length bytes_seen) = target_length - bytes_seen"

definition next_pass ::
  "(instant \<Rightarrow> duration \<Rightarrow> instant option) \<Rightarrow> duration \<Rightarrow> instant \<Rightarrow> frame_reader \<Rightarrow>
     next_step \<times> frame_reader"
where
  "next_pass add t8 now r =
     (let header = (if length (fr_buffer r) < 14 then None
                    else Some (take 10 (drop 4 (fr_buffer r))));
          (step, codec, buffer) = codec_decode (fr_codec r) (fr_buffer r);
          r = r\<lparr>fr_codec := codec, fr_buffer := buffer\<rparr>
      in case step of
           Inl fault \<Rightarrow> (Next_failed (Framing fault), r)
         | Inr (NeedMore progress) \<Rightarrow>
             if (case fr_last_progress r of None \<Rightarrow> False | Some last_read \<Rightarrow> add last_read t8 = None)
             then (Next_failed DeadlineOverflow, r)
             else (Next_read (min (needed_bytes progress) 8192) progress, r)
         | Inr decoded \<Rightarrow>
             let r = r\<lparr>fr_last_progress := None\<rparr>
             in (case header of
                   None \<Rightarrow> (Next_panic, r)
                 | Some header \<Rightarrow> 
                     (Next_frame \<lparr>rd_header = header, rd_decoded = decoded,
                                  rd_occurred_at = now - fr_epoch r\<rparr>, r)))"

text \<open>\<open>next\<close>: each event carries the time read after the wait.\<close>

fun reader_next ::
  "(instant \<Rightarrow> duration \<Rightarrow> instant option) \<Rightarrow> duration \<Rightarrow> instant \<Rightarrow> (read_event \<times> instant) list \<Rightarrow>
     frame_reader \<Rightarrow> next_step option \<times> frame_reader" where
  "reader_next add t8 now [] r =
     (case next_pass add t8 now r of
        (Next_read _ _, r) \<Rightarrow> (None, r)
      | (step, r) \<Rightarrow> (Some step, r))"
| "reader_next add t8 now ((event, later) # events) r =
     (case next_pass add t8 now r of
        (Next_read amount progress, r) \<Rightarrow>
          (case event of
             Read_cancelled \<Rightarrow> (Some (Next_failed (Transport Cancelled)), r)
           | Read_deadline \<Rightarrow> (Some (Next_failed IntercharacterTimeout), r)
           | Read_error kind \<Rightarrow> (Some (Next_failed (Transport (io_transport_fault kind))), r)
           | Read_bytes bs \<Rightarrow>
               if bs = [] then (Some (Next_failed (EndOfStream progress)), r)
               else reader_next add t8 later events
                      (r\<lparr>fr_buffer := fr_buffer r @ bs, fr_last_progress := Some later\<rparr>))
      | (step, r) \<Rightarrow> (Some step, r))"

lemma next_pass_no_panic: "fst (next_pass add t8 now r) \<noteq> Next_panic"
proof -
  obtain step codec buffer where d: "codec_decode (fr_codec r) (fr_buffer r) = (step, codec, buffer)"
    by (metis prod_cases3)
  have "14 \<le> length (fr_buffer r)" if decoded: "step = Inr decoded" "\<And>p. decoded \<noteq> NeedMore p"
    for decoded
  proof -
    obtain raw d' rest where f: "frame_decode (hc_frame_decoder (fr_codec r)) (fr_buffer r) = (Ok (Frame raw), d', rest)"
      using d decoded by (auto simp: codec_decode_def Let_def
          split: prod.splits sum.splits frame_decode_step.splits)
    from frame_decode_length [OF f] f show ?thesis
      by (auto simp: frame_decode_def Let_def terminate_framing_def HSMS_HEADER_LENGTH_def
          LENGTH_PREFIX_BYTES_def word_less_nat_alt split: option.splits if_splits)
  qed
  with d show ?thesis
    by (auto simp: next_pass_def Let_def not_less split: sum.split codec_step.split)
qed

text \<open>
  A reader whose buffer holds the first \<open>k\<close> bytes of a frame asks for at most what is missing,
  and reads on.
\<close>

lemma needed_partial:
  assumes "frame_decode d (take k (framed m)) = (Ok (NeedMoreBytes p), d', rest)"
    and "k < length (framed m)" "10 \<le> length m" "length m \<le> 0xFFFFFFFF"
  shows "needed_bytes p \<le> length (framed m) - k \<and> 0 < needed_bytes p"
proof (cases "k < 4")
  case True
  then have "p = AwaitingLength (word_of_nat k)"
    using assms(1,2) by (auto simp: frame_decode_def LENGTH_PREFIX_BYTES_def Let_def terminate_framing_def
        min_def split: option.splits if_splits)
  moreover have "unat (word_of_nat k :: u8) = k" using True by (simp add: unat_word_of_nat_u8)
  ultimately show ?thesis using True assms(3) by auto
next
  case False
  have "take 4 (take k (framed m)) = to_be_bytes 4 (word_of_nat (length m) :: u32)"
    using False by (simp add: framed_def min_def)
  then have "p = PartialBody (length m) (k - 4)"
    using False assms from_prefix [of m]
    by (auto simp: frame_decode_def LENGTH_PREFIX_BYTES_def Let_def terminate_framing_def
        from_to_be_bytes min_def split: option.splits if_splits simp del: take_take)
  with False assms show ?thesis by auto
qed

lemma codec_partial:
  assumes "codec_ready c L" "10 \<le> length m" "length m \<le> el_max_message_length L"
    "length m \<le> 0xFFFFFFFF" "k < length (framed m)"
  shows "\<exists>p. codec_decode c (take k (framed m)) = (Ok (NeedMore p), c, take k (framed m)) \<and>
    needed_bytes p \<le> length (framed m) - k \<and> 0 < needed_bytes p"
proof -
  obtain p where p: "frame_decode (hc_frame_decoder c) (take k (framed m)) =
      (Ok (NeedMoreBytes p), hc_frame_decoder c, take k (framed m))"
    using frame_decode_partial [of "hc_frame_decoder c" m k] assms by (auto simp: codec_ready_def)
  from needed_partial [OF this assms(5,2,4)] p show ?thesis
    by (intro exI [of _ p]) (simp add: codec_decode_def Let_def)
qed

text \<open>C25: Reading reassembles frames: however the bytes of a frame are cut up by the stream, the reader
  returns exactly the step that decoding the whole frame gives, with the header it was sent with,
  and leaves nothing in its buffer. Until then it never asks for a byte beyond the frame.\<close>

theorem reader_reassembles:
  assumes "codec_ready (fr_codec r) L" "fr_buffer r = []" "10 \<le> length m"
    "length m \<le> el_max_message_length L" "length m \<le> 0xFFFFFFFF"
    and "concat pieces = framed m" "[] \<notin> set pieces" "length instants = length pieces"
    and "\<forall>t. add t gap \<noteq> None"
    and "codec_decode (fr_codec r) (framed m) = (Ok step, c', [])"
  shows "reader_next add gap start (zip (map Read_bytes pieces) instants) r =
     (Some (Next_frame \<lparr>rd_header = take 10 m, rd_decoded = step, rd_occurred_at = last (start # instants) - fr_epoch r\<rparr>),
      \<lparr>fr_codec = c', fr_buffer = [], fr_last_progress = None, fr_epoch = fr_epoch r\<rparr>) \<and>
    (\<forall>k < length (framed m). \<forall>t. \<exists>amount progress r'.
       next_pass add gap t (r\<lparr>fr_buffer := take k (framed m)\<rparr>) = (Next_read amount progress, r') \<and>
       0 < amount \<and> amount \<le> length (framed m) - k)"
proof -
  have partial: "\<exists>amount progress. next_pass add gap t (r\<lparr>fr_buffer := take k (framed m), fr_last_progress := lp\<rparr>) =
      (Next_read amount progress, r\<lparr>fr_buffer := take k (framed m), fr_last_progress := lp\<rparr>) \<and>
      0 < amount \<and> amount \<le> length (framed m) - k" if "k < length (framed m)" for k t lp
    using codec_partial [OF assms(1,3-5) that] assms(9)
    by (auto simp: next_pass_def Let_def split: option.split)
  have whole: "reader_next add gap t [] (r\<lparr>fr_buffer := framed m, fr_last_progress := lp\<rparr>) =
      (Some (Next_frame \<lparr>rd_header = take 10 m, rd_decoded = step, rd_occurred_at = t - fr_epoch r\<rparr>),
       \<lparr>fr_codec = c', fr_buffer = [], fr_last_progress = None, fr_epoch = fr_epoch r\<rparr>)" for t lp
  proof -
    have "step \<noteq> NeedMore p" for p
      using assms(10) frame_decode_framed [of "hc_frame_decoder (fr_codec r)" m "[]"] assms(1,3-5)
      by (auto simp: codec_decode_def Let_def codec_ready_def split: sum.splits validated_frame.splits)
    moreover have "take 10 (drop 4 (framed m)) = take 10 m" by (simp add: framed_def)
    ultimately show ?thesis
      using assms(3,10) by (cases step) (auto simp: next_pass_def Let_def)
  qed
  have "reader_next add gap t (zip (map Read_bytes cs) ts) (r\<lparr>fr_buffer := taken, fr_last_progress := lp\<rparr>) =
      (Some (Next_frame \<lparr>rd_header = take 10 m, rd_decoded = step, rd_occurred_at = last (t # ts) - fr_epoch r\<rparr>),
       \<lparr>fr_codec = c', fr_buffer = [], fr_last_progress = None, fr_epoch = fr_epoch r\<rparr>)"
    if "taken @ concat cs = framed m" "[] \<notin> set cs" "length ts = length cs" for taken cs t ts lp
    using that
  proof (induction cs arbitrary: taken t ts lp)
    case Nil
    then show ?case using whole by simp
  next
    case (Cons c cs)
    obtain u ts' where ts: "ts = u # ts'" using Cons.prems(3) by (cases ts) auto
    have k: "length taken < length (framed m)" "take (length taken) (framed m) = taken"
      using Cons.prems(1,2) by (auto simp flip: Cons.prems(1))
    from partial [OF k(1), of t lp] k(2) Cons.IH [of "taken @ c" ts' u "Some u"] Cons.prems ts
    show ?case by auto
  qed
  moreover have "r\<lparr>fr_buffer := [], fr_last_progress := fr_last_progress r\<rparr> = r"
    using assms(2) by (cases r) simp
  ultimately have "reader_next add gap start (zip (map Read_bytes pieces) instants) r =
      (Some (Next_frame \<lparr>rd_header = take 10 m, rd_decoded = step, rd_occurred_at = last (start # instants) - fr_epoch r\<rparr>),
       \<lparr>fr_codec = c', fr_buffer = [], fr_last_progress = None, fr_epoch = fr_epoch r\<rparr>)"
    using assms(6-8) by (metis append_Nil)
  moreover have "r\<lparr>fr_buffer := b, fr_last_progress := fr_last_progress r\<rparr> = r\<lparr>fr_buffer := b\<rparr>" for b
    by (cases r) simp
  ultimately show ?thesis using partial [of _ _ "fr_last_progress r"] by simp blast
qed

lemma be_bytes_numeral: "be_bytes (numeral n) k = be_bytes (pred_numeral n) (k div 256) @ [word_of_nat k]"
  by (subst numeral_eq_Suc) simp

lemma prefix_ten: "to_be_bytes 4 (10 :: u32) = [0, 0, 0, 10]"
  by (simp add: to_be_bytes_def be_bytes_numeral)

lemma reader_reassembles_witness:
  "reader_next (\<lambda>t d. Some (t + d)) 5 0
     [(Read_bytes [0, 0, 0], 1), (Read_bytes [10, 255, 255, 0, 0, 0], 2), (Read_bytes [5, 0, 0, 0, 7], 3)]
     (frame_reader_new limits_default decode_limits_default 0) =
   (Some (Next_frame \<lparr>rd_header = [255, 255, 0, 0, 0, 5, 0, 0, 0, 7],
            rd_decoded = Message (Control (LinktestRequest 7)), rd_occurred_at = 3\<rparr>),
    frame_reader_new limits_default decode_limits_default 0)"
proof -
  let ?m = "[255, 255, 0, 0, 0, 5, 0, 0, 0, 7] :: bytes" and ?r = "frame_reader_new limits_default decode_limits_default 0"
  have m: "control_header_bytes (LinktestRequest 7) = ?m" "framed ?m = [0, 0, 0, 10] @ ?m"
    by (simp_all add: control_header_bytes_def control_fields_def Let_def framed_def prefix_ten
        to_be_bytes_def [of _ "7 :: u32"] to_be_bytes_def [of _ "0xFFFF :: u16"] be_bytes_numeral)
  have "codec_decode (fr_codec ?r) (encode_control (LinktestRequest 7) @ []) =
      (Ok (Message (Control (LinktestRequest 7))), fr_codec ?r, [])"
    by (rule codec_decode_sent_control [of _ limits_default, THEN conjunct2])
      (simp_all add: frame_reader_new_def limits_validate_Ok limits_default_def)
  then have "codec_decode (fr_codec ?r) (framed ?m) = (Ok (Message (Control (LinktestRequest 7))), fr_codec ?r, [])"
    using m by (simp add: encode_control_framed)
  from reader_reassembles [where r = ?r and L = limits_default and m = ?m and gap = 5 and
      add = "\<lambda>t d. Some (t + d)" and instants = "[1, 2, 3]" and
      pieces = "[[0, 0, 0], [10, 255, 255, 0, 0, 0], [5, 0, 0, 0, 7]]", OF _ _ _ _ _ _ _ _ _ this]
  show ?thesis using m by (simp add: frame_reader_new_def limits_default_def)
qed

end
