(* ===== verification/Hsms_Driver_Laws.thy ===== *)
theory Hsms_Driver_Laws
  imports Hsms_Driver Hsms_Safety Hsms_Settled
begin

section \<open>What every operation of the driver keeps\<close>

text \<open>
  All operations of the driver are composed of a few elementary changes: it exchanges the core for
  the core after one input, it tells the observer something, it settles a pending completion, it
  takes a command from its queue and either rejects it or registers it under a fresh identifier, it
  begins to close, lifts the close barrier and closes the transport. The locale \<open>driver_law\<close> is
  about any property that these changes keep; inside it every operation is shown to keep the
  property. Its first argument is the command that has left the queue and is not yet rejected or
  registered.
\<close>

subsection \<open>What a turn of the core guarantees\<close>

definition announced :: "bool \<Rightarrow> session_core \<Rightarrow> bool" where
  "announced b c \<longleftrightarrow> (b \<longrightarrow> sc_closing c) \<and> (closes (sc_actions c) \<noteq> 0 \<longrightarrow> sc_closing c)"

lemma announced_silent: "core_silent (announced b)"
  by (rule core_silent.intro)
    (auto simp: announced_def hard_def emit_def request_close_def Let_def)

interpretation announced: core_data "announced b" "\<lambda>_ _. True" for b
proof (intro_locales)
  show "core_silent (announced b)" by (rule announced_silent)
  show "core_control_axioms (announced b) (\<lambda>_ _. True)"
  proof (rule core_control_axioms.intro)
    show "core_silent (\<lambda>c. announced b c \<and> True)" for w :: write_id
      using announced_silent by simp
  qed (auto simp: announced_def add_write_def)
  show "core_data_axioms (announced b) (\<lambda>_ _. True)"
    by standard (auto simp: announced_def add_write_def insert_data_transaction_def
        insert_reply_contract_def)
qed

lemma announced_turn: "announced (sc_closing c) (core_turn i c)"
proof -
  have start: "announced (sc_closing c) (fresh_batch c)" by (simp add: announced_def)
  have opened: "announced (sc_closing c) (open_command k kind (fresh_batch c))" for k kind
    by (simp add: announced_def open_command_def)
  have forced: "announced b (push (CloseGeneration reason Immediate)
      (c\<lparr>sc_closing := True, sc_close_action_issued := True\<rparr>))" for b c reason
    by (simp add: announced_def push_def)
  show ?thesis
    using start opened
    by (cases i) (auto simp: announced.on_connected_law announced.on_message_law
      announced.on_inbound_violation_law announced.on_write_outcome_law announced.on_shutdown_law
      announced.finish_shutdown_drain_law announced.advance_time_law announced.finalize_writer_law
      intro: announced.on_command_law announced.on_reply_law announced.on_shutdown_failed_law forced)
qed

lemma closes_mem: "CloseGeneration reason barrier \<in> set actions \<Longrightarrow> closes actions \<noteq> 0"
  by (induction actions) (auto simp: closes_def)

lemma turn_closing:
  "sc_closing c \<Longrightarrow> sc_closing (core_turn i c)"
  "CloseGeneration reason barrier \<in> set (sc_actions (core_turn i c)) \<Longrightarrow> sc_closing (core_turn i c)"
  using announced_turn [of c i] closes_mem by (auto simp: announced_def)

lemma fail_closing: "sc_closing (fail_runtime_invariant c)"
  by (simp add: fail_runtime_invariant_def request_close_def Let_def)

lemma on_shutdown_closing: "sc_closing (on_shutdown reason failed now c)"
  by (auto simp: on_shutdown_def fail_closing request_close_def push_def Let_def accept_time_def
      split: option.split)

lemma open_ok_turn: "om_ok (sc_open_commands c) \<Longrightarrow> om_ok (sc_open_commands (core_turn i c))"
  using account_turn by (simp add: account_def)

subsection \<open>The laws\<close>

fun fits :: "completion_kind \<Rightarrow> driver_command_result \<Rightarrow> bool" where
  "fits Kind_Control (Driver_Control _) \<longleftrightarrow> True"
| "fits Kind_Send (Driver_Send _) \<longleftrightarrow> True"
| "fits Kind_Request (Driver_Request _) \<longleftrightarrow> True"
| "fits _ _ \<longleftrightarrow> False"

lemma materialize_fits: "materialize_result d kind r = Some result \<Longrightarrow> fits kind result"
  by (auto simp: materialize_result_def Let_def
      split: prod.splits completion_kind.splits core_command_result.splits sum.splits if_splits)

lemma connection_lost_fits: "fits kind (connection_lost_result kind)"
  by (cases kind) auto

text \<open>The part of the state that the properties are about.\<close>

definition view :: "('w, 'c) session_driver \<Rightarrow> _" where
  "view d = (sd_core d, sd_effects d, sd_accepted_commands d, sd_command_capacity d,
     sd_command_byte_capacity d, sd_command_bytes d, sd_completions d, sd_next_command_id d,
     sd_closing d, sd_transport_closed d)"

lemma view_simps [simp]:
  "view (d\<lparr>sd_writer := w\<rparr>) = view d"
  "view (d\<lparr>sd_inbound := ps\<rparr>) = view d"
  "view (d\<lparr>sd_protocol_errors := es\<rparr>) = view d"
  "view (d\<lparr>sd_inbound_capacity := n\<rparr>) = view d"
  "view (d\<lparr>sd_protocol_error_capacity := n\<rparr>) = view d"
  "view (d\<lparr>sd_admitted_writes := ws\<rparr>) = view d"
  "view (d\<lparr>sd_shutdown_draining := b\<rparr>) = view d"
  "view (d\<lparr>sd_maximum_message_length := n\<rparr>) = view d"
  by (simp_all add: view_def)

locale driver_law =
  fixes P :: "'c accepted_command option \<Rightarrow> ('w, 'c) session_driver \<Rightarrow> bool"
  assumes quiet: "P h d \<Longrightarrow> view d' = view d \<Longrightarrow> P h d'"
    and turn_law: "P None d \<Longrightarrow> P None (d\<lparr>sd_core := core_turn i (sd_core d)\<rparr>)"
    and notice_law: "P None d \<Longrightarrow> P None (d\<lparr>sd_core := snd (take_notice (sd_core d))\<rparr>)"
    and observed_law: "P None d \<Longrightarrow> P None (effect (Observed s) d)"
    and noticed_law: "P None d \<Longrightarrow> P None (effect (Noticed g n) d)"
    and settle_law: "P None d \<Longrightarrow> om_lookup (sd_completions d) k = Some p \<Longrightarrow> fits (pc_kind p) r \<Longrightarrow>
           P None (complete_endpoint (pc_completion p) r (d\<lparr>sd_completions := om_remove k (sd_completions d)\<rparr>))"
    and take_law: "P None d \<Longrightarrow> dequeue d = Some (a, d') \<Longrightarrow> P (Some a) d'"
    and reject_law: "P (Some a) d \<Longrightarrow>
           P None (complete_endpoint (ac_completion a) (rejected (ac_kind a) e) d)"
    and register_law: "P (Some a) d \<Longrightarrow> allocate_command_id d = (Some k, d') \<Longrightarrow>
           P None (d'\<lparr>sd_completions := om_insert k
             \<lparr>pc_kind = completion_kind_of (ac_kind a), pc_completion = ac_completion a\<rparr>
             (sd_completions d')\<rparr>)"
    and begin_closing_law: "P None d \<Longrightarrow> sc_closing (sd_core d) \<Longrightarrow>
           P None (begin_closing reason barrier d)"
    and unbar_law: "P None d \<Longrightarrow> sd_closing d = Some cl \<Longrightarrow>
           P None (d\<lparr>sd_closing := Some (cl\<lparr>cl_barrier_write_id := None\<rparr>)\<rparr>)"
    and close_law: "P None d \<Longrightarrow> sd_closing d = Some cl \<Longrightarrow> cl_barrier_write_id cl = None \<Longrightarrow>
           \<not> sd_transport_closed d \<Longrightarrow>
           P None ((effect TransportClose d)\<lparr>sd_transport_closed := True\<rparr>)"
begin

lemma quiet_updates:
  "P h d \<Longrightarrow> P h (d\<lparr>sd_writer := w\<rparr>)"
  "P h d \<Longrightarrow> P h (d\<lparr>sd_inbound := ps\<rparr>)"
  "P h d \<Longrightarrow> P h (d\<lparr>sd_protocol_errors := es\<rparr>)"
  "P h d \<Longrightarrow> P h (d\<lparr>sd_inbound_capacity := n\<rparr>)"
  "P h d \<Longrightarrow> P h (d\<lparr>sd_protocol_error_capacity := n\<rparr>)"
  "P h d \<Longrightarrow> P h (d\<lparr>sd_admitted_writes := ws\<rparr>)"
  "P h d \<Longrightarrow> P h (d\<lparr>sd_shutdown_draining := b\<rparr>)"
  by (erule quiet, simp)+

lemma fold_law: "(\<And>x d. P None d \<Longrightarrow> P None (f x d)) \<Longrightarrow> P None d \<Longrightarrow> P None (fold f xs d)"
  by (induction xs arbitrary: d) auto

lemma complete_orphan_law: "P None d \<Longrightarrow> P None (complete_orphan k d)"
  by (auto simp: complete_orphan_def settle_law connection_lost_fits split: option.split)

lemma reject_queue_law: "P None d \<Longrightarrow> P None (reject_queue d)"
proof (induction d rule: reject_queue.induct)
  case (1 d)
  show ?case
  proof (cases "dequeue d")
    case None
    with 1(2) show ?thesis by (subst reject_queue.simps) simp
  next
    case (Some p)
    obtain a d' where p: "p = (a, d')" by fastforce
    have "P None (complete_endpoint (ac_completion a) (rejected (ac_kind a) ConnectionLost) d')"
      using take_law 1(2) Some p reject_law by blast
    with 1(1) [OF Some p [symmetric]] Some p show ?thesis by (subst reject_queue.simps) simp
  qed
qed

lemma drain_law: "P None d \<Longrightarrow> P None (drain_accepted_commands d)"
  by (simp add: drain_accepted_commands_def reject_queue_law fold_law complete_orphan_law)

lemma finish_close_law: "P None d \<Longrightarrow> P None (finish_close_if_ready d)"
  by (auto simp: finish_close_if_ready_def Let_def drain_law close_law split: option.splits)

lemma satisfy_law: "P None d \<Longrightarrow> P None (satisfy_close_barrier w d)"
  by (auto simp: satisfy_close_barrier_def unbar_law split: option.split)

lemma note_admitted_law: "note_admitted w d = (r, d') \<Longrightarrow> P None d \<Longrightarrow> P None d'"
  by (auto simp: note_admitted_def quiet_updates split: if_splits)

lemma admit_control_law: "admit_control W frame d = (r, d') \<Longrightarrow> P None d \<Longrightarrow> P None d'"
  by (auto simp: admit_control_def split: prod.splits sum.splits dest!: note_admitted_law
      intro: quiet_updates)

lemma admit_data_law: "admit_data W p frame d = (r, d') \<Longrightarrow> P None d \<Longrightarrow> P None d'"
  by (auto simp: admit_data_def split: prod.splits sum.splits dest!: note_admitted_law
      intro: quiet_updates)

lemma complete_command_law: "complete_command k r d = (x, d') \<Longrightarrow> P None d \<Longrightarrow> P None d'"
  by (auto simp: complete_command_def settle_law materialize_fits split: option.splits)

lemma apply_action_law:
  assumes "apply_action W a permit d = (permit', r, d')" "P None d"
    and "\<And>reason barrier. a = CloseGeneration reason barrier \<Longrightarrow> sc_closing (sd_core d)"
  shows "P None d'"
  using assms
  by (cases a) (auto simp: observed_law begin_closing_law Let_def split: protocol_message.splits option.splits
      if_splits intro: admit_control_law admit_data_law complete_command_law quiet_updates)

end

lemma begin_closing_core [simp]: "sd_core (begin_closing reason barrier d) = sd_core d"
  by (auto simp: begin_closing_def split: option.split)

lemma apply_action_core:
  "apply_action W a permit d = (permit', r, d') \<Longrightarrow> sd_core d' = sd_core d"
  by (cases a) (auto simp: effect_def complete_endpoint_def begin_closing_def admit_control_def admit_data_def
      note_admitted_def complete_command_def Let_def
      split: protocol_message.splits option.splits if_splits prod.splits sum.splits)

lemma apply_loop_core: "apply_loop W as permit d = (permit', r, d') \<Longrightarrow> sd_core d' = sd_core d"
  by (induction "as" arbitrary: permit d)
    (fastforce split: prod.splits sum.splits dest: apply_action_core)+

lemma apply_core_core: "apply_core W core permit d = (r, d') \<Longrightarrow> sd_core d' = core"
  by (fastforce simp: apply_core_def apply_action_batch_def
      split: prod.splits sum.splits option.splits dest: apply_loop_core)

context driver_law
begin

lemma apply_loop_law:
  assumes "apply_loop W as permit d = (permit', r, d')" "P None d"
    and "\<And>reason barrier. CloseGeneration reason barrier \<in> set as \<Longrightarrow> sc_closing (sd_core d)"
  shows "P None d'"
  using assms
proof (induction "as" arbitrary: permit d)
  case (Cons a "as")
  obtain permit1 r1 d1 where a: "apply_action W a permit d = (permit1, r1, d1)" by (metis prod_cases3)
  have "P None d1" using apply_action_law [OF a Cons.prems(2)] Cons.prems(3) by auto
  then show ?case
    using Cons.IH [of permit1 d1] Cons.prems a apply_action_core [OF a]
    by (auto split: sum.splits)
qed simp

lemma apply_core_law:
  assumes "apply_core W (core_turn i (sd_core d)) permit d = (r, d')" "P None d"
  shows "P None d'"
proof -
  let ?c = "core_turn i (sd_core d)" and ?d = "d\<lparr>sd_core := core_turn i (sd_core d)\<rparr>"
  obtain permit1 r1 d1 where l: "apply_loop W (sc_actions ?c) permit ?d = (permit1, r1, d1)"
    by (metis prod_cases3)
  have "P None d1"
    by (rule apply_loop_law [OF l turn_law [OF assms(2)]]) (simp add: turn_closing(2))
  then show ?thesis
    using assms(1) l
    by (auto simp: apply_core_def apply_action_batch_def quiet_updates
        split: option.splits prod.splits sum.splits)
qed

lemma shutdown_after_law:
  assumes "P None d"
  shows "P None (shutdown_after_driver_failure W reason failed now d)"
proof -
  obtain i where i: "on_shutdown reason failed now (sd_core d) = core_turn i (sd_core d)"
    by (cases failed) (metis core_turn.simps(7), metis core_turn.simps(8))
  obtain r d1 where a: "apply_core W (core_turn i (sd_core d)) None d = (r, d1)" by fastforce
  have c: "sd_core d1 = on_shutdown reason failed now (sd_core d)"
    using apply_core_core [OF a] i by simp
  then have cl: "sc_closing (sd_core d1)" by (simp add: on_shutdown_closing)
  have "P None d1" by (rule apply_core_law [OF a assms])
  then show ?thesis
    using a cl by (auto simp: shutdown_after_driver_failure_def i begin_closing_law split: sum.split)
qed

lemma handle_failure_law: "P None d \<Longrightarrow> P None (handle_action_failure_with_reason W f now first d)"
  by (auto simp: handle_action_failure_with_reason_def shutdown_after_law split: prod.split)

lemma settle_batch_law: "P None d \<Longrightarrow> P None (settle_batch W now (r, d))"
  by (auto simp: settle_batch_def handle_action_failure_def handle_failure_law split: sum.split)

lemma apply_unfinished_law:
  "P None d \<Longrightarrow>
     P None (apply_actions_without_finishing_close W (core_turn i (sd_core d)) now d)"
  unfolding apply_actions_without_finishing_close_def
  by (cases "apply_core W (core_turn i (sd_core d)) None d")
    (simp add: settle_batch_law apply_core_law)

lemma apply_actions_law:
  "P None d \<Longrightarrow> P None (apply_actions W (core_turn i (sd_core d)) now d)"
  by (simp add: apply_actions_def finish_close_law apply_unfinished_law)

lemma apply_with_permit_law:
  "P None d \<Longrightarrow> P None (apply_actions_with_data_permit W (core_turn i (sd_core d)) permit now d)"
  unfolding apply_actions_with_data_permit_def
  by (cases "apply_core W (core_turn i (sd_core d)) permit d")
    (simp add: settle_batch_law apply_core_law finish_close_law)

end

text \<open>After \<open>on_shutdown\<close> the core is closing, whatever became of the batch.\<close>

lemma shutdown_after_closing: "sc_closing (sd_core (shutdown_after_driver_failure W reason failed now d))"
  by (auto simp: shutdown_after_driver_failure_def on_shutdown_closing
      split: prod.split sum.split dest!: apply_core_core)

lemma unfinished_closing:
  assumes "sc_closing core"
  shows "sc_closing (sd_core (apply_actions_without_finishing_close W core now d))"
  using assms
  by (auto simp: apply_actions_without_finishing_close_def settle_batch_def handle_action_failure_def
      handle_action_failure_with_reason_def shutdown_after_closing
      split: prod.split sum.split dest!: apply_core_core)

subsection \<open>Inputs of the driver\<close>

text \<open>
  The operations the runtime calls, as values. \<open>D_WriterState\<close> is not a call: it is any change
  of the Writer between two calls, by its worker task. A turn returns the endpoint it accepted, with
  the class of result that is due to it.
\<close>

datatype ('w, 'c) driver_input =
    D_Control control_intent 'c
  | D_Send primary_message 'c
  | D_Request primary_message 'c
  | D_Reply reply_intent reply_token "secs_item option" 'c
  | D_Connected mono_time
  | D_Drive mono_time
  | D_Message protocol_message mono_time
  | D_Decode codec_step "bytes option" mono_time
  | D_Capacity usize usize
  | D_TakeInbound
  | D_TakeProtocolError
  | D_WriteOutcome write_id write_outcome mono_time mono_time
  | D_BeginDrain
  | D_FinishDrain close_reason mono_time
  | D_Shutdown close_reason "write_id option" mono_time
  | D_AdvanceTime mono_time
  | D_WriterStopped mono_time
  | D_WriterState 'w

definition accepted_tag :: "('a, 'e) result \<Rightarrow> 'c \<Rightarrow> completion_kind \<Rightarrow> ('c \<times> completion_kind) list" where
  "accepted_tag result completion kind = (case result of Inl _ \<Rightarrow> [] | Inr _ \<Rightarrow> [(completion, kind)])"

fun driver_turn ::
  "('w, 'p) writer_ingress \<Rightarrow> ('w, 'c) driver_input \<Rightarrow> ('w, 'c) session_driver \<Rightarrow>
     ('c \<times> completion_kind) list \<times> ('w, 'c) session_driver" where
  "driver_turn W (D_Control intent c) d =
     (case try_accept_control intent c d of (r, d) \<Rightarrow> (accepted_tag r c Kind_Control, d))"
| "driver_turn W (D_Send message c) d =
     (case try_accept_send message c d of (r, d) \<Rightarrow> (accepted_tag r c Kind_Send, d))"
| "driver_turn W (D_Request message c) d =
     (case try_accept_request message c d of (r, d) \<Rightarrow> (accepted_tag r c Kind_Request, d))"
| "driver_turn W (D_Reply intent token body c) d =
     (case try_accept_reply intent token body c d of
        (r, d) \<Rightarrow> (accepted_tag r c (completion_kind_of (Accepted_Reply intent token body)), d))"
| "driver_turn W (D_Connected now) d = ([], snd (driver_on_connected W now d))"
| "driver_turn W (D_Drive now) d = ([], snd (drive_next_command W now d))"
| "driver_turn W (D_Message message now) d = ([], snd (driver_on_message W message now d))"
| "driver_turn W (D_Decode step header now) d =
     ([], snd (on_decode_step_with_header W step header now d))"
| "driver_turn W (D_Capacity primaries errors) d = ([], set_delivery_capacity primaries errors d)"
| "driver_turn W D_TakeInbound d = ([], snd (take_inbound d))"
| "driver_turn W D_TakeProtocolError d = ([], snd (take_protocol_error d))"
| "driver_turn W (D_WriteOutcome write_id outcome occurred_at now) d =
     ([], driver_on_write_outcome_at W write_id outcome occurred_at now d)"
| "driver_turn W D_BeginDrain d = ([], begin_shutdown_drain d)"
| "driver_turn W (D_FinishDrain reason now) d = ([], driver_finish_shutdown_drain W reason now d)"
| "driver_turn W (D_Shutdown reason failed now) d = ([], driver_on_shutdown W reason failed now d)"
| "driver_turn W (D_AdvanceTime now) d = ([], snd (driver_advance_time W now d))"
| "driver_turn W (D_WriterStopped now) d = ([], on_writer_stopped W now d)"
| "driver_turn W (D_WriterState w) d = ([], d\<lparr>sd_writer := w\<rparr>)"

fun accepting :: "('w, 'c) driver_input \<Rightarrow> bool" where
  "accepting (D_Control _ _) = True"
| "accepting (D_Send _ _) = True"
| "accepting (D_Request _ _) = True"
| "accepting (D_Reply _ _ _ _) = True"
| "accepting _ = False"

fun driver_run ::
  "('w, 'p) writer_ingress \<Rightarrow> ('w, 'c) driver_input list \<Rightarrow> ('w, 'c) session_driver \<Rightarrow>
     ('c \<times> completion_kind) list \<times> ('w, 'c) session_driver" where
  "driver_run W [] d = ([], d)"
| "driver_run W (i # is) d =
     (let (tags, d1) = driver_turn W i d; (rest, d2) = driver_run W is d1 in (tags @ rest, d2))"

text \<open>
  An accepting input either changes nothing or appends one command to the queue; the class of its
  result is the tag.
\<close>

definition joins_queue ::
  "accepted_command_kind \<Rightarrow> 'c \<Rightarrow> ('c \<times> completion_kind) list \<Rightarrow> ('w, 'c) session_driver \<Rightarrow>
     ('w, 'c) session_driver \<Rightarrow> bool" where
  "joins_queue kind completion tags d d' \<longleftrightarrow>
     (\<exists>charge. tags = [(completion, completion_kind_of kind)] \<and>
        d' = enqueue charge kind completion (d\<lparr>sd_command_bytes := sd_command_bytes d + charge\<rparr>) \<and>
        length (sd_accepted_commands d) < sd_command_capacity d \<and>
        charge \<le> sd_command_byte_capacity d - sd_command_bytes d \<and> sd_closing d = None)"

lemma command_charge_bound:
  "command_charge body d = Inr n \<Longrightarrow> n \<le> sd_command_byte_capacity d - sd_command_bytes d"
  by (auto simp: command_charge_def Let_def res_simps split: sum.splits if_splits)

lemma queued_control:
  assumes "length (sd_accepted_commands d) < sd_command_capacity d" "sd_closing d = None"
  shows "joins_queue (Accepted_Control kind) c [(c, Kind_Control)] d (enqueue 0 (Accepted_Control kind) c d)"
  unfolding joins_queue_def by (rule exI [of _ 0]) (use assms in simp)

lemma data_turn:
  assumes "try_accept_data message c reply d = (r, d')"
  shows "r \<noteq> Inr () \<and> d' = d \<or> r = Inr () \<and>
     joins_queue (if reply then Accepted_Request message else Accepted_Send message) c
       [(c, if reply then Kind_Request else Kind_Send)] d d'"
  using assms command_charge_bound [of "pm_body message" d]
  by (auto simp: try_accept_data_def joins_queue_def Let_def not_le split: if_splits sum.splits)

lemma reply_turn:
  assumes "try_accept_reply intent token body c d = (r, d')"
  shows "r \<noteq> Inr () \<and> d' = d \<or> r = Inr () \<and>
     joins_queue (Accepted_Reply intent token body) c
       [(c, completion_kind_of (Accepted_Reply intent token body))] d d'"
proof (cases r)
  case (Inr u)
  then show ?thesis
    using assms command_charge_bound [of body d]
    by (auto simp: try_accept_reply_def joins_queue_def Let_def not_le split: if_splits sum.splits
        simp del: completion_kind_of.simps)
qed (use assms in \<open>auto simp: try_accept_reply_def Let_def split: if_splits sum.splits\<close>)

lemma accepting_turn:
  assumes "accepting i" "driver_turn W i d = (tags, d')"
  shows "tags = [] \<and> d' = d \<or> (\<exists>kind completion. joins_queue kind completion tags d d')"
proof (cases i)
  case (D_Control intent c)
  then show ?thesis
    using assms queued_control [of d _ c]
    by (auto simp: try_accept_control_def accepted_tag_def Let_def not_le
        split: if_splits option.splits)
next
  case (D_Send m c)
  obtain r d1 where r: "try_accept_data m c False d = (r, d1)" by fastforce
  then show ?thesis
    using assms D_Send data_turn [OF r]
    by (cases r) (auto simp: try_accept_send_def accepted_tag_def)
next
  case (D_Request m c)
  obtain r d1 where r: "try_accept_data m c True d = (r, d1)" by fastforce
  then show ?thesis
    using assms D_Request data_turn [OF r]
    by (cases r) (auto simp: try_accept_request_def accepted_tag_def)
next
  case (D_Reply intent token body c)
  obtain r d1 where r: "try_accept_reply intent token body c d = (r, d1)" by fastforce
  then show ?thesis
    using assms D_Reply reply_turn [OF r]
    by (cases r) (auto simp: accepted_tag_def simp del: completion_kind_of.simps)
qed (use assms(1) in simp_all)

context driver_law
begin

lemma step_laws:
  "P None d \<Longrightarrow> P None (apply_actions W (on_connected now (sd_core d)) now d)"
  "P None d \<Longrightarrow> P None (apply_actions W (advance_time now (sd_core d)) now d)"
  "P None d \<Longrightarrow> P None (apply_actions W (on_message m now (sd_core d)) now d)"
  "P None d \<Longrightarrow> P None (apply_actions W (on_inbound_violation v now (sd_core d)) now d)"
  using apply_actions_law [of d W "In_Connected now"] apply_actions_law [of d W "In_AdvanceTime now"]
    apply_actions_law [of d W "In_Message m now"] apply_actions_law [of d W "In_Violation v now"]
  by simp_all

lemma unfinished_laws:
  "P None d \<Longrightarrow> P None (apply_actions_without_finishing_close W (on_write_outcome_at w r at now (sd_core d)) now d)"
  "P None d \<Longrightarrow> P None (apply_actions_without_finishing_close W (finalize_writer now (sd_core d)) now d)"
  "P None d \<Longrightarrow> P None (apply_actions_without_finishing_close W (on_shutdown reason failed now (sd_core d)) now d)"
  using apply_unfinished_law [of d W "In_WriteOutcome w r at now"]
    apply_unfinished_law [of d W "In_FinalizeWriter now"]
    apply_unfinished_law [of d W "In_Shutdown reason now"]
    apply_unfinished_law [of d W "In_AdmissionFailure reason (the failed) now"]
  by simp_all (cases failed; simp)

lemma closing_down_law:
  "P None d \<Longrightarrow> P None (begin_closing reason Immediate
     (apply_actions_without_finishing_close W (on_shutdown reason failed now (sd_core d)) now d))"
  by (intro begin_closing_law unfinished_laws unfinished_closing on_shutdown_closing)

lemma driver_fail_law: "P None d \<Longrightarrow> P None (driver_fail_runtime_invariant W now d)"
  by (simp add: driver_fail_runtime_invariant_def finish_close_law closing_down_law)

lemma on_shutdown_law: "P None d \<Longrightarrow> P None (driver_on_shutdown W reason failed now d)"
  by (simp add: driver_on_shutdown_def finish_close_law closing_down_law)

lemma due_law: "P None d \<Longrightarrow> P None (process_due_deadlines W now d)"
  by (simp add: process_due_deadlines_def step_laws)

lemma present_law: "P (Some a) d \<Longrightarrow> P None (present_command W a permit now d)"
proof -
  assume P: "P (Some a) d"
  obtain k d' where k: "allocate_command_id d = (k, d')" by fastforce
  show ?thesis
  proof (cases k)
    case None
    with k have "d' = d" by (auto simp: allocate_command_id_def split: option.splits)
    with P k None show ?thesis
      by (auto simp: present_command_def intro!: driver_fail_law reject_law quiet_updates
          split: option.split)
  next
    case (Some v)
    let ?d = "d'\<lparr>sd_completions := om_insert v
             \<lparr>pc_kind = completion_kind_of (ac_kind a), pc_completion = ac_completion a\<rparr>
             (sd_completions d')\<rparr>"
    have "P None ?d" using register_law P k Some by simp
    then have "P None (apply_actions_with_data_permit W (core_turn i (sd_core ?d)) permit now ?d)" for i
      by (rule apply_with_permit_law)
    moreover obtain i where "present_to_core v (ac_kind a) now (sd_core d') = core_turn i (sd_core d')"
      by (cases "ac_kind a") (metis (no_types, lifting) present_to_core_def
          accepted_command_kind.case core_turn.simps(2,5))+
    ultimately show ?thesis using k Some by (simp add: present_command_def)
  qed
qed

lemma drive_accepted_law: "P (Some a) d \<Longrightarrow> P None (drive_accepted W a now d)"
  by (auto simp: drive_accepted_def Let_def split: prod.split sum.split
      intro!: reject_law present_law finish_close_law shutdown_after_law quiet_updates)

lemma drive_law: "P None d \<Longrightarrow> P None (snd (drive_next_command W now d))"
  by (auto simp: drive_next_command_def Let_def due_law drive_accepted_law split: option.split
      dest!: take_law [rotated])

lemma message_law: "P None d \<Longrightarrow> P None (snd (driver_on_message W m now d))"
proof -
  assume "P None d"
  then have P: "P None (process_due_deadlines W now d)" by (rule due_law)
  let ?d = "apply_actions W (on_message m now (sd_core (process_due_deadlines W now d))) now
      (process_due_deadlines W now d)"
  have "P None (?d\<lparr>sd_core := snd (take_notice (sd_core ?d))\<rparr>)" using P by (intro notice_law step_laws)
  with P show ?thesis
    by (auto simp: driver_on_message_def Let_def take_notice_def split: option.split
        intro!: noticed_law)
qed

lemma report_law: "P None d \<Longrightarrow> P None (snd (report_violation W v report now d))"
proof -
  assume P: "P None d"
  let ?d = "d\<lparr>sd_protocol_errors := sd_protocol_errors d @ [report]\<rparr>"
  have "P None (apply_actions W (on_inbound_violation v now (sd_core ?d)) now ?d)"
    by (intro step_laws quiet_updates P)
  with P show ?thesis by (auto simp: report_violation_def Let_def on_shutdown_law)
qed

lemma decode_law: "P None d \<Longrightarrow> P None (snd (on_decode_step_with_header W step header now d))"
  by (cases step) (simp_all add: on_decode_step_with_header_def Let_def message_law report_law
      driver_fail_law due_law)

lemma outcome_law: "P None d \<Longrightarrow> P None (driver_on_write_outcome_at W w r at now d)"
  by (auto simp: driver_on_write_outcome_at_def Let_def due_law
      intro!: finish_close_law satisfy_law quiet_updates unfinished_laws)

lemma finish_drain_law: "P None d \<Longrightarrow> P None (driver_finish_shutdown_drain W reason now d)"
proof -
  assume P: "P None d"
  let ?d = "d\<lparr>sd_shutdown_draining := True\<rparr>"
  obtain r d1 where a: "apply_core W (core_turn (In_FinishDrain reason now) (sd_core ?d)) None ?d = (r, d1)"
    by fastforce
  have "P None d1" by (rule apply_core_law [OF a]) (intro quiet_updates P)
  with a show ?thesis
    by (auto simp: driver_finish_shutdown_drain_def Let_def
        intro!: finish_close_law handle_failure_law split: sum.split)
qed

lemma stopped_law: "P None d \<Longrightarrow> P None (on_writer_stopped W now d)"
proof -
  assume "P None d"
  then have "P None (if sd_closing d = None then driver_on_shutdown W RuntimeInvariant None now d else d)"
    (is "P None ?d1") by (simp add: on_shutdown_law)
  then have "P None ((apply_actions_without_finishing_close W (finalize_writer now (sd_core ?d1)) now ?d1)
      \<lparr>sd_admitted_writes := {}\<rparr>)" (is "P None ?d2") by (intro quiet_updates unfinished_laws)
  then show ?thesis
    unfolding on_writer_stopped_def Let_def
    by (intro drain_law finish_close_law) (cases "sd_closing ?d2"; simp add: unbar_law)
qed

lemma turn_keeps: "P None d \<Longrightarrow> \<not> accepting i \<Longrightarrow> P None (snd (driver_turn W i d))"
  by (cases i) (auto simp: driver_on_connected_def driver_advance_time_def step_laws drive_law
      message_law decode_law outcome_law finish_drain_law on_shutdown_law stopped_law
      set_delivery_capacity_def take_inbound_def take_protocol_error_def begin_shutdown_drain_def
      split: list.split intro!: quiet_updates)

lemma run_keeps:
  assumes queued_law: "\<And>kind c tags d d'. P None d \<Longrightarrow> joins_queue kind c tags d d' \<Longrightarrow> P None d'"
    and "P None d" "driver_run W is d = (tags, d')"
  shows "P None d'"
  using assms(2,3)
proof (induction "is" arbitrary: d tags)
  case (Cons i "is")
  obtain t1 d1 where i: "driver_turn W i d = (t1, d1)" by fastforce
  have "P None d1"
    using turn_keeps [OF Cons.prems(1), of i W] accepting_turn [OF _ i] queued_law Cons.prems(1) i
    by (cases "accepting i") auto
  with Cons i show ?case by (auto simp: Let_def split: prod.splits)
qed simp

end

end
