(* ===== verification/Hsms_Time.thy ===== *)
theory Hsms_Time
  imports Hsms_Settled
begin

section \<open>The core's clock\<close>

text \<open>
  \<open>sc_last_now\<close> is written by \<open>accept_time\<close> alone, with the time of the input. Every other
  function of the core keeps it: the collection \<open>keeps_time\<close>, in the order in which the functions
  call each other. So a run whose clock does not go back never meets a core that is ahead of it.
\<close>

named_theorems keeps_time

lemma completion_last_now:
  assumes "\<And>c. sc_last_now (F c) = sc_last_now c"
  shows "sc_last_now (complete_error_with F k e c) = sc_last_now c"
    "sc_last_now (complete_or_defer_with F e k c) = sc_last_now c"
    "sc_last_now (complete_all_with F e c) = sc_last_now c"
proof -
  show e: "sc_last_now (complete_error_with F k e c) = sc_last_now c" for k c
  by (auto simp: complete_error_with_def emit_completion_with_def emit_def assms split: option.split)
  show d: "sc_last_now (complete_or_defer_with F e k c) = sc_last_now c" for k c
    by (simp add: complete_or_defer_with_def e defer_error_def)
  have "sc_last_now (fold (complete_or_defer_with F e) ks c) = sc_last_now c" for ks c
    by (induction ks arbitrary: c) (simp_all add: d)
  then show "sc_last_now (complete_all_with F e c) = sc_last_now c"
    by (simp add: complete_all_with_def Let_def clear_transactions_def)
qed

lemma request_close_last_now: "sc_last_now (request_close reason barrier c) = sc_last_now c"
  by (simp add: request_close_def Let_def)

lemma fail_last_now: "sc_last_now (fail_runtime_invariant c) = sc_last_now c"
  by (simp add: fail_runtime_invariant_def request_close_last_now completion_last_now)

lemmas last_now_simps = request_close_last_now fail_last_now
  completion_last_now [where F = fail_runtime_invariant, OF fail_last_now, folded complete_error_def complete_all_def]

declare last_now_simps [keeps_time]

lemma fold_keeps_time:
  "(\<And>x c. sc_last_now (f x c) = sc_last_now c) \<Longrightarrow> sc_last_now (fold f xs c) = sc_last_now c"
  by (induction xs arbitrary: c) simp_all

lemma deferral_last_now [keeps_time]:
  "sc_last_now (complete_or_defer e k c) = sc_last_now c"
  "sc_last_now (emit k r c) = sc_last_now c"
  "sc_last_now (emit_completion k r c) = sc_last_now c"
  by (auto simp: complete_or_defer_def complete_or_defer_with_def defer_error_def emit_def
      emit_completion_def emit_completion_with_def keeps_time complete_error_def [symmetric])

lemma deselection_last_now [keeps_time]:
  "sc_last_now (complete_data_for_deselection c) = sc_last_now c"
  by (simp add: complete_data_for_deselection_def Let_def fold_keeps_time keeps_time)

lemma last_now_base [keeps_time]:
  "sc_last_now (push x0 c) = sc_last_now c"
  "sc_last_now (fresh_batch c) = sc_last_now c"
  "sc_last_now (defer_error x2 y2 c) = sc_last_now c"
  "sc_last_now (clear_transactions c) = sc_last_now c"
  "sc_last_now (complete_control x4 y4 c) = sc_last_now c"
  "sc_last_now (complete_send x5 y5 c) = sc_last_now c"
  "sc_last_now (complete_request x6 y6 c) = sc_last_now c"
  "sc_last_now (snd (allocate_write_id c)) = sc_last_now c"
  "sc_last_now (snd (allocate_system_bytes c)) = sc_last_now c"
  "sc_last_now (arm_selection_timeout x9 c) = sc_last_now c"
  "sc_last_now (record_activity x10 c) = sc_last_now c"
  "sc_last_now (insert_data_transaction x11 y11 c) = sc_last_now c"
  "sc_last_now (retire_data_transaction x12 c) = sc_last_now c"
  "sc_last_now (insert_reply_contract x13 y13 c) = sc_last_now c"
  "sc_last_now (close_for_timeout x14 c) = sc_last_now c"
  "sc_last_now (open_command x15 y15 c) = sc_last_now c"
  "sc_last_now (remove_transaction_for_write x16 y16 c) = sc_last_now c"
  "sc_last_now (snd (take_notice c)) = sc_last_now c"
  by (auto simp: push_def fresh_batch_def defer_error_def clear_transactions_def
      complete_control_def complete_send_def complete_request_def allocate_write_id_def
      allocate_system_bytes_def arm_selection_timeout_def record_activity_def
      insert_data_transaction_def retire_data_transaction_def insert_reply_contract_def
      close_for_timeout_def open_command_def remove_transaction_for_write_def take_notice_def
      keeps_time fold_keeps_time Let_def split_beta split: option.split sum.split pending_write_kind.split reject_target.split core_command_kind.split
      protocol_message.split control_message.split write_outcome.split response_match.split list.split)

lemma last_now_steps [keeps_time]:
  "sc_last_now (complete_ok x0 c) = sc_last_now c"
  "sc_last_now (snd (allocate_request_identifiers c)) = sc_last_now c"
  "sc_last_now (complete_control_transaction x2 y2 c) = sc_last_now c"
  "sc_last_now (add_write x3 y3 z3 u3 c) = sc_last_now c"
  "sc_last_now (commit_deselection x4 c) = sc_last_now c"
  "sc_last_now (snd (receive_data x5 c)) = sc_last_now c"
  "sc_last_now (expire_request x6 c) = sc_last_now c"
  "sc_last_now (finish_failed_write x7 y7 z7 c) = sc_last_now c"
  "sc_last_now (commit_write x8 y8 z8 c) = sc_last_now c"
  by (auto simp: complete_ok_def allocate_request_identifiers_def
      complete_control_transaction_def add_write_def commit_deselection_def receive_data_def
      expire_request_def finish_failed_write_def commit_write_def
      keeps_time fold_keeps_time Let_def split_beta split: option.split sum.split pending_write_kind.split reject_target.split core_command_kind.split
      protocol_message.split control_message.split write_outcome.split response_match.split list.split)

lemma last_now_procedures [keeps_time]:
  "sc_last_now (send_response x0 c) = sc_last_now c"
  "sc_last_now (start_transaction x1 y1 c) = sc_last_now c"
  "sc_last_now (start_separate x2 y2 c) = sc_last_now c"
  "sc_last_now (start_data x3 y3 z3 c) = sc_last_now c"
  "sc_last_now (receive_separate c) = sc_last_now c"
  "sc_last_now (apply_reject x5 y5 c) = sc_last_now c"
  by (auto simp: send_response_def start_transaction_def start_separate_def start_data_def
      receive_separate_def apply_reject_def
      keeps_time fold_keeps_time Let_def split_beta split: option.split sum.split pending_write_kind.split reject_target.split core_command_kind.split
      protocol_message.split control_message.split write_outcome.split response_match.split list.split)

lemma last_now_messages [keeps_time]:
  "sc_last_now (send_transaction_not_open_reject x0 y0 z0 c) = sc_last_now c"
  "sc_last_now (start_select x1 c) = sc_last_now c"
  "sc_last_now (start_linktest x2 c) = sc_last_now c"
  "sc_last_now (progress_deselect x3 c) = sc_last_now c"
  "sc_last_now (receive_deselect_request x4 y4 z4 c) = sc_last_now c"
  "sc_last_now (receive_select_request x5 y5 c) = sc_last_now c"
  "sc_last_now (snd (receive_reject x6 y6 z6 u6 c)) = sc_last_now c"
  "sc_last_now (receive_inbound_data x7 c) = sc_last_now c"
  "sc_last_now (probe_idle x8 c) = sc_last_now c"
  by (auto simp: send_transaction_not_open_reject_def start_select_def start_linktest_def
      progress_deselect_def receive_deselect_request_def receive_select_request_def receive_reject_def
      receive_inbound_data_def probe_idle_def
      keeps_time fold_keeps_time Let_def split_beta split: option.split sum.split pending_write_kind.split reject_target.split core_command_kind.split
      protocol_message.split control_message.split write_outcome.split response_match.split list.split)

lemma last_now_responses [keeps_time]:
  "sc_last_now (start_deselect x0 y0 c) = sc_last_now c"
  "sc_last_now (receive_deselect_response x1 y1 z1 u1 c) = sc_last_now c"
  "sc_last_now (receive_select_response x2 y2 z2 c) = sc_last_now c"
  "sc_last_now (receive_linktest_response x3 c) = sc_last_now c"
  "sc_last_now (expire_deadlines x4 c) = sc_last_now c"
  by (auto simp: start_deselect_def receive_deselect_response_def receive_select_response_def
      receive_linktest_response_def expire_deadlines_def
      keeps_time fold_keeps_time Let_def split_beta split: option.split sum.split pending_write_kind.split reject_target.split core_command_kind.split
      protocol_message.split control_message.split write_outcome.split response_match.split list.split)

lemma last_now_inputs [keeps_time]:
  "sc_last_now (dispatch_command x0 y0 z0 c) = sc_last_now c"
  "sc_last_now (dispatch_message x1 y1 c) = sc_last_now c"
  "sc_last_now (settle_write x2 y2 z2 u2 v2 c) = sc_last_now c"
  by (auto simp: dispatch_command_def dispatch_message_def settle_write_def
      keeps_time fold_keeps_time Let_def split_beta split: option.split sum.split pending_write_kind.split reject_target.split core_command_kind.split
      protocol_message.split control_message.split write_outcome.split response_match.split list.split)

lemma accept_time_last_now:
  "accept_time now c = (b, c') \<Longrightarrow> sc_last_now c' = (if b then Some now else sc_last_now c)"
  by (auto simp: accept_time_def keeps_time split: if_splits)

lemma on_connected_last_now: "sc_last_now (on_connected now c) \<in> {sc_last_now c, Some now}"
  by (auto simp: on_connected_def keeps_time fold_keeps_time Let_def
      dest!: accept_time_last_now split: option.split sum.split prod.split bool.split)

lemma on_command_last_now: "sc_last_now (on_command k now c) \<in> {sc_last_now c, Some now}"
  by (auto simp: on_command_def keeps_time fold_keeps_time Let_def
      dest!: accept_time_last_now split: option.split sum.split prod.split bool.split)

lemma on_message_last_now: "sc_last_now (on_message m now c) \<in> {sc_last_now c, Some now}"
  by (auto simp: on_message_def keeps_time fold_keeps_time Let_def
      dest!: accept_time_last_now split: option.split sum.split prod.split bool.split)

lemma on_inbound_violation_last_now: "sc_last_now (on_inbound_violation v now c) \<in> {sc_last_now c, Some now}"
  by (auto simp: on_inbound_violation_def keeps_time fold_keeps_time Let_def
      dest!: accept_time_last_now split: option.split sum.split prod.split bool.split
        inbound_violation.split header_violation_kind.split)

lemma allocated_last_now: "allocate_write_id c = (w, c') \<Longrightarrow> sc_last_now c' = sc_last_now c"
  by (auto simp: allocate_write_id_def split: option.splits)

lemma on_reply_last_now: "sc_last_now (on_reply k r intent body now c) \<in> {sc_last_now c, Some now}"
proof -
  obtain b c1 where a: "accept_time now (open_command k
      (if intent = Reply_Abandon then Open_Control else Open_Send) (fresh_batch c)) = (b, c1)" by fastforce
  then have "sc_last_now c1 \<in> {sc_last_now c, Some now}"
    by (auto dest!: accept_time_last_now simp: keeps_time)
  then show ?thesis
    unfolding on_reply_def Let_def a
  by (auto simp: keeps_time dest!: allocated_last_now split: bool.split option.split prod.split)
qed

lemma on_write_outcome_at_last_now: "sc_last_now (on_write_outcome_at w x t now c) \<in> {sc_last_now c, Some now}"
  by (auto simp: on_write_outcome_at_def keeps_time fold_keeps_time Let_def
      dest!: accept_time_last_now split: option.split sum.split prod.split bool.split)

lemma on_shutdown_last_now: "sc_last_now (on_shutdown reason f now c) \<in> {sc_last_now c, Some now}"
  by (auto simp: on_shutdown_def keeps_time fold_keeps_time Let_def
      dest!: accept_time_last_now split: option.split sum.split prod.split bool.split)

lemma finish_shutdown_drain_last_now: "sc_last_now (finish_shutdown_drain reason now c) \<in> {sc_last_now c, Some now}"
  using on_shutdown_last_now [of reason None now c]
  by (auto simp: finish_shutdown_drain_def keeps_time fold_keeps_time Let_def
      dest!: accept_time_last_now split: option.split sum.split prod.split bool.split)

lemma advance_time_last_now: "sc_last_now (advance_time now c) \<in> {sc_last_now c, Some now}"
  by (auto simp: advance_time_def keeps_time fold_keeps_time Let_def
      dest!: accept_time_last_now split: option.split sum.split prod.split bool.split)

lemma finalize_writer_last_now: "sc_last_now (finalize_writer now c) \<in> {sc_last_now c, Some now}"
  by (auto simp: finalize_writer_def keeps_time fold_keeps_time Let_def
      dest!: accept_time_last_now split: option.split sum.split prod.split bool.split)

lemmas inputs_last_now = on_connected_last_now
  on_command_last_now
  on_message_last_now
  on_inbound_violation_last_now
  on_reply_last_now
  on_write_outcome_at_last_now
  on_shutdown_last_now
  finish_shutdown_drain_last_now
  advance_time_last_now
  finalize_writer_last_now

lemma turn_last_now: "sc_last_now (core_turn i c) \<in> {sc_last_now c, Some (input_time i)}"
  by (cases i) (simp_all only: core_turn.simps input_time.simps inputs_last_now)

lemma turn_in_order: "in_order t c \<Longrightarrow> input_time i \<le> t \<Longrightarrow> in_order t (core_turn i c)"
  using turn_last_now [of i c] by (auto simp: in_order_def)

end
