(* ===== verification/Hsms_Driver_Safety.thy ===== *)
theory Hsms_Driver_Safety
  imports Hsms_Driver_Laws Hsms_Time "HOL-Library.Multiset"
begin

section \<open>Safety and settlement of the driver\<close>

text \<open>
  Four interpretations of \<open>driver_law\<close>: \<open>known\<close> (a closing driver has a closing core),
  \<open>owned\<close> (where each accepted endpoint is), \<open>closed_once\<close> (the transport) and
  \<open>budget\<close> (the command queue). They hold for every Writer, whatever it answers. From the first
  two follows the contract of command completion: once the Writer has stopped, every accepted
  endpoint has been given exactly one result, of the class it was accepted for.
\<close>

subsection \<open>The core of a closing driver\<close>

definition known :: "'c accepted_command option \<Rightarrow> ('w, 'c) session_driver \<Rightarrow> bool" where
  "known h d \<longleftrightarrow> om_ok (sc_open_commands (sd_core d)) \<and>
     (sd_closing d \<noteq> None \<longrightarrow> sc_closing (sd_core d))"

lemma allocate_view:
  "allocate_command_id d = (k, d') \<Longrightarrow>
     sd_next_command_id d = k \<and>
     d' = d\<lparr>sd_next_command_id := Option.bind (sd_next_command_id d) checked_succ\<rparr>"
proof -
  assume "allocate_command_id d = (k, d')"
  moreover have "allocate_command_id d = (sd_next_command_id d,
      d\<lparr>sd_next_command_id := Option.bind (sd_next_command_id d) checked_succ\<rparr>)"
    by (cases "sd_next_command_id d") (simp_all add: allocate_command_id_def)
  ultimately show ?thesis by (metis Pair_inject)
qed

lemma dequeue_Some:
  "dequeue d = Some (a, d') \<longleftrightarrow> (\<exists>rest. sd_accepted_commands d = a # rest \<and>
     d' = d\<lparr>sd_accepted_commands := rest, sd_command_bytes := sd_command_bytes d - ac_byte_charge a\<rparr>)"
  by (auto simp: dequeue_def split: list.splits)

lemmas driver_effects = effect_def complete_endpoint_def take_notice_def dequeue_Some

interpretation known: driver_law known
proof
  show "known None d \<Longrightarrow> known None (d\<lparr>sd_core := core_turn i (sd_core d)\<rparr>)"
    for d :: "('w, 'c) session_driver" and i
    by (auto simp: known_def open_ok_turn turn_closing)
qed (auto simp: known_def view_def driver_effects begin_closing_def dest!: allocate_view
    split: option.splits)

subsection \<open>Where the endpoints are\<close>

text \<open>The results an endpoint accepted for a class of command may be given.\<close>

definition answers :: "completion_kind \<Rightarrow> driver_command_result \<Rightarrow> bool" where
  "answers kind result \<longleftrightarrow>
     fits kind result \<or> (\<exists>command e. kind = completion_kind_of command \<and> result = rejected command e)"

fun delivery :: "'c driver_effect \<Rightarrow> ('c \<times> driver_command_result) list" where
  "delivery (Delivered c r) = [(c, r)]"
| "delivery _ = []"

definition deliveries :: "('w, 'c) session_driver \<Rightarrow> ('c \<times> driver_command_result) list" where
  "deliveries d = concat (map delivery (sd_effects d))"

definition waiting :: "'c accepted_command list \<Rightarrow> ('c \<times> completion_kind) multiset" where
  "waiting as = mset (map (\<lambda>a. (ac_completion a, completion_kind_of (ac_kind a))) as)"

definition pending :: "'c pending_completion list \<Rightarrow> ('c \<times> completion_kind) multiset" where
  "pending ps = mset (map (\<lambda>p. (pc_completion p, pc_kind p)) ps)"

text \<open>
  \<open>settled A B d\<close>: the results given so far answer a part of the accepted endpoints \<open>A\<close>,
  and \<open>B\<close> is the rest.
\<close>

definition settled ::
  "('c \<times> completion_kind) multiset \<Rightarrow> ('c \<times> completion_kind) multiset \<Rightarrow>
     ('c \<times> driver_command_result) list \<Rightarrow> bool" where
  "settled A B given \<longleftrightarrow>
     (\<exists>D. map (\<lambda>(c, kind, r). (c, r)) D = given \<and>
        (\<forall>(c, kind, r) \<in> set D. answers kind r) \<and>
        mset (map (\<lambda>(c, kind, r). (c, kind)) D) + B = A)"

definition owned ::
  "('c \<times> completion_kind) multiset \<Rightarrow> 'c accepted_command option \<Rightarrow> ('w, 'c) session_driver \<Rightarrow> bool"
where
  "owned A h d \<longleftrightarrow>
     om_ok (sd_completions d) \<and>
     (\<forall>n. sd_next_command_id d = Some n \<longrightarrow> (\<forall>k \<in> set (om_keys (sd_completions d)). k < n)) \<and>
     settled A (waiting (option_list h) + waiting (sd_accepted_commands d) +
       pending (om_values (sd_completions d))) (deliveries d)"

lemma answers_rejected: "answers (completion_kind_of command) (rejected command e)"
  unfolding answers_def by blast

lemma deliveries_simps [simp]:
  "deliveries (d\<lparr>sd_effects := sd_effects d @ [Delivered c r]\<rparr>) = deliveries d @ [(c, r)]"
  "deliveries (d\<lparr>sd_effects := sd_effects d @ [Observed s]\<rparr>) = deliveries d"
  "deliveries (d\<lparr>sd_effects := sd_effects d @ [Noticed g n]\<rparr>) = deliveries d"
  "deliveries (d\<lparr>sd_effects := sd_effects d @ [TransportClose]\<rparr>) = deliveries d"
  by (simp_all add: deliveries_def)

lemma deliveries_cong: "sd_effects d = sd_effects d' \<Longrightarrow> deliveries d = deliveries d'"
  by (simp add: deliveries_def)

lemma settled_step:
  "settled A (add_mset (c, kind) B) given \<Longrightarrow> answers kind r \<Longrightarrow> settled A B (given @ [(c, r)])"
  unfolding settled_def
  by (elim exE conjE, rule_tac x = "D @ [(c, kind, r)]" in exI) auto

lemma waiting_simps [simp]:
  "waiting [] = {#}"
  "waiting (a # as) = add_mset (ac_completion a, completion_kind_of (ac_kind a)) (waiting as)"
  "waiting (as @ bs) = waiting as + waiting bs"
  by (simp_all add: waiting_def)

lemma pending_simps [simp]:
  "pending [] = {#}"
  "pending (p # ps) = add_mset (pc_completion p, pc_kind p) (pending ps)"
  by (simp_all add: pending_def)

lemma option_list_simps [simp]: "option_list None = []" "option_list (Some a) = [a]"
  by (simp_all add: option_list_def)

lemma pending_remove:
  assumes "om_ok m" "om_lookup m k = Some p"
  shows "pending (om_values m) =
    add_mset (pc_completion p, pc_kind p) (pending (om_values (om_remove k m)))"
  using assms
proof (induction m)
  case (Cons q m)
  show ?case
  proof (cases "fst q = k")
    case True
    then have "om_remove k m = m"
      using Cons.prems(1) by (auto simp: om_remove_def om_ok_def om_keys_def filter_id_conv)
    moreover have "snd q = p" using True Cons.prems(2) by (cases q) (simp add: om_lookup_def)
    ultimately show ?thesis using True by (cases q) (simp add: om_remove_def om_values_def)
  next
    case False
    then have "om_lookup m k = Some p" "om_ok m"
      using Cons.prems by (cases q, simp_all add: om_lookup_def om_ok_def om_keys_def)
    with Cons.IH False show ?thesis
      by (cases q) (auto simp: om_remove_def om_values_def add_mset_commute)
  qed
qed (simp add: om_lookup_def)

lemma pending_insert:
  assumes "k \<notin> set (om_keys m)"
  shows "pending (om_values (om_insert k p m)) = add_mset (pc_completion p, pc_kind p) (pending (om_values m))"
  using assms
  by (induction k p m rule: om_insert.induct) (auto simp: om_values_def om_keys_def add_mset_commute)

interpretation owned: driver_law "owned A" for A :: "('c \<times> completion_kind) multiset"
proof
  fix d :: "('w, 'c) session_driver" and k p r
  assume o: "owned A None d" "om_lookup (sd_completions d) k = Some p" "fits (pc_kind p) r"
  then have ok: "om_ok (sd_completions d)" by (simp add: owned_def)
  from o show "owned A None (complete_endpoint (pc_completion p) r
      (d\<lparr>sd_completions := om_remove k (sd_completions d)\<rparr>))"
    by (auto simp: owned_def driver_effects pending_remove [OF ok o(2)] om.remove_ok
        om.set_keys_remove answers_def deliveries_def intro!: settled_step)
next
  fix d d' :: "('w, 'c) session_driver" and a k
  assume o: "owned A (Some a) d" "allocate_command_id d = (Some k, d')"
  note d' = allocate_view [OF o(2)]
  have fresh: "k \<notin> set (om_keys (sd_completions d))" using o(1) d' by (auto simp: owned_def)
  have "j < n" if "j = k \<or> j \<in> set (om_keys (sd_completions d))" "checked_succ k = Some n" for j n
  proof -
    have "j \<le> k" using that(1) o(1) d' by (auto simp: owned_def intro: less_imp_le)
    with checked_succ_Some [OF that(2)] show ?thesis
      by (simp add: word_less_nat_alt word_le_nat_alt)
  qed
  with o d' show "owned A None (d'\<lparr>sd_completions := om_insert k
      \<lparr>pc_kind = completion_kind_of (ac_kind a), pc_completion = ac_completion a\<rparr> (sd_completions d')\<rparr>)"
    by (auto simp: owned_def pending_insert [OF fresh] om.insert_ok om.set_keys_insert deliveries_def)
next
  fix d :: "('w, 'c) session_driver" and a e
  assume "owned A (Some a) d"
  then show "owned A None (complete_endpoint (ac_completion a) (rejected (ac_kind a) e) d)"
    by (auto simp: owned_def driver_effects intro!: settled_step answers_rejected)
next
  fix d d' :: "('w, 'c) session_driver" and a
  assume "owned A None d" "dequeue d = Some (a, d')"
  then show "owned A (Some a) d'"
    by (auto simp: owned_def dequeue_Some deliveries_def)
qed (auto simp: owned_def view_def driver_effects begin_closing_def deliveries_def split: option.splits)

subsection \<open>The transport and the queue\<close>

definition closed_once :: "'c accepted_command option \<Rightarrow> ('w, 'c) session_driver \<Rightarrow> bool" where
  "closed_once h d \<longleftrightarrow>
     count (mset (sd_effects d)) TransportClose = (if sd_transport_closed d then 1 else 0) \<and>
     (sd_transport_closed d \<longrightarrow> (\<exists>cl. sd_closing d = Some cl \<and> cl_barrier_write_id cl = None))"

interpretation closed_once: driver_law closed_once
  by standard (auto simp: closed_once_def view_def driver_effects begin_closing_def
      dest!: allocate_view split: option.splits)

definition budget :: "'c accepted_command option \<Rightarrow> ('w, 'c) session_driver \<Rightarrow> bool" where
  "budget h d \<longleftrightarrow>
     length (sd_accepted_commands d) \<le> sd_command_capacity d \<and>
     sd_command_bytes d = sum_list (map ac_byte_charge (sd_accepted_commands d)) \<and>
     sd_command_bytes d \<le> sd_command_byte_capacity d"

interpretation budget: driver_law budget
  by standard (auto simp: budget_def view_def driver_effects begin_closing_def
      dest!: allocate_view split: option.splits)

lemma budget_queued: "budget None d \<Longrightarrow> joins_queue kind c tags d d' \<Longrightarrow> budget None d'"
  by (auto simp: budget_def joins_queue_def enqueue_def)

lemma closed_once_queued: "closed_once None d \<Longrightarrow> joins_queue kind c tags d d' \<Longrightarrow> closed_once None d'"
  by (auto simp: closed_once_def joins_queue_def enqueue_def)

lemma known_queued: "known None d \<Longrightarrow> joins_queue kind c tags d d' \<Longrightarrow> known None d'"
  by (auto simp: known_def joins_queue_def enqueue_def)

lemma settled_accept: "settled A B given \<Longrightarrow> settled (add_mset t A) (add_mset t B) given"
  by (auto simp: settled_def)

lemma owned_queued:
  assumes "owned A None d" "joins_queue kind c tags d d'"
  shows "owned (A + mset tags) None d'"
proof -
  have "settled (add_mset t A) (add_mset t B) g" if "settled A B g" for t B g
    using that by (rule settled_accept)
  then show ?thesis using assms by (auto simp: owned_def joins_queue_def enqueue_def deliveries_def)
qed

lemma owned_run:
  "owned A None d \<Longrightarrow> driver_run W is d = (tags, d') \<Longrightarrow> owned (A + mset tags) None d'"
proof (induction "is" arbitrary: A d tags)
  case (Cons i "is")
  obtain t1 d1 where i: "driver_turn W i d = (t1, d1)" by fastforce
  have "\<not> accepting i \<Longrightarrow> t1 = []" using i by (cases i) auto
  then have "owned (A + mset t1) None d1"
    using owned.turn_keeps [OF Cons.prems(1), of i W] accepting_turn [OF _ i] owned_queued
      Cons.prems(1) i by (cases "accepting i") auto
  from Cons.IH [OF this] Cons.prems i show ?case
    by (auto simp: Let_def ac_simps split: prod.splits)
qed simp

subsection \<open>A new driver\<close>

lemma with_command_capacity_laws:
  assumes "d = with_command_capacity g owner (session_core_new cfg) w cap"
  shows "known None d" "owned {#} None d" "closed_once None d" "budget None d"
  using assms
  by (auto simp: with_command_capacity_def known_def owned_def closed_once_def budget_def settled_def
      deliveries_def session_core_new_def)

lemma from_config_laws:
  assumes "driver_from_config clock_fits g owner config w = Inr d"
  shows "known None d" "owned {#} None d" "closed_once None d" "budget None d"
    and "sd_command_capacity d = el_command_capacity (ec_limits config)"
    and "sd_command_byte_capacity d = unat (rp_command_bytes (ec_runtime config))"
  using assms
  by (auto simp: driver_from_config_def res_simps Let_def with_command_capacity_def known_def
      owned_def closed_once_def budget_def settled_def deliveries_def session_core_new_def)

subsection \<open>Settlement when the Writer has stopped\<close>

interpretation none_open: core_silent "\<lambda>c. sc_open_commands c = []"
  by standard (auto simp: hard_def emit_def request_close_def Let_def)

interpretation open_ok: core_silent "\<lambda>c. om_ok (sc_open_commands c)"
  by standard (auto simp: hard_def emit_def request_close_def Let_def om.remove_ok)

lemma fresh_batch_open [simp]: "sc_open_commands (fresh_batch c) = sc_open_commands c"
  by (simp add: fresh_batch_def)

lemma on_shutdown_none_open:
  "sc_open_commands c = [] \<Longrightarrow> sc_open_commands (on_shutdown reason failed now c) = []"
  by (cases failed) (auto intro!: none_open.on_shutdown_law none_open.on_shutdown_failed_law
      simp: push_def)

lemma finalize_none_open:
  assumes "om_ok (sc_open_commands c)" "in_order now c" "sc_closing c"
  shows "sc_open_commands (finalize_writer now c) = []"
proof -
  let ?c = "(fresh_batch c)\<lparr>sc_last_now := Some now, sc_pending_writes := []\<rparr>"
  let ?f = "\<lambda>write c. case pw_command_id write of
      None \<Rightarrow> c | Some k \<Rightarrow> complete_error k DeliveryIndeterminate c"
  have inv: "om_ok (sc_open_commands (fold ?f ws c')) \<and> sc_pending_writes (fold ?f ws c') = [] \<and>
      sc_closing (fold ?f ws c')"
    if "om_ok (sc_open_commands c')" "sc_pending_writes c' = []" "sc_closing c'" for ws c'
    using that
  proof (induction ws arbitrary: c')
    case (Cons w ws)
    then show ?case
      using stopped.complete_error_law [of c'] open_ok.complete_error_law [of c']
      by (auto split: option.split)
  qed simp
  have "accept_time now (fresh_batch c) = (True, (fresh_batch c)\<lparr>sc_last_now := Some now\<rparr>)"
    using accept_time_in_order [of now "fresh_batch c"] assms(2) by simp
  then have "finalize_writer now c =
      complete_all ConnectionLost (fold ?f (om_values (sc_pending_writes c)) ?c)"
    using assms(3) by (simp add: finalize_writer_def Let_def)
  with inv [of ?c "om_values (sc_pending_writes c)"] assms show ?thesis
    by (simp add: stopped_complete_all)
qed

lemma on_shutdown_in_order: "in_order now c \<Longrightarrow> in_order now (on_shutdown reason failed now c)"
  using on_shutdown_last_now [of reason failed now c] by (auto simp: in_order_def)

lemma unfinished_core:
  "sd_core (apply_actions_without_finishing_close W core now d) = core \<or>
   (\<exists>reason failed. sd_core (apply_actions_without_finishing_close W core now d) =
      on_shutdown reason failed now core)"
proof -
  obtain r d1 where a: "apply_core W core None d = (r, d1)" by fastforce
  then have c: "sd_core d1 = core" by (rule apply_core_core)
  show ?thesis
  proof (cases r)
    case (Inl failure)
    obtain reason f where "failure_cause failure = (reason, f)" by fastforce
    moreover have "sd_core (shutdown_after_driver_failure W reason f now d1) =
        on_shutdown reason f now core"
      by (auto simp: shutdown_after_driver_failure_def c split: prod.split sum.split dest!: apply_core_core)
    ultimately show ?thesis
      using a Inl by (auto simp: apply_actions_without_finishing_close_def settle_batch_def
          handle_action_failure_def handle_action_failure_with_reason_def)
  qed (use a c in \<open>simp add: apply_actions_without_finishing_close_def settle_batch_def\<close>)
qed

lemma complete_orphan_keeps [simp]:
  "sd_core (complete_orphan k d) = sd_core d"
  "om_keys (sd_completions (complete_orphan k d)) = filter (\<lambda>j. j \<noteq> k) (om_keys (sd_completions d))"
proof -
  show "om_keys (sd_completions (complete_orphan k d)) = filter (\<lambda>j. j \<noteq> k) (om_keys (sd_completions d))"
  proof -
    have "om_keys (om_remove k m) = filter (\<lambda>j. j \<noteq> k) (om_keys m)" for m :: "(command_id, 'b pending_completion) omap"
      by (induction m) (auto simp: om_remove_def om_keys_def)
    moreover have "filter (\<lambda>j. j \<noteq> k) (om_keys (sd_completions d)) = om_keys (sd_completions d)"
      if "om_lookup (sd_completions d) k = None"
      using that om.keys_lookup [of k "sd_completions d"] by (auto simp: filter_id_conv)
    ultimately show ?thesis
      by (auto simp: complete_orphan_def driver_effects split: option.split)
  qed
qed (simp add: complete_orphan_def driver_effects split: option.split)

lemma fold_orphan_keeps:
  "sd_core (fold complete_orphan ks d) = sd_core d \<and>
   om_keys (sd_completions (fold complete_orphan ks d)) =
     filter (\<lambda>j. j \<notin> set ks) (om_keys (sd_completions d))"
  by (induction ks arbitrary: d) (auto intro: filter_cong)

lemma reject_queue_keeps:
  "sd_accepted_commands (reject_queue d) = [] \<and> sd_completions (reject_queue d) = sd_completions d \<and>
   sd_core (reject_queue d) = sd_core d \<and> sd_closing (reject_queue d) = sd_closing d \<and>
   sd_transport_closed (reject_queue d) = sd_transport_closed d"
proof (induction d rule: reject_queue.induct)
  case (1 d)
  show ?case
  proof (cases "sd_accepted_commands d")
    case Nil
    then have "reject_queue d = d" by (subst reject_queue.simps) (simp add: dequeue_def)
    with Nil show ?thesis by simp
  next
    case (Cons a rest)
    then obtain d' where q: "dequeue d = Some (a, d')" by (simp add: dequeue_def)
    have "reject_queue d =
        reject_queue (complete_endpoint (ac_completion a) (rejected (ac_kind a) ConnectionLost) d')"
      using q by (subst reject_queue.simps) simp
    moreover have "sd_completions d' = sd_completions d" "sd_core d' = sd_core d"
      "sd_closing d' = sd_closing d" "sd_transport_closed d' = sd_transport_closed d"
      using q by (auto simp: dequeue_Some)
    ultimately show ?thesis
      using 1 [OF q refl] by (simp add: effect_def complete_endpoint_def)
  qed
qed

lemma drain_keeps:
  "sd_accepted_commands (drain_accepted_commands d) = []"
  "sd_core (drain_accepted_commands d) = sd_core d"
  "sc_open_commands (sd_core d) = [] \<Longrightarrow> sd_completions (drain_accepted_commands d) = []"
proof -
  show "sd_completions (drain_accepted_commands d) = []" if "sc_open_commands (sd_core d) = []"
  proof -
    have "om_keys (sd_completions (drain_accepted_commands d)) = []"
      using that fold_orphan_keeps [of "om_keys (sd_completions d)" d]
      by (simp add: drain_accepted_commands_def Let_def reject_queue_keeps owns_command_def)
    then show ?thesis by (simp add: om_keys_def)
  qed
qed (simp_all add: drain_accepted_commands_def Let_def reject_queue_keeps fold_orphan_keeps)

lemma finish_close_core [simp]: "sd_core (finish_close_if_ready d) = sd_core d"
  by (simp add: finish_close_if_ready_def Let_def drain_keeps effect_def)

interpretation still_closing: driver_law "\<lambda>_ d. sd_closing d \<noteq> None"
  by standard (auto simp: view_def driver_effects begin_closing_def dest!: allocate_view
      split: option.splits)

lemma begin_closing_closing: "sd_closing (begin_closing reason barrier d) \<noteq> None"
  by (auto simp: begin_closing_def split: option.split)

lemma fold_orphan_transport: "sd_transport_closed (fold complete_orphan ks d) = sd_transport_closed d"
  by (induction ks arbitrary: d) (auto simp: complete_orphan_def driver_effects split: option.split)

lemma drain_transport [simp]: "sd_transport_closed (drain_accepted_commands d) = sd_transport_closed d"
  by (simp add: drain_accepted_commands_def Let_def reject_queue_keeps fold_orphan_transport)

lemma finish_close_closed:
  assumes "sd_closing d = Some cl" "cl_barrier_write_id cl = None"
  shows "sd_transport_closed (finish_close_if_ready d)"
  using assms by (simp add: finish_close_if_ready_def)

lemma writer_stopped_empties:
  assumes "known None d" "in_order now (sd_core d)"
  shows "sd_accepted_commands (on_writer_stopped W now d) = [] \<and>
    sd_completions (on_writer_stopped W now d) = [] \<and>
    sd_transport_closed (on_writer_stopped W now d)"
proof -
  let ?d1 = "if sd_closing d = None then driver_on_shutdown W RuntimeInvariant None now d else d"
  have k1: "known None ?d1" using assms(1) known.on_shutdown_law by auto
  have c1: "sd_closing ?d1 \<noteq> None"
    unfolding driver_on_shutdown_def
    using still_closing.finish_close_law [OF begin_closing_closing]
    by (cases "sd_closing d = None") (simp_all only: if_True if_False simp_thms not_False_eq_True)
  have o1: "in_order now (sd_core ?d1)"
    using assms(2) unfinished_core [of W "on_shutdown RuntimeInvariant None now (sd_core d)" now d]
    by (auto simp: driver_on_shutdown_def on_shutdown_in_order)
  let ?c = "finalize_writer now (sd_core ?d1)"
  let ?d2 = "apply_actions_without_finishing_close W ?c now ?d1"
  have "sc_open_commands ?c = []"
    using k1 c1 o1 by (intro finalize_none_open) (auto simp: known_def)
  then have n2: "sc_open_commands (sd_core ?d2) = []"
    using unfinished_core [of W ?c now ?d1] on_shutdown_none_open by auto
  have "sd_closing ?d2 \<noteq> None" using still_closing.unfinished_laws(2) [OF c1] .
  then obtain cl where cl: "sd_closing ?d2 = Some cl" by blast
  let ?d3 = "?d2\<lparr>sd_admitted_writes := {}, sd_closing := Some (cl\<lparr>cl_barrier_write_id := None\<rparr>)\<rparr>"
  have "on_writer_stopped W now d = drain_accepted_commands (finish_close_if_ready ?d3)"
    using cl by (simp add: on_writer_stopped_def Let_def)
  moreover have "sd_transport_closed (finish_close_if_ready ?d3)"
    by (rule finish_close_closed [of _ "cl\<lparr>cl_barrier_write_id := None\<rparr>"]) simp_all
  ultimately show ?thesis using n2 by (simp add: drain_keeps)
qed

subsection \<open>A sample run\<close>

text \<open>
  A Writer whose queue is closed, a new driver, and a run in which a Select and a Linktest are
  accepted and the Select is driven: its frame is refused, and the driver closes.
\<close>

definition closed_writer :: "(unit, unit) writer_ingress" where
  "closed_writer = \<lparr>try_reserve_message = (\<lambda>_ w. (Err ConnectionLost, w)),
     release_data = (\<lambda>_ w. (Ok (), w)), admit_reserved_data = (\<lambda>_ _ w. (Err Reserved_Closed, w)),
     try_admit = (\<lambda>_ w. (Err Write_Closed, w))\<rparr>"

definition sample_driver :: "(unit, nat) session_driver" where
  "sample_driver = with_command_capacity 1 0
     (session_core_new (core_config_from_endpoint (endpoint_config_new Active () (SessionId 7)))) () 256
     \<lparr>sd_inbound_capacity := 256, sd_protocol_error_capacity := 64,
      sd_command_byte_capacity := 64 * 1024 * 1024, sd_maximum_message_length := 16 * 1024 * 1024\<rparr>"

definition sample_inputs :: "(unit, nat) driver_input list" where
  "sample_inputs = [D_Connected 10, D_Control Intent_Select 1, D_Control Intent_Linktest 2, D_Drive 20]"

lemma sample_driver_new:
  "driver_from_config (\<lambda>_. True) 1 0 (endpoint_config_new Active () (SessionId 7)) () = Ok sample_driver"
  unfolding driver_from_config_def endpoint_config_default_valid bind_res_simps
  by (simp add: sample_driver_def Let_def endpoint_config_new_def limits_default_def
      runtime_policy_default_def)

lemmas driver_eval = sample_driver_def with_command_capacity_def core_config_from_endpoint_def
  endpoint_config_new_def limits_default_def runtime_policy_default_def driver_on_connected_def
  apply_actions_def apply_actions_without_finishing_close_def apply_core_def apply_action_batch_def
  settle_batch_def effect_def finish_close_if_ready_def try_accept_control_def enqueue_def
  accepted_tag_def drive_next_command_def process_due_deadlines_def dequeue_def drive_accepted_def
  reply_draining_def present_command_def allocate_command_id_def present_to_core_def
  apply_actions_with_data_permit_def admit_control_def closed_writer_def handle_action_failure_def
  handle_action_failure_with_reason_def shutdown_after_driver_failure_def begin_closing_def
  complete_command_def materialize_result_def complete_endpoint_def drain_accepted_commands_def
  owns_command_def complete_orphan_def reject_queue.simps core_eval

lemma sample_run_ends:
  "\<exists>d. driver_run closed_writer sample_inputs sample_driver =
     ([(1, Kind_Control), (2, Kind_Control)], d) \<and> in_order 30 (sd_core d) \<and>
     sd_accepted_commands d = []"
  by (simp add: sample_inputs_def driver_eval next_deadline_def due_def min_option_def
      option_list_def admission_error_def om_remove_def remove_transaction_for_write_def split: if_splits)

text \<open>C13: No endpoint is lost or answered twice while the driver runs: after any sequence of operations the
  accepted endpoints are exactly those answered, those queued and those registered under a command
  identifier, and no identifier is used twice.\<close>

theorem endpoints_accounted:
  assumes "driver_from_config clock_fits g owner config w = Ok d0"
    and "driver_run W is d0 = (accepted, d)"
  shows "settled (mset accepted)
      (waiting (sd_accepted_commands d) + pending (om_values (sd_completions d))) (deliveries d) \<and>
    distinct (om_keys (sd_completions d))"
proof -
  have "owned (mset accepted) None d"
    using owned_run [OF from_config_laws(2) [OF assms(1)] assms(2)] by simp
  then show ?thesis by (simp add: owned_def om.keys_distinct)
qed

lemma endpoints_accounted_witness:
  "\<exists>d. driver_run closed_writer sample_inputs sample_driver =
       ([(1, Kind_Control), (2, Kind_Control)], d) \<and> distinct (om_keys (sd_completions d))"
  using endpoints_accounted [OF sample_driver_new] sample_run_ends by blast

text \<open>C14: The command queue stays within its two budgets: after any sequence of operations it holds at
  most the configured number of commands, the byte counter is the sum of the charges of the queued
  commands, so releasing a charge never underflows, and it never exceeds the configured bytes.\<close>

theorem command_queue_bounded:
  assumes "driver_from_config clock_fits g owner config w = Ok d0"
    and "driver_run W is d0 = (accepted, d)"
  shows "length (sd_accepted_commands d) \<le> sd_command_capacity d \<and>
    sd_command_bytes d = sum_list (map ac_byte_charge (sd_accepted_commands d)) \<and>
    sd_command_bytes d \<le> sd_command_byte_capacity d"
proof -
  have "budget None d"
    by (rule budget.run_keeps [OF _ from_config_laws(4) [OF assms(1)] assms(2)]) (rule budget_queued)
  then show ?thesis by (simp add: budget_def)
qed

lemma command_queue_bounded_witness:
  "\<exists>d. driver_run closed_writer [D_Control Intent_Select 1] sample_driver = ([(1, Kind_Control)], d) \<and>
     length (sd_accepted_commands d) \<le> 256"
proof -
  obtain d where r: "driver_run closed_writer [D_Control Intent_Select 1] sample_driver =
      ([(1, Kind_Control)], d)" "sd_command_capacity d = 256"
    by (simp add: driver_eval)
  from command_queue_bounded [OF sample_driver_new r(1)] r show ?thesis by auto
qed

text \<open>C15: The transport is closed at most once, whatever is called and however often, and only by a
  driver that is closing with no write left to wait for.\<close>

theorem transport_closed_once:
  assumes "driver_from_config clock_fits g owner config w = Ok d0"
    and "driver_run W is d0 = (accepted, d)"
  shows "count (mset (sd_effects d)) TransportClose = (if sd_transport_closed d then 1 else 0) \<and>
    (sd_transport_closed d \<longrightarrow> (\<exists>cl. sd_closing d = Some cl \<and> cl_barrier_write_id cl = None))"
proof -
  have "closed_once None d"
    by (rule closed_once.run_keeps [OF _ from_config_laws(3) [OF assms(1)] assms(2)])
      (rule closed_once_queued)
  then show ?thesis by (simp add: closed_once_def)
qed

lemma transport_closed_once_witness:
  "\<exists>acc d. driver_run closed_writer sample_inputs sample_driver = (acc, d) \<and>
     count (mset (sd_effects d)) TransportClose \<le> 1"
proof -
  obtain acc d where r: "driver_run closed_writer sample_inputs sample_driver = (acc, d)" by fastforce
  with transport_closed_once [OF sample_driver_new r] show ?thesis by auto
qed

end
