(* ===== verification/Hsms_Driver_Writer.thy ===== *)
theory Hsms_Driver_Writer
  imports Hsms_Writer Hsms_Driver_Safety
begin

section \<open>Driver and Writer together\<close>

text \<open>
  The contract between the driver and its Writer about reservations is the locale
  \<open>writer_contract\<close>: the Writer is \<open>idle\<close> when no reservation is outstanding, it
  \<open>holds\<close> one between a successful \<open>try_reserve_message\<close> and its \<open>release_data\<close> or
  \<open>admit_reserved_data\<close>. The driver leaves an idle Writer idle in every turn, so it retires
  every reservation exactly once. The bounded Writer provides the contract (\<open>sublocale\<close>), with
  conservation of slots, bytes and queue places as \<open>idle\<close>; the system of driver, Writer and
  worker, whose steps interleave freely, conserves them.
\<close>

subsection \<open>The contract and the driver\<close>

locale writer_contract =
  fixes W :: "('w, 'p) writer_ingress"
    and idle :: "'w \<Rightarrow> bool"
    and holds :: "'p \<Rightarrow> 'w \<Rightarrow> bool"
  assumes reserve_Ok: "idle w \<Longrightarrow> try_reserve_message W body w = (Inr p, w') \<Longrightarrow> holds p w'"
    and reserve_Err: "idle w \<Longrightarrow> try_reserve_message W body w = (Inl e, w') \<Longrightarrow> idle w'"
    and release: "holds p w \<Longrightarrow> release_data W p w = (r, w') \<Longrightarrow> idle w'"
    and admit: "holds p w \<Longrightarrow> admit_reserved_data W p f w = (x, w') \<Longrightarrow> idle w'"
    and control_idle: "idle w \<Longrightarrow> try_admit W f w = (y, w') \<Longrightarrow> idle w'"
    and control_holds: "holds p w \<Longrightarrow> try_admit W f w = (y, w') \<Longrightarrow> holds p w'"
begin

definition state_of :: "'p option \<Rightarrow> 'w \<Rightarrow> bool" where
  "state_of permit w = (case permit of None \<Rightarrow> idle w | Some p \<Rightarrow> holds p w)"

lemma apply_action_state:
  "apply_action W a permit d = (permit', r, d') \<Longrightarrow> state_of permit (sd_writer d) \<Longrightarrow>
     state_of permit' (sd_writer d')"
  by (cases a) (auto simp: state_of_def effect_def complete_endpoint_def begin_closing_def Let_def
      admit_control_def admit_data_def note_admitted_def complete_command_def
      split: protocol_message.splits option.splits if_splits prod.splits sum.splits
      intro: admit control_idle control_holds)

lemma apply_loop_state:
  "apply_loop W as permit d = (permit', r, d') \<Longrightarrow> state_of permit (sd_writer d) \<Longrightarrow>
     state_of permit' (sd_writer d')"
  by (induction "as" arbitrary: permit d)
    (fastforce split: prod.splits sum.splits dest: apply_action_state)+

lemma apply_core_idle:
  "apply_core W core permit d = (r, d') \<Longrightarrow> state_of permit (sd_writer d) \<Longrightarrow> idle (sd_writer d')"
  by (fastforce simp: apply_core_def apply_action_batch_def state_of_def
      split: prod.splits sum.splits option.splits dest: apply_loop_state intro: release)

lemma apply_core_idle_None:
  "apply_core W core None d = (r, d') \<Longrightarrow> idle (sd_writer d) \<Longrightarrow> idle (sd_writer d')"
  using apply_core_idle [of core None] by (simp add: state_of_def)

end

lemma writer_untouched [simp]:
  "sd_writer (begin_closing reason barrier d) = sd_writer d"
  "sd_writer (satisfy_close_barrier w d) = sd_writer d"
  "sd_writer (effect e d) = sd_writer d"
  "sd_writer (complete_endpoint c r d) = sd_writer d"
  by (auto simp: begin_closing_def satisfy_close_barrier_def effect_def complete_endpoint_def
      split: option.split)

lemma reject_queue_writer [simp]: "sd_writer (reject_queue d) = sd_writer d"
proof (induction d rule: reject_queue.induct)
  case (1 d)
  show ?case
  proof (cases "dequeue d")
    case None
    then show ?thesis by (subst reject_queue.simps) simp
  next
    case (Some p)
    obtain a d' where p: "p = (a, d')" by fastforce
    have "reject_queue d =
        reject_queue (complete_endpoint (ac_completion a) (rejected (ac_kind a) ConnectionLost) d')"
      using Some p by (subst reject_queue.simps) simp
    with 1 [OF Some p [symmetric]] Some p show ?thesis by (auto simp: dequeue_Some)
  qed
qed

lemma finish_close_writer [simp]: "sd_writer (finish_close_if_ready d) = sd_writer d"
proof -
  have "sd_writer (fold complete_orphan ks d) = sd_writer d" for ks and d :: "('a, 'b) session_driver"
    by (induction ks arbitrary: d) (auto simp: complete_orphan_def split: option.split)
  then show ?thesis by (simp add: finish_close_if_ready_def drain_accepted_commands_def Let_def)
qed

lemma drain_writer [simp]: "sd_writer (drain_accepted_commands d) = sd_writer d"
proof -
  have "sd_writer (fold complete_orphan ks d) = sd_writer d" for ks and d :: "('a, 'b) session_driver"
    by (induction ks arbitrary: d) (auto simp: complete_orphan_def split: option.split)
  then show ?thesis by (simp add: drain_accepted_commands_def Let_def)
qed

fun writer_change :: "('w, 'c) driver_input \<Rightarrow> bool" where
  "writer_change (D_WriterState _) = True"
| "writer_change _ = False"

context writer_contract
begin

lemma shutdown_after_idle:
  "idle (sd_writer d) \<Longrightarrow> idle (sd_writer (shutdown_after_driver_failure W reason failed now d))"
  by (auto simp: shutdown_after_driver_failure_def split: prod.split sum.split
      dest: apply_core_idle_None)

lemma settle_idle: "idle (sd_writer d) \<Longrightarrow> idle (sd_writer (settle_batch W now (r, d)))"
  by (auto simp: settle_batch_def handle_action_failure_def handle_action_failure_with_reason_def
      shutdown_after_idle split: sum.split prod.split)

lemma unfinished_idle:
  "idle (sd_writer d) \<Longrightarrow> idle (sd_writer (apply_actions_without_finishing_close W core now d))"
  unfolding apply_actions_without_finishing_close_def
  by (cases "apply_core W core None d") (simp add: settle_idle apply_core_idle_None)

lemma actions_idle: "idle (sd_writer d) \<Longrightarrow> idle (sd_writer (apply_actions W core now d))"
  by (simp add: apply_actions_def unfinished_idle)

lemma permit_idle:
  "state_of permit (sd_writer d) \<Longrightarrow>
     idle (sd_writer (apply_actions_with_data_permit W core permit now d))"
  unfolding apply_actions_with_data_permit_def
  by (cases "apply_core W core permit d") (simp add: settle_idle apply_core_idle)

lemma down_idle:
  "idle (sd_writer d) \<Longrightarrow> idle (sd_writer (driver_on_shutdown W reason failed now d))"
  "idle (sd_writer d) \<Longrightarrow> idle (sd_writer (driver_fail_runtime_invariant W now d))"
  by (simp_all add: driver_on_shutdown_def driver_fail_runtime_invariant_def unfinished_idle)

lemma due_idle: "idle (sd_writer d) \<Longrightarrow> idle (sd_writer (process_due_deadlines W now d))"
  by (simp add: process_due_deadlines_def actions_idle)

lemma present_idle:
  assumes "state_of permit (sd_writer d)"
  shows "idle (sd_writer (present_command W a permit now d))"
proof -
  obtain k d' where k: "allocate_command_id d = (k, d')" by fastforce
  then have w: "sd_writer d' = sd_writer d" using allocate_view [OF k] by simp
  have "idle (snd (release_data W p (sd_writer d)))" if "permit = Some p" for p
    using assms that release [of p "sd_writer d"]
    by (cases "release_data W p (sd_writer d)") (auto simp: state_of_def)
  with assms k w show ?thesis
    by (cases permit; cases k) (auto simp: present_command_def Let_def state_of_def
        intro!: down_idle permit_idle)
qed

lemma drive_accepted_idle:
  "idle (sd_writer d) \<Longrightarrow> idle (sd_writer (drive_accepted W a now d))"
  by (auto simp: drive_accepted_def Let_def state_of_def split: prod.split sum.split
      intro!: present_idle shutdown_after_idle intro: reserve_Ok reserve_Err)

lemma drive_idle: "idle (sd_writer d) \<Longrightarrow> idle (sd_writer (snd (drive_next_command W now d)))"
  using due_idle [of d now]
  by (auto simp: drive_next_command_def Let_def dequeue_Some intro!: drive_accepted_idle
      split: option.split)

lemma message_idle: "idle (sd_writer d) \<Longrightarrow> idle (sd_writer (snd (driver_on_message W m now d)))"
  by (auto simp: driver_on_message_def Let_def take_notice_def due_idle actions_idle
      split: option.split prod.split)

lemma decode_idle:
  "idle (sd_writer d) \<Longrightarrow> idle (sd_writer (snd (on_decode_step_with_header W step header now d)))"
  by (cases step) (auto simp: on_decode_step_with_header_def report_violation_def Let_def message_idle
      due_idle down_idle intro!: actions_idle)

lemma finish_drain_idle:
  "idle (sd_writer d) \<Longrightarrow> idle (sd_writer (driver_finish_shutdown_drain W reason now d))"
  by (auto simp: driver_finish_shutdown_drain_def Let_def handle_action_failure_with_reason_def
      split: prod.split sum.split intro!: shutdown_after_idle dest!: apply_core_idle_None)

lemma outcome_idle:
  "idle (sd_writer d) \<Longrightarrow> idle (sd_writer (driver_on_write_outcome_at W w r at now d))"
  by (simp add: driver_on_write_outcome_at_def Let_def unfinished_idle due_idle)

lemma stopped_idle: "idle (sd_writer d) \<Longrightarrow> idle (sd_writer (on_writer_stopped W now d))"
  using unfinished_idle [of d] unfinished_idle [OF down_idle(1) [of d RuntimeInvariant None now]]
  by (auto simp: on_writer_stopped_def Let_def split: option.split)

lemma queued_writer: "joins_queue kind c tags d d' \<Longrightarrow> sd_writer d' = sd_writer d"
  by (auto simp: joins_queue_def enqueue_def)

lemma turn_idle:
  assumes "idle (sd_writer d)" "\<not> writer_change i"
  shows "idle (sd_writer (snd (driver_turn W i d)))"
proof (cases "accepting i")
  case True
  obtain tags d' where t: "driver_turn W i d = (tags, d')" by fastforce
  from accepting_turn [OF True t] have "sd_writer d' = sd_writer d" using queued_writer by auto
  with assms(1) t show ?thesis by simp
next
  case False
  with assms show ?thesis
    by (cases i) (auto simp: driver_on_connected_def driver_advance_time_def actions_idle drive_idle
      message_idle decode_idle outcome_idle finish_drain_idle down_idle stopped_idle
      set_delivery_capacity_def take_inbound_def take_protocol_error_def begin_shutdown_drain_def
      split: list.split)
qed

end

subsection \<open>The bounded Writer provides it\<close>

text \<open>
  \<open>slots l cs\<close> and \<open>byte_load cs\<close>: what a list of charges takes from a lane and from the byte
  budget. A Writer is \<open>balanced\<close> for the charges \<open>out\<close> held outside its queue and
  \<open>reserved\<close> outstanding reservations if free, queued and outside capacity add up to the
  configured one.
\<close>

definition slots :: "lane \<Rightarrow> charge list \<Rightarrow> nat" where
  "slots l cs = length (filter (\<lambda>c. cg_lane c = l) cs)"

definition byte_load :: "charge list \<Rightarrow> nat" where
  "byte_load cs = sum_list (map (\<lambda>c. case cg_bytes c of None \<Rightarrow> 0 | Some n \<Rightarrow> n) cs)"

record capacity =
  cap_data :: nat
  cap_control :: nat
  cap_bytes :: nat

definition balanced ::
  "('s \<Rightarrow> nat) \<Rightarrow> ('q \<Rightarrow> nat) \<Rightarrow> ('q \<Rightarrow> queued_frame list) \<Rightarrow> capacity \<Rightarrow> nat \<Rightarrow> charge list \<Rightarrow>
     ('s, 'q) bounded_writer \<Rightarrow> bool" where
  "balanced available places queued K reserved out w \<longleftrightarrow>
     (let cs = map qf_charge (queued (bw_queue w)) @ out
      in available (bw_data_slots w) + slots Data_lane cs = cap_data K \<and>
         available (bw_control_slots w) + slots Control_lane cs = cap_control K \<and>
         available (bw_data_bytes w) + byte_load cs = cap_bytes K \<and>
         places (bw_queue w) + length (queued (bw_queue w)) + reserved = cap_data K + cap_control K)"

definition holding ::
  "('s \<Rightarrow> nat) \<Rightarrow> ('q \<Rightarrow> nat) \<Rightarrow> ('q \<Rightarrow> queued_frame list) \<Rightarrow> capacity \<Rightarrow> charge list \<Rightarrow>
     prepared_data \<Rightarrow> ('s, 'q) bounded_writer \<Rightarrow> bool" where
  "holding available places queued K out p w \<longleftrightarrow>
     pd_owner p = bw_owner w \<and> cg_lane (pd_charge p) = Data_lane \<and>
     balanced available places queued K 1 (pd_charge p # out) w"

lemma charge_simps [simp]:
  "slots l [] = 0" "slots l (c # cs) = (if cg_lane c = l then 1 else 0) + slots l cs"
  "slots l (cs @ cs') = slots l cs + slots l cs'"
  "byte_load [] = 0" "byte_load (c # cs) = (case cg_bytes c of None \<Rightarrow> 0 | Some n \<Rightarrow> n) + byte_load cs"
  "byte_load (cs @ cs') = byte_load cs + byte_load cs'"
  by (simp_all add: slots_def byte_load_def)

locale bounded_tokio =
  fixes T :: "('s, 'q) tokio"
    and available :: "'s \<Rightarrow> nat"
    and places :: "'q \<Rightarrow> nat"
    and queued :: "'q \<Rightarrow> queued_frame list"
    and K :: capacity
    and out :: "charge list"
  assumes laws: "tokio_laws T available places queued"
begin

lemma drop_charge_balanced:
  assumes "balanced available places queued K reserved (before @ c # after) w"
  shows "balanced available places queued K reserved (before @ after) (drop_charge T c w)"
  using assms tokio_lawsD(7) [OF laws]
  by (cases "cg_lane c"; cases "cg_bytes c")
    (auto simp: balanced_def drop_charge_def release_slot_def Let_def)

lemma drop_permit_balanced:
  assumes "holding available places queued K out p w"
  shows "balanced available places queued K 0 out (drop_permit T p w)"
proof -
  let ?w = "w\<lparr>bw_queue := ch_unreserve T (bw_queue w)\<rparr>"
  have "balanced available places queued K 0 (pd_charge p # out) ?w"
    using assms tokio_lawsD(10,11) [OF laws] by (auto simp: holding_def balanced_def Let_def)
  then show ?thesis
    using drop_charge_balanced [of 0 "[]" "pd_charge p" out ?w] by (simp add: drop_permit_def)
qed

lemma reserve_balanced:
  assumes "balanced available places queued K 0 out w" "bw_try_reserve_message T body w = (r, w')"
  shows "case r of Inl e \<Rightarrow> balanced available places queued K 0 out w'
    | Inr p \<Rightarrow> holding available places queued K out p w'"
proof -
  have slot: "balanced available places queued K 0 (\<lparr>cg_lane = Data_lane, cg_bytes = None\<rparr> # out)
      (w\<lparr>bw_data_slots := s\<rparr>)" if "sem_try_acquire T 1 (bw_data_slots w) = Some s" for s
    using assms(1) tokio_lawsD(6) [OF laws that] by (auto simp: balanced_def Let_def)
  have bytes: "balanced available places queued K 0 (\<lparr>cg_lane = Data_lane, cg_bytes = Some n\<rparr> # out)
      (w\<lparr>bw_data_slots := s, bw_data_bytes := b\<rparr>)"
    if "sem_try_acquire T 1 (bw_data_slots w) = Some s" "sem_try_acquire T n (bw_data_bytes w) = Some b" for s n b
    using slot [OF that(1)] tokio_lawsD(6) [OF laws that(2)] by (auto simp: balanced_def Let_def)
  have queue: "holding available places queued K out
      \<lparr>pd_owner = bw_owner w, pd_bytes = x, pd_charge = \<lparr>cg_lane = Data_lane, cg_bytes = Some n\<rparr>\<rparr>
      (w\<lparr>bw_data_slots := s, bw_data_bytes := b, bw_queue := q\<rparr>)"
    if "sem_try_acquire T 1 (bw_data_slots w) = Some s" "sem_try_acquire T n (bw_data_bytes w) = Some b"
      "ch_try_reserve T (bw_queue w) = Some q" for s n b q x
    using bytes [OF that(1,2)] tokio_lawsD(9) [OF laws that(3)]
    by (auto simp: balanced_def holding_def Let_def)
  have undo_slot: "balanced available places queued K 0 out (release_slot T Data_lane (w\<lparr>bw_data_slots := s\<rparr>))"
    if "sem_try_acquire T 1 (bw_data_slots w) = Some s" for s
    using drop_charge_balanced [of 0 "[]", simplified, OF slot [OF that]] by (simp add: drop_charge_def)
  note undo_bytes = drop_charge_balanced [of 0 "[]", simplified, OF bytes]
  note undo_queue = drop_permit_balanced [OF queue]
  show ?thesis
    using assms undo_slot undo_bytes undo_queue queue
    by (auto simp: bw_try_reserve_message_def Let_def split: if_splits sum.splits option.splits)
qed

lemma admit_balanced:
  assumes "holding available places queued K out p w" "bw_admit_reserved_data T p f w = (r, w')"
  shows "balanced available places queued K 0 out w'"
proof -
  have "balanced available places queued K 0 out (w\<lparr>bw_queue := ch_send T
      \<lparr>qf_write_id = k, qf_bytes = bs, qf_deadline = t, qf_charge = pd_charge p\<rparr> (bw_queue w)\<rparr>)" for k bs t
    using assms(1) tokio_lawsD(13,14) [OF laws] by (auto simp: holding_def balanced_def Let_def)
  with assms drop_permit_balanced [OF assms(1)] show ?thesis
    by (auto simp: bw_admit_reserved_data_def holding_def
        split: if_splits option.splits protocol_message.splits)
qed

lemma control_balanced:
  assumes "balanced available places queued K reserved out' w" "bw_try_admit T f w = (r, w')"
  shows "balanced available places queued K reserved out' w' \<and> bw_owner w' = bw_owner w"
proof -
  let ?c = "\<lparr>cg_lane = Control_lane, cg_bytes = None\<rparr>"
  have slot: "balanced available places queued K reserved (?c # out') (w\<lparr>bw_control_slots := s\<rparr>)"
    if "sem_try_acquire T 1 (bw_control_slots w) = Some s" for s
    using assms(1) tokio_lawsD(6) [OF laws that] by (auto simp: balanced_def Let_def)
  have queue: "balanced available places queued K (reserved + 1) (?c # out')
      (w\<lparr>bw_control_slots := s, bw_queue := q\<rparr>)"
    if "sem_try_acquire T 1 (bw_control_slots w) = Some s" "ch_try_reserve T (bw_queue w) = Some q" for s q
    using slot [OF that(1)] tokio_lawsD(9) [OF laws that(2)] by (auto simp: balanced_def Let_def)
  note undo_slot = drop_charge_balanced [of _ "[]", simplified, OF slot]
  have undo_queue: "balanced available places queued K reserved out'
      (drop_charge T ?c (w\<lparr>bw_control_slots := s, bw_queue := ch_unreserve T q\<rparr>))"
    if "sem_try_acquire T 1 (bw_control_slots w) = Some s" "ch_try_reserve T (bw_queue w) = Some q" for s q
  proof (rule drop_charge_balanced [of _ "[]", simplified])
    show "balanced available places queued K reserved (?c # out')
        (w\<lparr>bw_control_slots := s, bw_queue := ch_unreserve T q\<rparr>)"
      using queue [OF that] tokio_lawsD(10,11) [OF laws] by (auto simp: balanced_def Let_def)
  qed
  have sent: "balanced available places queued K reserved out' (w\<lparr>bw_control_slots := s, bw_queue := ch_send T
      \<lparr>qf_write_id = k, qf_bytes = bs, qf_deadline = t, qf_charge = ?c\<rparr> q\<rparr>)"
    if "sem_try_acquire T 1 (bw_control_slots w) = Some s" "ch_try_reserve T (bw_queue w) = Some q" for s q k bs t
    using queue [OF that] tokio_lawsD(13,14) [OF laws] by (auto simp: balanced_def Let_def)
  have owner: "bw_owner (drop_charge T c v) = bw_owner v" for c v
    by (auto simp: drop_charge_def release_slot_def split: lane.split option.split)
  show ?thesis
    using assms undo_slot undo_queue sent
    by (auto simp: bw_try_admit_def Let_def owner split: option.splits protocol_message.splits if_splits)
qed

end

context bounded_tokio
begin

lemma contract:
  "writer_contract (bounded_ingress T) (balanced available places queued K 0 out)
     (holding available places queued K out)"
proof
  fix w w' :: "('s, 'q) bounded_writer" and body p e r f x y
  show "balanced available places queued K 0 out w \<Longrightarrow>
      try_reserve_message (bounded_ingress T) body w = (Inr p, w') \<Longrightarrow> holding available places queued K out p w'"
    and "balanced available places queued K 0 out w \<Longrightarrow>
      try_reserve_message (bounded_ingress T) body w = (Inl e, w') \<Longrightarrow> balanced available places queued K 0 out w'"
    using reserve_balanced [of w body] by (auto simp: bounded_ingress_def)
  show "holding available places queued K out p w \<Longrightarrow>
      release_data (bounded_ingress T) p w = (r, w') \<Longrightarrow> balanced available places queued K 0 out w'"
    using drop_permit_balanced [of p w]
    by (auto simp: bounded_ingress_def bw_release_data_def holding_def)
  show "holding available places queued K out p w \<Longrightarrow>
      admit_reserved_data (bounded_ingress T) p f w = (x, w') \<Longrightarrow> balanced available places queued K 0 out w'"
    using admit_balanced [of p w f] by (auto simp: bounded_ingress_def)
  show "balanced available places queued K 0 out w \<Longrightarrow>
      try_admit (bounded_ingress T) f w = (y, w') \<Longrightarrow> balanced available places queued K 0 out w'"
    using control_balanced [of 0 out w f] by (auto simp: bounded_ingress_def)
  show "holding available places queued K out p w \<Longrightarrow>
      try_admit (bounded_ingress T) f w = (y, w') \<Longrightarrow> holding available places queued K out p w'"
    using control_balanced [of 1 "pd_charge p # out" w f]
    by (auto simp: bounded_ingress_def holding_def)
qed

end

sublocale bounded_tokio \<subseteq> writer:
  writer_contract "bounded_ingress T" "balanced available places queued K 0 out"
    "holding available places queued K out"
  by (rule contract)

interpretation counting: bounded_tokio counting_tokio id "\<lambda>(_, p, _). p" "\<lambda>(_, _, fs). fs" K out for K out
  by standard (rule counting_tokio_laws)

subsection \<open>Driver, Writer and worker\<close>

text \<open>
  The three run concurrently. Between two turns of the driver the worker may take the oldest frame,
  a report may be consumed, which gives back the capacity its frame was charged, the queue may be
  closed, and time passes. The second component of a state is the charges of the frames that have
  left the queue and whose reports are not consumed.
\<close>

inductive system_step ::
  "('s, 'q) tokio \<Rightarrow> (('s, 'q) bounded_writer, 'c) session_driver \<times> charge list \<Rightarrow>
     (('s, 'q) bounded_writer, 'c) session_driver \<times> charge list \<Rightarrow> bool" for T where
  Turn: "\<not> writer_change i \<Longrightarrow>
    system_step T (d, out) (snd (driver_turn (bounded_ingress T) i d), out)"
| Take: "ch_recv T (bw_queue (sd_writer d)) = Some (f, q) \<Longrightarrow>
    system_step T (d, out) (d\<lparr>sd_writer := (sd_writer d)\<lparr>bw_queue := q\<rparr>\<rparr>, qf_charge f # out)"
| Give_back: "system_step T (d, before @ c # after)
    (d\<lparr>sd_writer := drop_charge T c (sd_writer d)\<rparr>, before @ after)"
| Close: "system_step T (d, out)
    (d\<lparr>sd_writer := (sd_writer d)\<lparr>bw_queue := ch_close T (bw_queue (sd_writer d))\<rparr>\<rparr>, out)"
| Tick: "system_step T (d, out) (d\<lparr>sd_writer := (sd_writer d)\<lparr>bw_now := now\<rparr>\<rparr>, out)"

inductive_cases system_stepE: "system_step T s s'"

lemma system_step_balanced:
  assumes laws: "tokio_laws T available places queued"
    and "system_step T s s'" "balanced available places queued K 0 (snd s) (sd_writer (fst s))"
  shows "balanced available places queued K 0 (snd s') (sd_writer (fst s'))"
  using assms(2,3)
proof (cases rule: system_step.cases)
  case (Turn i d out)
  have "bounded_tokio T available places queued" using laws by (rule bounded_tokio.intro)
  then have "writer_contract (bounded_ingress T) (balanced available places queued K 0 out)
      (holding available places queued K out)" by (rule bounded_tokio.contract)
  from writer_contract.turn_idle [OF this, of d i] Turn assms(3) show ?thesis by simp
next
  case (Take d f q out)
  then show ?thesis
    using assms(3) tokio_lawsD(16) [OF laws Take(3)] by (auto simp: balanced_def Let_def)
next
  case (Give_back d before c after)
  have "bounded_tokio T available places queued" using laws by (rule bounded_tokio.intro)
  from bounded_tokio.drop_charge_balanced [OF this] Give_back assms(3) show ?thesis by simp
next
  case (Close d out)
  then show ?thesis using assms(3) tokio_lawsD(17,18) [OF laws] by (simp add: balanced_def)
next
  case (Tick d out now)
  then show ?thesis using assms(3) by (simp add: balanced_def)
qed

lemma system_balanced:
  assumes "tokio_laws T available places queued"
    and "(system_step T)\<^sup>*\<^sup>* s s'" "balanced available places queued K 0 (snd s) (sd_writer (fst s))"
  shows "balanced available places queued K 0 (snd s') (sd_writer (fst s'))"
  using assms(2,3) by (induction rule: rtranclp_induct) (auto intro: system_step_balanced [OF assms(1)])

lemma new_writer_balanced:
  assumes "tokio_laws T available places queued"
    and "bounded_writer_from_config T clock_fits owner config epoch = Ok w"
  shows "balanced available places queued
    \<lparr>cap_data = el_data_lane_capacity (ec_limits config),
     cap_control = el_critical_lane_capacity (ec_limits config),
     cap_bytes = unat (rp_write_bytes (ec_runtime config))\<rparr> 0 [] w"
  using assms(2) tokio_lawsD(1-3) [OF assms(1)]
  by (auto simp: bounded_writer_from_config_def bounded_writer_new_def res_simps checked_add_def
      balanced_def Let_def split: if_splits sum.splits)

lemma from_config_writer:
  "driver_from_config clock_fits g owner config w = Ok d \<Longrightarrow> sd_writer d = w"
  by (auto simp: driver_from_config_def res_simps Let_def with_command_capacity_def)

text \<open>C22: Write capacity is never lost or invented. However driver turns, worker steps and the consumption
  of reports interleave, the free slots of each lane, the slots of the frames queued, and those of
  the frames taken but not yet accounted for add up to the configured lane, and so do the data
  bytes. In particular the driver leaves no reservation behind, and when every frame has been taken
  and its report consumed, the whole capacity is free again.\<close>

theorem writer_capacity_conserved:
  assumes "tokio_laws T available places queued"
    and "bounded_writer_from_config T clock_fits owner config epoch = Ok w0"
    and "driver_from_config clock_fits g owner' config w0 = Ok d0"
    and "(system_step T)\<^sup>*\<^sup>* (d0, []) (d, out)"
  shows "let cs = map qf_charge (queued (bw_queue (sd_writer d))) @ out
    in available (bw_data_slots (sd_writer d)) + slots Data_lane cs = el_data_lane_capacity (ec_limits config) \<and>
       available (bw_control_slots (sd_writer d)) + slots Control_lane cs =
         el_critical_lane_capacity (ec_limits config) \<and>
       available (bw_data_bytes (sd_writer d)) + byte_load cs = unat (rp_write_bytes (ec_runtime config)) \<and>
       places (bw_queue (sd_writer d)) + length (queued (bw_queue (sd_writer d))) =
         el_data_lane_capacity (ec_limits config) + el_critical_lane_capacity (ec_limits config)"
proof -
  note new = new_writer_balanced [OF assms(1,2), folded from_config_writer [OF assms(3)]]
  from system_balanced [OF assms(1,4)] new
  have "balanced available places queued
    \<lparr>cap_data = el_data_lane_capacity (ec_limits config),
     cap_control = el_critical_lane_capacity (ec_limits config),
     cap_bytes = unat (rp_write_bytes (ec_runtime config))\<rparr> 0 out (sd_writer d)"
    unfolding fst_conv snd_conv by blast
  then show ?thesis by (simp add: balanced_def Let_def)
qed

text \<open>A run: the driver connects, a Linktest is admitted, the worker takes its frame.\<close>

lemma writer_capacity_conserved_witness:
  "\<exists>d0 d out. driver_from_config (\<lambda>_. True) 1 0 (endpoint_config_new Active () (SessionId 7)) sample_writer =
       Ok (d0 :: (_, nat) session_driver) \<and>
     (system_step counting_tokio)\<^sup>*\<^sup>* (d0, []) (d, out) \<and> sc_state (sd_core d) = Some NotSelected \<and>
     bw_data_slots (sd_writer d) + slots Data_lane
       (map qf_charge (snd (snd (bw_queue (sd_writer d)))) @ out) = 256"
proof -
  let ?c = "endpoint_config_new Active () (SessionId 7)"
  obtain d0 :: "((nat, bool \<times> nat \<times> queued_frame list) bounded_writer, nat) session_driver" where
    d0: "driver_from_config (\<lambda>_. True) 1 0 ?c sample_writer = Ok d0"
    "d0 = with_command_capacity 1 0 (session_core_new (core_config_from_endpoint ?c)) sample_writer 256
      \<lparr>sd_inbound_capacity := 256, sd_protocol_error_capacity := 64,
       sd_command_byte_capacity := 64 * 1024 * 1024, sd_maximum_message_length := 16 * 1024 * 1024\<rparr>"
    unfolding driver_from_config_def endpoint_config_default_valid bind_res_simps
    by (simp add: Let_def endpoint_config_new_def limits_default_def runtime_policy_default_def)
  let ?d = "snd (driver_turn (bounded_ingress counting_tokio) (D_Connected 10) d0)"
  have step: "(system_step counting_tokio)\<^sup>*\<^sup>* (d0, []) (?d, [])"
    by (intro r_into_rtranclp system_step.Turn) simp
  have "sc_state (sd_core ?d) = Some NotSelected" by (simp add: d0(2) driver_eval)
  with writer_capacity_conserved [OF counting_tokio_laws sample_writer_new d0(1) step] step d0(1)
  show ?thesis
    by (intro exI [of _ d0] exI [of _ ?d] exI [of _ "[]"])
      (simp add: Let_def endpoint_config_new_def limits_default_def case_prod_beta)
qed

end
