(* ===== verification/Hsms_Tasks.thy ===== *)
theory Hsms_Tasks
  imports Hsms_Transport Hsms_Driver_Writer
begin

section \<open>The two I/O tasks of a generation\<close>

text \<open>
  \<open>src/hsms/generation/transport/bounded_reader.rs\<close> and \<open>tasks.rs\<close>. Each task owns one half of
  the stream and publishes reports on a bounded channel. The owner, \<open>IoTasks\<close>, holds the receiving
  ends and the join handles. What the tasks do between two polls, publishing a report, dropping
  the sender, ending, is a step of the environment (\<open>tasks_env\<close>).
\<close>

subsection \<open>Receiving ends and join handles\<close>

datatype 'a poll = Poll_Pending | Poll_Ready 'a

text \<open>An \<open>mpsc::Receiver\<close>: the items sent and not yet received, and whether a sender is left.\<close>

record 'a receiver =
  rc_items :: "'a list"
  rc_open :: bool

definition poll_recv :: "'a receiver \<Rightarrow> 'a option poll \<times> 'a receiver" where
  "poll_recv q =
     (case rc_items q of
        item # rest \<Rightarrow> (Poll_Ready (Some item), q\<lparr>rc_items := rest\<rparr>)
      | [] \<Rightarrow> (if rc_open q then Poll_Pending else Poll_Ready None, q))"

datatype join_error = Join_cancelled | Join_panicked

type_synonym 'r join_handle = "('r, join_error) result poll"

subsection \<open>The reader task\<close>

record reader_report =
  rr_frame :: read_frame
  rr_bytes :: nat

record 's reader_worker =
  rw_reader :: frame_reader
  rw_bytes :: 's
  rw_slots :: 's
  rw_frame_bytes :: u32
  rw_t8 :: duration

definition reader_worker_new ::
  "('s, 'q) tokio \<Rightarrow> endpoint_limits \<Rightarrow> decode_limits \<Rightarrow> instant \<Rightarrow> duration \<Rightarrow> usize \<Rightarrow> u32 \<Rightarrow>
     ('s reader_worker, string) result" where
  "reader_worker_new T L D epoch t8 capacity wire_bytes =
     bind_res (ok_or (case checked_add (el_max_message_length L) 4 of
                        None \<Rightarrow> None
                      | Some n \<Rightarrow> if n \<le> 0xFFFFFFFF then Some (word_of_nat n :: u32) else None)
                     ''Reader frame reservation is not representable'') (\<lambda>frame_bytes.
       if capacity = 0 \<or> capacity > sem_max_permits T \<or> wire_bytes < frame_bytes \<or>
          unat wire_bytes > sem_max_permits T
       then Err ''Reader capacity cannot hold a maximum frame''
       else if t8 = 0 \<or> instant_checked_add T epoch t8 = None
       then Err ''Reader T8 is not representable''
       else Ok \<lparr>rw_reader = frame_reader_new L D epoch, rw_bytes = sem_new T (unat wire_bytes),
                rw_slots = sem_new T capacity, rw_frame_bytes = frame_bytes, rw_t8 = t8\<rparr>)"

definition reader_worker_from_config ::
  "('s, 'q) tokio \<Rightarrow> (duration \<Rightarrow> bool) \<Rightarrow> 'addr endpoint_config \<Rightarrow> instant \<Rightarrow>
     ('s reader_worker, config_error) result" where
  "reader_worker_from_config T clock_fits config epoch =
     bind_res (endpoint_config_validate clock_fits config) (\<lambda>_.
       case reader_worker_new T (ec_limits config) (ec_secs2_limits config) epoch
              (to_t8 (ec_timeouts config)) 1 (rp_inbound_bytes (ec_runtime config)) of
         Inl description \<Rightarrow> Err (RuntimePolicyError description)
       | Inr w \<Rightarrow> Ok w)"

text \<open>
  One turn of the loop of \<open>run\<close>. A turn first waits for the capacity of a whole frame, then for the
  frame. \<open>Turn_dropped\<close> is not a turn: the consumer drops a report, which gives its permits
  back. A turn that has its permits although the semaphores have none cannot happen, and waits.
\<close>

datatype reader_turn =
    Turn_cancelled
  | Turn_reports_closed
  | Turn_reserved
  | Turn_dropped reader_report

datatype reader_result =
    Reader_waits
  | Reader_returns "(unit, read_failure) result"

definition drop_reader_report ::
  "('s, 'q) tokio \<Rightarrow> reader_report \<Rightarrow> 's reader_worker \<Rightarrow> 's reader_worker" where
  "drop_reader_report T report w =
     w\<lparr>rw_bytes := sem_release T (rr_bytes report) (rw_bytes w),
       rw_slots := sem_release T 1 (rw_slots w)\<rparr>"

definition cancelled_failure :: read_failure where
  "cancelled_failure = Transport Cancelled"

text \<open>
  The frame's own wait: \<open>None\<close> is that the reports' consumer has gone while it was read. The
  permits of a frame that is not published are dropped with it. The channel has as many places as
  there are slots and a report keeps its slot, so reserving its place does not wait.
\<close>

fun reader_run ::
  "('s, 'q) tokio \<Rightarrow> (reader_turn \<times> instant \<times> (read_event \<times> instant) list option) list \<Rightarrow>
     's reader_worker \<Rightarrow> reader_report list \<times> reader_result \<times> 's reader_worker" where
  "reader_run T [] w = ([], Reader_waits, w)"
| "reader_run T ((turn, now, events) # turns) w =
     (case turn of
        Turn_cancelled \<Rightarrow> ([], Reader_returns (Err cancelled_failure), w)
      | Turn_reports_closed \<Rightarrow> ([], Reader_returns (Ok ()), w)
      | Turn_dropped report \<Rightarrow> reader_run T turns (drop_reader_report T report w)
      | Turn_reserved \<Rightarrow>
          (case (sem_try_acquire T 1 (rw_slots w),
                 sem_try_acquire T (unat (rw_frame_bytes w)) (rw_bytes w)) of
             (Some slot_permits, Some byte_permits) \<Rightarrow>
               let charged = w\<lparr>rw_slots := slot_permits, rw_bytes := byte_permits\<rparr> in
               (case events of
                  None \<Rightarrow> ([], Reader_returns (Ok ()), w)
                | Some events \<Rightarrow>
                    (case reader_next (instant_checked_add T) (rw_t8 w) now events (rw_reader w) of
                       (Some (Next_frame frame), r) \<Rightarrow>
                         let (reports, result, w') = reader_run T turns (charged\<lparr>rw_reader := r\<rparr>)
                         in (\<lparr>rr_frame = frame, rr_bytes = unat (rw_frame_bytes w)\<rparr> # reports,
                             result, w')
                     | (Some (Next_failed failure), r) \<Rightarrow>
                         ([], Reader_returns (Err failure), w\<lparr>rw_reader := r\<rparr>)
                     | (_, r) \<Rightarrow> ([], Reader_waits, charged\<lparr>rw_reader := r\<rparr>)))
           | _ \<Rightarrow> ([], Reader_waits, w)))"

subsection \<open>The owner of the tasks\<close>

datatype io_event =
    Io_Read reader_report
  | Io_Write writer_report
  | Io_ReaderStopped "((unit, read_failure) result, join_error) result"
  | Io_WriterStopped "(unit, join_error) result"

datatype cleanup_poison = TaskDidNotStop | InvariantViolation

datatype cleanup_result = Clean | Poisoned cleanup_poison

record io_tasks =
  it_cancellation :: bool
  it_reads :: "reader_report receiver"
  it_writes :: "writer_report receiver"
  it_reader :: "(unit, read_failure) result join_handle option"
  it_writer :: "unit join_handle option"
  it_poison :: "cleanup_poison option"
  it_pending_read :: "reader_report option"
  it_pending_write :: "writer_report option"
  it_prefer_read :: bool
  it_aborted :: bool

text \<open>The state after \<open>launch\<close>: both tasks run. \<open>it_aborted\<close> is what \<open>abort\<close> requests of them.\<close>

definition launched :: io_tasks where
  "launched =
     \<lparr>it_cancellation = False, it_reads = \<lparr>rc_items = [], rc_open = True\<rparr>,
      it_writes = \<lparr>rc_items = [], rc_open = True\<rparr>, it_reader = Some Poll_Pending,
      it_writer = Some Poll_Pending, it_poison = None, it_pending_read = None,
      it_pending_write = None, it_prefer_read = True, it_aborted = False\<rparr>"

definition writer_joined :: "io_tasks \<Rightarrow> bool" where
  "writer_joined t \<longleftrightarrow> it_writer t = None"

definition get_or_insert :: "cleanup_poison \<Rightarrow> io_tasks \<Rightarrow> io_tasks" where
  "get_or_insert p t = (case it_poison t of None \<Rightarrow> t\<lparr>it_poison := Some p\<rparr> | Some _ \<Rightarrow> t)"

definition abort :: "io_tasks \<Rightarrow> io_tasks" where
  "abort t = t\<lparr>it_aborted := True\<rparr>"

text \<open>Prefetching one head; the first component is that the FIFO has ended.\<close>

definition prefetch_read :: "io_tasks \<Rightarrow> bool \<times> io_tasks" where
  "prefetch_read t =
     (if it_reader t \<noteq> None \<and> it_pending_read t = None
      then
        (case poll_recv (it_reads t) of
           (Poll_Ready (Some report), q) \<Rightarrow> (False, t\<lparr>it_reads := q, it_pending_read := Some report\<rparr>)
         | (Poll_Ready None, q) \<Rightarrow> (True, t\<lparr>it_reads := q\<rparr>)
         | (Poll_Pending, q) \<Rightarrow> (False, t\<lparr>it_reads := q\<rparr>))
      else (False, t))"

definition prefetch_write :: "io_tasks \<Rightarrow> bool \<times> io_tasks" where
  "prefetch_write t =
     (if it_writer t \<noteq> None \<and> it_pending_write t = None
      then
        (case poll_recv (it_writes t) of
           (Poll_Ready (Some report), q) \<Rightarrow> (False, t\<lparr>it_writes := q, it_pending_write := Some report\<rparr>)
         | (Poll_Ready None, q) \<Rightarrow> (True, t\<lparr>it_writes := q\<rparr>)
         | (Poll_Pending, q) \<Rightarrow> (False, t\<lparr>it_writes := q\<rparr>))
      else (False, t))"

text \<open>The joins. The \<open>expect\<close> on the handle holds: a FIFO is only polled while its handle is there.\<close>

definition join_reader :: "bool \<Rightarrow> io_tasks \<Rightarrow> io_event option \<times> io_tasks" where
  "join_reader read_closed t =
     (case (read_closed, it_reader t) of
        (True, Some (Poll_Ready result)) \<Rightarrow>
          let t = t\<lparr>it_reader := None\<rparr>;
              t = (case result of Inl _ \<Rightarrow> get_or_insert InvariantViolation t | Inr _ \<Rightarrow> t)
          in (Some (Io_ReaderStopped result), t)
      | _ \<Rightarrow> (None, t))"

definition join_writer :: "bool \<Rightarrow> io_tasks \<Rightarrow> io_event option \<times> io_tasks" where
  "join_writer write_closed t =
     (case (write_closed, it_writer t) of
        (True, Some (Poll_Ready result)) \<Rightarrow>
          let t = t\<lparr>it_writer := None\<rparr>;
              t = (case result of Inl _ \<Rightarrow> get_or_insert InvariantViolation t | Inr _ \<Rightarrow> t)
          in (Some (Io_WriterStopped result), t)
      | _ \<Rightarrow> (None, t))"

definition poll_terminal :: "io_tasks \<Rightarrow> io_event option \<times> io_tasks" where
  "poll_terminal t =
     (let (read_closed, t) = prefetch_read t; (write_closed, t) = prefetch_write t
      in if (case it_pending_write t of None \<Rightarrow> False | Some report \<Rightarrow> wr_outcome report \<noteq> Committed)
         then (map_option Io_Write (it_pending_write t), t\<lparr>it_pending_write := None\<rparr>)
         else
           case join_reader read_closed t of
             (Some event, t) \<Rightarrow> (Some event, t)
           | (None, t) \<Rightarrow> join_writer write_closed t)"

definition poll_next :: "io_tasks \<Rightarrow> io_event option poll \<times> io_tasks" where
  "poll_next t =
     (case poll_terminal t of
        (Some event, t) \<Rightarrow> (Poll_Ready (Some event), t)
      | (None, t) \<Rightarrow>
          if it_pending_read t \<noteq> None \<and> (it_prefer_read t \<or> it_pending_write t = None)
          then (Poll_Ready (map_option Io_Read (it_pending_read t)),
                t\<lparr>it_prefer_read := False, it_pending_read := None\<rparr>)
          else if it_pending_write t \<noteq> None
          then (Poll_Ready (map_option Io_Write (it_pending_write t)),
                t\<lparr>it_prefer_read := True, it_pending_write := None\<rparr>)
          else if it_reader t = None \<and> it_writer t = None then (Poll_Ready None, t)
          else (Poll_Pending, t))"

subsection \<open>The environment\<close>

datatype tasks_env =
    Publishes_read reader_report
  | Publishes_write writer_report
  | Reader_drops_sender
  | Writer_drops_sender
  | Reader_ends "((unit, read_failure) result, join_error) result"
  | Writer_ends "(unit, join_error) result"

text \<open>A task that has dropped its sender publishes no more; one that has ended has dropped it.\<close>

fun tasks_env_step :: "tasks_env \<Rightarrow> io_tasks \<Rightarrow> io_tasks" where
  "tasks_env_step (Publishes_read report) t =
     (if rc_open (it_reads t)
      then t\<lparr>it_reads := (it_reads t)\<lparr>rc_items := rc_items (it_reads t) @ [report]\<rparr>\<rparr> else t)"
| "tasks_env_step (Publishes_write report) t =
     (if rc_open (it_writes t)
      then t\<lparr>it_writes := (it_writes t)\<lparr>rc_items := rc_items (it_writes t) @ [report]\<rparr>\<rparr> else t)"
| "tasks_env_step Reader_drops_sender t = t\<lparr>it_reads := (it_reads t)\<lparr>rc_open := False\<rparr>\<rparr>"
| "tasks_env_step Writer_drops_sender t = t\<lparr>it_writes := (it_writes t)\<lparr>rc_open := False\<rparr>\<rparr>"
| "tasks_env_step (Reader_ends result) t =
     (if it_reader t = Some Poll_Pending
      then t\<lparr>it_reader := Some (Poll_Ready result), it_reads := (it_reads t)\<lparr>rc_open := False\<rparr>\<rparr> else t)"
| "tasks_env_step (Writer_ends result) t =
     (if it_writer t = Some Poll_Pending
      then t\<lparr>it_writer := Some (Poll_Ready result), it_writes := (it_writes t)\<lparr>rc_open := False\<rparr>\<rparr> else t)"

subsection \<open>Cleanup\<close>

text \<open>
  Each pass of the loop of \<open>cleanup\<close>: what the tasks do before its wait ends, and whether the wait
  ends because the deadline has passed (checked before the wait, and first in its \<open>select!\<close>). The
  result is \<open>None\<close> while it waits; the reports are those given to \<open>settle\<close>, in order.
\<close>

fun cleanup_loop ::
  "(tasks_env list \<times> bool) list \<Rightarrow> io_tasks \<Rightarrow> (writer_report list \<times> io_tasks) option" where
  "cleanup_loop [] t =
     (if it_reader t = None \<and> it_writer t = None then Some ([], t) else None)"
| "cleanup_loop ((envs, expired) # rounds) t =
     (if it_reader t = None \<and> it_writer t = None then Some ([], t)
      else
        let t = fold tasks_env_step envs t in
        if expired then Some ([], abort (get_or_insert TaskDidNotStop t))
        else
          case poll_next t of
            (Poll_Pending, t) \<Rightarrow> cleanup_loop rounds t
          | (Poll_Ready None, t) \<Rightarrow> Some ([], t)
          | (Poll_Ready (Some (Io_Write report)), t) \<Rightarrow>
              map_option (\<lambda>(reports, t). (report # reports, t)) (cleanup_loop rounds t)
          | (Poll_Ready (Some _), t) \<Rightarrow> cleanup_loop rounds t)"

definition cleanup_verdict :: "io_tasks \<Rightarrow> cleanup_result" where
  "cleanup_verdict t = (case it_poison t of None \<Rightarrow> Clean | Some poison \<Rightarrow> Poisoned poison)"

definition cleanup ::
  "(tasks_env list \<times> bool) list \<Rightarrow> io_tasks \<Rightarrow>
     (cleanup_result \<times> writer_report list \<times> io_tasks) option" where
  "cleanup rounds t =
     map_option (\<lambda>(reports, t). (cleanup_verdict t, reports, t))
       (cleanup_loop rounds (t\<lparr>it_cancellation := True\<rparr>))"

definition recover ::
  "(tasks_env list \<times> bool) list \<Rightarrow> io_tasks \<Rightarrow>
     (cleanup_result \<times> writer_report list \<times> io_tasks) option" where
  "recover rounds t =
     map_option (\<lambda>(result, reports, t).
         if it_reader t = None \<and> it_writer t = None \<and> it_pending_read t = None \<and>
            it_pending_write t = None \<and> rc_items (it_reads t) = [] \<and> rc_items (it_writes t) = []
         then (Clean, reports, t\<lparr>it_poison := None\<rparr>)
         else (result, reports, t))
       (cleanup rounds t)"

subsection \<open>Runs\<close>

text \<open>
  An interleaving of polls by the owner and steps of the tasks. A run collects the events the owner
  was given and, as ghosts, the reports each task published.
\<close>

datatype tasks_op = Op_env tasks_env | Op_terminal | Op_next

fun tasks_step :: "tasks_op \<Rightarrow> io_tasks \<Rightarrow> io_event list \<times> io_tasks" where
  "tasks_step (Op_env e) t = ([], tasks_env_step e t)"
| "tasks_step Op_terminal t = (case poll_terminal t of (e, t) \<Rightarrow> (option_list e, t))"
| "tasks_step Op_next t =
     (case poll_next t of
        (Poll_Ready (Some e), t) \<Rightarrow> ([e], t)
      | (_, t) \<Rightarrow> ([], t))"

fun published_reads :: "tasks_op \<Rightarrow> io_tasks \<Rightarrow> reader_report list" where
  "published_reads (Op_env (Publishes_read r)) t = (if rc_open (it_reads t) then [r] else [])"
| "published_reads _ t = []"

fun published_writes :: "tasks_op \<Rightarrow> io_tasks \<Rightarrow> writer_report list" where
  "published_writes (Op_env (Publishes_write r)) t = (if rc_open (it_writes t) then [r] else [])"
| "published_writes _ t = []"

fun tasks_run ::
  "tasks_op list \<Rightarrow> io_tasks \<Rightarrow>
     io_event list \<times> reader_report list \<times> writer_report list \<times> io_tasks" where
  "tasks_run [] t = ([], [], [], t)"
| "tasks_run (op # ops) t =
     (let (es, t') = tasks_step op t; (es', rs, ws, t'') = tasks_run ops t'
      in (es @ es', published_reads op t @ rs, published_writes op t @ ws, t''))"

fun from_reader :: "io_event \<Rightarrow> bool" where
  "from_reader (Io_Read _) = True"
| "from_reader (Io_ReaderStopped _) = True"
| "from_reader _ = False"

text \<open>
  The state of one source: what was given to the owner, how it stopped, the head kept back, the
  channel, the join handle and what was published.
\<close>

definition ordered ::
  "'a list \<Rightarrow> 'x option \<Rightarrow> 'a option \<Rightarrow> 'a receiver \<Rightarrow> 'r poll option \<Rightarrow> 'a list \<Rightarrow> bool" where
  "ordered given stopped kept q handle published \<longleftrightarrow>
     given @ option_list kept @ rc_items q = published \<and> (stopped = None \<longleftrightarrow> handle \<noteq> None) \<and>
     (handle = None \<longrightarrow> kept = None \<and> rc_items q = []) \<and> (rc_open q \<longrightarrow> handle = Some Poll_Pending)"

definition reader_side :: "io_event list \<Rightarrow> reader_report list \<Rightarrow> io_tasks \<Rightarrow> bool" where
  "reader_side es published t \<longleftrightarrow>
     (\<exists>given stopped.
        filter from_reader es = map Io_Read given @ map Io_ReaderStopped (option_list stopped) \<and>
        ordered given stopped (it_pending_read t) (it_reads t) (it_reader t) published)"

definition writer_side :: "io_event list \<Rightarrow> writer_report list \<Rightarrow> io_tasks \<Rightarrow> bool" where
  "writer_side es published t \<longleftrightarrow>
     (\<exists>given stopped.
        filter (Not \<circ> from_reader) es = map Io_Write given @ map Io_WriterStopped (option_list stopped) \<and>
        ordered given stopped (it_pending_write t) (it_writes t) (it_writer t) published)"

definition ended :: "'a option \<Rightarrow> 'a receiver \<Rightarrow> bool" where
  "ended kept q \<longleftrightarrow> kept = None \<and> rc_items q = []"

lemma prefetch_read_cases:
  obtains "prefetch_read t = (False, t)"
  | r rest where "it_reader t \<noteq> None" "it_pending_read t = None" "rc_items (it_reads t) = r # rest"
      "prefetch_read t = (False, t\<lparr>it_reads := (it_reads t)\<lparr>rc_items := rest\<rparr>, it_pending_read := Some r\<rparr>)"
  | "it_reader t \<noteq> None" "ended (it_pending_read t) (it_reads t)" "prefetch_read t = (True, t)"
proof (cases "it_reader t \<noteq> None \<and> it_pending_read t = None")
  case True
  then show ?thesis
    using that by (cases "rc_items (it_reads t)"; cases "rc_open (it_reads t)")
      (auto simp: prefetch_read_def poll_recv_def ended_def)
next
  case False
  then have "prefetch_read t = (False, t)" by (auto simp: prefetch_read_def)
  with that show ?thesis by blast
qed

lemma prefetch_write_cases:
  obtains "prefetch_write t = (False, t)"
  | r rest where "it_writer t \<noteq> None" "it_pending_write t = None" "rc_items (it_writes t) = r # rest"
      "prefetch_write t = (False, t\<lparr>it_writes := (it_writes t)\<lparr>rc_items := rest\<rparr>, it_pending_write := Some r\<rparr>)"
  | "it_writer t \<noteq> None" "ended (it_pending_write t) (it_writes t)" "prefetch_write t = (True, t)"
proof (cases "it_writer t \<noteq> None \<and> it_pending_write t = None")
  case True
  then show ?thesis
    using that by (cases "rc_items (it_writes t)"; cases "rc_open (it_writes t)")
      (auto simp: prefetch_write_def poll_recv_def ended_def)
next
  case False
  then have "prefetch_write t = (False, t)" by (auto simp: prefetch_write_def)
  with that show ?thesis by blast
qed

text \<open>What a change to the owner's state does to either side.\<close>

lemma ordered_prefetch:
  "ordered given stopped None q handle ps \<Longrightarrow> rc_items q = r # rest \<Longrightarrow>
     ordered given stopped (Some r) (q\<lparr>rc_items := rest\<rparr>) handle ps"
  by (auto simp: ordered_def)

lemma ordered_deliver:
  "ordered given stopped (Some r) q handle ps \<Longrightarrow> ordered (given @ [r]) stopped None q handle ps"
  by (auto simp: ordered_def)

lemma ordered_stop:
  "ordered given stopped kept q (Some (Poll_Ready x)) ps \<Longrightarrow> ended kept q \<Longrightarrow>
     ordered given (Some x) kept q None ps"
  by (auto simp: ordered_def ended_def)

lemma ordered_running:
  "ordered given stopped kept q (Some h) ps \<Longrightarrow> stopped = None"
  "ordered given stopped (Some r) q handle ps \<Longrightarrow> stopped = None"
  by (auto simp: ordered_def)

lemma reader_side_cong:
  "it_pending_read t' = it_pending_read t \<Longrightarrow> it_reads t' = it_reads t \<Longrightarrow> it_reader t' = it_reader t \<Longrightarrow>
     filter from_reader es' = filter from_reader es \<Longrightarrow> reader_side es' rs t' = reader_side es rs t"
  by (simp add: reader_side_def)

lemma writer_side_cong:
  "it_pending_write t' = it_pending_write t \<Longrightarrow> it_writes t' = it_writes t \<Longrightarrow> it_writer t' = it_writer t \<Longrightarrow>
     filter (Not \<circ> from_reader) es' = filter (Not \<circ> from_reader) es \<Longrightarrow>
     writer_side es' ws t' = writer_side es ws t"
  by (simp add: writer_side_def)

definition sides ::
  "io_event list \<Rightarrow> reader_report list \<Rightarrow> writer_report list \<Rightarrow> io_tasks \<Rightarrow> bool" where
  "sides es rs ws t \<longleftrightarrow> reader_side es rs t \<and> writer_side es ws t"

lemma sides_read:
  assumes "sides es rs ws t" "it_pending_read t = Some r"
  shows "sides (es @ [Io_Read r]) rs ws (t\<lparr>it_prefer_read := b, it_pending_read := None\<rparr>)"
proof -
  obtain given stopped where g: "filter from_reader es = map Io_Read given @ map Io_ReaderStopped (option_list stopped)"
    "ordered given stopped (Some r) (it_reads t) (it_reader t) rs"
    using assms by (auto simp: sides_def reader_side_def)
  from ordered_deliver [OF g(2)] ordered_running(2) [OF g(2)] g(1)
  have "reader_side (es @ [Io_Read r]) rs (t\<lparr>it_prefer_read := b, it_pending_read := None\<rparr>)"
    unfolding reader_side_def by (intro exI [of _ "given @ [r]"] exI [of _ stopped]) simp
  with assms(1) show ?thesis by (simp add: sides_def writer_side_def)
qed

lemma writer_side_write:
  assumes "writer_side es ws t" "it_pending_write t = Some r"
  shows "writer_side (es @ [Io_Write r]) ws (t\<lparr>it_pending_write := None\<rparr>)"
proof -
  obtain given stopped where g: "filter (Not \<circ> from_reader) es = map Io_Write given @ map Io_WriterStopped (option_list stopped)"
    "ordered given stopped (Some r) (it_writes t) (it_writer t) ws"
    using assms by (auto simp: writer_side_def)
  from ordered_deliver [OF g(2)] ordered_running(2) [OF g(2)] g(1) show ?thesis
    unfolding writer_side_def by (intro exI [of _ "given @ [r]"] exI [of _ stopped]) simp
qed

lemma sides_write:
  assumes "sides es rs ws t" "it_pending_write t = Some r"
  shows "sides (es @ [Io_Write r]) rs ws (t\<lparr>it_prefer_read := b, it_pending_write := None\<rparr>)"
    and "sides (es @ [Io_Write r]) rs ws (t\<lparr>it_pending_write := None\<rparr>)"
  using assms writer_side_write [of es ws t r]
  by (simp_all add: sides_def reader_side_def writer_side_def)

lemma sides_poison [simp]: "sides es rs ws (get_or_insert p t) = sides es rs ws t"
  by (auto simp: get_or_insert_def sides_def reader_side_def writer_side_def split: option.split)

lemma sides_reader_stops:
  assumes "sides es rs ws t" "it_reader t = Some (Poll_Ready x)" "ended (it_pending_read t) (it_reads t)"
  shows "sides (es @ [Io_ReaderStopped x]) rs ws (t\<lparr>it_reader := None\<rparr>)"
proof -
  obtain given stopped where g: "filter from_reader es = map Io_Read given @ map Io_ReaderStopped (option_list stopped)"
    "ordered given stopped (it_pending_read t) (it_reads t) (Some (Poll_Ready x)) rs"
    using assms by (auto simp: sides_def reader_side_def)
  from ordered_stop [OF g(2) assms(3)] ordered_running(1) [OF g(2)] g(1)
  have "reader_side (es @ [Io_ReaderStopped x]) rs (t\<lparr>it_reader := None\<rparr>)"
    unfolding reader_side_def by (intro exI [of _ given] exI [of _ "Some x"]) simp
  with assms(1) show ?thesis by (simp add: sides_def writer_side_def)
qed

lemma sides_writer_stops:
  assumes "sides es rs ws t" "it_writer t = Some (Poll_Ready x)" "ended (it_pending_write t) (it_writes t)"
  shows "sides (es @ [Io_WriterStopped x]) rs ws (t\<lparr>it_writer := None\<rparr>)"
proof -
  obtain given stopped where g: "filter (Not \<circ> from_reader) es = map Io_Write given @ map Io_WriterStopped (option_list stopped)"
    "ordered given stopped (it_pending_write t) (it_writes t) (Some (Poll_Ready x)) ws"
    using assms by (auto simp: sides_def writer_side_def)
  from ordered_stop [OF g(2) assms(3)] ordered_running(1) [OF g(2)] g(1)
  have "writer_side (es @ [Io_WriterStopped x]) ws (t\<lparr>it_writer := None\<rparr>)"
    unfolding writer_side_def by (intro exI [of _ given] exI [of _ "Some x"]) simp
  with assms(1) show ?thesis by (simp add: sides_def reader_side_def)
qed

lemma prefetch_read_sides:
  assumes "prefetch_read t = (closed, t')" "sides es rs ws t"
  shows "sides es rs ws t' \<and> (closed \<longrightarrow> t' = t \<and> ended (it_pending_read t) (it_reads t))"
  using prefetch_read_cases [of t]
proof cases
  case (2 r rest)
  then show ?thesis
    using assms by (auto simp: sides_def reader_side_def writer_side_def intro: ordered_prefetch)
qed (use assms in auto)

lemma prefetch_write_sides:
  assumes "prefetch_write t = (closed, t')" "sides es rs ws t"
  shows "sides es rs ws t' \<and> (closed \<longrightarrow> t' = t \<and> ended (it_pending_write t) (it_writes t)) \<and>
    it_pending_read t' = it_pending_read t \<and> it_reads t' = it_reads t"
  using prefetch_write_cases [of t]
proof cases
  case (2 r rest)
  then show ?thesis
    using assms by (auto simp: sides_def reader_side_def writer_side_def intro: ordered_prefetch)
qed (use assms in auto)

lemma join_reader_sides:
  assumes "join_reader closed t = (e, t')" "sides es rs ws t"
    "closed \<Longrightarrow> ended (it_pending_read t) (it_reads t)"
  shows "sides (es @ option_list e) rs ws t' \<and> (e = None \<longrightarrow> t' = t)"
  using assms sides_reader_stops [OF assms(2)]
  by (auto simp: join_reader_def Let_def split: bool.splits option.splits poll.splits sum.splits prod.splits)

lemma join_writer_sides:
  assumes "join_writer closed t = (e, t')" "sides es rs ws t"
    "closed \<Longrightarrow> ended (it_pending_write t) (it_writes t)"
  shows "sides (es @ option_list e) rs ws t' \<and> (e = None \<longrightarrow> t' = t)"
  using assms sides_writer_stops [OF assms(2)]
  by (auto simp: join_writer_def Let_def split: bool.splits option.splits poll.splits sum.splits prod.splits)

lemma poll_terminal_sides:
  assumes "poll_terminal t = (e, t')" "sides es rs ws t"
  shows "sides (es @ option_list e) rs ws t'"
proof -
  obtain rc t1 where r: "prefetch_read t = (rc, t1)" by fastforce
  obtain wc t2 where w: "prefetch_write t1 = (wc, t2)" by fastforce
  note s1 = prefetch_read_sides [OF r assms(2)]
  with prefetch_write_sides [OF w] have s2: "sides es rs ws t2" "wc \<Longrightarrow> ended (it_pending_write t2) (it_writes t2)"
    "rc \<Longrightarrow> ended (it_pending_read t2) (it_reads t2)" by auto
  obtain e1 t3 where j: "join_reader rc t2 = (e1, t3)" by fastforce
  from join_reader_sides [OF j s2(1,3)] have s3: "sides (es @ option_list e1) rs ws t3" "e1 = None \<longrightarrow> t3 = t2"
    by auto
  show ?thesis
    using assms(1) r w s2 s3 j join_writer_sides [of wc t3 e t' es rs ws] sides_write(2) [OF s2(1)]
    by (auto simp: poll_terminal_def Let_def split: if_splits option.splits)
qed

lemma poll_next_sides:
  assumes "poll_next t = (p, t')" "sides es rs ws t"
  shows "sides (es @ (case p of Poll_Ready (Some e) \<Rightarrow> [e] | _ \<Rightarrow> [])) rs ws t'"
proof -
  obtain e t1 where e: "poll_terminal t = (e, t1)" by fastforce
  from poll_terminal_sides [OF this assms(2)] sides_read [of es rs ws t1] sides_write(1) [of es rs ws t1] assms(1) e
  show ?thesis by (auto simp: poll_next_def split: if_splits option.splits)
qed

text \<open>What a step of a task does to its channel.\<close>

lemma ordered_env:
  "ordered given stopped kept q handle ps \<Longrightarrow> rc_open q \<Longrightarrow>
     ordered given stopped kept (q\<lparr>rc_items := rc_items q @ [r]\<rparr>) handle (ps @ [r])"
  "ordered given stopped kept q handle ps \<Longrightarrow> ordered given stopped kept (q\<lparr>rc_open := False\<rparr>) handle ps"
  "ordered given stopped kept q (Some Poll_Pending) ps \<Longrightarrow>
     ordered given stopped kept (q\<lparr>rc_open := False\<rparr>) (Some h) ps"
  by (simp_all add: ordered_def)

lemma tasks_env_sides:
  assumes "sides es rs ws t"
  shows "sides es (rs @ published_reads (Op_env e) t) (ws @ published_writes (Op_env e) t) (tasks_env_step e t)"
proof -
  obtain given stopped where
    "filter from_reader es = map Io_Read given @ map Io_ReaderStopped (option_list stopped)"
    "ordered given stopped (it_pending_read t) (it_reads t) (it_reader t) rs"
    using assms by (auto simp: sides_def reader_side_def)
  then have "reader_side es (rs @ published_reads (Op_env e) t) (tasks_env_step e t)"
    unfolding reader_side_def
    by (intro exI [of _ given] exI [of _ stopped] conjI) (simp, (cases e; auto intro: ordered_env))
  moreover obtain given' stopped' where
    "filter (Not \<circ> from_reader) es = map Io_Write given' @ map Io_WriterStopped (option_list stopped')"
    "ordered given' stopped' (it_pending_write t) (it_writes t) (it_writer t) ws"
    using assms by (auto simp: sides_def writer_side_def)
  then have "writer_side es (ws @ published_writes (Op_env e) t) (tasks_env_step e t)"
    unfolding writer_side_def
    by (intro exI [of _ given'] exI [of _ stopped'] conjI) (simp, (cases e; auto intro: ordered_env))
  ultimately show ?thesis by (simp add: sides_def)
qed

lemma tasks_step_sides:
  assumes "tasks_step op t = (es', t')" "sides es rs ws t"
  shows "sides (es @ es') (rs @ published_reads op t) (ws @ published_writes op t) t'"
proof (cases op)
  case (Op_env e)
  then show ?thesis using assms tasks_env_sides by auto
next
  case Op_terminal
  then show ?thesis using assms poll_terminal_sides by (auto split: prod.splits)
next
  case Op_next
  then show ?thesis using assms poll_next_sides [of t _ _ es rs ws]
    by (fastforce split: prod.splits poll.splits option.splits)
qed

lemma tasks_run_sides:
  "tasks_run ops t = (es', rs', ws', t') \<Longrightarrow> sides es rs ws t \<Longrightarrow>
     sides (es @ es') (rs @ rs') (ws @ ws') t'"
proof (induction ops arbitrary: t es rs ws es' rs' ws' t')
  case (Cons op ops)
  obtain e1 t1 where s: "tasks_step op t = (e1, t1)" by fastforce
  obtain e2 r2 w2 t2 where r: "tasks_run ops t1 = (e2, r2, w2, t2)" by (metis prod_cases4)
  from Cons.IH [OF r tasks_step_sides [OF s Cons.prems(2)]] Cons.prems(1) s r show ?case by simp
qed simp

lemma launched_sides: "sides [] [] [] launched"
  by (auto simp: sides_def reader_side_def writer_side_def ordered_def launched_def)

lemma tasks_run_append:
  "tasks_run (ops @ ops') t =
     (let (es, rs, ws, t1) = tasks_run ops t; (es', rs', ws', t2) = tasks_run ops' t1
      in (es @ es', rs @ rs', ws @ ws', t2))"
  by (induction ops arbitrary: t) (simp_all add: Let_def split_beta)

text \<open>C20: Reports come before the exit of their task: however the tasks and the polls interleave, the owner is
  given what each task has published, in order and each report once; an exit is given at most once,
  last, and only after every report of that task. What is not given yet is still held, in order.\<close>

theorem reports_before_exit:
  assumes "tasks_run ops launched = (es, reads, writes, t)"
  shows "\<exists>rs ws reader_exit writer_exit.
    filter from_reader es = map Io_Read rs @ map Io_ReaderStopped (option_list reader_exit) \<and>
    filter (Not \<circ> from_reader) es = map Io_Write ws @ map Io_WriterStopped (option_list writer_exit) \<and>
    rs @ option_list (it_pending_read t) @ rc_items (it_reads t) = reads \<and>
    ws @ option_list (it_pending_write t) @ rc_items (it_writes t) = writes \<and>
    (reader_exit \<noteq> None \<longrightarrow> rs = reads) \<and> (writer_exit \<noteq> None \<longrightarrow> ws = writes)"
proof -
  from tasks_run_sides [OF assms launched_sides] have "reader_side es reads t" "writer_side es writes t"
    by (simp_all add: sides_def)
  then obtain rs ws x y where
    "filter from_reader es = map Io_Read rs @ map Io_ReaderStopped (option_list x)"
    "ordered rs x (it_pending_read t) (it_reads t) (it_reader t) reads"
    "filter (Not \<circ> from_reader) es = map Io_Write ws @ map Io_WriterStopped (option_list y)"
    "ordered ws y (it_pending_write t) (it_writes t) (it_writer t) writes"
    unfolding reader_side_def writer_side_def by blast
  then show ?thesis
    by (intro exI [of _ rs] exI [of _ ws] exI [of _ x] exI [of _ y]) (auto simp: ordered_def)
qed

subsection \<open>What cleanup proves\<close>

definition writes_of :: "io_event list \<Rightarrow> writer_report list" where
  "writes_of es = concat (map (\<lambda>e. case e of Io_Write r \<Rightarrow> [r] | _ \<Rightarrow> []) es)"

lemma writes_of_simps [simp]:
  "writes_of [] = []" "writes_of (es @ es') = writes_of es @ writes_of es'"
  "writes_of (Io_Write r # es) = r # writes_of es" "writes_of (Io_Read q # es) = writes_of es"
  "writes_of (Io_ReaderStopped x # es) = writes_of es" "writes_of (Io_WriterStopped y # es) = writes_of es"
  by (simp_all add: writes_of_def)

lemma writer_side_writes:
  assumes "writer_side es ws t"
  shows "ws = writes_of es @ option_list (it_pending_write t) @ rc_items (it_writes t)"
    and "it_writer t = None \<Longrightarrow> ws = writes_of es \<and> it_pending_write t = None \<and> rc_items (it_writes t) = []"
proof -
  have f: "writes_of (filter (Not \<circ> from_reader) es) = writes_of es" for es
    by (induction es) (simp_all add: writes_of_def split: io_event.split)
  have m: "writes_of (map Io_Write ws) = ws" "writes_of (map Io_WriterStopped xs) = []" for ws xs
    by (induction ws) (simp_all, induction xs, simp_all)
  obtain given stopped where g: "filter (Not \<circ> from_reader) es = map Io_Write given @ map Io_WriterStopped (option_list stopped)"
    "ordered given stopped (it_pending_write t) (it_writes t) (it_writer t) ws"
    using assms by (auto simp: writer_side_def)
  from arg_cong [OF g(1), of writes_of] have "writes_of es = given" by (simp add: f m)
  with g(2) show "ws = writes_of es @ option_list (it_pending_write t) @ rc_items (it_writes t)"
    "it_writer t = None \<Longrightarrow> ws = writes_of es \<and> it_pending_write t = None \<and> rc_items (it_writes t) = []"
    by (auto simp: ordered_def)
qed

lemma poll_terminal_poison: "it_poison t \<noteq> None \<Longrightarrow> poll_terminal t = (e, t') \<Longrightarrow> it_poison t' \<noteq> None"
  by (cases t rule: prefetch_read_cases; cases "snd (prefetch_read t)" rule: prefetch_write_cases)
    (auto simp: poll_terminal_def Let_def join_reader_def join_writer_def get_or_insert_def
      split: if_splits option.splits bool.splits poll.splits sum.splits)

lemma poll_next_poison: "it_poison t \<noteq> None \<Longrightarrow> poll_next t = (p, t') \<Longrightarrow> it_poison t' \<noteq> None"
  using poll_terminal_poison
  by (fastforce simp: poll_next_def split: if_splits option.splits prod.splits)

lemma poll_next_ended: "poll_next t = (Poll_Ready None, t') \<Longrightarrow> it_reader t' = None \<and> it_writer t' = None"
  by (auto simp: poll_next_def split: if_splits option.splits prod.splits)

lemma env_poison [simp]: "it_poison (fold tasks_env_step envs t) = it_poison t"
proof (induction envs arbitrary: t)
  case (Cons e envs)
  then show ?case by (cases e) simp_all
qed simp

text \<open>
  What the tasks do while a cleanup runs: everything up to the round that ends at the deadline. What
  of it is published is decided by the Writer's sender alone, which is there (\<open>sending\<close>) until it is
  dropped or its task ends.
\<close>

fun until_deadline :: "(tasks_env list \<times> bool) list \<Rightarrow> tasks_env list" where
  "until_deadline [] = []"
| "until_deadline ((envs, expired) # rounds) = envs @ (if expired then [] else until_deadline rounds)"

fun sender_left :: "bool \<Rightarrow> tasks_env list \<Rightarrow> bool" where
  "sender_left sending [] = sending"
| "sender_left sending (Writer_drops_sender # envs) = sender_left False envs"
| "sender_left sending (Writer_ends _ # envs) = sender_left False envs"
| "sender_left sending (_ # envs) = sender_left sending envs"

fun writes_sent :: "bool \<Rightarrow> tasks_env list \<Rightarrow> writer_report list" where
  "writes_sent sending [] = []"
| "writes_sent sending (Publishes_write r # envs) = (if sending then [r] else []) @ writes_sent sending envs"
| "writes_sent sending (Writer_drops_sender # envs) = writes_sent False envs"
| "writes_sent sending (Writer_ends _ # envs) = writes_sent False envs"
| "writes_sent sending (_ # envs) = writes_sent sending envs"

lemma writes_sent_False [simp]: "writes_sent False envs = []"
proof (induction envs)
  case (Cons e envs)
  then show ?case by (cases e) simp_all
qed simp

lemma writes_sent_append:
  "writes_sent b (xs @ ys) = writes_sent b xs @ writes_sent (sender_left b xs) ys"
  by (induction b xs rule: writes_sent.induct) simp_all

text \<open>On the states of a run, whose open sender has a running task, that is what is published.\<close>

lemma sides_sender: "sides es rs ws t \<Longrightarrow> rc_open (it_writes t) \<Longrightarrow> it_writer t = Some Poll_Pending"
  by (auto simp: sides_def writer_side_def ordered_def)

lemma sent_step:
  assumes "sides es rs ws t"
  shows "published_writes (Op_env e) t = writes_sent (rc_open (it_writes t)) [e]"
    and "rc_open (it_writes (tasks_env_step e t)) = sender_left (rc_open (it_writes t)) [e]"
  using sides_sender [OF assms] by (cases e; cases "rc_open (it_writes t)"; simp)+

lemma fold_env_sides:
  "sides es rs ws t \<Longrightarrow>
     (\<exists>reads. sides es (rs @ reads) (ws @ writes_sent (rc_open (it_writes t)) envs) (fold tasks_env_step envs t)) \<and>
     rc_open (it_writes (fold tasks_env_step envs t)) = sender_left (rc_open (it_writes t)) envs"
proof (induction envs arbitrary: t rs ws)
  case Nil
  then show ?case by (auto intro: exI [of _ "[]"])
next
  case (Cons e envs)
  let ?o = "rc_open (it_writes t)"
  note step = sent_step [OF Cons.prems, of e]
  have split: "writes_sent ?o (e # envs) = writes_sent ?o [e] @ writes_sent (sender_left ?o [e]) envs"
    "sender_left ?o (e # envs) = sender_left (sender_left ?o [e]) envs"
    by (cases e; simp)+
  from Cons.IH [OF tasks_env_sides [OF Cons.prems, of e]] obtain reads where
    "sides es ((rs @ published_reads (Op_env e) t) @ reads)
       ((ws @ writes_sent ?o [e]) @ writes_sent (sender_left ?o [e]) envs) (fold tasks_env_step (e # envs) t)"
    "rc_open (it_writes (fold tasks_env_step (e # envs) t)) = sender_left (sender_left ?o [e]) envs"
    by (auto simp: step)
  then show ?case unfolding split by auto
qed

text \<open>A poll leaves the sender alone.\<close>

lemma poll_terminal_open: "poll_terminal t = (e, t') \<Longrightarrow> rc_open (it_writes t') = rc_open (it_writes t)"
  by (cases t rule: prefetch_read_cases; cases "snd (prefetch_read t)" rule: prefetch_write_cases)
    (auto simp: poll_terminal_def Let_def join_reader_def join_writer_def get_or_insert_def
      split: if_splits option.splits bool.splits poll.splits sum.splits)

lemma poll_next_open: "poll_next t = (p, t') \<Longrightarrow> rc_open (it_writes t') = rc_open (it_writes t)"
  using poll_terminal_open
  by (fastforce simp: poll_next_def split: if_splits option.splits prod.splits)

lemma cleanup_loop_sides:
  assumes "cleanup_loop rounds t = Some (reports, t')" "sides es rs ws t"
  shows "\<exists>es' reads.
    sides (es @ es') (rs @ reads) (ws @ writes_sent (rc_open (it_writes t)) (until_deadline rounds)) t' \<and>
    writes_of es' = reports \<and>
    (it_poison t' = None \<longrightarrow> it_poison t = None \<and> it_reader t' = None \<and> it_writer t' = None)"
  using assms
proof (induction rounds arbitrary: t es rs ws reports)
  case Nil
  then show ?case by (intro exI [of _ "[]"]) (auto split: if_splits)
next
  case (Cons round rounds)
  obtain envs expired where round: "round = (envs, expired)" by fastforce
  have joined: "\<not> rc_open (it_writes u)" if "sides es rs ws u" "it_writer u = None" for es rs ws u
    using sides_sender [OF that(1)] that(2) by auto
  show ?case
  proof (cases "it_reader t = None \<and> it_writer t = None")
    case True
    with Cons.prems round joined [OF Cons.prems(2)] show ?thesis by (intro exI [of _ "[]"]) auto
  next
    case False
    let ?o = "rc_open (it_writes t)" and ?t = "fold tasks_env_step envs t"
    obtain reads where f: "sides es (rs @ reads) (ws @ writes_sent ?o envs) ?t"
      "rc_open (it_writes ?t) = sender_left ?o envs"
      using fold_env_sides [OF Cons.prems(2)] by blast
    show ?thesis
    proof (cases expired)
      case True
      have "sides es (rs @ reads) (ws @ writes_sent ?o envs) (abort (get_or_insert TaskDidNotStop ?t)) \<and>
          it_poison (abort (get_or_insert TaskDidNotStop ?t)) \<noteq> None"
        using f(1) by (auto simp: abort_def get_or_insert_def sides_def reader_side_def writer_side_def
            split: option.split)
      with Cons.prems(1) round False True show ?thesis
        by (intro exI [of _ "[] :: io_event list"] exI [of _ reads]) auto
    next
      case unexpired: False
      obtain p t1 where p: "poll_next ?t = (p, t1)" by fastforce
      note s1 = poll_next_sides [OF p f(1)] and o1 = poll_next_open [OF p]
      have poison: "it_poison t = None" if "it_poison t1 = None"
        using poll_next_poison [of ?t p t1, OF _ p] that by (metis env_poison)
      have sent: "writes_sent ?o (until_deadline (round # rounds)) =
          writes_sent ?o envs @ writes_sent (rc_open (it_writes t1)) (until_deadline rounds)"
        by (simp add: round unexpired writes_sent_append f(2) o1)
      show ?thesis
      proof (cases "p = Poll_Ready None")
        case True
        with p poll_next_ended have "it_reader t1 = None" "it_writer t1 = None" by auto
        moreover from True s1 have "sides es (rs @ reads) (ws @ writes_sent ?o envs) t1" by simp
        moreover note joined [OF this]
        ultimately show ?thesis using Cons.prems(1) round False unexpired p True poison
          unfolding sent by (intro exI [of _ "[] :: io_event list"] exI [of _ reads]) auto
      next
        case going: False
        define out where "out = (case p of Poll_Ready (Some e) \<Rightarrow> [e] | _ \<Rightarrow> [])"
        obtain rest where r: "cleanup_loop rounds t1 = Some (rest, t')" "reports = writes_of out @ rest"
          using Cons.prems(1) round False unexpired p going
          by (auto simp: out_def writes_of_def split: poll.splits option.splits io_event.splits)
        from Cons.IH [OF r(1) s1 [folded out_def]] obtain es' reads' where ih:
          "sides ((es @ out) @ es') ((rs @ reads) @ reads')
             ((ws @ writes_sent ?o envs) @ writes_sent (rc_open (it_writes t1)) (until_deadline rounds)) t'"
          "writes_of es' = rest"
          "it_poison t' = None \<longrightarrow> it_poison t1 = None \<and> it_reader t' = None \<and> it_writer t' = None"
          by (elim exE conjE) (rule that)
        with r(2) poison show ?thesis
          unfolding sent by (intro exI [of _ "out @ es'"] exI [of _ "reads @ reads'"]) auto
      qed
    qed
  qed
qed

text \<open>C19: A cleanup loses no report of the Writer: whatever it reports, what the Writer had published
  before it and what it publishes while it runs, until the deadline or the drop of its sender, is
  exactly what was given to the owner, then to \<open>settle\<close>, and then is still held, each once and in
  order. A clean cleanup is a proof: it is only reported when both tasks have been joined and no
  earlier poll was poisoned, and then nothing is held any more, so that all of it was settled.\<close>

theorem clean_cleanup_settles:
  assumes "tasks_run ops launched = (es, reads, writes, t)"
    and "cleanup rounds t = Some (result, settled_reports, t')"
  shows "writes_of es @ settled_reports @ option_list (it_pending_write t') @ rc_items (it_writes t') =
      writes @ writes_sent (rc_open (it_writes t)) (until_deadline rounds) \<and>
    (result = Clean \<longrightarrow>
       writer_joined t' \<and> it_reader t' = None \<and> it_poison t = None \<and>
       it_pending_write t' = None \<and> rc_items (it_writes t') = [] \<and>
       writes_of es @ settled_reports = writes @ writes_sent (rc_open (it_writes t)) (until_deadline rounds))"
proof -
  have s: "sides es reads writes (t\<lparr>it_cancellation := True\<rparr>)"
    using tasks_run_sides [OF assms(1) launched_sides] by (simp add: sides_def reader_side_def writer_side_def)
  have c: "cleanup_loop rounds (t\<lparr>it_cancellation := True\<rparr>) = Some (settled_reports, t')"
    "result = cleanup_verdict t'" using assms(2) by (auto simp: cleanup_def)
  let ?late = "writes_sent (rc_open (it_writes t)) (until_deadline rounds)"
  obtain es' reads' where l: "sides (es @ es') (reads @ reads') (writes @ ?late) t'"
    "writes_of es' = settled_reports"
    "it_poison t' = None \<longrightarrow> it_poison t = None \<and> it_reader t' = None \<and> it_writer t' = None"
    using cleanup_loop_sides [OF c(1) s] by auto
  have "writer_side (es @ es') (writes @ ?late) t'" using l(1) by (simp add: sides_def)
  note w = writer_side_writes [OF this]
  show ?thesis
    using l w c(2) by (auto simp: cleanup_verdict_def writer_joined_def split: option.splits)
qed

lemmas tasks_eval = launched_def poll_next_def poll_terminal_def prefetch_read_def prefetch_write_def
  poll_recv_def join_reader_def join_writer_def cleanup_def cleanup_verdict_def Let_def

abbreviation sample_report :: writer_report where
  "sample_report \<equiv> \<lparr>wr_write_id = 4, wr_outcome = Committed, wr_occurred_at = 1,
     wr_charge = \<lparr>cg_lane = Control_lane, cg_bytes = None\<rparr>\<rparr>"

abbreviation later_report :: writer_report where
  "later_report \<equiv> sample_report\<lparr>wr_write_id := 5\<rparr>"

text \<open>The Writer publishes a report and both tasks end; the reader's exit is polled first.\<close>

lemma reports_before_exit_witness:
  "\<exists>t. tasks_run [Op_env (Publishes_write sample_report), Op_env (Writer_ends (Ok ())), Op_next, Op_next]
         launched = ([Io_Write sample_report, Io_WriterStopped (Ok ())], [], [sample_report], t) \<and>
     (\<exists>ws. ws @ option_list (it_pending_write t) @ rc_items (it_writes t) = [sample_report] \<and> ws = [sample_report])"
proof -
  obtain t where r: "tasks_run [Op_env (Publishes_write sample_report), Op_env (Writer_ends (Ok ())), Op_next, Op_next]
         launched = ([Io_Write sample_report, Io_WriterStopped (Ok ())], [], [sample_report], t)"
    by (simp add: tasks_eval)
  from reports_before_exit [OF r] r show ?thesis by (auto simp: map_eq_append_conv)
qed

text \<open>One report is queued before the cleanup, a second one is published while it runs.\<close>

lemma clean_cleanup_settles_witness:
  "\<exists>t t'. tasks_run [Op_env (Publishes_write sample_report)] launched = ([], [], [sample_report], t) \<and>
     cleanup [([Publishes_write later_report], False), ([Writer_ends (Ok ())], False),
              ([Reader_ends (Ok (Ok ()))], False), ([], False), ([], False)] t =
       Some (Clean, [sample_report, later_report], t') \<and> writer_joined t' \<and> it_poison t = None"
proof -
  obtain t where r: "tasks_run [Op_env (Publishes_write sample_report)] launched = ([], [], [sample_report], t)"
    "t = launched\<lparr>it_writes := \<lparr>rc_items = [sample_report], rc_open = True\<rparr>\<rparr>"
    by (simp add: tasks_eval)
  obtain t' where c: "cleanup [([Publishes_write later_report], False), ([Writer_ends (Ok ())], False),
              ([Reader_ends (Ok (Ok ()))], False), ([], False), ([], False)] t =
       Some (Clean, [sample_report, later_report], t')"
    by (simp add: r(2) tasks_eval)
  from clean_cleanup_settles [OF r(1) c] r c show ?thesis by auto
qed

end
