(* ===== verification/Hsms_Connection.thy ===== *)
theory Hsms_Connection
  imports Hsms_Tasks
begin

section \<open>Connected candidates\<close>

text \<open>
  \<open>src/hsms/supervisor/connection.rs\<close> and \<open>src/hsms/scheduling.rs\<close>. A Passive source listens only
  while no generation is owned; an Active one spaces its attempts by T5.

  The sockets are the environment's: a listener and a stream are opaque values, and what binding,
  accepting and connecting return, and when, is in the record \<open>source_env\<close> of one call. A wait is the
  list of its polls, each with the cancellation latch, the clock and the result of the socket
  operation if it has one; a list that ends before the wait does is a future that is dropped.
\<close>

datatype source_error = Source_Config config_error | Source_Bind io_error_kind

datatype attempt_error = Attempt_Transport io_error_kind | Attempt_Timeout | Attempt_DeadlineOverflow

datatype ('addr, 'l) connection_source =
    Source_Active 'addr duration duration "instant option"
  | Source_Passive "'l option" 'addr

subsection \<open>Preparation\<close>

text \<open>\<open>bound\<close> is the result of \<open>TcpListener::bind\<close>, \<open>local_addr\<close> the inspection of a listener.\<close>

definition prepare ::
  "(duration \<Rightarrow> bool) \<Rightarrow> 'addr endpoint_config \<Rightarrow> instant \<Rightarrow> (io_error_kind, 'l) sum \<Rightarrow>
     ('l \<Rightarrow> (io_error_kind, 'addr) sum) \<Rightarrow> (source_error, ('addr, 'l) connection_source) sum" where
  "prepare clock_fits config now bound local_addr =
     (case endpoint_config_validate clock_fits config of
        Inl e \<Rightarrow> Inl (Source_Config e)
      | Inr _ \<Rightarrow>
          (case ec_mode config of
             Active \<Rightarrow>
               Inr (Source_Active (ec_address config) (to_t5 (ec_timeouts config))
                      (to_connect (ec_timeouts config)) (Some now))
           | Passive \<Rightarrow>
               (case bound of
                  Inl e \<Rightarrow> Inl (Source_Bind e)
                | Inr listener \<Rightarrow>
                    (case local_addr listener of
                       Inl e \<Rightarrow> Inl (Source_Bind e)
                     | Inr address \<Rightarrow> Inr (Source_Passive (Some listener) address)))))"

fun source_local_address :: "('addr, 'l) connection_source \<Rightarrow> 'addr option" where
  "source_local_address (Source_Passive _ address) = Some address"
| "source_local_address (Source_Active _ _ _ _) = None"

text \<open>\<open>reject_extra\<close> is ready at once, with an error, if a listener was retained; else it stays pending.\<close>

fun reject_extra :: "('addr, 'l) connection_source \<Rightarrow> (io_error_kind, unit) sum poll" where
  "reject_extra (Source_Passive (Some _) _) = Poll_Ready (Inl Io_other)"
| "reject_extra _ = Poll_Pending"

subsection \<open>One call of \<open>next\<close>\<close>

record ('l, 'stream) source_env =
  ne_cancelled :: bool
  ne_bound :: "(io_error_kind, 'l) sum option"
  ne_waits :: "(bool \<times> instant) list"
  ne_started :: instant
  ne_polls :: "(bool \<times> instant \<times> (io_error_kind, 'stream) sum option) list"
  ne_ended :: instant

text \<open>The wait for T5: \<open>Some True\<close> when the time has come, \<open>Some False\<close> when cancelled, \<open>None\<close> when dropped.\<close>

fun wait_ready :: "instant \<Rightarrow> (bool \<times> instant) list \<Rightarrow> bool option" where
  "wait_ready ready_at [] = None"
| "wait_ready ready_at ((cancelled, now) # polls) =
     (if cancelled then Some False
      else if ready_at \<le> now then Some True
      else wait_ready ready_at polls)"

fun await_connect ::
  "instant \<Rightarrow> (bool \<times> instant \<times> (io_error_kind, 'stream) sum option) list \<Rightarrow>
     (attempt_error, 'stream option) sum option" where
  "await_connect deadline [] = None"
| "await_connect deadline ((cancelled, now, operation) # polls) =
     (if cancelled then Some (Inr None)
      else if deadline \<le> now then Some (Inl Attempt_Timeout)
      else
        case operation of
          None \<Rightarrow> await_connect deadline polls
        | Some (Inl e) \<Rightarrow> Some (Inl (Attempt_Transport e))
        | Some (Inr stream) \<Rightarrow> Some (Inr (Some stream)))"

text \<open>
  \<open>connect_attempt\<close> with the guard \<open>ConnectSeparation\<close>: however the attempt ends, dropped futures
  included, the next one starts T5 after the time of its end.
\<close>

definition connect_attempt ::
  "('s, 'q) tokio \<Rightarrow> duration \<Rightarrow> instant \<Rightarrow>
     (bool \<times> instant \<times> (io_error_kind, 'stream) sum option) list \<Rightarrow> instant \<Rightarrow>
     (attempt_error, 'stream option) sum option \<times> instant option" where
  "connect_attempt T t5 deadline polls at_end =
     (await_connect deadline polls, instant_checked_add T at_end t5)"

fun await_accept ::
  "(bool \<times> instant \<times> (io_error_kind, 'stream) sum option) list \<Rightarrow>
     (attempt_error, 'stream option) sum option" where
  "await_accept [] = None"
| "await_accept ((cancelled, now, accepted) # polls) =
     (if cancelled then Some (Inr None)
      else
        case accepted of
          None \<Rightarrow> await_accept polls
        | Some (Inl e) \<Rightarrow> Some (Inl (Attempt_Transport e))
        | Some (Inr stream) \<Rightarrow> Some (Inr (Some stream)))"

text \<open>The first component is \<open>None\<close> if the future was dropped.\<close>

fun next_candidate ::
  "('s, 'q) tokio \<Rightarrow> ('l, 'stream) source_env \<Rightarrow> ('addr, 'l) connection_source \<Rightarrow>
     (attempt_error, 'stream option) sum option \<times> ('addr, 'l) connection_source" where
  "next_candidate T env (Source_Passive listener address) =
     (if ne_cancelled env then (Some (Inr None), Source_Passive listener address)
      else
        case (case listener of None \<Rightarrow> ne_bound env | Some l \<Rightarrow> Some (Inr l)) of
          None \<Rightarrow> (None, Source_Passive listener address)
        | Some (Inl e) \<Rightarrow> (Some (Inl (Attempt_Transport e)), Source_Passive listener address)
        | Some (Inr l) \<Rightarrow>
            (case await_accept (ne_polls env) of
               Some (Inr (Some stream)) \<Rightarrow> (Some (Inr (Some stream)), Source_Passive None address)
             | outcome \<Rightarrow> (outcome, Source_Passive (Some l) address)))"
| "next_candidate T env (Source_Active address t5 connect next_attempt) =
     (case next_attempt of
        None \<Rightarrow> (Some (Inl Attempt_DeadlineOverflow), Source_Active address t5 connect next_attempt)
      | Some ready_at \<Rightarrow>
          (case wait_ready ready_at (ne_waits env) of
             None \<Rightarrow> (None, Source_Active address t5 connect next_attempt)
           | Some False \<Rightarrow> (Some (Inr None), Source_Active address t5 connect next_attempt)
           | Some True \<Rightarrow>
               (case instant_checked_add T (ne_started env) connect of
                  None \<Rightarrow>
                    (Some (Inl Attempt_DeadlineOverflow), Source_Active address t5 connect next_attempt)
                | Some deadline \<Rightarrow>
                    (case connect_attempt T t5 deadline (ne_polls env) (ne_ended env) of
                       (outcome, next_attempt) \<Rightarrow>
                         (outcome, Source_Active address t5 connect next_attempt)))))"

fun listening :: "('addr, 'l) connection_source \<Rightarrow> bool" where
  "listening (Source_Passive listener _) = (listener \<noteq> None)"
| "listening (Source_Active _ _ _ _) = False"

lemma candidate_not_listening:
  "next_candidate T env source = (Some (Inr (Some stream)), source') \<Longrightarrow> \<not> listening source'"
  by (induction T env source rule: next_candidate.induct)
    (auto split: if_splits sum.splits option.splits bool.splits prod.splits)

lemma reject_extra_iff: "reject_extra source = (if listening source then Poll_Ready (Inl Io_other) else Poll_Pending)"
  by (cases source rule: reject_extra.cases) auto

subsection \<open>T5\<close>

text \<open>The attempts that a sequence of calls starts: for each, when it starts and when it ends.\<close>

fun attempt_of ::
  "('s, 'q) tokio \<Rightarrow> ('l, 'stream) source_env \<Rightarrow> ('addr, 'l) connection_source \<Rightarrow> (instant \<times> instant) list"
where
  "attempt_of T env (Source_Active address t5 connect (Some ready_at)) =
     (if wait_ready ready_at (ne_waits env) = Some True \<and>
         instant_checked_add T (ne_started env) connect \<noteq> None
      then [(ne_started env, ne_ended env)] else [])"
| "attempt_of T env _ = []"

fun attempts ::
  "('s, 'q) tokio \<Rightarrow> ('l, 'stream) source_env list \<Rightarrow> ('addr, 'l) connection_source \<Rightarrow> (instant \<times> instant) list"
where
  "attempts T [] source = []"
| "attempts T (env # envs) source =
     attempt_of T env source @ attempts T envs (snd (next_candidate T env source))"

text \<open>A clock that does not go back: an attempt starts after the last poll of its wait, and ends after it starts.\<close>

definition clock_forward :: "('l, 'stream) source_env \<Rightarrow> bool" where
  "clock_forward env \<longleftrightarrow>
     (\<forall>(cancelled, now) \<in> set (ne_waits env). now \<le> ne_started env) \<and> ne_started env \<le> ne_ended env"

lemma wait_ready_time:
  "wait_ready ready_at polls = Some True \<Longrightarrow> \<exists>now \<in> snd ` set polls. ready_at \<le> now"
  by (induction ready_at polls rule: wait_ready.induct) (auto split: if_splits)

lemma attempts_after:
  assumes "\<forall>t d u. instant_checked_add T t d = Some u \<longrightarrow> u = t + d"
  shows "\<forall>env \<in> set envs. clock_forward env \<Longrightarrow>
    (\<forall>(s, e) \<in> set (attempts T envs (Source_Active address t5 connect next_attempt)).
       s \<le> e \<and> (\<exists>ready_at. next_attempt = Some ready_at \<and> ready_at \<le> s)) \<and>
    sorted_wrt (\<lambda>(s1, e1) (s2, e2). e1 + t5 \<le> s2)
      (attempts T envs (Source_Active address t5 connect next_attempt))"
proof (induction envs arbitrary: next_attempt)
  case (Cons env envs)
  let ?source = "Source_Active address t5 connect next_attempt"
  show ?case
  proof (cases "attempt_of T env ?source")
    case Nil
    then have "snd (next_candidate T env ?source) = ?source"
      by (cases next_attempt) (auto simp: connect_attempt_def split: option.splits bool.splits if_splits)
    with Nil Cons show ?thesis by simp
  next
    case (Cons a as)
    then obtain ready_at where ready_at: "next_attempt = Some ready_at"
      "wait_ready ready_at (ne_waits env) = Some True"
      "instant_checked_add T (ne_started env) connect \<noteq> None" "attempt_of T env ?source = [(ne_started env, ne_ended env)]"
      by (cases next_attempt) (auto split: if_splits)
    have c: "clock_forward env" using Cons.prems by simp
    have "ready_at \<le> ne_started env"
      using wait_ready_time [OF ready_at(2)] c by (fastforce simp: clock_forward_def)
    moreover have "ne_started env \<le> ne_ended env" using c by (simp add: clock_forward_def)
    moreover have s: "snd (next_candidate T env ?source) =
        Source_Active address t5 connect (instant_checked_add T (ne_ended env) t5)"
      using ready_at by (auto simp: connect_attempt_def split: option.splits)
    moreover have "\<forall>(s, e) \<in> set (attempts T envs (Source_Active address t5 connect (instant_checked_add T (ne_ended env) t5))).
        s \<le> e \<and> ne_ended env + t5 \<le> s"
      using Cons.IH [of "instant_checked_add T (ne_ended env) t5"] Cons.prems assms by fastforce
    ultimately show ?thesis
      using Cons.IH [of "instant_checked_add T (ne_ended env) t5"] Cons.prems ready_at(1,4) by auto
  qed
qed simp

text \<open>C17: T5 separates connection attempts. However the calls of an Active source are cancelled or dropped,
  and however its attempts end, each attempt starts at least T5 after the end of every earlier one,
  and none starts before the source's own retry time; a source whose next attempt cannot be
  represented starts none.\<close>

theorem attempts_separated:
  assumes "\<forall>t d u. instant_checked_add T t d = Some u \<longrightarrow> u = t + d"
    and "\<forall>env \<in> set envs. clock_forward env"
  shows "sorted_wrt (\<lambda>(s1, e1) (s2, e2). e1 + t5 \<le> s2)
      (attempts T envs (Source_Active address t5 connect next_attempt)) \<and>
    (\<forall>(s, e) \<in> set (attempts T envs (Source_Active address t5 connect next_attempt)).
       \<exists>ready_at. next_attempt = Some ready_at \<and> ready_at \<le> s)"
  using attempts_after [OF assms, of address t5 connect next_attempt] by blast

abbreviation sample_attempt :: "instant \<Rightarrow> instant \<Rightarrow> (unit, unit) source_env" where
  "sample_attempt started at_end \<equiv>
     \<lparr>ne_cancelled = False, ne_bound = Some (Inr ()), ne_waits = [(False, 0), (False, started)],
      ne_started = started, ne_polls = [(False, started, None)], ne_ended = at_end\<rparr>"

lemma attempts_separated_witness:
  "attempts counting_tokio [sample_attempt 5 8, sample_attempt 9 10, sample_attempt 18 19]
     (Source_Active () 10 30 (Some 3)) = [(5, 8), (18, 19)] \<and> (8::nat) + 10 \<le> 18"
proof -
  have a: "attempts counting_tokio [sample_attempt 5 8, sample_attempt 9 10, sample_attempt 18 19]
     (Source_Active () 10 30 (Some 3)) = [(5, 8), (18, 19)]"
    by (simp add: counting_tokio_def connect_attempt_def)
  have "\<forall>t d u. instant_checked_add counting_tokio t d = Some u \<longrightarrow> u = t + d"
    by (simp add: counting_tokio_def)
  from attempts_separated [OF this, of "[sample_attempt 5 8, sample_attempt 9 10, sample_attempt 18 19]" 10 "()" 30 "Some 3"] a
  show ?thesis by (simp add: clock_forward_def)
qed

subsection \<open>Alternation\<close>

text \<open>
  \<open>alternate\<close>: one poll of the selection of two sources over a common state, and the wait for it. The
  preference changes only when an input is delivered.
\<close>

definition alternate_poll ::
  "bool \<Rightarrow> ('st \<Rightarrow> 'l poll \<times> 'st) \<Rightarrow> ('st \<Rightarrow> 'r poll \<times> 'st) \<Rightarrow> 'st \<Rightarrow>
     ('l + 'r) poll \<times> bool \<times> 'st" where
  "alternate_poll prefer_left left right st =
     (let (l, st) = (if prefer_left then left st else (Poll_Pending, st))
      in case l of
           Poll_Ready value \<Rightarrow> (Poll_Ready (Inl value), False, st)
         | Poll_Pending \<Rightarrow>
             (case right st of
                (Poll_Ready value, st) \<Rightarrow> (Poll_Ready (Inr value), True, st)
              | (Poll_Pending, st) \<Rightarrow>
                  (case if \<not> prefer_left then left st else (Poll_Pending, st) of
                     (Poll_Ready value, st) \<Rightarrow> (Poll_Ready (Inl value), False, st)
                   | (Poll_Pending, st) \<Rightarrow> (Poll_Pending, prefer_left, st))))"

fun alternate ::
  "bool \<Rightarrow> (('st \<Rightarrow> 'l poll \<times> 'st) \<times> ('st \<Rightarrow> 'r poll \<times> 'st)) list \<Rightarrow> 'st \<Rightarrow>
     ('l + 'r) option \<times> bool \<times> 'st" where
  "alternate prefer_left [] st = (None, prefer_left, st)"
| "alternate prefer_left ((left, right) # polls) st =
     (case alternate_poll prefer_left left right st of
        (Poll_Ready value, prefer_left, st) \<Rightarrow> (Some value, prefer_left, st)
      | (Poll_Pending, prefer_left, st) \<Rightarrow> alternate prefer_left polls st)"

lemma alternate_left_only:
  "(\<forall>(left, right) \<in> set polls. right = (\<lambda>st. (Poll_Pending, st))) \<Longrightarrow>
     fst (alternate prefer_left polls st) = None \<or> (\<exists>value. fst (alternate prefer_left polls st) = Some (Inl value))"
  by (induction polls arbitrary: st prefer_left)
    (auto simp: alternate_poll_def Let_def split: poll.splits prod.splits if_splits)

end
