(* ===== verification/Hsms_Runtime.thy ===== *)
theory Hsms_Runtime
  imports Hsms_Tasks Hsms_Driver_Writer
begin

section \<open>The runtime of one connected generation\<close>

text \<open>
  \<open>src/hsms/generation/runtime.rs\<close>: the owner of driver and I/O tasks, which turns what the tasks,
  the clock and the endpoint do into turns of the driver, one per round, and carries a graceful
  shutdown to its end.

  Every function takes the clock readings it makes. A \<open>MonoTime\<close> is the time since \<open>gr_epoch\<close>;
  like \<open>Instant::elapsed\<close>, the difference is 0 for an earlier instant. The closer of the driver is
  the cancellation latch of the tasks, set when the driver closes the transport. A report that has
  been processed is dropped, which gives the capacity it was charged back to the Writer.
\<close>

subsection \<open>State\<close>

datatype round_input =
    Round_Shutdown
  | Round_Io "io_event option"
  | Round_Timer
  | Round_Command

record shutdown_drain =
  dd_reason :: close_reason
  dd_drain_deadline :: instant
  dd_shutdown_deadline :: instant
  dd_finalizing :: bool

datatype 'c runtime_completion = Application 'c | Internal

fun runtime_complete :: "'c runtime_completion \<Rightarrow> driver_command_result \<Rightarrow> ('c \<times> driver_command_result) list" where
  "runtime_complete (Application completion) result = [(completion, result)]"
| "runtime_complete Internal result = []"

record session_exit =
  se_generation :: connection_generation
  se_reason :: close_reason
  se_cleanup :: cleanup_result

record ('s, 'q, 'c) generation_runtime =
  gr_generation :: connection_generation
  gr_epoch :: instant
  gr_driver :: "(('s, 'q) bounded_writer, 'c runtime_completion) session_driver"
  gr_io :: io_tasks
  gr_prefer_command :: bool
  gr_policy :: runtime_policy
  gr_shutdown :: "shutdown_drain option"

definition mono_now :: "('s, 'q, 'c) generation_runtime \<Rightarrow> instant \<Rightarrow> mono_time" where
  "mono_now r now = now - gr_epoch r"

text \<open>One call on the driver, with the latch its closer sets.\<close>

definition drive ::
  "((('s, 'q) bounded_writer, 'c runtime_completion) session_driver \<Rightarrow>
     (('s, 'q) bounded_writer, 'c runtime_completion) session_driver) \<Rightarrow>
   ('s, 'q, 'c) generation_runtime \<Rightarrow> ('s, 'q, 'c) generation_runtime" where
  "drive f r =
     (let d = f (gr_driver r)
      in r\<lparr>gr_driver := d,
           gr_io := (if sd_transport_closed d then (gr_io r)\<lparr>it_cancellation := True\<rparr> else gr_io r)\<rparr>)"

subsection \<open>Construction\<close>

definition from_transport ::
  "('s, 'q) tokio \<Rightarrow> (duration \<Rightarrow> bool) \<Rightarrow> connection_generation \<Rightarrow> nat \<Rightarrow> 'addr endpoint_config \<Rightarrow>
     instant \<Rightarrow> io_tasks \<Rightarrow> ('s, 'q) bounded_writer \<Rightarrow>
     (('s, 'q, 'c) generation_runtime, config_error) result" where
  "from_transport T clock_fits generation owner config epoch io writer =
     bind_res (driver_from_config clock_fits generation owner config writer) (\<lambda>driver.
       let W = bounded_ingress T;
           driver = snd (driver_on_connected W 0 driver);
           driver =
             (if ec_mode config = Active \<and> rp_auto_select (ec_runtime config)
              then
                case try_accept_control Intent_Select Internal driver of
                  (Inl _, driver) \<Rightarrow> driver_on_shutdown W RuntimeInvariant None 0 driver
                | (Inr _, driver) \<Rightarrow> driver
              else driver)
       in Ok (drive (\<lambda>_. driver)
            \<lparr>gr_generation = generation, gr_epoch = epoch, gr_driver = driver, gr_io = io,
             gr_prefer_command = False, gr_policy = ec_runtime config, gr_shutdown = None\<rparr>))"

text \<open>
  \<open>from_stream\<close>: the tasks are launched on the connected stream, which builds the reader and the
  Writer; the reader itself belongs to its task.
\<close>

definition from_stream ::
  "('s, 'q) tokio \<Rightarrow> (duration \<Rightarrow> bool) \<Rightarrow> connection_generation \<Rightarrow> nat \<Rightarrow> 'addr endpoint_config \<Rightarrow>
     instant \<Rightarrow> (('s, 'q, 'c) generation_runtime, config_error) result" where
  "from_stream T clock_fits generation owner config epoch =
     bind_res (endpoint_config_validate clock_fits config) (\<lambda>_.
     bind_res (reader_worker_from_config T clock_fits config epoch) (\<lambda>_.
     bind_res (bounded_writer_from_config T clock_fits owner config epoch) (\<lambda>writer.
       from_transport T clock_fits generation owner config epoch launched writer)))"

definition is_draining :: "('s, 'q, 'c) generation_runtime \<Rightarrow> bool" where
  "is_draining r \<longleftrightarrow> gr_shutdown r \<noteq> None \<or> sd_closing (gr_driver r) \<noteq> None"

subsection \<open>Graceful shutdown\<close>

definition begin_graceful_close ::
  "('s, 'q) tokio \<Rightarrow> close_reason \<Rightarrow> instant \<Rightarrow> ('s, 'q, 'c) generation_runtime \<Rightarrow>
     ('s, 'q, 'c) generation_runtime" where
  "begin_graceful_close T reason now r =
     (if is_draining r then r
      else
        let r = drive begin_shutdown_drain r in
        case (instant_checked_add T now (rp_drain (gr_policy r)),
              instant_checked_add T now (rp_shutdown (gr_policy r))) of
          (Some drain_deadline, Some shutdown_deadline) \<Rightarrow>
            r\<lparr>gr_shutdown := Some
                \<lparr>dd_reason = reason, dd_drain_deadline = min drain_deadline shutdown_deadline,
                 dd_shutdown_deadline = shutdown_deadline, dd_finalizing = False\<rparr>\<rparr>
        | _ \<Rightarrow>
            drive (driver_on_shutdown (bounded_ingress T) RuntimeInvariant None (mono_now r now)) r)"

definition advance_shutdown ::
  "('s, 'q) tokio \<Rightarrow> instant \<Rightarrow> ('s, 'q, 'c) generation_runtime \<Rightarrow> ('s, 'q, 'c) generation_runtime"
where
  "advance_shutdown T now r =
     (case gr_shutdown r of
        None \<Rightarrow> r
      | Some drain \<Rightarrow>
          if dd_shutdown_deadline drain \<le> now
          then drive (driver_on_shutdown (bounded_ingress T) (dd_reason drain) None (mono_now r now)) r
          else if \<not> dd_finalizing drain \<and>
            (dd_drain_deadline drain \<le> now \<or> shutdown_drain_ready (gr_driver r))
          then drive (driver_finish_shutdown_drain (bounded_ingress T) (dd_reason drain) (mono_now r now))
                 (r\<lparr>gr_shutdown := Some (drain\<lparr>dd_finalizing := True\<rparr>)\<rparr>)
          else r)"

subsection \<open>One round\<close>

definition drop_report ::
  "('s, 'q) tokio \<Rightarrow> writer_report \<Rightarrow> (('s, 'q) bounded_writer, 'c) session_driver \<Rightarrow>
     (('s, 'q) bounded_writer, 'c) session_driver" where
  "drop_report T report d = d\<lparr>sd_writer := drop_charge T (wr_charge report) (sd_writer d)\<rparr>"

definition apply_write_report ::
  "('s, 'q) tokio \<Rightarrow> writer_report \<Rightarrow> mono_time \<Rightarrow> (('s, 'q) bounded_writer, 'c) session_driver \<Rightarrow>
     (('s, 'q) bounded_writer, 'c) session_driver" where
  "apply_write_report T report now d =
     drop_report T report
       (if \<not> has_admitted_write (wr_write_id report) d
        then driver_on_shutdown (bounded_ingress T) RuntimeInvariant None now d
        else driver_on_write_outcome_at (bounded_ingress T) (wr_write_id report) (wr_outcome report)
               (wr_occurred_at report) now d)"

fun reader_stop_reason :: "((unit, read_failure) result, join_error) result \<Rightarrow> close_reason" where
  "reader_stop_reason (Inl _) = RuntimeInvariant"
| "reader_stop_reason (Inr (Inl DeadlineOverflow)) = RuntimeInvariant"
| "reader_stop_reason (Inr (Inl IntercharacterTimeout)) = CommunicationsTimeout T8"
| "reader_stop_reason (Inr (Inl (Framing _))) = ProtocolViolation"
| "reader_stop_reason (Inr _) = TransportLost"

fun apply_io ::
  "('s, 'q) tokio \<Rightarrow> io_event option \<Rightarrow> mono_time \<Rightarrow> (('s, 'q) bounded_writer, 'c) session_driver \<Rightarrow>
     (('s, 'q) bounded_writer, 'c) session_driver" where
  "apply_io T (Some (Io_Read report)) now d =
     (if rd_occurred_at (rr_frame report) > now
      then driver_on_shutdown (bounded_ingress T) RuntimeInvariant None now d
      else snd (on_decode_step_with_header (bounded_ingress T) (rd_decoded (rr_frame report))
                  (Some (rd_header (rr_frame report))) now d))"
| "apply_io T (Some (Io_Write report)) now d = apply_write_report T report now d"
| "apply_io T (Some (Io_ReaderStopped result)) now d =
     driver_on_shutdown (bounded_ingress T) (reader_stop_reason result) None now d"
| "apply_io T (Some (Io_WriterStopped result)) now d =
     on_writer_stopped (bounded_ingress T) now
       (driver_on_shutdown (bounded_ingress T)
          (case result of Inl _ \<Rightarrow> RuntimeInvariant | Inr _ \<Rightarrow> TransportLost) None now d)"
| "apply_io T None now d = driver_on_shutdown (bounded_ingress T) RuntimeInvariant None now d"

text \<open>\<open>capacity\<close> is the sample of the downstream queues, \<open>later\<close> the second clock reading of a timer round.\<close>

definition apply_round ::
  "('s, 'q) tokio \<Rightarrow> round_input \<Rightarrow> (usize \<times> usize) option \<Rightarrow> instant \<Rightarrow> instant \<Rightarrow>
     ('s, 'q, 'c) generation_runtime \<Rightarrow> bool \<times> ('s, 'q, 'c) generation_runtime" where
  "apply_round T input capacity now later r =
     (let W = bounded_ingress T;
          r = (case capacity of
                 None \<Rightarrow> r
               | Some (primaries, errors) \<Rightarrow> drive (set_delivery_capacity primaries errors) r);
          r = (case input of
                 Round_Shutdown \<Rightarrow> advance_shutdown T now r
               | Round_Io event \<Rightarrow>
                   drive (apply_io T event (mono_now r now)) (r\<lparr>gr_prefer_command := True\<rparr>)
               | Round_Timer \<Rightarrow>
                   advance_shutdown T later (drive (\<lambda>d. snd (driver_advance_time W (mono_now r now) d)) r)
               | Round_Command \<Rightarrow>
                   drive (\<lambda>d. snd (drive_next_command W (mono_now r now) d)) (r\<lparr>gr_prefer_command := False\<rparr>))
      in (\<not> sd_transport_closed (gr_driver r), r))"

subsection \<open>The choice of a round\<close>

definition min_deadline :: "instant option \<Rightarrow> instant option \<Rightarrow> instant option" where
  "min_deadline a b =
     (case (a, b) of (Some x, Some y) \<Rightarrow> Some (min x y) | (None, _) \<Rightarrow> b | (_, None) \<Rightarrow> a)"

definition round_deadline :: "('s, 'q) tokio \<Rightarrow> ('s, 'q, 'c) generation_runtime \<Rightarrow> instant option" where
  "round_deadline T r =
     min_deadline
       (case next_deadline (sd_core (gr_driver r)) of
          None \<Rightarrow> None | Some time \<Rightarrow> instant_checked_add T (gr_epoch r) time)
       (map_option (\<lambda>drain. if dd_finalizing drain then dd_shutdown_deadline drain
                            else dd_drain_deadline drain) (gr_shutdown r))"

text \<open>One poll of the future that \<open>step_with_delivery_capacity\<close> awaits.\<close>

definition poll_round ::
  "instant option \<Rightarrow> instant \<Rightarrow> ('s, 'q, 'c) generation_runtime \<Rightarrow>
     round_input poll \<times> ('s, 'q, 'c) generation_runtime" where
  "poll_round deadline now r =
     (case poll_terminal (gr_io r) of
        (Some event, io) \<Rightarrow> (Poll_Ready (Round_Io (Some event)), r\<lparr>gr_io := io\<rparr>)
      | (None, io) \<Rightarrow>
          let r = r\<lparr>gr_io := io\<rparr>;
              command_ready = (sd_accepted_commands (gr_driver r) \<noteq> [])
          in if (case deadline of None \<Rightarrow> False | Some deadline \<Rightarrow> deadline \<le> now)
             then (Poll_Ready Round_Timer, r)
             else if (case gr_shutdown r of None \<Rightarrow> False | Some drain \<Rightarrow> \<not> dd_finalizing drain) \<and>
               shutdown_drain_ready (gr_driver r)
             then (Poll_Ready Round_Shutdown, r)
             else if gr_prefer_command r \<and> command_ready then (Poll_Ready Round_Command, r)
             else
               case poll_next (gr_io r) of
                 (Poll_Ready event, io) \<Rightarrow> (Poll_Ready (Round_Io event), r\<lparr>gr_io := io\<rparr>)
               | (Poll_Pending, io) \<Rightarrow>
                   (if command_ready then Poll_Ready Round_Command else Poll_Pending, r\<lparr>gr_io := io\<rparr>))"

text \<open>
  The wait: each poll comes after what the tasks did meanwhile, at its own time. \<open>None\<close> is that the
  wait was cancelled, or still goes on, after the last of the polls; what was prefetched stays.
\<close>

fun await_round ::
  "instant option \<Rightarrow> (tasks_env list \<times> instant) list \<Rightarrow> ('s, 'q, 'c) generation_runtime \<Rightarrow>
     (round_input \<times> instant) option \<times> ('s, 'q, 'c) generation_runtime" where
  "await_round deadline [] r = (None, r)"
| "await_round deadline ((envs, now) # polls) r =
     (case poll_round deadline now (r\<lparr>gr_io := fold tasks_env_step envs (gr_io r)\<rparr>) of
        (Poll_Ready input, r) \<Rightarrow> (Some (input, now), r)
      | (Poll_Pending, r) \<Rightarrow> await_round deadline polls r)"

definition step_with_delivery_capacity ::
  "('s, 'q) tokio \<Rightarrow> (usize \<times> usize) option \<Rightarrow> (tasks_env list \<times> instant) list \<Rightarrow> instant \<Rightarrow>
     ('s, 'q, 'c) generation_runtime \<Rightarrow> bool option \<times> ('s, 'q, 'c) generation_runtime" where
  "step_with_delivery_capacity T capacity polls later r =
     (if sd_transport_closed (gr_driver r) then (Some False, r)
      else
        case await_round (round_deadline T r) polls r of
          (None, r) \<Rightarrow> (None, r)
        | (Some (input, now), r) \<Rightarrow>
            (case apply_round T input capacity now later r of (going, r) \<Rightarrow> (Some going, r)))"

definition process_ready_priority ::
  "('s, 'q) tokio \<Rightarrow> instant \<Rightarrow> instant \<Rightarrow> ('s, 'q, 'c) generation_runtime \<Rightarrow>
     ('s, 'q, 'c) generation_runtime" where
  "process_ready_priority T now later r =
     (if sd_transport_closed (gr_driver r) then r
      else
        let (terminal, io) = poll_terminal (gr_io r);
            r = r\<lparr>gr_io := io\<rparr>;
            r = (case terminal of
                   None \<Rightarrow> r
                 | Some event \<Rightarrow> snd (apply_round T (Round_Io (Some event)) None now now r))
        in if sd_transport_closed (gr_driver r) then r
           else snd (apply_round T Round_Timer None now later r))"

subsection \<open>Closing\<close>

definition force_close ::
  "('s, 'q) tokio \<Rightarrow> close_reason \<Rightarrow> instant \<Rightarrow> ('s, 'q, 'c) generation_runtime \<Rightarrow>
     ('s, 'q, 'c) generation_runtime" where
  "force_close T reason now r =
     drive (driver_on_shutdown (bounded_ingress T) reason None (mono_now r now)) r"

text \<open>The \<open>settle\<close> callback, at the time of each report.\<close>

fun settle_reports ::
  "('s, 'q) tokio \<Rightarrow> (nat \<Rightarrow> instant) \<Rightarrow> writer_report list \<Rightarrow> ('s, 'q, 'c) generation_runtime \<Rightarrow>
     ('s, 'q, 'c) generation_runtime" where
  "settle_reports T clock [] r = r"
| "settle_reports T clock (report # reports) r =
     settle_reports T (\<lambda>n. clock (Suc n)) reports
       (drive (apply_write_report T report (mono_now r (clock 0))) r)"

definition finish_cleanup ::
  "('s, 'q) tokio \<Rightarrow> (nat \<Rightarrow> instant) \<Rightarrow> cleanup_result \<times> writer_report list \<times> io_tasks \<Rightarrow> instant \<Rightarrow>
     ('s, 'q, 'c) generation_runtime \<Rightarrow> cleanup_result \<times> ('s, 'q, 'c) generation_runtime" where
  "finish_cleanup T clock outcome later r =
     (case outcome of (result, reports, io) \<Rightarrow>
        let r = (settle_reports T clock reports r)\<lparr>gr_io := io\<rparr>;
            r = (if writer_joined (gr_io r)
                 then drive (on_writer_stopped (bounded_ingress T) (mono_now r later)) r else r)
        in (result, r))"

text \<open>\<open>None\<close> is that the cleanup still waits after the last of its rounds.\<close>

definition close ::
  "('s, 'q) tokio \<Rightarrow> close_reason \<Rightarrow> instant \<Rightarrow> (tasks_env list \<times> bool) list \<Rightarrow> (nat \<Rightarrow> instant) \<Rightarrow>
     instant \<Rightarrow> ('s, 'q, 'c) generation_runtime \<Rightarrow> (session_exit \<times> ('s, 'q, 'c) generation_runtime) option" where
  "close T reason now rounds clock later r =
     (let r = force_close T reason now r
      in map_option (\<lambda>outcome.
           let (result, r) = finish_cleanup T clock outcome later r
           in (\<lparr>se_generation = gr_generation r,
                se_reason = (case sd_closing (gr_driver r) of
                               None \<Rightarrow> reason | Some closing \<Rightarrow> cl_reason closing),
                se_cleanup = result\<rparr>, r))
           (cleanup rounds (gr_io r)))"

definition recover_cleanup ::
  "('s, 'q) tokio \<Rightarrow> instant \<Rightarrow> (tasks_env list \<times> bool) list \<Rightarrow> (nat \<Rightarrow> instant) \<Rightarrow>
     instant \<Rightarrow> ('s, 'q, 'c) generation_runtime \<Rightarrow> (session_exit \<times> ('s, 'q, 'c) generation_runtime) option" where
  "recover_cleanup T now rounds clock later r =
     (let reason = (case sd_closing (gr_driver r) of
                      None \<Rightarrow> RuntimeInvariant | Some closing \<Rightarrow> cl_reason closing);
          r = force_close T reason now r
      in map_option (\<lambda>outcome.
           let (result, r) = finish_cleanup T clock outcome later r
           in (\<lparr>se_generation = gr_generation r, se_reason = reason, se_cleanup = result\<rparr>, r))
           (recover rounds (gr_io r)))"

text \<open>\<open>finish\<close>: the deadline of the cleanup, and the reason it closes with.\<close>

definition finish_deadline ::
  "('s, 'q) tokio \<Rightarrow> instant \<Rightarrow> ('s, 'q, 'c) generation_runtime \<Rightarrow> instant" where
  "finish_deadline T now r =
     (let deadline = (case instant_checked_add T now (rp_cleanup (gr_policy r)) of
                        None \<Rightarrow> now | Some deadline \<Rightarrow> deadline)
      in case gr_shutdown r of
           None \<Rightarrow> deadline | Some drain \<Rightarrow> min deadline (dd_shutdown_deadline drain))"

definition finish_reason :: "('s, 'q, 'c) generation_runtime \<Rightarrow> close_reason" where
  "finish_reason r =
     (case sd_closing (gr_driver r) of
        Some closing \<Rightarrow> cl_reason closing
      | None \<Rightarrow> (case gr_shutdown r of None \<Rightarrow> RuntimeInvariant | Some drain \<Rightarrow> dd_reason drain))"

text \<open>
  The rounds of a cleanup are the readings of the clock: a round is the last one when its time has
  reached the deadline.
\<close>

definition finish ::
  "('s, 'q) tokio \<Rightarrow> instant \<Rightarrow> (tasks_env list \<times> instant) list \<Rightarrow> (nat \<Rightarrow> instant) \<Rightarrow>
     instant \<Rightarrow> ('s, 'q, 'c) generation_runtime \<Rightarrow> (session_exit \<times> ('s, 'q, 'c) generation_runtime) option" where
  "finish T now polls clock later r =
     close T (finish_reason r) now
       (map (\<lambda>(envs, t). (envs, finish_deadline T now r \<le> t)) polls) clock later r"

end
