(* ===== verification/Hsms_Driver_Time.thy ===== *)
theory Hsms_Driver_Time
  imports Hsms_Driver_Safety Hsms_Time
begin

section \<open>The driver's clock\<close>

text \<open>
  A driver presents every input to its core at the time of its own turn, so a core that is not
  ahead of \<open>t\<close> is not ahead of \<open>t\<close> after a turn at a time up to \<open>t\<close>. With this the contract of command
  completion needs nothing of the driver's state: only that the readings of the clock do not go back.
\<close>

fun driver_input_time :: "('w, 'c) driver_input \<Rightarrow> mono_time" where
  "driver_input_time (D_Connected now) = now"
| "driver_input_time (D_Drive now) = now"
| "driver_input_time (D_Message _ now) = now"
| "driver_input_time (D_Decode _ _ now) = now"
| "driver_input_time (D_WriteOutcome _ _ _ now) = now"
| "driver_input_time (D_FinishDrain _ now) = now"
| "driver_input_time (D_Shutdown _ _ now) = now"
| "driver_input_time (D_AdvanceTime now) = now"
| "driver_input_time (D_WriterStopped now) = now"
| "driver_input_time _ = 0"

lemma in_order_step:
  "sc_last_now c' \<in> {sc_last_now c, Some now} \<Longrightarrow> in_order t c \<Longrightarrow> now \<le> t \<Longrightarrow> in_order t c'"
  by (auto simp: in_order_def)

lemmas core_in_order = inputs_last_now [THEN in_order_step]

lemma notice_in_order [simp]: "in_order t (c\<lparr>sc_notice := n\<rparr>) \<longleftrightarrow> in_order t c"
  by (simp add: in_order_def)

lemma settle_in_order:
  assumes "in_order t core" "now \<le> t"
  shows "in_order t (sd_core (settle_batch W now (apply_core W core permit d)))"
proof -
  obtain r d1 where a: "apply_core W core permit d = (r, d1)" by fastforce
  then have c: "sd_core d1 = core" by (rule apply_core_core)
  show ?thesis
  proof (cases r)
    case (Inl failure)
    obtain reason f where "failure_cause failure = (reason, f)" by fastforce
    moreover have "sd_core (shutdown_after_driver_failure W reason f now d1) =
        on_shutdown reason f now core"
      by (auto simp: shutdown_after_driver_failure_def c split: prod.split sum.split dest!: apply_core_core)
    ultimately show ?thesis
      using a Inl assms by (simp add: settle_batch_def handle_action_failure_def
          handle_action_failure_with_reason_def core_in_order)
  qed (use a c assms in \<open>simp add: settle_batch_def\<close>)
qed

lemma batch_in_order:
  assumes "in_order t core" "now \<le> t"
  shows "in_order t (sd_core (apply_actions_without_finishing_close W core now d))"
    "in_order t (sd_core (apply_actions W core now d))"
    "in_order t (sd_core (apply_actions_with_data_permit W core permit now d))"
  using settle_in_order [OF assms] by (simp_all add: apply_actions_without_finishing_close_def
      apply_actions_def apply_actions_with_data_permit_def)

lemma shutdown_in_order:
  assumes "in_order t (sd_core d)" "now \<le> t"
  shows "in_order t (sd_core (driver_on_shutdown W reason failed now d))"
    "in_order t (sd_core (driver_fail_runtime_invariant W now d))"
    "in_order t (sd_core (shutdown_after_driver_failure W reason failed now d))"
  using assms by (auto simp: driver_on_shutdown_def driver_fail_runtime_invariant_def batch_in_order
      core_in_order shutdown_after_driver_failure_def split: prod.split sum.split dest!: apply_core_core)

lemma deadlines_in_order:
  "in_order t (sd_core d) \<Longrightarrow> now \<le> t \<Longrightarrow> in_order t (sd_core (process_due_deadlines W now d))"
  by (simp add: process_due_deadlines_def batch_in_order core_in_order)

lemma complete_endpoint_core [simp]: "sd_core (complete_endpoint c r d) = sd_core d"
  by (simp add: complete_endpoint_def effect_def)

lemma present_in_order:
  assumes "in_order t (sd_core d)" "now \<le> t"
  shows "in_order t (sd_core (present_command W accepted permit now d))"
  using assms by (auto simp: present_command_def Let_def allocate_command_id_def present_to_core_def
      intro!: shutdown_in_order batch_in_order core_in_order
      split: option.split accepted_command_kind.split)

lemma drive_in_order:
  assumes "in_order t (sd_core d)" "now \<le> t"
  shows "in_order t (sd_core (drive_accepted W accepted now d))"
  using assms by (auto simp: drive_accepted_def Let_def
      intro!: shutdown_in_order present_in_order split: sum.split prod.split)

lemma dequeue_core: "dequeue d = Some (a, d') \<Longrightarrow> sd_core d' = sd_core d"
  by (auto simp: dequeue_def split: list.splits)

lemma finish_drain_in_order:
  assumes "in_order t (sd_core d)" "now \<le> t"
  shows "in_order t (sd_core (driver_finish_shutdown_drain W reason now d))"
proof -
  let ?c = "finish_shutdown_drain reason now (sd_core d)"
  obtain r d1 where a: "apply_core W ?c None (d\<lparr>sd_shutdown_draining := True\<rparr>) = (r, d1)" by fastforce
  then have "in_order t (sd_core d1)" using assms by (auto simp: core_in_order dest!: apply_core_core)
  with a assms(2) show ?thesis
    by (auto simp: driver_finish_shutdown_drain_def Let_def handle_action_failure_with_reason_def
        intro!: shutdown_in_order split: sum.split prod.split)
qed

lemma stopped_in_order:
  assumes "in_order t (sd_core d)" "now \<le> t"
  shows "in_order t (sd_core (on_writer_stopped W now d))"
  using assms by (auto simp: on_writer_stopped_def Let_def drain_keeps
      intro!: batch_in_order core_in_order shutdown_in_order split: option.split)

lemma decode_in_order:
  assumes "in_order t (sd_core d)" "now \<le> t"
  shows "in_order t (sd_core (snd (driver_on_message W m now d)))"
    "in_order t (sd_core (snd (on_decode_step_with_header W step header now d)))"
proof -
  have e: "sd_core (effect f d) = sd_core d" for f d by (simp add: effect_def)
  show m: "in_order t (sd_core (snd (driver_on_message W m now d)))" for m
    using deadlines_in_order [OF assms, of W] assms(2)
    by (auto simp: driver_on_message_def Let_def e take_notice_def intro!: batch_in_order core_in_order split: option.split prod.split)
  have r: "in_order t (sd_core (snd (report_violation W v report now d)))" if "in_order t (sd_core d)" for v report d
    using that assms(2) by (auto simp: report_violation_def Let_def
        intro!: shutdown_in_order batch_in_order core_in_order)
  show "in_order t (sd_core (snd (on_decode_step_with_header W step header now d)))"
    using deadlines_in_order [OF assms, of W] assms(2) m
    by (auto simp: on_decode_step_with_header_def Let_def intro!: r shutdown_in_order
        split: codec_step.split)
qed

lemma outcome_in_order:
  assumes "in_order t (sd_core d)" "now \<le> t"
  shows "in_order t (sd_core (driver_on_write_outcome_at W w outcome occurred_at now d))"
proof -
  have s: "sd_core (satisfy_close_barrier w d) = sd_core d" for w d
    by (simp add: satisfy_close_barrier_def split: option.split)
  show ?thesis
    using deadlines_in_order [OF assms, of W] assms
    by (auto simp: driver_on_write_outcome_at_def Let_def s intro!: batch_in_order core_in_order)
qed

lemma driver_turn_in_order:
  assumes "in_order t (sd_core d)" "driver_input_time i \<le> t"
  shows "in_order t (sd_core (snd (driver_turn W i d)))"
proof (cases "accepting i")
  case True
  obtain tags d' where "driver_turn W i d = (tags, d')" by fastforce
  with accepting_turn [OF True this] assms(1) show ?thesis by (auto simp: joins_queue_def enqueue_def)
next
  case False
  with assms show ?thesis
    by (cases i) (auto simp: driver_on_connected_def drive_next_command_def driver_advance_time_def Let_def
        set_delivery_capacity_def take_inbound_def take_protocol_error_def begin_shutdown_drain_def
        decode_in_order outcome_in_order finish_drain_in_order shutdown_in_order stopped_in_order
        dest!: dequeue_core intro!: batch_in_order core_in_order drive_in_order deadlines_in_order
        split: option.split list.split)
qed

lemma driver_run_in_order:
  "in_order t (sd_core d) \<Longrightarrow> \<forall>i \<in> set is. driver_input_time i \<le> t \<Longrightarrow>
     in_order t (sd_core (snd (driver_run W is d)))"
proof (induction "is" arbitrary: d)
  case (Cons i "is")
  from Cons.IH [OF driver_turn_in_order [OF Cons.prems(1), of i W]] Cons.prems(2) show ?case
    by (simp add: Let_def split_beta)
qed simp

lemma driver_new_in_order:
  "driver_from_config clock_fits g owner config w = Ok d \<Longrightarrow> in_order t (sd_core d)"
  by (auto simp: driver_from_config_def res_simps Let_def with_command_capacity_def session_core_new_def
      in_order_def)

lemma driver_settled:
  assumes "driver_from_config clock_fits g owner config w = Ok d0"
    and "driver_run W is d0 = (accepted, d1)" "\<forall>i \<in> set is. driver_input_time i \<le> now"
    and "on_writer_stopped W now d1 = d"
  shows "sd_accepted_commands d = [] \<and> sd_completions d = [] \<and> sd_transport_closed d \<and>
    settled (mset accepted) {#} (deliveries d)"
proof -
  note new = from_config_laws [OF assms(1)]
  have "known None d1" by (rule known.run_keeps [OF _ new(1) assms(2)]) (rule known_queued)
  moreover have "in_order now (sd_core d1)"
    using driver_run_in_order [OF driver_new_in_order [OF assms(1)] assms(3), of W] assms(2) by simp
  ultimately have e: "sd_accepted_commands d = []" "sd_completions d = []" "sd_transport_closed d"
    using writer_stopped_empties assms(4) by blast+
  have "owned (mset accepted) None d1" using owned_run [OF new(2) assms(2)] by simp
  then have "owned (mset accepted) None d" using owned.stopped_law assms(4) by blast
  with e show ?thesis by (simp add: owned_def)
qed

text \<open>C2: Every accepted command is answered exactly once. For every Writer and every sequence of
  driver operations, once the Writer has stopped, at a time none of them is later than, nothing is
  queued or pending, the transport is closed, and the results delivered are in one-to-one
  correspondence with the accepted completion endpoints, each result being of the class its endpoint
  was accepted for.\<close>

theorem every_command_answered_once:
  assumes "driver_from_config clock_fits g owner config w = Ok d0"
    and "driver_run W is d0 = (accepted, d1)" "\<forall>i \<in> set is. driver_input_time i \<le> now"
    and "on_writer_stopped W now d1 = d"
  shows "sd_accepted_commands d = [] \<and> sd_completions d = [] \<and> sd_transport_closed d \<and>
    settled (mset accepted) {#} (deliveries d)"
  using assms by (rule driver_settled)

lemma every_command_answered_once_witness:
  "\<exists>d1 d. driver_run closed_writer sample_inputs sample_driver =
       ([(1, Kind_Control), (2, Kind_Control)], d1) \<and>
     d = on_writer_stopped closed_writer 30 d1 \<and>
     settled {#(1, Kind_Control), (2, Kind_Control)#} {#} (deliveries d)"
proof -
  obtain d1 where r: "driver_run closed_writer sample_inputs sample_driver =
      ([(1, Kind_Control), (2, Kind_Control)], d1)" "in_order 30 (sd_core d1)"
    using sample_run_ends by blast
  have "\<forall>i \<in> set sample_inputs. driver_input_time i \<le> 30" by (simp add: sample_inputs_def)
  from every_command_answered_once [OF sample_driver_new r(1) this refl] r(1) show ?thesis by auto
qed

end
