(* ===== verification/Hsms_Runtime_Safety.thy ===== *)
theory Hsms_Runtime_Safety
  imports Hsms_Runtime Hsms_Driver_Time
begin

section \<open>Settlement and shutdown of a generation\<close>

text \<open>
  Whatever the runtime does with its driver is a sequence of the driver's own turns, with changes
  of the Writer's state in between: \<open>runs\<close>. So the driver's contract carries over to a whole
  generation, from its connection to the proof that its tasks have ended.
\<close>

definition runs ::
  "('s, 'q) tokio \<Rightarrow> mono_time \<Rightarrow> ('c \<times> completion_kind) list \<Rightarrow>
     (('s, 'q) bounded_writer, 'c) session_driver \<Rightarrow> (('s, 'q) bounded_writer, 'c) session_driver \<Rightarrow> bool"
where
  "runs T t tags d d' \<longleftrightarrow>
     (\<exists>is. driver_run (bounded_ingress T) is d = (tags, d') \<and> (\<forall>i \<in> set is. driver_input_time i \<le> t))"

lemma runs_refl [simp]: "runs T t [] d d"
  unfolding runs_def by (rule exI [of _ "[]"]) simp

lemma driver_run_append:
  "driver_run W (is @ js) d =
     (let (tags, d1) = driver_run W is d; (tags', d2) = driver_run W js d1 in (tags @ tags', d2))"
  by (induction "is" arbitrary: d) (simp_all add: Let_def split_beta)

lemma runs_trans:
  assumes "runs T t tags d d1" "runs T t tags' d1 d2"
  shows "runs T t (tags @ tags') d d2"
proof -
  obtain "is" js where r: "driver_run (bounded_ingress T) is d = (tags, d1)" "\<forall>i \<in> set is. driver_input_time i \<le> t"
    "driver_run (bounded_ingress T) js d1 = (tags', d2)" "\<forall>i \<in> set js. driver_input_time i \<le> t"
    using assms by (auto simp: runs_def)
  then show ?thesis unfolding runs_def by (intro exI [of _ "is @ js"]) (auto simp: driver_run_append)
qed

lemma runs_turn:
  assumes "driver_turn (bounded_ingress T) i d = (tags, d')" "driver_input_time i \<le> t"
  shows "runs T t tags d d'"
  using assms unfolding runs_def by (intro exI [of _ "[i]"]) simp

lemma runs_ops:
  "now \<le> t \<Longrightarrow> runs T t [] d (snd (driver_on_connected (bounded_ingress T) now d))"
  "now \<le> t \<Longrightarrow> runs T t [] d (snd (drive_next_command (bounded_ingress T) now d))"
  "now \<le> t \<Longrightarrow> runs T t [] d (snd (on_decode_step_with_header (bounded_ingress T) step header now d))"
  "now \<le> t \<Longrightarrow> runs T t [] d (driver_on_write_outcome_at (bounded_ingress T) w outcome occurred_at now d)"
  "now \<le> t \<Longrightarrow> runs T t [] d (driver_finish_shutdown_drain (bounded_ingress T) reason now d)"
  "now \<le> t \<Longrightarrow> runs T t [] d (driver_on_shutdown (bounded_ingress T) reason failed now d)"
  "now \<le> t \<Longrightarrow> runs T t [] d (snd (driver_advance_time (bounded_ingress T) now d))"
  "now \<le> t \<Longrightarrow> runs T t [] d (on_writer_stopped (bounded_ingress T) now d)"
  "runs T t [] d (set_delivery_capacity primaries errors d)"
  "runs T t [] d (begin_shutdown_drain d)"
  "runs T t [] d (d\<lparr>sd_writer := w'\<rparr>)"
  by (rule runs_turn [of _ "D_Connected now"], simp_all)
    (rule runs_turn [of _ "D_Drive now"], simp_all,
     rule runs_turn [of _ "D_Decode step header now"], simp_all,
     rule runs_turn [of _ "D_WriteOutcome w outcome occurred_at now"], simp_all,
     rule runs_turn [of _ "D_FinishDrain reason now"], simp_all,
     rule runs_turn [of _ "D_Shutdown reason failed now"], simp_all,
     rule runs_turn [of _ "D_AdvanceTime now"], simp_all,
     rule runs_turn [of _ "D_WriterStopped now"], simp_all,
     rule runs_turn [of _ "D_Capacity primaries errors"], simp_all,
     rule runs_turn [of _ "D_BeginDrain"], simp_all,
     rule runs_turn [of _ "D_WriterState w'"], simp_all)

lemmas runs_then = runs_trans [where tags = "[]" and tags' = "[]", simplified]

lemma report_runs: "now \<le> t \<Longrightarrow> runs T t [] d (apply_write_report T report now d)"
  unfolding apply_write_report_def drop_report_def
  by (rule runs_then [OF _ runs_ops(11)]) (simp add: runs_ops(4,6))

lemma io_runs: "now \<le> t \<Longrightarrow> runs T t [] d (apply_io T event now d)"
  by (induction T event now d rule: apply_io.induct)
    (auto simp: runs_ops report_runs intro: runs_then [OF runs_ops(6) runs_ops(8)])

lemma drive_simps [simp]:
  "gr_driver (drive f r) = f (gr_driver r)" "gr_epoch (drive f r) = gr_epoch r"
  "gr_shutdown (drive f r) = gr_shutdown r" "gr_policy (drive f r) = gr_policy r"
  "gr_prefer_command (drive f r) = gr_prefer_command r" "gr_generation (drive f r) = gr_generation r"
  by (simp_all add: drive_def Let_def)

lemma mono_now_le: "now \<le> t \<Longrightarrow> mono_now r now \<le> t - gr_epoch r"
  by (simp add: mono_now_def diff_le_mono)

text \<open>What an operation of the runtime does to its driver, when its readings of the clock are at most \<open>t\<close>.\<close>

definition served ::
  "('s, 'q) tokio \<Rightarrow> instant \<Rightarrow> ('s, 'q, 'c) generation_runtime \<Rightarrow> ('s, 'q, 'c) generation_runtime \<Rightarrow> bool"
where
  "served T t r r' \<longleftrightarrow> gr_generation r' = gr_generation r \<and> gr_epoch r' = gr_epoch r \<and>
     runs T (t - gr_epoch r) [] (gr_driver r) (gr_driver r')"

lemma served_refl [simp]: "served T t r r"
  by (simp add: served_def)

lemma served_trans: "served T t r r1 \<Longrightarrow> served T t r1 r2 \<Longrightarrow> served T t r r2"
  by (auto simp: served_def intro: runs_then)

lemma served_drive:
  "runs T (t - gr_epoch r) [] (gr_driver r) (f (gr_driver r)) \<Longrightarrow> served T t r (drive f r)"
  by (simp add: served_def)

lemma served_fields [simp]:
  "served T t r (r'\<lparr>gr_io := io\<rparr>) = served T t r r'"
  "served T t r (r'\<lparr>gr_shutdown := drain\<rparr>) = served T t r r'"
  "served T t r (r'\<lparr>gr_prefer_command := b\<rparr>) = served T t r r'"
  "served T t (r\<lparr>gr_io := io\<rparr>) r' = served T t r r'"
  "served T t (r\<lparr>gr_shutdown := drain\<rparr>) r' = served T t r r'"
  "served T t (r\<lparr>gr_prefer_command := b\<rparr>) r' = served T t r r'"
  by (simp_all add: served_def)

lemma mono_now_fields [simp]:
  "mono_now (r\<lparr>gr_io := io\<rparr>) = mono_now r" "mono_now (r\<lparr>gr_shutdown := drain\<rparr>) = mono_now r"
  "mono_now (r\<lparr>gr_prefer_command := b\<rparr>) = mono_now r" "mono_now (drive f r) = mono_now r"
  by (auto simp: mono_now_def)

lemma advance_served: "now \<le> t \<Longrightarrow> served T t r (advance_shutdown T now r)"
  using mono_now_le [of now t r]
  by (auto simp: advance_shutdown_def served_def runs_ops split: option.split)

lemma graceful_served: "now \<le> t \<Longrightarrow> served T t r (begin_graceful_close T reason now r)"
  using mono_now_le [of now t r]
  by (auto simp: begin_graceful_close_def Let_def served_def
      intro: runs_ops runs_then [OF runs_ops(10) runs_ops(6)] split: option.split)

lemma force_served: "now \<le> t \<Longrightarrow> served T t r (force_close T reason now r)"
  using mono_now_le [of now t r] by (simp add: force_close_def served_drive runs_ops)

lemma plain_round_served:
  assumes "now \<le> t" "later \<le> t"
  shows "served T t r (snd (apply_round T input None now later r))"
proof (cases input)
  case Round_Timer
  have "served T t r (drive (\<lambda>d. snd (driver_advance_time (bounded_ingress T) (mono_now r now) d)) r)"
    using mono_now_le [OF assms(1), of r] by (simp add: served_def runs_ops)
  from served_trans [OF this advance_served [OF assms(2)]] Round_Timer show ?thesis
    by (simp add: apply_round_def Let_def)
next
  case Round_Shutdown
  with advance_served [OF assms(1)] show ?thesis by (simp add: apply_round_def Let_def)
qed (use mono_now_le [OF assms(1), of r] assms(1) in
  \<open>simp_all add: apply_round_def Let_def served_def runs_ops io_runs\<close>)

lemma apply_round_served:
  assumes "now \<le> t" "later \<le> t"
  shows "served T t r (snd (apply_round T input capacity now later r))"
proof (cases capacity)
  case None
  with plain_round_served [OF assms] show ?thesis by simp
next
  case (Some c)
  obtain primaries errors where c: "c = (primaries, errors)" by fastforce
  have "served T t r (drive (set_delivery_capacity primaries errors) r)" by (simp add: served_def runs_ops)
  moreover have "apply_round T input capacity now later r =
      apply_round T input None now later (drive (set_delivery_capacity primaries errors) r)"
    by (simp add: apply_round_def Let_def Some c)
  ultimately show ?thesis using plain_round_served [OF assms] served_trans by metis
qed

lemma poll_round_fields:
  "poll_round deadline now r = (p, r') \<Longrightarrow> \<exists>io. r' = r\<lparr>gr_io := io\<rparr>"
  by (auto simp: poll_round_def Let_def split: prod.splits option.splits if_splits poll.splits)

lemma await_round_fields:
  "await_round deadline polls r = (p, r') \<Longrightarrow> (\<exists>io. r' = r\<lparr>gr_io := io\<rparr>) \<and>
     (case p of None \<Rightarrow> True | Some (input, now) \<Rightarrow> now \<in> snd ` set polls)"
proof (induction deadline polls r arbitrary: p r' rule: await_round.induct)
  case (1 deadline r)
  then show ?case by (auto intro: exI [of _ "gr_io r"])
next
  case (2 deadline envs now polls r)
  obtain q r1 where q: "poll_round deadline now (r\<lparr>gr_io := fold tasks_env_step envs (gr_io r)\<rparr>) = (q, r1)"
    by fastforce
  from poll_round_fields [OF this] obtain io where io: "r1 = r\<lparr>gr_io := io\<rparr>" by auto
  show ?case
  proof (cases q)
    case Poll_Pending
    with 2(1) [OF q [symmetric] Poll_Pending] 2(2) q io show ?thesis by (fastforce split: option.splits)
  next
    case (Poll_Ready input)
    with 2(2) q io show ?thesis by auto
  qed
qed

lemma step_served:
  assumes "\<forall>t' \<in> snd ` set polls. t' \<le> t" "later \<le> t"
  shows "served T t r (snd (step_with_delivery_capacity T capacity polls later r))"
proof (cases "sd_transport_closed (gr_driver r)")
  case False
  obtain p r1 where a: "await_round (round_deadline T r) polls r = (p, r1)" by fastforce
  note f = await_round_fields [OF a]
  then obtain io where io: "r1 = r\<lparr>gr_io := io\<rparr>" by blast
  show ?thesis
  proof (cases p)
    case None
    with False a io show ?thesis by (simp add: step_with_delivery_capacity_def)
  next
    case (Some q)
    obtain input now where q: "q = (input, now)" by fastforce
    with f Some assms(1) have "now \<le> t" by auto
    from apply_round_served [OF this assms(2), of T r1 input capacity] False a io Some q show ?thesis
      by (simp add: step_with_delivery_capacity_def case_prod_beta)
  qed
qed (simp add: step_with_delivery_capacity_def)

lemma priority_served:
  assumes "now \<le> t" "later \<le> t"
  shows "served T t r (process_ready_priority T now later r)"
proof (cases "sd_transport_closed (gr_driver r)")
  case False
  obtain terminal io where p: "poll_terminal (gr_io r) = (terminal, io)" by fastforce
  define r1 where "r1 = (case terminal of None \<Rightarrow> r\<lparr>gr_io := io\<rparr>
    | Some event \<Rightarrow> snd (apply_round T (Round_Io (Some event)) None now now (r\<lparr>gr_io := io\<rparr>)))"
  have s: "served T t r r1"
    using plain_round_served [OF assms(1) assms(1), of T "r\<lparr>gr_io := io\<rparr>"]
    by (auto simp: r1_def split: option.split)
  have "process_ready_priority T now later r =
      (if sd_transport_closed (gr_driver r1) then r1 else snd (apply_round T Round_Timer None now later r1))"
    using False p by (simp add: process_ready_priority_def Let_def r1_def)
  with s served_trans [OF s plain_round_served [OF assms]] show ?thesis by simp
qed (simp add: process_ready_priority_def)

lemma settle_reports_served:
  "\<forall>n. clock n \<le> t \<Longrightarrow> served T t r (settle_reports T clock reports r)"
proof (induction reports arbitrary: clock r)
  case (Cons report reports)
  have "served T t r (drive (apply_write_report T report (mono_now r (clock 0))) r)"
    using Cons.prems by (intro served_drive report_runs mono_now_le) simp
  with Cons.IH [of "\<lambda>n. clock (Suc n)"] Cons.prems show ?case by (auto intro: served_trans)
qed simp

subsection \<open>Whole generations\<close>

text \<open>
  What can happen to a running generation: a step of its own, whose wait may be cancelled, the
  priority round, a request to shut down, a command or an extraction of the endpoint, activity of
  the tasks, and a change of the Writer's state by its worker or by capacity given back.
\<close>

datatype ('w, 'c) runtime_op =
    Rt_Step "(usize \<times> usize) option" "(tasks_env list \<times> instant) list" instant
  | Rt_Priority instant instant
  | Rt_Graceful close_reason instant
  | Rt_Force close_reason instant
  | Rt_Control control_intent 'c
  | Rt_Send primary_message 'c
  | Rt_Request primary_message 'c
  | Rt_Reply reply_intent reply_token "secs_item option" 'c
  | Rt_Take
  | Rt_Take_error
  | Rt_Tasks "tasks_env list"
  | Rt_Writer 'w

fun op_times :: "('w, 'c) runtime_op \<Rightarrow> instant set" where
  "op_times (Rt_Step _ polls later) = insert later (snd ` set polls)"
| "op_times (Rt_Priority now later) = {now, later}"
| "op_times (Rt_Graceful _ now) = {now}"
| "op_times (Rt_Force _ now) = {now}"
| "op_times _ = {}"

text \<open>\<open>driver_mut\<close>: the endpoint's use of the driver between two steps.\<close>

fun endpoint_input ::
  "('w, 'c) runtime_op \<Rightarrow> ('w, 'c runtime_completion) driver_input option" where
  "endpoint_input (Rt_Control intent c) = Some (D_Control intent (Application c))"
| "endpoint_input (Rt_Send message c) = Some (D_Send message (Application c))"
| "endpoint_input (Rt_Request message c) = Some (D_Request message (Application c))"
| "endpoint_input (Rt_Reply intent token body c) = Some (D_Reply intent token body (Application c))"
| "endpoint_input Rt_Take = Some D_TakeInbound"
| "endpoint_input Rt_Take_error = Some D_TakeProtocolError"
| "endpoint_input (Rt_Writer w) = Some (D_WriterState w)"
| "endpoint_input _ = None"

fun application_tag :: "'c runtime_completion \<times> completion_kind \<Rightarrow> ('c \<times> completion_kind) list" where
  "application_tag (Application c, kind) = [(c, kind)]"
| "application_tag (Internal, kind) = []"

definition runtime_turn ::
  "('s, 'q) tokio \<Rightarrow> (('s, 'q) bounded_writer, 'c) runtime_op \<Rightarrow> ('s, 'q, 'c) generation_runtime \<Rightarrow>
     ('c \<times> completion_kind) list \<times> ('s, 'q, 'c) generation_runtime" where
  "runtime_turn T op r =
     (case op of
        Rt_Step capacity polls later \<Rightarrow> ([], snd (step_with_delivery_capacity T capacity polls later r))
      | Rt_Priority now later \<Rightarrow> ([], process_ready_priority T now later r)
      | Rt_Graceful reason now \<Rightarrow> ([], begin_graceful_close T reason now r)
      | Rt_Force reason now \<Rightarrow> ([], force_close T reason now r)
      | Rt_Tasks envs \<Rightarrow> ([], r\<lparr>gr_io := fold tasks_env_step envs (gr_io r)\<rparr>)
      | _ \<Rightarrow>
          (case endpoint_input op of
             None \<Rightarrow> ([], r)
           | Some i \<Rightarrow>
               let (tags, d) = driver_turn (bounded_ingress T) i (gr_driver r)
               in (concat (map application_tag tags), r\<lparr>gr_driver := d\<rparr>)))"

fun runtime_run ::
  "('s, 'q) tokio \<Rightarrow> (('s, 'q) bounded_writer, 'c) runtime_op list \<Rightarrow> ('s, 'q, 'c) generation_runtime \<Rightarrow>
     ('c \<times> completion_kind) list \<times> ('s, 'q, 'c) generation_runtime" where
  "runtime_run T [] r = ([], r)"
| "runtime_run T (op # ops) r =
     (let (tags, r1) = runtime_turn T op r; (rest, r2) = runtime_run T ops r1 in (tags @ rest, r2))"

lemma endpoint_input_time: "endpoint_input op = Some i \<Longrightarrow> driver_input_time i = 0"
  by (cases op) auto

lemma endpoint_tags:
  assumes "endpoint_input op = Some i" "driver_turn W i d = (tags, d')"
  shows "tags = map (apfst Application) (concat (map application_tag tags))"
  using assms by (cases op) (auto simp: accepted_tag_def split: prod.splits sum.splits)

lemma runtime_turn_served:
  assumes "runtime_turn T op r = (tags, r')" "\<forall>u \<in> op_times op. u \<le> t"
  shows "gr_generation r' = gr_generation r \<and> gr_epoch r' = gr_epoch r \<and>
    runs T (t - gr_epoch r) (map (apfst Application) tags) (gr_driver r) (gr_driver r')"
proof (cases "endpoint_input op")
  case None
  have "tags = [] \<and> served T t r r'"
    using assms None step_served [of _ t] priority_served [of _ t] graceful_served [of _ t] force_served [of _ t]
    by (cases op) (auto simp: runtime_turn_def split: prod.splits)
  then show ?thesis by (simp add: served_def)
next
  case (Some i)
  obtain tags' d where d: "driver_turn (bounded_ingress T) i (gr_driver r) = (tags', d)" by fastforce
  have "runtime_turn T op r = (concat (map application_tag tags'), r\<lparr>gr_driver := d\<rparr>)"
    using Some d by (cases op) (simp_all add: runtime_turn_def)
  with runs_turn [OF d] endpoint_input_time [OF Some] endpoint_tags [OF Some d] assms(1) show ?thesis
    by auto
qed

lemma runtime_run_served:
  assumes "runtime_run T ops r = (tags, r')" "\<forall>op \<in> set ops. \<forall>u \<in> op_times op. u \<le> t"
  shows "gr_generation r' = gr_generation r \<and> gr_epoch r' = gr_epoch r \<and>
    runs T (t - gr_epoch r) (map (apfst Application) tags) (gr_driver r) (gr_driver r')"
  using assms
proof (induction ops arbitrary: r r' tags)
  case (Cons op ops)
  obtain tags1 r1 where o: "runtime_turn T op r = (tags1, r1)" by fastforce
  obtain tags2 r2 where p: "runtime_run T ops r1 = (tags2, r2)" by fastforce
  have t: "gr_generation r1 = gr_generation r" "gr_epoch r1 = gr_epoch r" "runs T (t - gr_epoch r) (map (apfst Application) tags1) (gr_driver r) (gr_driver r1)"
    using runtime_turn_served [OF o, of t] Cons.prems(2) by auto
  from Cons.IH [OF p] Cons.prems o p t runs_trans [OF t(3)] show ?case by auto
qed simp

lemma runs_mono: "runs T t tags d d' \<Longrightarrow> t \<le> t' \<Longrightarrow> runs T t' tags d d'"
  unfolding runs_def by (meson order_trans)

lemma from_transport_runs:
  fixes T :: "('s, 'q) tokio" and r :: "('s, 'q, 'c) generation_runtime"
  assumes "from_transport T clock_fits g owner config epoch io w = Ok r"
  shows "\<exists>d0 auto. driver_from_config clock_fits g owner config w = Ok d0 \<and>
    runs T 0 auto d0 (gr_driver r) \<and> set auto \<subseteq> {(Internal, Kind_Control)} \<and> gr_epoch r = epoch \<and>
    gr_generation r = g"
proof -
  obtain d0 :: "(('s, 'q) bounded_writer, 'c runtime_completion) session_driver"
    where d0: "driver_from_config clock_fits g owner config w = Ok d0"
    using assms by (cases "driver_from_config clock_fits g owner config w") (auto simp: from_transport_def res_simps)
  let ?W = "bounded_ingress T" and ?d = "snd (driver_on_connected (bounded_ingress T) 0 d0)"
  obtain a d1 where a: "try_accept_control Intent_Select Internal ?d = (a, d1)" by fastforce
  have c: "runs T 0 [] d0 ?d" by (rule runs_ops) simp
  have t: "runs T 0 (accepted_tag a Internal Kind_Control) ?d d1"
    by (rule runs_turn [of _ "D_Control Intent_Select Internal"]) (simp_all add: a)
  have g: "gr_generation r = g" using assms d0 by (auto simp: from_transport_def Let_def)
  have e: "gr_epoch r = epoch" "gr_driver r = (if ec_mode config = Active \<and> rp_auto_select (ec_runtime config)
      then case a of Inl _ \<Rightarrow> driver_on_shutdown ?W RuntimeInvariant None 0 d1 | Inr _ \<Rightarrow> d1 else ?d)"
    using assms d0 a by (auto simp: from_transport_def Let_def split: sum.split)
  have "\<exists>auto. runs T 0 auto d0 (gr_driver r) \<and> set auto \<subseteq> {(Internal, Kind_Control)}"
  proof (cases a)
    case (Inl x)
    then have "runs T 0 [] ?d d1" using t by (simp add: accepted_tag_def)
    from runs_then [OF runs_then [OF c this] runs_ops(6) [of 0 0 T d1 RuntimeInvariant None]] c e Inl
    show ?thesis by (intro exI [of _ "[]"]) simp
  next
    case (Inr x)
    with runs_trans [OF c t] c e show ?thesis
      by (cases "ec_mode config = Active \<and> rp_auto_select (ec_runtime config)")
        (auto simp: accepted_tag_def intro: exI [of _ "[(Internal, Kind_Control)]"] exI [of _ "[]"])
  qed
  with d0 e(1) g show ?thesis by blast
qed

lemma cleanup_loop_joined:
  "cleanup_loop rounds t = Some (reports, t') \<Longrightarrow> it_poison t' = None \<Longrightarrow> it_reader t' = None \<and> it_writer t' = None"
proof (induction rounds arbitrary: t reports)
  case (Cons round rounds)
  obtain envs expired where round: "round = (envs, expired)" by fastforce
  obtain p t1 where p: "poll_next (fold tasks_env_step envs t) = (p, t1)" by fastforce
  show ?case
  proof (cases "(it_reader t = None \<and> it_writer t = None) \<or> expired \<or> p = Poll_Ready None")
    case True
    with Cons.prems round p poll_next_ended [of "fold tasks_env_step envs t" t1] show ?thesis
      by (auto simp: Let_def abort_def get_or_insert_def split: if_splits option.splits)
  next
    case False
    then have "\<exists>rest. cleanup_loop rounds t1 = Some (rest, t')"
      using Cons.prems(1) round p by (auto simp: Let_def split: poll.splits option.splits io_event.splits)
    with Cons.IH Cons.prems(2) show ?thesis by blast
  qed
qed (auto split: if_splits)

lemma clean_joined:
  "cleanup rounds t = Some (Clean, reports, t') \<Longrightarrow> writer_joined t'"
  "recover rounds t = Some (Clean, reports, t') \<Longrightarrow> writer_joined t'"
  using cleanup_loop_joined
  by (fastforce simp: cleanup_def recover_def cleanup_verdict_def writer_joined_def
      split: option.splits if_splits)+

definition application_results ::
  "('w, 'c runtime_completion) session_driver \<Rightarrow> ('c \<times> driver_command_result) list" where
  "application_results d = concat (map (\<lambda>(c, r). runtime_complete c r) (deliveries d))"

lemma application_tag_kind: "(c', kind') \<in> set (application_tag (c, kind)) \<Longrightarrow> kind' = kind"
  by (cases c) auto

lemma mset_concat_map: "mset (concat (map f xs)) = sum_mset (image_mset (\<lambda>x. mset (f x)) (mset xs))"
  by (induction xs) simp_all

lemma settled_application:
  assumes "settled (mset (B @ map (apfst Application) A)) {#} given" "\<forall>x \<in> set B. fst x = Internal"
  shows "settled (mset A) {#} (concat (map (\<lambda>(c, r). runtime_complete c r) given))"
proof -
  obtain D where D: "map (\<lambda>(c, kind, r). (c, r)) D = given" "\<forall>(c, kind, r) \<in> set D. answers kind r"
    "mset (map (\<lambda>(c, kind, r). (c, kind)) D) = mset (B @ map (apfst Application) A)"
    using assms(1) by (auto simp: settled_def)
  let ?own = "\<lambda>(c, kind, r). map (\<lambda>(c, kind). (c, kind, r)) (application_tag (c, kind))"
  let ?D = "concat (map ?own D)"
  have own: "(case x of (c, kind, r) \<Rightarrow> map (\<lambda>(c, kind, r). (c, r)) (?own x)) =
      (case x of (c, kind, r) \<Rightarrow> runtime_complete c r)" for x
    by (cases x; cases "fst x") auto
  have "map (\<lambda>(c, kind, r). (c, r)) ?D = concat (map (\<lambda>(c, kind, r). runtime_complete c r) D)"
    by (induction D) (use own in \<open>auto split: prod.splits\<close>)
  then have given: "map (\<lambda>(c, kind, r). (c, r)) ?D = concat (map (\<lambda>(c, r). runtime_complete c r) given)"
    unfolding D(1) [symmetric] map_map by (simp add: comp_def case_prod_unfold)
  have tags: "map (\<lambda>(c, kind, r). (c, kind)) ?D = concat (map application_tag (map (\<lambda>(c, kind, r). (c, kind)) D))"
    by (induction D) (auto simp: comp_def case_prod_beta)
  have b: "concat (map application_tag B) = []"
    using assms(2) by (induction B) (auto split: prod.splits)
  have "concat (map application_tag (map (apfst Application) A)) = A"
    by (induction A) auto
  then have "mset (map (\<lambda>(c, kind, r). (c, kind)) ?D) = mset A"
    unfolding tags mset_concat_map D(3) unfolding mset_concat_map [symmetric] by (simp add: b)
  moreover have "\<forall>(c, kind, r) \<in> set ?D. answers kind r"
    using D(2) application_tag_kind by (fastforce split: prod.splits)
  ultimately show ?thesis unfolding settled_def using given by (intro exI [of _ ?D]) simp
qed

text \<open>A generation all of whose readings of the clock were at most \<open>t\<close>, with what it has accepted.\<close>

definition serving ::
  "('s, 'q) tokio \<Rightarrow> 'addr endpoint_config \<Rightarrow> instant \<Rightarrow> connection_generation \<Rightarrow> ('c \<times> completion_kind) list \<Rightarrow>
     ('s, 'q, 'c) generation_runtime \<Rightarrow> bool" where
  "serving T config t g accepted r \<longleftrightarrow>
     gr_generation r = g \<and>
     (\<exists>clock_fits owner w d0 auto.
        driver_from_config clock_fits g owner config w = Ok d0 \<and>
        runs T (t - gr_epoch r) (auto @ map (apfst Application) accepted) d0 (gr_driver r) \<and>
        set auto \<subseteq> {(Internal, Kind_Control)})"

lemma finish_cleanup_served:
  assumes "finish_cleanup T clock (result, reports, io) later r = (result', r')" "\<forall>n. clock n \<le> later"
  shows "served T later r r' \<and> (writer_joined io \<longrightarrow>
    (\<exists>d. runs T (later - gr_epoch r) [] (gr_driver r) d \<and>
      gr_driver r' = on_writer_stopped (bounded_ingress T) (later - gr_epoch r) d))"
proof -
  let ?r = "settle_reports T clock reports r"
  have "served T later r ?r" using settle_reports_served assms(2) by blast
  then have s: "gr_generation ?r = gr_generation r" "gr_epoch ?r = gr_epoch r"
    "runs T (later - gr_epoch r) [] (gr_driver r) (gr_driver ?r)"
    by (simp_all add: served_def)
  have r': "r' = (if writer_joined io
      then drive (on_writer_stopped (bounded_ingress T) (later - gr_epoch r)) (?r\<lparr>gr_io := io\<rparr>)
      else ?r\<lparr>gr_io := io\<rparr>)"
    using assms(1) s(2) by (auto simp: finish_cleanup_def Let_def mono_now_def)
  show ?thesis
    using s runs_then [OF s(3) runs_ops(8) [OF order_refl]] by (auto simp: r' served_def)
qed

lemma exit_cases:
  assumes "close T reason now rounds clock later r = Some (exit, r') \<or>
      recover_cleanup T now rounds clock later r = Some (exit, r')"
    and "now \<le> later" "\<forall>n. clock n \<le> later"
  shows "served T later r r' \<and> se_generation exit = gr_generation r \<and>
    (se_cleanup exit = Clean \<longrightarrow>
      (\<exists>d. runs T (later - gr_epoch r) [] (gr_driver r) d \<and>
         gr_driver r' = on_writer_stopped (bounded_ingress T) (later - gr_epoch r) d))"
proof -
  obtain why outcome result where c: "finish_cleanup T clock outcome later (force_close T why now r) = (result, r')"
    "se_cleanup exit = result" "se_generation exit = gr_generation r'"
    "cleanup rounds (gr_io (force_close T why now r)) = Some outcome \<or>
     recover rounds (gr_io (force_close T why now r)) = Some outcome"
    using assms(1) unfolding close_def recover_cleanup_def Let_def
    by (elim disjE) (auto simp: case_prod_beta prod_eq_iff)
  obtain reports io where o: "outcome = (result, reports, io)"
    using c(1) by (cases outcome) (auto simp: finish_cleanup_def Let_def)
  let ?r = "force_close T why now r"
  have f: "served T later r ?r" using assms(2) by (rule force_served)
  then have epoch: "gr_epoch ?r = gr_epoch r" "gr_generation ?r = gr_generation r"
    "runs T (later - gr_epoch r) [] (gr_driver r) (gr_driver ?r)"
    by (simp_all add: served_def)
  note s = finish_cleanup_served [OF c(1) [unfolded o] assms(3)]
  then have "served T later r r'" using served_trans f by blast
  moreover from this have "se_generation exit = gr_generation r" using c(3) by (simp add: served_def)
  moreover have "\<exists>d. runs T (later - gr_epoch r) [] (gr_driver r) d \<and>
      gr_driver r' = on_writer_stopped (bounded_ingress T) (later - gr_epoch r) d" if "se_cleanup exit = Clean"
  proof -
    have "writer_joined io" using c(2,4) o that by (auto intro: clean_joined)
    with s obtain d where "runs T (later - gr_epoch ?r) [] (gr_driver ?r) d"
      "gr_driver r' = on_writer_stopped (bounded_ingress T) (later - gr_epoch ?r) d" by blast
    with runs_then [OF epoch(3)] epoch(1) show ?thesis by auto
  qed
  ultimately show ?thesis by blast
qed

lemma runs_after: "runs T t tags d d1 \<Longrightarrow> runs T t [] d1 d2 \<Longrightarrow> runs T t tags d d2"
  using runs_trans [of T t tags d d1 "[]" d2] by simp

lemma serving_served:
  assumes "serving T config t g accepted r" "served T t r r'"
  shows "serving T config t g accepted r'"
  using assms runs_after unfolding serving_def served_def by metis

lemma serving_mono: "serving T config t g accepted r \<Longrightarrow> t \<le> t' \<Longrightarrow> serving T config t' g accepted r"
  unfolding serving_def by (metis diff_le_mono runs_mono)

lemma from_transport_serving:
  assumes "from_transport T clock_fits g owner config epoch io w = Ok r"
  shows "serving T config t g [] r"
proof -
  obtain d0 auto where d: "driver_from_config clock_fits g owner config w = Ok d0"
    "runs T 0 auto d0 (gr_driver r)" "set auto \<subseteq> {(Internal, Kind_Control)}" "gr_generation r = g"
    using from_transport_runs [OF assms] by blast
  from runs_mono [OF d(2)] have "runs T (t - gr_epoch r) auto d0 (gr_driver r)" by simp
  then have "runs T (t - gr_epoch r) (auto @ map (apfst Application) []) d0 (gr_driver r)" by simp
  with d(1,3,4) show ?thesis unfolding serving_def by blast
qed

lemma serving_turn:
  assumes "serving T config t g accepted r" "runtime_turn T op r = (tags, r')" "\<forall>u \<in> op_times op. u \<le> t"
  shows "serving T config t g (accepted @ tags) r'"
proof -
  obtain clock_fits owner w d0 auto where d: "driver_from_config clock_fits g owner config w = Ok d0"
    "runs T (t - gr_epoch r) (auto @ map (apfst Application) accepted) d0 (gr_driver r)"
    "set auto \<subseteq> {(Internal, Kind_Control)}" "gr_generation r = g"
    using assms(1) by (auto simp: serving_def)
  from runtime_turn_served [OF assms(2,3)] runs_trans [OF d(2)] d(4)
  have "gr_generation r' = g" "runs T (t - gr_epoch r') (auto @ map (apfst Application) (accepted @ tags)) d0 (gr_driver r')"
    by auto
  with d(1,3) show ?thesis unfolding serving_def by blast
qed

lemma serving_run:
  "runtime_run T ops r = (tags, r') \<Longrightarrow> serving T config t g accepted r \<Longrightarrow>
     \<forall>op \<in> set ops. \<forall>u \<in> op_times op. u \<le> t \<Longrightarrow> serving T config t g (accepted @ tags) r'"
proof (induction ops arbitrary: r tags accepted)
  case (Cons op ops)
  obtain tags1 r1 where o: "runtime_turn T op r = (tags1, r1)" by fastforce
  obtain tags2 r2 where p: "runtime_run T ops r1 = (tags2, r2)" by fastforce
  from serving_turn [OF Cons.prems(2) o] Cons.IH [of r1 tags2 "accepted @ tags1"] Cons.prems o p
  show ?case by auto
qed simp

text \<open>What the end of a generation settles, for its owner.\<close>

lemma serving_exit:
  assumes "serving T config later g accepted r"
    and "close T reason now rounds clock later r = Some (exit, r') \<or>
      recover_cleanup T now rounds clock later r = Some (exit, r')"
    and "now \<le> later" "\<forall>n. clock n \<le> later"
  shows "se_generation exit = g \<and> serving T config later g accepted r' \<and>
    (se_cleanup exit = Clean \<longrightarrow>
       settled (mset accepted) {#} (application_results (gr_driver r')) \<and>
       sd_accepted_commands (gr_driver r') = [] \<and> sd_completions (gr_driver r') = [] \<and>
       sd_transport_closed (gr_driver r'))"
proof -
  note e = exit_cases [OF assms(2-4)]
  obtain clock_fits owner w d0 auto where d: "driver_from_config clock_fits g owner config w = Ok d0"
    "runs T (later - gr_epoch r) (auto @ map (apfst Application) accepted) d0 (gr_driver r)"
    "set auto \<subseteq> {(Internal, Kind_Control)}" "gr_generation r = g"
    using assms(1) by (auto simp: serving_def)
  let ?t = "later - gr_epoch r"
  have "settled (mset accepted) {#} (application_results (gr_driver r')) \<and>
      sd_accepted_commands (gr_driver r') = [] \<and> sd_completions (gr_driver r') = [] \<and>
      sd_transport_closed (gr_driver r')" if clean: "se_cleanup exit = Clean"
  proof -
    obtain d' where d': "runs T ?t [] (gr_driver r) d'"
      "gr_driver r' = on_writer_stopped (bounded_ingress T) ?t d'"
      using e clean by blast
    from runs_after [OF d(2) d'(1)] obtain "is" where
      "driver_run (bounded_ingress T) is d0 = (auto @ map (apfst Application) accepted, d')"
      "\<forall>i \<in> set is. driver_input_time i \<le> ?t"
      by (auto simp: runs_def)
    note end_state = driver_settled [OF d(1) this d'(2) [symmetric]]
    have "\<forall>x \<in> set auto. fst x = Internal" using d(3) by auto
    from settled_application [OF _ this] end_state show ?thesis
      unfolding application_results_def by blast
  qed
  with e d(4) serving_served [OF assms(1)] show ?thesis by blast
qed

text \<open>C3: A generation that ends cleanly leaves no one waiting. Whatever happened between connection and
  close (rounds, cancelled waits, commands of the endpoint, activity of the tasks), once \<open>close\<close> or
  \<open>recover_cleanup\<close> reports a clean cleanup the transport is closed, no command is queued or open, and
  every accepted application command has been given exactly one result of its class.\<close>

theorem clean_exit_settles:
  assumes "from_transport T clock_fits g owner config epoch io w = Ok r0"
    and "runtime_run T ops r0 = (accepted, r)"
    and "close T reason now rounds clock later r = Some (exit, r') \<or>
      recover_cleanup T now rounds clock later r = Some (exit, r')"
    and "se_cleanup exit = Clean"
    and "\<forall>op \<in> set ops. \<forall>u \<in> op_times op. u \<le> later" "now \<le> later" "\<forall>n. clock n \<le> later"
  shows "settled (mset accepted) {#} (application_results (gr_driver r')) \<and>
    sd_accepted_commands (gr_driver r') = [] \<and> sd_completions (gr_driver r') = [] \<and>
    sd_transport_closed (gr_driver r')"
proof -
  have "serving T config later g accepted r"
    using serving_run [OF assms(2) from_transport_serving [OF assms(1)] assms(5)] by simp
  from serving_exit [OF this assms(3,6,7)] assms(4) show ?thesis by blast
qed

subsection \<open>Shutdown\<close>

lemma shutdown_closes: "sd_transport_closed (driver_on_shutdown W reason failed now d)"
proof -
  let ?d = "apply_actions_without_finishing_close W (on_shutdown reason failed now (sd_core d)) now d"
  obtain cl where "sd_closing (begin_closing reason Immediate ?d) = Some cl" "cl_barrier_write_id cl = None"
    by (cases "sd_closing ?d") (auto simp: begin_closing_def)
  then show ?thesis unfolding driver_on_shutdown_def by (rule finish_close_closed)
qed

definition draining :: "close_reason \<Rightarrow> instant \<Rightarrow> ('s, 'q, 'c) generation_runtime \<Rightarrow> bool" where
  "draining reason deadline r \<longleftrightarrow>
     (\<exists>drain. gr_shutdown r = Some drain \<and> dd_reason drain = reason \<and>
        dd_shutdown_deadline drain = deadline \<and> dd_drain_deadline drain \<le> deadline)"

lemma draining_cong: "gr_shutdown r' = gr_shutdown r \<Longrightarrow> draining reason deadline r' = draining reason deadline r"
  by (simp add: draining_def)

lemma draining_drive [simp]: "draining reason deadline (drive f r) = draining reason deadline r"
  by (rule draining_cong) simp

lemma advance_draining: "draining reason deadline r \<Longrightarrow> draining reason deadline (advance_shutdown T now r)"
  by (auto simp: advance_shutdown_def draining_def)

lemma graceful_draining:
  "draining reason deadline r \<Longrightarrow> draining reason deadline (begin_graceful_close T why now r)"
  by (auto simp: begin_graceful_close_def is_draining_def draining_def)

lemma round_draining:
  assumes "draining reason deadline r"
  shows "draining reason deadline (snd (apply_round T input capacity now later r))"
proof -
  have "draining reason deadline (case capacity of None \<Rightarrow> r
      | Some (primaries, errors) \<Rightarrow> drive (set_delivery_capacity primaries errors) r)"
    using assms by (auto split: option.split)
  moreover have "draining reason deadline (r'\<lparr>gr_prefer_command := b\<rparr>) = draining reason deadline r'"
    for b and r' :: "('a, 'b, 'c) generation_runtime"
    by (rule draining_cong) simp
  ultimately show ?thesis
    by (cases input) (simp_all add: apply_round_def Let_def advance_draining)
qed

lemma step_draining:
  assumes "draining reason deadline r"
  shows "draining reason deadline (snd (step_with_delivery_capacity T capacity polls later r))"
proof (cases "sd_transport_closed (gr_driver r)")
  case False
  obtain p r1 where a: "await_round (round_deadline T r) polls r = (p, r1)" by fastforce
  then obtain io where io: "r1 = r\<lparr>gr_io := io\<rparr>" using await_round_fields by blast
  have d: "draining reason deadline r1" using assms draining_cong [of r1 r] io by simp
  show ?thesis
    using False a d round_draining [OF d]
    by (cases p) (auto simp: step_with_delivery_capacity_def case_prod_beta)
qed (simp add: step_with_delivery_capacity_def assms)

lemma priority_draining:
  assumes "draining reason deadline r"
  shows "draining reason deadline (process_ready_priority T now later r)"
proof -
  obtain terminal io where p: "poll_terminal (gr_io r) = (terminal, io)" by fastforce
  have d: "draining reason deadline (r\<lparr>gr_io := io\<rparr>)" using assms draining_cong [of "r\<lparr>gr_io := io\<rparr>" r] by simp
  note e = round_draining [OF d]
  from p assms d e round_draining [OF e] round_draining [OF d] show ?thesis
    by (cases terminal) (simp_all add: process_ready_priority_def Let_def)
qed

lemma run_draining:
  "runtime_run T ops r = (accepted, r') \<Longrightarrow> draining reason deadline r \<Longrightarrow> draining reason deadline r'"
proof (induction ops arbitrary: r accepted)
  case (Cons op ops)
  obtain tags r1 where o: "runtime_turn T op r = (tags, r1)" by fastforce
  have "draining reason deadline r1"
  proof (cases "endpoint_input op")
    case None
    have "draining reason deadline (r\<lparr>gr_io := io\<rparr>)" for io
      using Cons.prems(2) draining_cong [of "r\<lparr>gr_io := io\<rparr>" r] by simp
    with None o Cons.prems(2) step_draining priority_draining graceful_draining show ?thesis
      by (cases op) (auto simp: runtime_turn_def force_close_def)
  next
    case (Some i)
    then have "gr_shutdown r1 = gr_shutdown r"
      using o by (cases op) (auto simp: runtime_turn_def case_prod_beta)
    with Cons.prems(2) draining_cong show ?thesis by blast
  qed
  with Cons o show ?case by (auto simp: case_prod_beta prod_eq_iff)
qed simp

lemma timer_closes:
  assumes "draining reason deadline r" "deadline \<le> later"
  shows "sd_transport_closed (gr_driver (snd (apply_round T Round_Timer capacity now later r)))"
proof -
  let ?r = "case capacity of None \<Rightarrow> r | Some (primaries, errors) \<Rightarrow> drive (set_delivery_capacity primaries errors) r"
  have "draining reason deadline ?r" using assms(1) by (auto split: option.split)
  then have "draining reason deadline (drive (\<lambda>d. snd (driver_advance_time (bounded_ingress T) (mono_now ?r now) d)) ?r)"
    by simp
  then show ?thesis
    using assms(2) by (auto simp: apply_round_def Let_def advance_shutdown_def draining_def shutdown_closes)
qed

lemma round_going:
  "fst (apply_round T i capacity now later r) =
     (\<not> sd_transport_closed (gr_driver (snd (apply_round T i capacity now later r))))"
  by (simp add: apply_round_def Let_def)

lemma due_deadline:
  assumes "draining reason deadline r" "deadline \<le> now"
  shows "\<exists>d. round_deadline T r = Some d \<and> d \<le> now"
proof -
  obtain drain where "gr_shutdown r = Some drain" "dd_drain_deadline drain \<le> now" "dd_shutdown_deadline drain \<le> now"
    using assms by (auto simp: draining_def)
  then show ?thesis
    by (cases "dd_finalizing drain") (auto simp: round_deadline_def min_deadline_def min_def split: option.split)
qed

text \<open>C16: A graceful shutdown is bounded. Its reason and its deadline are those of the first request, whatever
  happens and is requested later. Once the deadline has passed, the priority round closes the
  transport, and a step does not wait: it closes the transport, unless a fact that ends a task is
  ready, which it takes first.\<close>

theorem graceful_shutdown_bounded:
  assumes "\<not> is_draining r0" "instant_checked_add T start (rp_drain (gr_policy r0)) \<noteq> None"
    and "instant_checked_add T start (rp_shutdown (gr_policy r0)) = Some deadline"
    and "runtime_run T ops (begin_graceful_close T reason start r0) = (accepted, r)"
    and "deadline \<le> now" "now \<le> later"
  shows "(\<exists>drain. gr_shutdown r = Some drain \<and> dd_reason drain = reason \<and> dd_shutdown_deadline drain = deadline) \<and>
    sd_transport_closed (gr_driver (process_ready_priority T now later r)) \<and>
    (\<exists>going r'. step_with_delivery_capacity T capacity ((envs, now) # polls) later r = (Some going, r') \<and>
       going = (\<not> sd_transport_closed (gr_driver r')) \<and>
       (going \<longrightarrow> fst (poll_terminal (fold tasks_env_step envs (gr_io r))) \<noteq> None))"
proof -
  have "draining reason deadline (begin_graceful_close T reason start r0)"
    using assms(1-3) by (auto simp: begin_graceful_close_def draining_def Let_def)
  with run_draining [OF assms(4)] have d: "draining reason deadline r" by blast
  have closed: "sd_transport_closed (gr_driver (process_ready_priority T now later r))"
  proof -
    obtain terminal io where p: "poll_terminal (gr_io r) = (terminal, io)" by fastforce
    have i: "draining reason deadline (r\<lparr>gr_io := io\<rparr>)" using d draining_cong [of "r\<lparr>gr_io := io\<rparr>" r] by simp
    have l: "deadline \<le> later" using assms(5,6) by simp
    from p timer_closes [OF i l] timer_closes [OF round_draining [OF i] l] show ?thesis
      by (cases terminal) (simp_all add: process_ready_priority_def Let_def)
  qed
  have "\<exists>going r'. step_with_delivery_capacity T capacity ((envs, now) # polls) later r = (Some going, r') \<and>
       going = (\<not> sd_transport_closed (gr_driver r')) \<and>
       (going \<longrightarrow> fst (poll_terminal (fold tasks_env_step envs (gr_io r))) \<noteq> None)"
  proof (cases "sd_transport_closed (gr_driver r)")
    case True
    then show ?thesis by (intro exI [of _ False] exI [of _ r]) (simp add: step_with_delivery_capacity_def)
  next
    case False
    let ?r = "r\<lparr>gr_io := fold tasks_env_step envs (gr_io r)\<rparr>"
    obtain terminal io where p: "poll_terminal (gr_io ?r) = (terminal, io)" by fastforce
    obtain u where u: "round_deadline T r = Some u" "u \<le> now" using due_deadline [OF d assms(5)] by blast
    show ?thesis
    proof (cases terminal)
      case None
      have i: "draining reason deadline (r\<lparr>gr_io := io\<rparr>)" using d draining_cong [of "r\<lparr>gr_io := io\<rparr>" r] by simp
      have "poll_round (Some u) now ?r = (Poll_Ready Round_Timer, r\<lparr>gr_io := io\<rparr>)"
        using p None u(2) by (simp add: poll_round_def Let_def)
      moreover have "sd_transport_closed (gr_driver (snd (apply_round T Round_Timer capacity now later (r\<lparr>gr_io := io\<rparr>))))"
        using timer_closes [OF i] assms(5,6) by simp
      moreover from this have "\<not> fst (apply_round T Round_Timer capacity now later (r\<lparr>gr_io := io\<rparr>))"
        by (simp add: round_going)
      ultimately show ?thesis
        using False u(1)
        by (intro exI [of _ False] exI [of _ "snd (apply_round T Round_Timer capacity now later (r\<lparr>gr_io := io\<rparr>))"])
          (simp add: step_with_delivery_capacity_def case_prod_beta)
    next
      case (Some event)
      then have "poll_round (Some u) now ?r = (Poll_Ready (Round_Io (Some event)), r\<lparr>gr_io := io\<rparr>)"
        using p by (simp add: poll_round_def)
      with False u(1) p Some round_going show ?thesis
        by (simp add: step_with_delivery_capacity_def case_prod_beta)
    qed
  qed
  with d closed show ?thesis by (auto simp: draining_def)
qed

abbreviation sample_endpoint :: "unit endpoint_config" where
  "sample_endpoint \<equiv> endpoint_config_new Active () (SessionId 7)"

lemma sample_generation:
  "\<exists>r. from_transport counting_tokio (\<lambda>_. True) 1 0 sample_endpoint 0 launched sample_writer =
      Ok (r :: (_, _, nat) generation_runtime) \<and>
    runtime_run counting_tokio [Rt_Control Intent_Linktest 5] r =
      ([(5, Kind_Control)], snd (runtime_run counting_tokio [Rt_Control Intent_Linktest 5] r)) \<and>
    gr_io (snd (runtime_run counting_tokio [Rt_Control Intent_Linktest 5] r)) = launched \<and>
    \<not> is_draining r \<and> gr_policy r = runtime_policy_default"
proof -
  obtain d0 :: "((nat, bool \<times> nat \<times> queued_frame list) bounded_writer, nat runtime_completion) session_driver" where
    d0: "driver_from_config (\<lambda>_. True) 1 0 sample_endpoint sample_writer = Ok d0"
    "d0 = with_command_capacity 1 0 (session_core_new (core_config_from_endpoint sample_endpoint)) sample_writer 256
      \<lparr>sd_inbound_capacity := 256, sd_protocol_error_capacity := 64,
       sd_command_byte_capacity := 64 * 1024 * 1024, sd_maximum_message_length := 16 * 1024 * 1024\<rparr>"
    unfolding driver_from_config_def endpoint_config_default_valid bind_res_simps
    by (simp add: Let_def endpoint_config_new_def limits_default_def runtime_policy_default_def)
  define d1 where "d1 = snd (driver_on_connected (bounded_ingress counting_tokio) 0 d0)"
  have d1: "sd_closing d1 = None" "\<not> sd_transport_closed d1" "\<not> sd_shutdown_draining d1"
    "sd_accepted_commands d1 = []" "sd_command_capacity d1 = 256"
    by (simp_all add: d1_def d0(2) driver_eval)
  show ?thesis
    unfolding from_transport_def d0(1) bind_res_simps Let_def d1_def [symmetric]
    by (simp add: d1 try_accept_control_def enqueue_def drive_def Let_def runtime_turn_def is_draining_def
        accepted_tag_def endpoint_config_new_def)
qed

lemma clean_sample:
  "io = launched \<or> io = launched\<lparr>it_cancellation := True\<rparr> \<Longrightarrow>
   \<exists>io'. cleanup [([Writer_ends (Ok ()), Reader_ends (Ok (Ok ()))], False), ([], False)] io = Some (Clean, [], io')"
  by (elim disjE) (simp_all add: tasks_eval)

lemma clean_exit_settles_witness:
  "\<exists>r0 r exit r'.
     from_transport counting_tokio (\<lambda>_. True) 1 0 sample_endpoint 0 launched sample_writer =
       Ok (r0 :: (_, _, nat) generation_runtime) \<and>
     runtime_run counting_tokio [Rt_Control Intent_Linktest 5] r0 = ([(5, Kind_Control)], r) \<and>
     close counting_tokio LocalStop 20 [([Writer_ends (Ok ()), Reader_ends (Ok (Ok ()))], False), ([], False)]
       (\<lambda>_. 20) 30 r = Some (exit, r') \<and>
     settled {#(5, Kind_Control)#} {#} (application_results (gr_driver r'))"
proof -
  obtain r0 r :: "(_, _, nat) generation_runtime" where
    r0: "from_transport counting_tokio (\<lambda>_. True) 1 0 sample_endpoint 0 launched sample_writer = Ok r0"
    "runtime_run counting_tokio [Rt_Control Intent_Linktest 5] r0 = ([(5, Kind_Control)], r)" "gr_io r = launched"
    using sample_generation by (metis prod.collapse snd_conv)
  have "gr_io (force_close counting_tokio LocalStop 20 r) \<in> {launched, launched\<lparr>it_cancellation := True\<rparr>}"
    using r0(3) by (simp add: force_close_def drive_def Let_def)
  then obtain io' where io': "cleanup [([Writer_ends (Ok ()), Reader_ends (Ok (Ok ()))], False), ([], False)]
      (gr_io (force_close counting_tokio LocalStop 20 r)) = Some (Clean, [], io')"
    using clean_sample by blast
  then obtain exit r' where c: "close counting_tokio LocalStop 20
      [([Writer_ends (Ok ()), Reader_ends (Ok (Ok ()))], False), ([], False)] (\<lambda>_. 20) 30 r = Some (exit, r')"
    "se_cleanup exit = Clean"
    by (simp add: close_def Let_def finish_cleanup_def case_prod_beta)
  from clean_exit_settles [OF r0(1,2) _ c(2), of LocalStop 20
      "[([Writer_ends (Ok ()), Reader_ends (Ok (Ok ()))], False), ([], False)]" "\<lambda>_. 20" 30 r'] c(1) r0(1,2)
  show ?thesis by auto
qed

lemma graceful_shutdown_bounded_witness:
  "\<exists>r0 r. from_transport counting_tokio (\<lambda>_. True) 1 0 sample_endpoint 0 launched sample_writer =
       Ok (r0 :: (_, _, nat) generation_runtime) \<and>
     runtime_run counting_tokio [Rt_Graceful LocalDisconnect 9] (begin_graceful_close counting_tokio LocalStop 5 r0) = ([], r) \<and>
     (\<exists>drain. gr_shutdown r = Some drain \<and> dd_reason drain = LocalStop) \<and>
     sd_transport_closed (gr_driver (process_ready_priority counting_tokio
       (5 + rp_shutdown runtime_policy_default) (5 + rp_shutdown runtime_policy_default) r))"
proof -
  obtain r0 :: "(_, _, nat) generation_runtime" where
    r0: "from_transport counting_tokio (\<lambda>_. True) 1 0 sample_endpoint 0 launched sample_writer = Ok r0"
    "\<not> is_draining r0" "gr_policy r0 = runtime_policy_default"
    using sample_generation by blast
  obtain tags r where r: "runtime_run counting_tokio [Rt_Graceful LocalDisconnect 9]
      (begin_graceful_close counting_tokio LocalStop 5 r0) = (tags, r)" by fastforce
  then have "tags = []" by (auto simp: runtime_turn_def)
  moreover have "instant_checked_add counting_tokio 5 (rp_drain (gr_policy r0)) \<noteq> None"
    "instant_checked_add counting_tokio 5 (rp_shutdown (gr_policy r0)) = Some (5 + rp_shutdown runtime_policy_default)"
    by (simp_all add: counting_tokio_def r0(3))
  ultimately show ?thesis
    using graceful_shutdown_bounded [OF r0(2) _ _ r order_refl order_refl] r r0(1) by blast
qed

end
