(* ===== verification/Hsms_Supervisor.thy ===== *)
theory Hsms_Supervisor
  imports Hsms_Connection Hsms_Runtime_Safety
begin

section \<open>The supervisor of an endpoint's generations\<close>

text \<open>
  \<open>src/hsms/supervisor/runtime.rs\<close>: the owner of the single connection slot. It prepares the source
  of candidates, builds a generation from a candidate, serves it, and releases it only after a
  clean exit.

  What binding, connecting and the tasks of a generation do is an argument of each operation, like
  the readings of the clock. \<open>None\<close> as a result is a future that was dropped, or still waits. The
  field \<open>cs_retired\<close> is not in the source: it keeps what the completion endpoints of the generations
  already dropped were told.
\<close>

subsection \<open>State\<close>

datatype supervisor_error =
    Sup_Start_error source_error
  | Sup_Attempt attempt_error
  | Sup_Config config_error
  | Sup_Occupied
  | Sup_Stopped
  | Sup_Faulted
  | Sup_GenerationExhausted
  | Sup_RecoveryRequiresStop

record ('s, 'q, 'c, 'addr, 'l) supervisor =
  cs_config :: "'addr endpoint_config"
  cs_source :: "('addr, 'l) connection_source option"
  cs_current :: "('s, 'q, 'c) generation_runtime option"
  cs_next_generation :: "u64 option"
  cs_running :: bool
  cs_faulted :: bool
  cs_prefer_generation :: bool
  cs_retired :: "('c \<times> driver_command_result) list"

definition supervisor_new ::
  "(duration \<Rightarrow> bool) \<Rightarrow> 'addr endpoint_config \<Rightarrow>
     (config_error, ('s, 'q, 'c, 'addr, 'l) supervisor) sum" where
  "supervisor_new clock_fits config =
     (case endpoint_config_validate clock_fits config of
        Inl e \<Rightarrow> Inl e
      | Inr _ \<Rightarrow>
          Inr \<lparr>cs_config = config, cs_source = None, cs_current = None, cs_next_generation = Some 1,
               cs_running = False, cs_faulted = False, cs_prefer_generation = True, cs_retired = []\<rparr>)"

subsection \<open>Operations\<close>

definition supervisor_start ::
  "(duration \<Rightarrow> bool) \<Rightarrow> instant \<Rightarrow> (io_error_kind, 'l) sum \<Rightarrow> ('l \<Rightarrow> (io_error_kind, 'addr) sum) \<Rightarrow>
     ('s, 'q, 'c, 'addr, 'l) supervisor \<Rightarrow>
     (supervisor_error, unit) sum \<times> ('s, 'q, 'c, 'addr, 'l) supervisor" where
  "supervisor_start clock_fits now bound local_addr sv =
     (if cs_faulted sv then (Inl Sup_Faulted, sv)
      else if cs_running sv then (Inr (), sv)
      else if cs_current sv \<noteq> None then (Inl Sup_Occupied, sv)
      else
        case prepare clock_fits (cs_config sv) now bound local_addr of
          Inl e \<Rightarrow> (Inl (Sup_Start_error e), sv)
        | Inr source \<Rightarrow> (Inr (), sv\<lparr>cs_source := Some source, cs_running := True\<rparr>))"

definition fault_source ::
  "('s, 'q, 'c, 'addr, 'l) supervisor \<Rightarrow> ('s, 'q, 'c, 'addr, 'l) supervisor" where
  "fault_source sv = sv\<lparr>cs_faulted := True, cs_source := None\<rparr>"

definition supervisor_connect ::
  "('s, 'q) tokio \<Rightarrow> (duration \<Rightarrow> bool) \<Rightarrow> nat \<Rightarrow> instant \<Rightarrow> ('l, 'stream) source_env \<Rightarrow>
     ('s, 'q, 'c, 'addr, 'l) supervisor \<Rightarrow>
     (supervisor_error, bool) sum option \<times> ('s, 'q, 'c, 'addr, 'l) supervisor" where
  "supervisor_connect T clock_fits owner epoch env sv =
     (if cs_faulted sv then (Some (Inl Sup_Faulted), sv)
      else if \<not> cs_running sv then (Some (Inl Sup_Stopped), sv)
      else if cs_current sv \<noteq> None then (Some (Inl Sup_Occupied), sv)
      else
        case cs_next_generation sv of
          None \<Rightarrow> (Some (Inl Sup_GenerationExhausted), fault_source sv)
        | Some ident \<Rightarrow>
            (case cs_source sv of
               None \<Rightarrow> (Some (Inl Sup_Stopped), sv)
             | Some source \<Rightarrow>
                 (case next_candidate T env source of
                    (None, source) \<Rightarrow> (None, sv\<lparr>cs_source := Some source\<rparr>)
                  | (Some (Inl e), source) \<Rightarrow> (Some (Inl (Sup_Attempt e)), sv\<lparr>cs_source := Some source\<rparr>)
                  | (Some (Inr None), source) \<Rightarrow> (Some (Inr False), sv\<lparr>cs_source := Some source\<rparr>)
                  | (Some (Inr (Some stream)), source) \<Rightarrow>
                      let sv = sv\<lparr>cs_source := Some source, cs_next_generation := checked_succ ident\<rparr>
                      in case from_stream T clock_fits ident owner (cs_config sv) epoch of
                           Inr runtime \<Rightarrow> (Some (Inr True), sv\<lparr>cs_current := Some runtime\<rparr>)
                         | Inl e \<Rightarrow> (Some (Inl (Sup_Config e)), fault_source sv))))"

text \<open>
  One poll of the generation's step. A wait of several polls is as many such polls
  (\<open>step_polls\<close>), which is how \<open>step_current\<close> interleaves it with the source.
\<close>

definition poll_step ::
  "('s, 'q) tokio \<Rightarrow> (usize \<times> usize) option \<Rightarrow> instant \<Rightarrow> tasks_env list \<times> instant \<Rightarrow>
     ('s, 'q, 'c) generation_runtime \<Rightarrow> bool poll \<times> ('s, 'q, 'c) generation_runtime" where
  "poll_step T capacity later poll r =
     (case step_with_delivery_capacity T capacity [poll] later r of
        (None, r) \<Rightarrow> (Poll_Pending, r)
      | (Some going, r) \<Rightarrow> (Poll_Ready going, r))"

text \<open>\<open>expect\<close> makes the call without a current generation a panic; the endpoint never makes it.\<close>

definition step_current ::
  "('s, 'q) tokio \<Rightarrow> (usize \<times> usize) option \<Rightarrow> (tasks_env list \<times> instant) list \<Rightarrow> instant \<Rightarrow> instant \<Rightarrow>
     ('s, 'q, 'c, 'addr, 'l) supervisor \<Rightarrow>
     (io_error_kind, unit) sum option \<times> ('s, 'q, 'c, 'addr, 'l) supervisor" where
  "step_current T capacity polls later now sv =
     (case cs_current sv of
        None \<Rightarrow> (None, sv)
      | Some runtime \<Rightarrow>
          let rejected = (case cs_source sv of Some source \<Rightarrow> reject_extra source | None \<Rightarrow> Poll_Pending)
          in case alternate (cs_prefer_generation sv)
                    (map (\<lambda>poll. (poll_step T capacity later poll, \<lambda>r. (rejected, r))) polls) runtime of
               (selected, prefer, runtime) \<Rightarrow>
                 let sv = sv\<lparr>cs_prefer_generation := prefer, cs_current := Some runtime\<rparr>
                 in case selected of
                      None \<Rightarrow> (None, sv)
                    | Some (Inl _) \<Rightarrow> (Some (Inr ()), sv)
                    | Some (Inr (Inr ())) \<Rightarrow> (Some (Inr ()), sv)
                    | Some (Inr (Inl e)) \<Rightarrow>
                        (Some (Inl e),
                         sv\<lparr>cs_source := None,
                             cs_current := Some (begin_graceful_close T RuntimeInvariant now runtime)\<rparr>))"

definition supervisor_local_address :: "('s, 'q, 'c, 'addr, 'l) supervisor \<Rightarrow> 'addr option" where
  "supervisor_local_address sv =
     (case cs_source sv of None \<Rightarrow> None | Some source \<Rightarrow> source_local_address source)"

definition begin_stop ::
  "('s, 'q) tokio \<Rightarrow> instant \<Rightarrow> ('s, 'q, 'c, 'addr, 'l) supervisor \<Rightarrow> ('s, 'q, 'c, 'addr, 'l) supervisor"
where
  "begin_stop T now sv =
     (let sv = sv\<lparr>cs_running := False, cs_source := None\<rparr>
      in case cs_current sv of
           Some runtime \<Rightarrow> sv\<lparr>cs_current := Some (begin_graceful_close T LocalStop now runtime)\<rparr>
         | None \<Rightarrow> sv\<lparr>cs_faulted := False\<rparr>)"

definition begin_disconnect ::
  "('s, 'q) tokio \<Rightarrow> instant \<Rightarrow> ('s, 'q, 'c, 'addr, 'l) supervisor \<Rightarrow> ('s, 'q, 'c, 'addr, 'l) supervisor"
where
  "begin_disconnect T now sv =
     (case cs_current sv of
        Some runtime \<Rightarrow> sv\<lparr>cs_current := Some (begin_graceful_close T LocalDisconnect now runtime)\<rparr>
      | None \<Rightarrow> sv)"

definition retire ::
  "('s, 'q, 'c) generation_runtime \<Rightarrow> ('s, 'q, 'c, 'addr, 'l) supervisor \<Rightarrow> ('s, 'q, 'c, 'addr, 'l) supervisor"
where
  "retire runtime sv =
     sv\<lparr>cs_current := None, cs_retired := cs_retired sv @ application_results (gr_driver runtime)\<rparr>"

definition recover_stopped ::
  "('s, 'q) tokio \<Rightarrow> instant \<Rightarrow> (tasks_env list \<times> bool) list \<Rightarrow> (nat \<Rightarrow> instant) \<Rightarrow> instant \<Rightarrow>
     ('s, 'q, 'c, 'addr, 'l) supervisor \<Rightarrow>
     ((supervisor_error, session_exit option) sum \<times> ('s, 'q, 'c, 'addr, 'l) supervisor) option" where
  "recover_stopped T now rounds clock later sv =
     (if cs_running sv then Some (Inl Sup_RecoveryRequiresStop, sv)
      else
        case cs_current sv of
          None \<Rightarrow> Some (Inr None, sv\<lparr>cs_faulted := False\<rparr>)
        | Some runtime \<Rightarrow>
            if \<not> sd_transport_closed (gr_driver runtime) then Some (Inl Sup_Occupied, sv)
            else
              map_option (\<lambda>(exit, runtime).
                (Inr (Some exit),
                 if se_cleanup exit = Clean then (retire runtime sv)\<lparr>cs_faulted := False\<rparr>
                 else sv\<lparr>cs_current := Some runtime, cs_faulted := True\<rparr>))
                (recover_cleanup T now rounds clock later runtime))"

definition recoverable :: "close_reason \<Rightarrow> bool" where
  "recoverable reason \<longleftrightarrow>
     (case reason of
        LocalDisconnect \<Rightarrow> True | LocalSeparate \<Rightarrow> True | SeparateReceived \<Rightarrow> True
      | TransportLost \<Rightarrow> True | SystemBytesExhausted \<Rightarrow> True | CommunicationsTimeout _ \<Rightarrow> True
      | _ \<Rightarrow> False)"

definition finish_generation ::
  "('s, 'q) tokio \<Rightarrow> instant \<Rightarrow> (tasks_env list \<times> instant) list \<Rightarrow> (nat \<Rightarrow> instant) \<Rightarrow> instant \<Rightarrow>
     ('s, 'q, 'c, 'addr, 'l) supervisor \<Rightarrow>
     ((supervisor_error, session_exit option) sum \<times> ('s, 'q, 'c, 'addr, 'l) supervisor) option" where
  "finish_generation T now polls clock later sv =
     (case cs_current sv of
        None \<Rightarrow> Some (Inr None, sv)
      | Some runtime \<Rightarrow>
          if \<not> sd_transport_closed (gr_driver runtime) then Some (Inl Sup_Occupied, sv)
          else
            map_option (\<lambda>(exit, runtime).
              (Inr (Some exit),
               if se_cleanup exit \<noteq> Clean
               then sv\<lparr>cs_current := Some runtime, cs_faulted := True, cs_source := None\<rparr>
               else
                 let sv = retire runtime sv
                 in if \<not> cs_running sv then sv\<lparr>cs_faulted := False\<rparr>
                    else if \<not> recoverable (se_reason exit) then fault_source sv
                    else sv))
              (finish T now polls clock later runtime))"

lemma step_polls:
  "step_with_delivery_capacity T capacity (poll # polls) later r =
     (case poll_step T capacity later poll r of
        (Poll_Ready going, r) \<Rightarrow> (Some going, r)
      | (Poll_Pending, r) \<Rightarrow> step_with_delivery_capacity T capacity polls later r)"
proof -
  obtain envs now where poll: "poll = (envs, now)" by fastforce
  obtain p r1 where p: "poll_round (round_deadline T r) now (r\<lparr>gr_io := fold tasks_env_step envs (gr_io r)\<rparr>) = (p, r1)"
    by fastforce
  from poll_round_fields [OF this] obtain io where io: "r1 = r\<lparr>gr_io := io\<rparr>" by auto
  have "round_deadline T r1 = round_deadline T r" by (simp add: io round_deadline_def cong: option.case_cong)
  with poll p io show ?thesis
    by (cases p) (auto simp: poll_step_def step_with_delivery_capacity_def split: prod.splits option.splits)
qed

end
