(* ===== verification/Hsms_Supervisor_Safety.thy ===== *)
theory Hsms_Supervisor_Safety
  imports Hsms_Supervisor
begin

section \<open>The supervisor's contract: one generation at a time\<close>

text \<open>
  The abstract machine \<open>slot_step\<close> knows whether the endpoint is to run, whether it is faulted, and
  what the slot holds: a generation and the application commands it has accepted. It says when a
  generation may be launched and what an exit must have settled. The log of every run of the
  supervisor is accepted by it.
\<close>

subsection \<open>The abstract slot\<close>

datatype 'c slot_event =
    Ev_Start
  | Ev_Stop
  | Ev_Fault
  | Ev_Launch connection_generation
  | Ev_Accept "('c \<times> completion_kind) list"
  | Ev_Exit session_exit "('c \<times> driver_command_result) list"

record 'c slot_spec =
  sp_running :: bool
  sp_faulted :: bool
  sp_last :: nat
  sp_slot :: "(connection_generation \<times> ('c \<times> completion_kind) list) option"

definition slot_start :: "'c slot_spec" where
  "slot_start = \<lparr>sp_running = False, sp_faulted = False, sp_last = 0, sp_slot = None\<rparr>"

fun slot_step :: "'c slot_event \<Rightarrow> 'c slot_spec \<Rightarrow> 'c slot_spec option" where
  "slot_step Ev_Start s =
     (if \<not> sp_faulted s \<and> (sp_running s \<or> sp_slot s = None) then Some (s\<lparr>sp_running := True\<rparr>) else None)"
| "slot_step Ev_Stop s =
     Some (s\<lparr>sp_running := False, sp_faulted := sp_faulted s \<and> sp_slot s \<noteq> None\<rparr>)"
| "slot_step Ev_Fault s = Some (s\<lparr>sp_faulted := True\<rparr>)"
| "slot_step (Ev_Launch g) s =
     (if sp_running s \<and> \<not> sp_faulted s \<and> sp_slot s = None \<and> sp_last s < unat g
      then Some (s\<lparr>sp_slot := Some (g, []), sp_last := unat g\<rparr>) else None)"
| "slot_step (Ev_Accept tags) s =
     (case sp_slot s of
        None \<Rightarrow> None
      | Some (g, accepted) \<Rightarrow> Some (s\<lparr>sp_slot := Some (g, accepted @ tags)\<rparr>))"
| "slot_step (Ev_Exit exit results) s =
     (case sp_slot s of
        None \<Rightarrow> None
      | Some (g, accepted) \<Rightarrow>
          if se_generation exit \<noteq> g then None
          else if se_cleanup exit \<noteq> Clean then Some (s\<lparr>sp_faulted := True\<rparr>)
          else if settled (mset accepted) {#} results
          then Some (s\<lparr>sp_slot := None,
                       sp_faulted := sp_running s \<and> (sp_faulted s \<or> \<not> recoverable (se_reason exit))\<rparr>)
          else None)"

fun slot_run :: "'c slot_event list \<Rightarrow> 'c slot_spec \<Rightarrow> 'c slot_spec option" where
  "slot_run [] s = Some s"
| "slot_run (event # events) s = Option.bind (slot_step event s) (slot_run events)"

lemma slot_run_append: "slot_run (xs @ ys) s = Option.bind (slot_run xs s) (slot_run ys)"
  by (induction xs arbitrary: s) (auto split: Option.bind_split)

subsection \<open>Runs of the supervisor\<close>

datatype ('s, 'q, 'c, 'addr, 'l, 'stream) supervisor_op =
    Sv_Start instant "(io_error_kind, 'l) sum" "'l \<Rightarrow> (io_error_kind, 'addr) sum"
  | Sv_Connect nat instant "('l, 'stream) source_env"
  | Sv_Step "(usize \<times> usize) option" "(tasks_env list \<times> instant) list" instant instant
  | Sv_Generation "(('s, 'q) bounded_writer, 'c) runtime_op"
  | Sv_Stop instant
  | Sv_Disconnect instant
  | Sv_Fault
  | Sv_Recover instant "(tasks_env list \<times> bool) list" "nat \<Rightarrow> instant" instant
  | Sv_Finish instant "(tasks_env list \<times> instant) list" "nat \<Rightarrow> instant" instant

definition supervisor_results ::
  "('s, 'q, 'c, 'addr, 'l) supervisor \<Rightarrow> ('c \<times> driver_command_result) list" where
  "supervisor_results sv =
     cs_retired sv @ (case cs_current sv of None \<Rightarrow> [] | Some r \<Rightarrow> application_results (gr_driver r))"

fun exit_events ::
  "(supervisor_error, session_exit option) sum \<Rightarrow> ('c \<times> driver_command_result) list \<Rightarrow> 'c slot_event list" where
  "exit_events (Inl _) results = []"
| "exit_events (Inr None) results = []"
| "exit_events (Inr (Some exit)) results = [Ev_Exit exit results]"

fun connect_events ::
  "u64 option \<Rightarrow> (supervisor_error, bool) sum option \<Rightarrow> 'c slot_event list" where
  "connect_events (Some ident) (Some (Inr True)) = [Ev_Launch ident]"
| "connect_events ident (Some (Inl Sup_GenerationExhausted)) = [Ev_Fault]"
| "connect_events ident (Some (Inl (Sup_Config _))) = [Ev_Fault]"
| "connect_events ident _ = []"

text \<open>
  One operation with the events it is seen as. \<open>None\<close> is a cleanup that does not return. Recovering an
  empty slot is seen as a stop.
\<close>

definition supervisor_turn ::
  "('s, 'q) tokio \<Rightarrow> (duration \<Rightarrow> bool) \<Rightarrow> ('s, 'q, 'c, 'addr, 'l, 'stream) supervisor_op \<Rightarrow>
     ('s, 'q, 'c, 'addr, 'l) supervisor \<Rightarrow>
     ('c slot_event list \<times> ('s, 'q, 'c, 'addr, 'l) supervisor) option" where
  "supervisor_turn T clock_fits op sv =
     (case op of
        Sv_Start now bound local_addr \<Rightarrow>
          Some (case supervisor_start clock_fits now bound local_addr sv of
                  (Inr _, sv) \<Rightarrow> ([Ev_Start], sv) | (Inl _, sv) \<Rightarrow> ([], sv))
      | Sv_Connect owner epoch env \<Rightarrow>
          Some (case supervisor_connect T clock_fits owner epoch env sv of
                  (result, sv') \<Rightarrow> (connect_events (cs_next_generation sv) result, sv'))
      | Sv_Step capacity polls later now \<Rightarrow>
          Some ([], snd (step_current T capacity polls later now sv))
      | Sv_Generation op \<Rightarrow>
          Some (case cs_current sv of
                  None \<Rightarrow> ([], sv)
                | Some r \<Rightarrow>
                    (case runtime_turn T op r of
                       (tags, r) \<Rightarrow> ([Ev_Accept tags], sv\<lparr>cs_current := Some r\<rparr>)))
      | Sv_Stop now \<Rightarrow> Some ([Ev_Stop], begin_stop T now sv)
      | Sv_Disconnect now \<Rightarrow> Some ([], begin_disconnect T now sv)
      | Sv_Fault \<Rightarrow> Some ([Ev_Fault], fault_source sv)
      | Sv_Recover now rounds clock later \<Rightarrow>
          map_option (\<lambda>(result, sv').
            (if result = Inr None then [Ev_Stop]
             else exit_events result (drop (length (cs_retired sv)) (supervisor_results sv')), sv'))
            (recover_stopped T now rounds clock later sv)
      | Sv_Finish now polls clock later \<Rightarrow>
          map_option (\<lambda>(result, sv').
            (exit_events result (drop (length (cs_retired sv)) (supervisor_results sv')), sv'))
            (finish_generation T now polls clock later sv))"

fun supervisor_run ::
  "('s, 'q) tokio \<Rightarrow> (duration \<Rightarrow> bool) \<Rightarrow> ('s, 'q, 'c, 'addr, 'l, 'stream) supervisor_op list \<Rightarrow>
     ('s, 'q, 'c, 'addr, 'l) supervisor \<Rightarrow>
     ('c slot_event list \<times> ('s, 'q, 'c, 'addr, 'l) supervisor) option" where
  "supervisor_run T clock_fits [] sv = Some ([], sv)"
| "supervisor_run T clock_fits (op # ops) sv =
     Option.bind (supervisor_turn T clock_fits op sv) (\<lambda>(events, sv).
       map_option (\<lambda>(rest, sv). (events @ rest, sv)) (supervisor_run T clock_fits ops sv))"

text \<open>The readings of the clock in one operation, and the last one of an operation that may exit.\<close>

fun sv_times :: "('s, 'q, 'c, 'addr, 'l, 'stream) supervisor_op \<Rightarrow> instant set" where
  "sv_times (Sv_Step _ polls later now) = {now, later} \<union> snd ` set polls"
| "sv_times (Sv_Generation op) = op_times op"
| "sv_times (Sv_Stop now) = {now}"
| "sv_times (Sv_Disconnect now) = {now}"
| "sv_times (Sv_Recover now _ clock later) = {now, later} \<union> range clock"
| "sv_times (Sv_Finish now _ clock later) = {now, later} \<union> range clock"
| "sv_times _ = {}"

fun sv_exit :: "('s, 'q, 'c, 'addr, 'l, 'stream) supervisor_op \<Rightarrow> instant option" where
  "sv_exit (Sv_Recover now _ clock later) = Some later"
| "sv_exit (Sv_Finish now _ clock later) = Some later"
| "sv_exit _ = None"

definition not_after ::
  "('s, 'q, 'c, 'addr, 'l, 'stream) supervisor_op \<Rightarrow> ('s, 'q, 'c, 'addr, 'l, 'stream) supervisor_op \<Rightarrow> bool"
where
  "not_after a b \<longleftrightarrow> (case sv_exit b of None \<Rightarrow> True | Some later \<Rightarrow> \<forall>u \<in> sv_times a. u \<le> later)"

subsection \<open>The simulation\<close>

definition holds_slot ::
  "('s, 'q) tokio \<Rightarrow> 'addr endpoint_config \<Rightarrow> instant set \<Rightarrow> ('s, 'q, 'c) generation_runtime option \<Rightarrow>
     (connection_generation \<times> ('c \<times> completion_kind) list) option \<Rightarrow> bool" where
  "holds_slot T config U current slot \<longleftrightarrow>
     (case current of
        None \<Rightarrow> slot = None
      | Some r \<Rightarrow> \<exists>accepted. slot = Some (gr_generation r, accepted) \<and>
          (\<forall>t. (\<forall>u \<in> U. u \<le> t) \<longrightarrow> serving T config t (gr_generation r) accepted r))"

definition simulates ::
  "('s, 'q) tokio \<Rightarrow> instant set \<Rightarrow> ('s, 'q, 'c, 'addr, 'l) supervisor \<Rightarrow> 'c slot_spec \<Rightarrow> bool" where
  "simulates T U sv s \<longleftrightarrow>
     sp_running s = cs_running sv \<and> sp_faulted s = cs_faulted sv \<and>
     (\<forall>n. cs_next_generation sv = Some n \<longrightarrow> sp_last s < unat n) \<and>
     holds_slot T (cs_config sv) U (cs_current sv) (sp_slot s)"

lemma holds_slot_None [simp]:
  "holds_slot T config U None slot \<longleftrightarrow> slot = None" "holds_slot T config U current None \<longleftrightarrow> current = None"
  by (auto simp: holds_slot_def split: option.split)

lemma holds_slot_later: "holds_slot T config U current slot \<Longrightarrow> U \<subseteq> U' \<Longrightarrow> holds_slot T config U' current slot"
  unfolding holds_slot_def by (cases current) (auto simp: subset_iff)

lemma holds_slot_served:
  assumes "holds_slot T config U (Some r) slot" "U \<subseteq> U'" "bdd_above U'"
    and served: "\<And>t. \<forall>u \<in> U'. u \<le> t \<Longrightarrow> served T t r r'"
  shows "holds_slot T config U' (Some r') slot"
proof -
  obtain t0 where "\<forall>u \<in> U'. u \<le> t0" using assms(3) by (auto simp: bdd_above_def)
  from served [OF this] have g: "gr_generation r' = gr_generation r" by (simp add: served_def)
  obtain accepted where a: "slot = Some (gr_generation r, accepted)"
    "\<And>t. \<forall>u \<in> U. u \<le> t \<Longrightarrow> serving T config t (gr_generation r) accepted r"
    using assms(1) by (auto simp: holds_slot_def)
  have "serving T config t (gr_generation r') accepted r'" if "\<forall>u \<in> U'. u \<le> t" for t
    using serving_served [OF a(2) served [OF that]] that assms(2) g by auto
  with a(1) g show ?thesis by (simp add: holds_slot_def)
qed

lemma holds_slot_launched:
  assumes "from_stream T clock_fits g owner config epoch = Inr r"
  shows "holds_slot T config U (Some r) (Some (g, []))"
proof -
  obtain io w where "from_transport T clock_fits g owner config epoch io w = Inr r"
    using assms by (auto simp: from_stream_def res_simps)
  from from_transport_serving [OF this] show ?thesis
    by (auto simp: holds_slot_def serving_def)
qed

lemma holds_slot_turn:
  assumes "holds_slot T config U (Some r) (Some (g, accepted))" "runtime_turn T op r = (tags, r')"
    and "bdd_above (U \<union> op_times op)"
  shows "holds_slot T config (U \<union> op_times op) (Some r') (Some (g, accepted @ tags))"
proof -
  have "serving T config t g (accepted @ tags) r'" if "\<forall>u \<in> U \<union> op_times op. u \<le> t" for t
    using assms(1) that by (intro serving_turn [OF _ assms(2)]) (auto simp: holds_slot_def)
  moreover obtain t0 where "\<forall>u \<in> U \<union> op_times op. u \<le> t0" using assms(3) by (auto simp: bdd_above_def)
  ultimately have "gr_generation r' = g" by (auto simp: serving_def)
  with \<open>\<And>t. \<forall>u \<in> U \<union> op_times op. u \<le> t \<Longrightarrow> serving T config t g (accepted @ tags) r'\<close>
  show ?thesis by (simp add: holds_slot_def)
qed

lemma holds_slot_exit:
  assumes "holds_slot T config U (Some r) (Some (g, accepted))"
    and "close T reason now rounds clock later r = Some (exit, r') \<or>
      recover_cleanup T now rounds clock later r = Some (exit, r')"
    and "\<forall>u \<in> U \<union> ({now, later} \<union> range clock). u \<le> later"
  shows "se_generation exit = g \<and> holds_slot T config (U \<union> ({now, later} \<union> range clock)) (Some r') (Some (g, accepted)) \<and>
    (se_cleanup exit = Clean \<longrightarrow> settled (mset accepted) {#} (application_results (gr_driver r')))"
proof -
  have "serving T config later g accepted r"
    using assms(1,3) by (auto simp: holds_slot_def)
  from serving_exit [OF this assms(2)] assms(3) have e: "se_generation exit = g"
    "serving T config later g accepted r'"
    "se_cleanup exit = Clean \<longrightarrow> settled (mset accepted) {#} (application_results (gr_driver r'))"
    by auto
  from e(2) have "gr_generation r' = g" by (simp add: serving_def)
  with e show ?thesis by (auto simp: holds_slot_def intro: serving_mono)
qed

lemma alternate_keeps:
  assumes "\<And>left right st. (left, right) \<in> set polls \<Longrightarrow> P st \<Longrightarrow> P (snd (left st)) \<and> P (snd (right st))"
  shows "P st \<Longrightarrow> P (snd (snd (alternate pref polls st)))"
  using assms
proof (induction pref polls st rule: alternate.induct)
  case (2 pref left right polls st)
  have k: "P (snd (left st'))" "P (snd (right st'))" if "P st'" for st'
    using 2(3) [of left right st'] that by simp_all
  obtain p pref' st' where p: "alternate_poll pref left right st = (p, pref', st')"
    by (cases "alternate_poll pref left right st") auto
  have "P st'"
    using p 2(2) k [of st] k [of "snd (left st)"] k [of "snd (right st)"]
    by (auto simp: alternate_poll_def Let_def split: if_splits prod.splits poll.splits)
  show ?case
  proof (cases p)
    case Poll_Pending
    note ih = 2(1) [OF p [symmetric] Poll_Pending refl \<open>P st'\<close>] and later_polls = 2(3)
    have "P (snd (snd (alternate pref' polls st')))"
      by (rule ih) (rule later_polls, simp_all)
    with p Poll_Pending show ?thesis by simp
  next
    case (Poll_Ready x)
    with p \<open>P st'\<close> show ?thesis by simp
  qed
qed simp

lemma step_current_served:
  assumes "cs_current sv = Some r" "\<forall>t' \<in> snd ` set polls. t' \<le> t" "later \<le> t" "now \<le> t"
    and "snd (step_current T capacity polls later now sv) = sv'"
  shows "\<exists>r' source first.
    sv' = sv\<lparr>cs_current := Some r', cs_source := source, cs_prefer_generation := first\<rparr> \<and> served T t r r'"
proof -
  define rejected where "rejected = (case cs_source sv of Some source \<Rightarrow> reject_extra source | None \<Rightarrow> Poll_Pending)"
  let ?polls = "map (\<lambda>poll. (poll_step T capacity later poll, \<lambda>r. (rejected, r))) polls"
  obtain selected pref r1 where a: "alternate (cs_prefer_generation sv) ?polls r = (selected, pref, r1)"
    using prod_cases3 by blast
  have step: "served T t r' (snd (poll_step T capacity later poll r'))" if "poll \<in> set polls" for poll r'
    using step_served [of "[poll]" t later T r' capacity] assms(2,3) that
    by (auto simp: poll_step_def split: prod.splits option.splits)
  have s: "served T t r r1"
    using alternate_keeps [of ?polls "served T t r" r "cs_prefer_generation sv"] step served_trans
    by (force simp: a)
  then have g: "served T t r (begin_graceful_close T RuntimeInvariant now r1)"
    using served_trans graceful_served [OF assms(4)] by blast
  let ?sv = "sv\<lparr>cs_prefer_generation := pref, cs_current := Some r1\<rparr>"
  have "sv' = ?sv \<or> sv' = ?sv\<lparr>cs_source := None, cs_current := Some (begin_graceful_close T RuntimeInvariant now r1)\<rparr>"
    using a assms(5)
    by (simp add: step_current_def assms(1) rejected_def [symmetric] Let_def
        split: option.splits sum.splits old.unit.splits)
  then show ?thesis
  proof
    assume "sv' = ?sv"
    with s show ?thesis
      by (intro exI [of _ r1] exI [of _ "cs_source sv"] exI [of _ pref]) simp
  next
    assume "sv' = ?sv\<lparr>cs_source := None, cs_current := Some (begin_graceful_close T RuntimeInvariant now r1)\<rparr>"
    with g show ?thesis
      by (intro exI [of _ "begin_graceful_close T RuntimeInvariant now r1"] exI [of _ None] exI [of _ pref]) simp
  qed
qed

lemma checked_succ_above: "checked_succ w = Some v \<Longrightarrow> n < unat w \<Longrightarrow> n < unat v"
  by (drule checked_succ_Some) simp

lemma start_simulated:
  assumes "simulates T U sv s" "supervisor_turn T clock_fits (Sv_Start now bound local_addr) sv = Some (events, sv')"
  shows "\<exists>s'. slot_run events s = Some s' \<and> simulates T U sv' s'"
  using assms
  by (auto simp: supervisor_turn_def supervisor_start_def simulates_def split: if_splits sum.splits prod.splits)

lemma connect_simulated:
  assumes "simulates T U sv s" "supervisor_turn T clock_fits (Sv_Connect owner epoch env) sv = Some (events, sv')"
  shows "\<exists>s'. slot_run events s = Some s' \<and> simulates T U sv' s'"
proof (cases "\<exists>result. supervisor_connect T clock_fits owner epoch env sv = (Some (Inr True), result)")
  case True
  then obtain ident source r where c: "cs_running sv" "\<not> cs_faulted sv" "cs_current sv = None" "cs_next_generation sv = Some ident"
    "from_stream T clock_fits ident owner (cs_config sv) epoch = Inr r"
    "supervisor_connect T clock_fits owner epoch env sv = (Some (Inr True),
       sv\<lparr>cs_source := source, cs_next_generation := checked_succ ident, cs_current := Some r\<rparr>)"
    by (auto simp: supervisor_connect_def Let_def split: if_splits option.splits prod.splits sum.splits)
  have "\<forall>n. checked_succ ident = Some n \<longrightarrow> unat ident < unat n"
    by (auto dest: checked_succ_Some)
  with c assms show ?thesis
    by (auto simp: supervisor_turn_def simulates_def holds_slot_launched)
next
  case False
  obtain result sv1 where r: "supervisor_connect T clock_fits owner epoch env sv = (result, sv1)" by fastforce
  have "sv' = sv1 \<and> events = connect_events (cs_next_generation sv) result"
    using assms(2) r by (simp add: supervisor_turn_def)
  moreover have "\<exists>s'. slot_run (connect_events (cs_next_generation sv) result) s = Some s' \<and> simulates T U sv1 s'"
    using r False assms(1)
    by (auto simp: supervisor_connect_def simulates_def fault_source_def Let_def intro: checked_succ_above
        split: if_splits option.splits prod.splits sum.splits)
  ultimately show ?thesis by simp
qed

lemma step_simulated:
  assumes "simulates T U sv s" "supervisor_turn T clock_fits op sv = Some (events, sv')"
    and "op = Sv_Step capacity polls later now" "bdd_above (U \<union> sv_times op)"
  shows "\<exists>s'. slot_run events s = Some s' \<and> simulates T (U \<union> sv_times op) sv' s'"
proof (cases "cs_current sv")
  case None
  with assms show ?thesis by (auto simp: supervisor_turn_def step_current_def simulates_def)
next
  case (Some r)
  have o: "events = []" "snd (step_current T capacity polls later now sv) = sv'"
    using assms(2,3) by (simp_all add: supervisor_turn_def)
  note served = step_current_served [OF Some _ _ _ o(2)]
  obtain t0 where t0: "\<forall>u \<in> U \<union> sv_times op. u \<le> t0" using assms(4) by (auto simp: bdd_above_def)
  then obtain r' source first where
    r': "sv' = sv\<lparr>cs_current := Some r', cs_source := source, cs_prefer_generation := first\<rparr>"
    using served [of t0] assms(3) by auto
  have "served T t r r'" if "\<forall>u \<in> U \<union> sv_times op. u \<le> t" for t
  proof -
    have "cs_current sv' = Some r'" using r' by simp
    with served [of t] that assms(3) show ?thesis by auto
  qed
  with holds_slot_served [OF _ _ assms(4), of T "cs_config sv" U r "sp_slot s" r'] assms(1) Some o(1) r'
  show ?thesis by (auto simp: simulates_def)
qed

lemma generation_simulated:
  assumes "simulates T U sv s" "supervisor_turn T clock_fits (Sv_Generation op) sv = Some (events, sv')"
    and "bdd_above (U \<union> op_times op)"
  shows "\<exists>s'. slot_run events s = Some s' \<and> simulates T (U \<union> op_times op) sv' s'"
proof (cases "cs_current sv")
  case None
  with assms show ?thesis by (auto simp: supervisor_turn_def simulates_def)
next
  case (Some r)
  obtain tags r' where t: "runtime_turn T op r = (tags, r')" by fastforce
  have o: "events = [Ev_Accept tags]" "sv' = sv\<lparr>cs_current := Some r'\<rparr>"
    using assms(2) Some t by (simp_all add: supervisor_turn_def)
  obtain g accepted where a: "sp_slot s = Some (g, accepted)" "holds_slot T (cs_config sv) U (Some r) (Some (g, accepted))"
    using assms(1) Some by (auto simp: simulates_def holds_slot_def)
  from holds_slot_turn [OF a(2) t assms(3)] a(1) assms(1) o show ?thesis by (auto simp: simulates_def)
qed

lemma close_requests_simulated:
  assumes "simulates T U sv s" "supervisor_turn T clock_fits op sv = Some (events, sv')"
    and "op \<in> {Sv_Stop now, Sv_Disconnect now, Sv_Fault}" "bdd_above (U \<union> sv_times op)"
  shows "\<exists>s'. slot_run events s = Some s' \<and> simulates T (U \<union> sv_times op) sv' s'"
proof (cases "cs_current sv")
  case None
  with assms show ?thesis
    by (auto simp: supervisor_turn_def simulates_def begin_stop_def begin_disconnect_def fault_source_def Let_def)
next
  case (Some r)
  have g: "served T t r (begin_graceful_close T reason now r)" if "\<forall>u \<in> U \<union> {now}. u \<le> t" for t reason
    using that by (intro graceful_served) simp
  have h: "holds_slot T (cs_config sv) (U \<union> {now}) (Some (begin_graceful_close T reason now r)) (sp_slot s)"
    if "op \<noteq> Sv_Fault" for reason
    by (rule holds_slot_served [of T _ U r]) (use that assms Some g in \<open>auto simp: simulates_def\<close>)
  moreover have "sp_slot s \<noteq> None" using assms(1) Some by (auto simp: simulates_def holds_slot_def)
  ultimately show ?thesis
    using assms Some
    by (auto simp: supervisor_turn_def simulates_def begin_stop_def begin_disconnect_def fault_source_def Let_def)
qed

lemma exit_simulated:
  assumes "simulates T U sv s" "cs_current sv = Some r"
    and e: "close T reason now rounds clock later r = Some (exit, r') \<or>
      recover_cleanup T now rounds clock later r = Some (exit, r')"
    and "\<forall>u \<in> U \<union> ({now, later} \<union> range clock). u \<le> later"
    and clean: "se_cleanup exit = Clean \<Longrightarrow> sv' = (retire r' sv)\<lparr>cs_source := source,
      cs_faulted := cs_running sv \<and> (cs_faulted sv \<or> \<not> recoverable (se_reason exit))\<rparr>"
    and poisoned: "se_cleanup exit \<noteq> Clean \<Longrightarrow>
      sv' = sv\<lparr>cs_current := Some r', cs_faulted := True, cs_source := source\<rparr>"
  shows "\<exists>s'. slot_run (exit_events (Inr (Some exit)) (drop (length (cs_retired sv)) (supervisor_results sv'))) s = Some s' \<and>
    simulates T (U \<union> ({now, later} \<union> range clock)) sv' s'"
proof -
  obtain g accepted where a: "sp_slot s = Some (g, accepted)" "holds_slot T (cs_config sv) U (Some r) (Some (g, accepted))"
    using assms(1,2) by (auto simp: simulates_def holds_slot_def)
  note x = holds_slot_exit [OF a(2) e assms(4)]
  have results: "drop (length (cs_retired sv)) (supervisor_results sv') = application_results (gr_driver r')"
    using clean poisoned by (cases "se_cleanup exit = Clean") (simp_all add: supervisor_results_def retire_def)
  show ?thesis
  proof (cases "se_cleanup exit = Clean")
    case True
    with x a(1) results clean assms(1) show ?thesis by (auto simp: simulates_def retire_def)
  next
    case False
    with x a(1) results poisoned assms(1) show ?thesis by (auto simp: simulates_def)
  qed
qed

lemma recover_simulated:
  assumes "simulates T U sv s" "supervisor_turn T clock_fits (Sv_Recover now rounds clock later) sv = Some (events, sv')"
    and "\<forall>u \<in> U \<union> ({now, later} \<union> range clock). u \<le> later"
  shows "\<exists>s'. slot_run events s = Some s' \<and> simulates T (U \<union> ({now, later} \<union> range clock)) sv' s'"
proof (cases "\<exists>r. cs_current sv = Some r \<and> \<not> cs_running sv \<and> sd_transport_closed (gr_driver r)")
  case True
  then obtain r where r: "cs_current sv = Some r" "\<not> cs_running sv" "sd_transport_closed (gr_driver r)" by blast
  then obtain exit r' where e: "recover_cleanup T now rounds clock later r = Some (exit, r')"
    using assms(2) by (auto simp: supervisor_turn_def recover_stopped_def)
  with assms(2) r have o: "events = exit_events (Inr (Some exit)) (drop (length (cs_retired sv)) (supervisor_results sv'))"
    "sv' = (if se_cleanup exit = Clean then (retire r' sv)\<lparr>cs_faulted := False\<rparr>
            else sv\<lparr>cs_current := Some r', cs_faulted := True\<rparr>)"
    by (auto simp: supervisor_turn_def recover_stopped_def)
  show ?thesis unfolding o(1)
    by (rule exit_simulated [OF assms(1) r(1) disjI2 [OF e] assms(3), where source = "cs_source sv"])
      (simp_all add: o(2) r(2) retire_def)
next
  case False
  with assms simulates_def holds_slot_later show ?thesis
    by (auto simp: supervisor_turn_def recover_stopped_def simulates_def
        intro: holds_slot_later split: if_splits option.splits)
qed

lemma finish_simulated:
  assumes "simulates T U sv s" "supervisor_turn T clock_fits (Sv_Finish now polls clock later) sv = Some (events, sv')"
    and "\<forall>u \<in> U \<union> ({now, later} \<union> range clock). u \<le> later"
  shows "\<exists>s'. slot_run events s = Some s' \<and> simulates T (U \<union> ({now, later} \<union> range clock)) sv' s'"
proof (cases "\<exists>r. cs_current sv = Some r \<and> sd_transport_closed (gr_driver r)")
  case True
  then obtain r where r: "cs_current sv = Some r" "sd_transport_closed (gr_driver r)" by blast
  then obtain exit r' where e: "finish T now polls clock later r = Some (exit, r')"
    using assms(2) by (auto simp: supervisor_turn_def finish_generation_def)
  with assms(2) r have o: "events = exit_events (Inr (Some exit)) (drop (length (cs_retired sv)) (supervisor_results sv'))"
    "sv' = (if se_cleanup exit \<noteq> Clean
               then sv\<lparr>cs_current := Some r', cs_faulted := True, cs_source := None\<rparr>
               else let sv = retire r' sv
                 in if \<not> cs_running sv then sv\<lparr>cs_faulted := False\<rparr>
                    else if \<not> recoverable (se_reason exit) then fault_source sv
                    else sv)"
    by (auto simp: supervisor_turn_def finish_generation_def)
  show ?thesis unfolding o(1)
    by (rule exit_simulated [OF assms(1) r(1) disjI1 [OF e [unfolded finish_def]] assms(3),
          where source = "cs_source sv'"])
      (auto simp: o(2) retire_def fault_source_def Let_def)
next
  case False
  with assms show ?thesis
    by (auto simp: supervisor_turn_def finish_generation_def simulates_def
        intro: holds_slot_later split: if_splits option.splits)
qed

subsection \<open>Whole runs\<close>

lemma finite_times: "sv_exit op = None \<Longrightarrow> finite (sv_times op)"
proof (cases op)
  case (Sv_Generation x)
  have "finite (op_times x)" by (cases x) auto
  with Sv_Generation show ?thesis by simp
qed auto

lemma turn_simulated:
  assumes "simulates T U sv s" "supervisor_turn T clock_fits op sv = Some (events, sv')"
    and "bdd_above U" "\<And>later u. sv_exit op = Some later \<Longrightarrow> u \<in> U \<union> sv_times op \<Longrightarrow> u \<le> later"
  shows "\<exists>s'. slot_run events s = Some s' \<and> simulates T (U \<union> sv_times op) sv' s' \<and> bdd_above (U \<union> sv_times op)"
proof -
  have b: "bdd_above (U \<union> sv_times op)"
  proof (cases "sv_exit op")
    case None
    with finite_times [OF this] assms(3) show ?thesis by (simp add: bdd_above_finite)
  next
    case (Some later)
    with assms(4) show ?thesis by (intro bdd_aboveI) blast
  qed
  have "\<exists>s'. slot_run events s = Some s' \<and> simulates T (U \<union> sv_times op) sv' s'"
    using assms(1,2,4) b
    by (cases op) (auto dest: start_simulated connect_simulated step_simulated
        generation_simulated close_requests_simulated recover_simulated finish_simulated)
  with b show ?thesis by blast
qed

lemma run_simulated:
  assumes "supervisor_run T clock_fits ops sv = Some (log, sv')" "simulates T U sv s" "bdd_above U"
    and "sorted_wrt not_after ops" "\<forall>op \<in> set ops. not_after op op"
    and "\<And>op later u. op \<in> set ops \<Longrightarrow> sv_exit op = Some later \<Longrightarrow> u \<in> U \<Longrightarrow> u \<le> later"
  shows "\<exists>s' U'. slot_run log s = Some s' \<and> simulates T U' sv' s'"
  using assms
proof (induction ops arbitrary: sv s U log)
  case (Cons op ops)
  obtain events sv1 rest where o: "supervisor_turn T clock_fits op sv = Some (events, sv1)"
    "supervisor_run T clock_fits ops sv1 = Some (rest, sv')" "log = events @ rest"
    using Cons.prems(1) by (auto split: Option.bind_splits)
  have "u \<le> later" if "sv_exit op = Some later" "u \<in> U \<union> sv_times op" for later u
    using that Cons.prems(5) Cons.prems(6) [of op later u] by (auto simp: not_after_def)
  from turn_simulated [OF Cons.prems(2) o(1) Cons.prems(3) this] obtain s1 where
    s1: "slot_run events s = Some s1" "simulates T (U \<union> sv_times op) sv1 s1" "bdd_above (U \<union> sv_times op)"
    by blast
  have "u \<le> later" if "op' \<in> set ops" "sv_exit op' = Some later" "u \<in> U \<union> sv_times op" for op' later u
    using that Cons.prems(4) Cons.prems(6) [of op' later u] by (auto simp: not_after_def)
  from Cons.IH [OF o(2) s1(2,3) _ _ this] Cons.prems(4,5) s1(1) o(3) show ?case
    by (auto simp: slot_run_append)
qed auto

text \<open>C4: The supervisor refines the single slot. Whatever the endpoint does with it, and whatever happens to
  its sources, generations and cleanups, as long as the clock does not go back: a generation is only
  launched into an empty slot of a running endpoint without a fault, under a larger identity than
  every earlier one; it leaves the slot only by a clean exit, which has settled every command it
  accepted; and after a cleanup without proof, or a clean exit for a local fault, nothing is launched
  before a stop or a recovery.\<close>

theorem supervisor_refines_slot:
  assumes "supervisor_new clock_fits config = Inr sv0"
    and "supervisor_run T clock_fits ops sv0 = Some (log, sv)"
    and "sorted_wrt not_after ops" "\<forall>op \<in> set ops. not_after op op"
  shows "\<exists>s. slot_run log slot_start = Some s \<and> sp_running s = cs_running sv \<and> sp_faulted s = cs_faulted sv \<and>
    map_option gr_generation (cs_current sv) = map_option fst (sp_slot s)"
proof -
  have "simulates T {} sv0 slot_start"
    using assms(1) by (auto simp: supervisor_new_def simulates_def slot_start_def split: sum.splits)
  from run_simulated [OF assms(2) this _ assms(3,4)] obtain s U where
    "slot_run log slot_start = Some s" "simulates T U sv s" by auto
  then show ?thesis
    by (intro exI [of _ s]) (auto simp: simulates_def holds_slot_def split: option.splits)
qed

subsection \<open>The suspended listener\<close>

definition quiet :: "('s, 'q, 'c, 'addr, 'l) supervisor \<Rightarrow> bool" where
  "quiet sv \<longleftrightarrow> (\<forall>r source. cs_current sv = Some r \<longrightarrow> cs_source sv = Some source \<longrightarrow> \<not> listening source)"

lemma step_quiet: "quiet sv \<Longrightarrow> quiet (snd (step_current T capacity polls later now sv))"
proof (cases "cs_current sv")
  case (Some r)
  assume q: "quiet sv"
  define rejected where "rejected = (case cs_source sv of Some source \<Rightarrow> reject_extra source | None \<Rightarrow> Poll_Pending)"
  let ?polls = "map (\<lambda>poll. (poll_step T capacity later poll, \<lambda>r. (rejected, r))) polls"
  obtain selected pref r1 where a: "alternate (cs_prefer_generation sv) ?polls r = (selected, pref, r1)"
    using prod_cases3 by blast
  then show ?thesis
    using q by (simp add: step_current_def Some rejected_def [symmetric] Let_def quiet_def
        split: option.split sum.split old.unit.split)
qed (simp add: step_current_def)

lemma turn_quiet:
  assumes "quiet sv" "supervisor_turn T clock_fits op sv = Some (events, sv')"
  shows "quiet sv'"
proof (cases op)
  case (Sv_Start now bound local_addr)
  with assms show ?thesis
    by (auto simp: supervisor_turn_def supervisor_start_def quiet_def split: if_splits sum.splits prod.splits)
next
  case (Sv_Connect owner epoch env)
  with assms show ?thesis
    by (auto simp: supervisor_turn_def supervisor_connect_def quiet_def fault_source_def Let_def candidate_not_listening
        split: if_splits option.splits sum.splits prod.splits)
next
  case (Sv_Step capacity polls later now)
  with assms step_quiet show ?thesis by (auto simp: supervisor_turn_def)
next
  case (Sv_Recover now rounds clock later)
  with assms show ?thesis
    by (auto simp: supervisor_turn_def recover_stopped_def quiet_def retire_def split: if_splits option.splits)
next
  case (Sv_Finish now polls clock later)
  with assms show ?thesis
    by (auto simp: supervisor_turn_def finish_generation_def quiet_def retire_def fault_source_def Let_def
        split: if_splits option.splits)
qed (use assms in \<open>auto simp: supervisor_turn_def quiet_def begin_stop_def begin_disconnect_def
    fault_source_def Let_def split: option.splits prod.splits\<close>)

lemma run_quiet: "supervisor_run T clock_fits ops sv = Some (log, sv') \<Longrightarrow> quiet sv \<Longrightarrow> quiet sv'"
  by (induction ops arbitrary: sv log) (auto split: Option.bind_splits dest: turn_quiet)

lemma alternate_pending_right:
  assumes "\<forall>(left, right) \<in> set polls. right = (\<lambda>st. (Poll_Pending, st))"
  shows "fst (alternate pref polls st) \<noteq> Some (Inr x)"
  using alternate_left_only [OF assms, of pref st] by auto

text \<open>C18: An occupied endpoint does not listen. While a generation owns the slot, also while it closes or
  waits for its cleanup to be proven, the source holds no listener, so no further candidate can be
  accepted; and serving the generation never meets the retained listener that the code guards
  against.\<close>

theorem occupied_not_listening:
  assumes "supervisor_new clock_fits config = Inr sv0"
    and "supervisor_run T clock_fits ops sv0 = Some (log, sv)"
    and "cs_current sv = Some r"
  shows "(\<forall>source. cs_source sv = Some source \<longrightarrow> \<not> listening source) \<and>
    fst (step_current T capacity polls later now sv) \<in> {None, Some (Inr ())}"
proof -
  have "quiet sv0" using assms(1) by (auto simp: supervisor_new_def quiet_def split: sum.splits)
  from run_quiet [OF assms(2) this] assms(3)
  have q: "\<forall>source. cs_source sv = Some source \<longrightarrow> \<not> listening source" by (simp add: quiet_def)
  then have p: "(case cs_source sv of Some source \<Rightarrow> reject_extra source | None \<Rightarrow> Poll_Pending) = Poll_Pending"
    by (auto simp: reject_extra_iff split: option.split)
  let ?polls = "map (\<lambda>poll. (poll_step T capacity later poll,
    \<lambda>r. (Poll_Pending :: (io_error_kind, unit) sum poll, r))) polls"
  obtain selected pref r1 where a: "alternate (cs_prefer_generation sv) ?polls r = (selected, pref, r1)"
    using prod_cases3 by blast
  have "selected \<noteq> Some (Inr x)" for x
    using alternate_pending_right [of ?polls "cs_prefer_generation sv" r x] a by auto
  with q a show ?thesis
    by (auto simp: step_current_def assms(3) p Let_def split: option.split sum.split)
qed

abbreviation sample_candidate :: "(unit, unit) source_env" where
  "sample_candidate \<equiv>
     \<lparr>ne_cancelled = False, ne_bound = Some (Inr ()), ne_waits = [(False, 3)], ne_started = 3,
      ne_polls = [(False, 4, Some (Inr ()))], ne_ended = 4\<rparr>"

abbreviation sample_ops :: "(nat, bool \<times> nat \<times> queued_frame list, nat, unit, unit, unit) supervisor_op list" where
  "sample_ops \<equiv> [Sv_Start 2 (Inr ()) Inr, Sv_Connect 0 0 sample_candidate,
     Sv_Generation (Rt_Force LocalDisconnect 9)]"

lemma sample_reader:
  "\<exists>w. reader_worker_from_config counting_tokio (\<lambda>_. True) sample_endpoint 0 = Inr w"
  unfolding reader_worker_from_config_def endpoint_config_default_valid bind_res_simps
  by (simp add: reader_worker_new_def ok_or_def checked_add_def usize_max_def endpoint_config_new_def
      limits_default_def runtime_policy_default_def timeouts_default_def seconds_def counting_tokio_def)

lemma sample_stream:
  "\<exists>r :: (nat, bool \<times> nat \<times> queued_frame list, nat) generation_runtime.
     from_stream counting_tokio (\<lambda>_. True) 1 0 sample_endpoint 0 = Inr r \<and>
     gr_io r = launched \<and> gr_shutdown r = None \<and> gr_policy r = runtime_policy_default"
proof -
  obtain r :: "(nat, bool \<times> nat \<times> queued_frame list, nat) generation_runtime" where
    r: "from_transport counting_tokio (\<lambda>_. True) 1 0 sample_endpoint 0 launched sample_writer = Ok r"
    "gr_io (snd (runtime_run counting_tokio [Rt_Control Intent_Linktest 5] r)) = launched"
    "\<not> is_draining r" "gr_policy r = runtime_policy_default"
    using sample_generation by blast
  from r(2) have "gr_io r = launched" by (simp add: runtime_turn_def case_prod_beta)
  moreover obtain w where w: "reader_worker_from_config counting_tokio (\<lambda>_. True) sample_endpoint 0 = Inr w"
    using sample_reader by blast
  ultimately show ?thesis
    using r(1,3,4) unfolding from_stream_def endpoint_config_default_valid bind_res_simps w sample_writer_new
    by (simp add: is_draining_def)
qed

abbreviation sample_finish :: "(nat, bool \<times> nat \<times> queued_frame list, nat, unit, unit, unit) supervisor_op" where
  "sample_finish \<equiv> Sv_Finish 20 [([Writer_ends (Ok ()), Reader_ends (Ok (Ok ()))], 21), ([], 22)] (\<lambda>_. 23) 30"

lemma sample_run:
  "\<exists>sv0 sv1 r sv exit results.
     supervisor_new (\<lambda>_. True) sample_endpoint = Inr sv0 \<and>
     supervisor_run counting_tokio (\<lambda>_. True) sample_ops sv0 =
       Some ([Ev_Start, Ev_Launch 1, Ev_Accept []], sv1) \<and> cs_current sv1 = Some r \<and>
     supervisor_run counting_tokio (\<lambda>_. True) (sample_ops @ [sample_finish]) sv0 =
       Some ([Ev_Start, Ev_Launch 1, Ev_Accept [], Ev_Exit exit results], sv) \<and>
     se_cleanup exit = Clean \<and> cs_current sv = None"
proof -
  obtain r0 :: "(nat, bool \<times> nat \<times> queued_frame list, nat) generation_runtime" where
    r0: "from_stream counting_tokio (\<lambda>_. True) 1 0 sample_endpoint 0 = Inr r0" "gr_io r0 = launched"
      "gr_shutdown r0 = None" "gr_policy r0 = runtime_policy_default"
    using sample_stream by blast
  define r where "r = force_close counting_tokio LocalDisconnect 9 r0"
  have r: "gr_io r \<in> {launched, launched\<lparr>it_cancellation := True\<rparr>}" "sd_transport_closed (gr_driver r)"
    "gr_shutdown r = None" "gr_policy r = runtime_policy_default"
    using r0 by (simp_all add: r_def force_close_def drive_def Let_def shutdown_closes)
  define why where "why = finish_reason r"
  have "gr_io (force_close counting_tokio why 20 r) \<in> {launched, launched\<lparr>it_cancellation := True\<rparr>}"
    using r(1) by (auto simp: force_close_def drive_def Let_def)
  then obtain io' where io': "cleanup [([Writer_ends (Ok ()), Reader_ends (Ok (Ok ()))], False), ([], False)]
      (gr_io (force_close counting_tokio why 20 r)) = Some (Clean, [], io')"
    using clean_sample by blast
  then obtain exit r' where c: "close counting_tokio why 20
      [([Writer_ends (Ok ()), Reader_ends (Ok (Ok ()))], False), ([], False)] (\<lambda>_. 23) 30 r = Some (exit, r')"
    "se_cleanup exit = Clean"
    by (simp add: close_def Let_def finish_cleanup_def case_prod_beta)
  have "\<not> finish_deadline counting_tokio 20 r \<le> 21" "\<not> finish_deadline counting_tokio 20 r \<le> 22"
    by (simp_all add: finish_deadline_def r(3,4) counting_tokio_def runtime_policy_default_def seconds_def)
  then have f: "finish counting_tokio 20 [([Writer_ends (Ok ()), Reader_ends (Ok (Ok ()))], 21), ([], 22)] (\<lambda>_. 23) 30 r =
      Some (exit, r')"
    using c(1) by (simp add: finish_def why_def)
  obtain sv0 :: "(nat, bool \<times> nat \<times> queued_frame list, nat, unit, unit) supervisor" where
    sv0: "supervisor_new (\<lambda>_. True) sample_endpoint = Inr sv0"
    "sv0 = \<lparr>cs_config = sample_endpoint, cs_source = None, cs_current = None, cs_next_generation = Some 1,
       cs_running = False, cs_faulted = False, cs_prefer_generation = True, cs_retired = []\<rparr>"
    by (simp add: supervisor_new_def endpoint_config_default_valid)
  define source :: "(unit, unit) connection_source" where
    "source = Source_Active () (to_t5 (ec_timeouts sample_endpoint)) (to_connect (ec_timeouts sample_endpoint)) (Some 2)"
  define source' :: "(unit, unit) connection_source" where
    "source' = Source_Active () (to_t5 (ec_timeouts sample_endpoint)) (to_connect (ec_timeouts sample_endpoint))
       (Some (4 + to_t5 (ec_timeouts sample_endpoint)))"
  have p: "prepare (\<lambda>_. True) sample_endpoint 2 (Inr ()) Inr = Inr source"
    by (simp add: prepare_def endpoint_config_default_valid source_def) (simp add: endpoint_config_new_def)
  have n: "next_candidate counting_tokio sample_candidate source = (Some (Inr (Some ())), source')"
    by (simp add: source_def source'_def connect_attempt_def counting_tokio_def endpoint_config_new_def
        timeouts_default_def seconds_def)
  let ?sv1 = "sv0\<lparr>cs_source := Some source', cs_running := True, cs_next_generation := checked_succ 1, cs_current := Some r\<rparr>"
  have t1: "supervisor_turn counting_tokio (\<lambda>_. True) (Sv_Start 2 (Inr ()) Inr) sv0 =
      Some ([Ev_Start], sv0\<lparr>cs_source := Some source, cs_running := True\<rparr>)"
    by (simp add: supervisor_turn_def supervisor_start_def sv0(2) p)
  have t2: "supervisor_turn counting_tokio (\<lambda>_. True) (Sv_Connect 0 0 sample_candidate)
      (sv0\<lparr>cs_source := Some source, cs_running := True\<rparr>) =
      Some ([Ev_Launch 1], sv0\<lparr>cs_source := Some source', cs_running := True,
        cs_next_generation := checked_succ 1, cs_current := Some r0\<rparr>)"
    by (simp add: supervisor_turn_def supervisor_connect_def sv0(2) n r0(1) Let_def)
  have t3: "supervisor_turn counting_tokio (\<lambda>_. True) (Sv_Generation (Rt_Force LocalDisconnect 9))
      (sv0\<lparr>cs_source := Some source', cs_running := True,
        cs_next_generation := checked_succ 1, cs_current := Some r0\<rparr>) = Some ([Ev_Accept []], ?sv1)"
    by (simp add: supervisor_turn_def runtime_turn_def r_def)
  have one: "supervisor_run counting_tokio (\<lambda>_. True) sample_ops sv0 =
      Some ([Ev_Start, Ev_Launch 1, Ev_Accept []], ?sv1)"
    by (simp add: t1 t2 t3 del: sum.case)
  obtain sv events where fin: "supervisor_turn counting_tokio (\<lambda>_. True) sample_finish ?sv1 = Some (events, sv)"
    "events = [Ev_Exit exit (drop (length (cs_retired ?sv1)) (supervisor_results sv))]" "cs_current sv = None"
    using r(2) c(2)
    by (simp add: supervisor_turn_def finish_generation_def f sv0(2) retire_def fault_source_def Let_def)
  have "supervisor_run counting_tokio (\<lambda>_. True) (sample_ops @ [sample_finish]) sv0 =
      Some ([Ev_Start, Ev_Launch 1, Ev_Accept []] @ events, sv)"
    by (simp add: t1 t2 t3 fin(1))
  with sv0(1) one fin(2,3) c(2) show ?thesis
    by (intro exI [of _ sv0] exI [of _ ?sv1] exI [of _ r] exI [of _ sv] exI [of _ exit]) simp
qed

lemma supervisor_refines_slot_witness:
  "\<exists>sv0 sv exit results s.
     supervisor_new (\<lambda>_. True) sample_endpoint = Inr sv0 \<and>
     supervisor_run counting_tokio (\<lambda>_. True) (sample_ops @ [sample_finish]) sv0 =
       Some ([Ev_Start, Ev_Launch 1, Ev_Accept [], Ev_Exit exit results], sv) \<and>
     se_cleanup exit = Clean \<and>
     slot_run [Ev_Start, Ev_Launch 1, Ev_Accept [], Ev_Exit exit results] slot_start = Some s \<and> sp_slot s = None"
proof -
  obtain sv0 sv exit results where r: "supervisor_new (\<lambda>_. True) sample_endpoint = Inr sv0"
     "supervisor_run counting_tokio (\<lambda>_. True) (sample_ops @ [sample_finish]) sv0 =
       Some ([Ev_Start, Ev_Launch 1, Ev_Accept [], Ev_Exit exit results], sv)"
     "se_cleanup exit = Clean" "cs_current sv = None"
    using sample_run by blast
  have "sorted_wrt not_after (sample_ops @ [sample_finish])" "\<forall>op \<in> set (sample_ops @ [sample_finish]). not_after op op"
    by (simp_all add: not_after_def)
  from supervisor_refines_slot [OF r(1,2) this] r show ?thesis by fastforce
qed

lemma occupied_not_listening_witness:
  "\<exists>sv0 sv r. supervisor_new (\<lambda>_. True) sample_endpoint = Inr sv0 \<and>
     supervisor_run counting_tokio (\<lambda>_. True) sample_ops sv0 =
       Some ([Ev_Start, Ev_Launch 1, Ev_Accept []], sv) \<and> cs_current sv = Some r \<and>
     fst (step_current counting_tokio None [] 40 40 sv) \<in> {None, Some (Inr ())}"
proof -
  obtain sv0 sv r where s: "supervisor_new (\<lambda>_. True) sample_endpoint = Inr sv0"
     "supervisor_run counting_tokio (\<lambda>_. True) sample_ops sv0 =
       Some ([Ev_Start, Ev_Launch 1, Ev_Accept []], sv)" "cs_current sv = Some r"
    using sample_run by blast
  from occupied_not_listening [OF this, of None "[]" 40 40] s show ?thesis by blast
qed

end
