(* ===== verification/Rust_Text.thy ===== *)
theory Rust_Text
  imports Secs2_Item
begin

section \<open>Rust text: characters, numerals and floating-point literals\<close>

text \<open>
  What the SML adapter uses of Rust's standard library. A \<open>&str\<close> is the list of its UTF-8
  bytes, each as a HOL character; a Rust \<open>char\<close> is its code point. The second half models
  \<open>f32::from_str\<close>/\<open>f64::from_str\<close> on decimal literals (correctly rounded, ties to
  even), and \<open>Display\<close> and \<open>LowerExp\<close> of finite floats (the shortest decimal that reads
  back as the same value, the nearest one among those of that length), on the IEEE-754 bits.
\<close>

type_synonym rust_str = string
type_synonym code_point = nat

subsection \<open>Bytes and characters\<close>

definition code :: "char \<Rightarrow> nat" where
  "code c = of_char c"

definition char_byte :: "char \<Rightarrow> u8" where
  "char_byte c = word_of_nat (code c)"

definition byte_char :: "u8 \<Rightarrow> char" where
  "byte_char b = char_of (unat b)"

definition is_ascii_digit :: "char \<Rightarrow> bool" where
  "is_ascii_digit c \<longleftrightarrow> 48 \<le> code c \<and> code c \<le> 57"

definition is_ascii_alphabetic :: "char \<Rightarrow> bool" where
  "is_ascii_alphabetic c \<longleftrightarrow> 65 \<le> code c \<and> code c \<le> 90 \<or> 97 \<le> code c \<and> code c \<le> 122"

definition is_ascii_alphanumeric :: "char \<Rightarrow> bool" where
  "is_ascii_alphanumeric c \<longleftrightarrow> is_ascii_alphabetic c \<or> is_ascii_digit c"

definition is_ascii_hexdigit :: "char \<Rightarrow> bool" where
  "is_ascii_hexdigit c \<longleftrightarrow>
     is_ascii_digit c \<or> 65 \<le> code c \<and> code c \<le> 70 \<or> 97 \<le> code c \<and> code c \<le> 102"

lemmas char_classes = is_ascii_digit_def is_ascii_alphabetic_def is_ascii_alphanumeric_def
  is_ascii_hexdigit_def

lemma code_char_of [simp]: "code (char_of n) = n mod 256"
  by (simp add: code_def)

lemma char_of_code [simp]: "char_of (code c) = c"
  by (simp add: code_def)

lemma code_less [simp]: "code c < 256"
  by (metis code_char_of char_of_code mod_less_divisor zero_less_numeral)

lemma code_inject [simp]: "code c = code d \<longleftrightarrow> c = d"
  by (metis char_of_code)

lemma char_byte_char [simp]: "byte_char (char_byte c) = c"
  by (simp add: byte_char_def char_byte_def unat_word_of_nat_u8)

lemma byte_char_byte [simp]: "char_byte (byte_char b) = b"
  using unat_u8_less [of b] by (simp add: byte_char_def char_byte_def)

lemma code_byte_char [simp]: "code (byte_char b) = unat b"
  using unat_u8_less [of b] by (simp add: byte_char_def)

lemma unat_char_byte [simp]: "unat (char_byte c) = code c"
  by (simp add: char_byte_def unat_word_of_nat_u8)

text \<open>\<open>str::chars().next()\<close>: the code point at the start of valid UTF-8, and what follows it.\<close>

definition next_char :: "rust_str \<Rightarrow> (code_point \<times> rust_str) option" where
  "next_char s =
     (case s of
        [] \<Rightarrow> None
      | c # cs \<Rightarrow>
          let x = code c in
          if x < 0x80 then Some (x, cs)
          else
            let n = (if x < 0xE0 then 1 else if x < 0xF0 then 2 else 3 :: nat);
                first = (if x < 0xE0 then x mod 0x20 else if x < 0xF0 then x mod 0x10 else x mod 8)
            in Some (foldl (\<lambda>acc d. acc * 64 + code d mod 64) first (take n cs), drop n cs))"

text \<open>\<open>str::get(offset..)\<close> is refused inside a character.\<close>

definition is_char_boundary :: "nat \<Rightarrow> rust_str \<Rightarrow> bool" where
  "is_char_boundary offset s \<longleftrightarrow>
     offset = length s \<or>
     offset < length s \<and> \<not> (0x80 \<le> code (s ! offset) \<and> code (s ! offset) < 0xC0)"

fun take_chars :: "nat \<Rightarrow> rust_str \<Rightarrow> rust_str" where
  "take_chars 0 s = []"
| "take_chars (Suc n) s =
     (case next_char s of
        None \<Rightarrow> []
      | Some (_, rest) \<Rightarrow> take (length s - length rest) s @ take_chars n rest)"

subsection \<open>Numerals\<close>

definition digit_value :: "char \<Rightarrow> nat" where
  "digit_value c =
     (if is_ascii_digit c then code c - 48
      else if 97 \<le> code c then code c - 87 else code c - 55)"

definition from_digits :: "nat \<Rightarrow> rust_str \<Rightarrow> nat" where
  "from_digits radix s = foldl (\<lambda>acc c. acc * radix + digit_value c) 0 s"

text \<open>\<open>i128::from_str_radix\<close> on a run of digits of the radix.\<close>

definition i128_max :: int where
  "i128_max = 2 ^ 127 - 1"

definition i128_from_digits :: "nat \<Rightarrow> rust_str \<Rightarrow> int option" where
  "i128_from_digits radix s =
     (if s = [] \<or> int (from_digits radix s) > i128_max then None
      else Some (int (from_digits radix s)))"

definition digit_char :: "nat \<Rightarrow> char" where
  "digit_char d = char_of (48 + d)"

fun show_nat :: "nat \<Rightarrow> rust_str" where
  "show_nat n =
     (if n < 10 then [digit_char n] else show_nat (n div 10) @ [digit_char (n mod 10)])"

declare show_nat.simps [simp del]

definition show_int :: "int \<Rightarrow> rust_str" where
  "show_int i = (if i < 0 then CHR ''-'' # show_nat (nat (- i)) else show_nat (nat i))"

text \<open>\<open>{:02X}\<close> of a byte.\<close>

definition upper_hex_digit :: "nat \<Rightarrow> char" where
  "upper_hex_digit d = char_of (if d < 10 then 48 + d else 55 + d)"

definition show_hex2 :: "u8 \<Rightarrow> rust_str" where
  "show_hex2 b = [upper_hex_digit (unat b div 16), upper_hex_digit (unat b mod 16)]"

lemma from_digits_Nil [simp]: "from_digits r [] = 0"
  by (simp add: from_digits_def)

lemma from_digits_snoc [simp]: "from_digits r (s @ [c]) = from_digits r s * r + digit_value c"
  by (simp add: from_digits_def)

lemma from_digits_append:
  "from_digits r (s @ t) = from_digits r s * r ^ length t + from_digits r t"
proof (induction t rule: rev_induct)
  case (snoc c t)
  then show ?case by (simp add: append_assoc [symmetric] algebra_simps del: append_assoc)
qed simp

lemma digit_char_digit: "d < 10 \<Longrightarrow> is_ascii_digit (digit_char d)"
  by (simp add: digit_char_def is_ascii_digit_def)

lemma digit_value_char [simp]: "d < 10 \<Longrightarrow> digit_value (digit_char d) = d"
  by (simp add: digit_value_def digit_char_def is_ascii_digit_def)

lemma show_nat_digits: "\<forall>c \<in> set (show_nat n). is_ascii_digit c"
  by (induction n rule: show_nat.induct)
    (subst show_nat.simps, auto simp: digit_char_digit)

lemma show_nat_not_Nil [simp]: "show_nat n \<noteq> []"
  by (subst show_nat.simps) simp

lemma from_digits_show_nat [simp]: "from_digits 10 (show_nat n) = n"
proof (induction n rule: show_nat.induct)
  case (1 n)
  show ?case
  proof (cases "n < 10")
    case True
    then show ?thesis using from_digits_snoc [of 10 "[]"] by (subst show_nat.simps) simp
  next
    case False
    with 1 show ?thesis by (subst show_nat.simps) simp
  qed
qed

lemma upper_hex_digit_facts:
  "d < 16 \<Longrightarrow> is_ascii_hexdigit (upper_hex_digit d) \<and> digit_value (upper_hex_digit d) = d \<and>
     upper_hex_digit d \<noteq> CHR ''x''"
  by (auto simp: upper_hex_digit_def char_classes digit_value_def simp flip: code_inject)
    (auto simp: code_def)

lemma from_digits_show_hex2: "from_digits 16 (show_hex2 b) = unat b"
proof -
  have "unat b div 16 < 16" using unat_u8_less [of b] by simp
  then show ?thesis
    using from_digits_snoc [of 16 "[_]"] from_digits_snoc [of 16 "[]"]
    by (simp add: show_hex2_def upper_hex_digit_facts from_digits_def)
qed

end
