(* ===== verification/Rust_Float.thy ===== *)
theory Rust_Float
  imports Rust_Text
begin

section \<open>Reading and writing IEEE-754 numbers as decimals\<close>

text \<open>
  A format is given by its precision (hidden bit included) and the width of its exponent. The
  magnitude of a value is its bits without the sign; \<open>split_bits\<close> reads it as \<open>m * 2 ^ s\<close>
  units of \<open>2 ^ -scale\<close>, the least positive value. All the arithmetic is on naturals.
\<close>

record float_format =
  ff_precision :: nat
  ff_exponent_bits :: nat

definition f32_format :: float_format where
  "f32_format = \<lparr>ff_precision = 24, ff_exponent_bits = 8\<rparr>"

definition f64_format :: float_format where
  "f64_format = \<lparr>ff_precision = 53, ff_exponent_bits = 11\<rparr>"

definition hidden_bit :: "float_format \<Rightarrow> nat" where
  "hidden_bit F = 2 ^ (ff_precision F - 1)"

definition scale :: "float_format \<Rightarrow> nat" where
  "scale F = 2 ^ (ff_exponent_bits F - 1) - 2 + (ff_precision F - 1)"

definition infinity_bits :: "float_format \<Rightarrow> nat" where
  "infinity_bits F = (2 ^ ff_exponent_bits F - 1) * hidden_bit F"

definition sign_bit :: "float_format \<Rightarrow> nat" where
  "sign_bit F = 2 ^ ff_exponent_bits F * hidden_bit F"

definition magnitude :: "float_format \<Rightarrow> nat \<Rightarrow> nat" where
  "magnitude F bits = bits mod sign_bit F"

definition is_negative :: "float_format \<Rightarrow> nat \<Rightarrow> bool" where
  "is_negative F bits \<longleftrightarrow> sign_bit F \<le> bits"

definition is_finite :: "float_format \<Rightarrow> nat \<Rightarrow> bool" where
  "is_finite F bits \<longleftrightarrow> magnitude F bits < infinity_bits F"

definition split_bits :: "float_format \<Rightarrow> nat \<Rightarrow> nat \<times> nat" where
  "split_bits F mag =
     (let e = mag div hidden_bit F; f = mag mod hidden_bit F
      in if e = 0 then (f, 0) else (f + hidden_bit F, e - 1))"

subsection \<open>Correct rounding\<close>

definition round_even :: "nat \<Rightarrow> nat \<Rightarrow> nat" where
  "round_even a b =
     (let q = a div b; r = a mod b
      in if 2 * r < b \<or> 2 * r = b \<and> even q then q else q + 1)"

text \<open>The least \<open>s\<close> for which \<open>n / (d * 2 ^ s)\<close> is below \<open>p\<close>.\<close>

function binade :: "nat \<Rightarrow> nat \<Rightarrow> nat \<Rightarrow> nat" where
  "binade p n d = (if p = 0 \<or> d = 0 \<or> n < p * d then 0 else Suc (binade p n (2 * d)))"
  by pat_completeness auto
termination
proof (relation "measure (\<lambda>(p, n, d). Suc n - d)")
  fix p n d :: nat
  assume "\<not> (p = 0 \<or> d = 0 \<or> n < p * d)"
  then have "0 < d" "1 * d \<le> p * d" "p * d \<le> n" by (auto intro!: mult_le_mono1)
  then have "0 < d" "d \<le> n" by linarith+
  then show "((p, n, 2 * d), (p, n, d)) \<in> measure (\<lambda>(p, n, d). Suc n - d)" by simp
qed simp

declare binade.simps [simp del]

definition round_ratio :: "float_format \<Rightarrow> nat \<Rightarrow> nat \<Rightarrow> nat" where
  "round_ratio F num den =
     (let n = num * 2 ^ scale F; s = binade (2 * hidden_bit F) n den
      in s * hidden_bit F + round_even n (den * 2 ^ s))"

definition round_decimal :: "float_format \<Rightarrow> nat \<Rightarrow> int \<Rightarrow> nat" where
  "round_decimal F n k =
     (if 0 \<le> k then round_ratio F (n * 10 ^ nat k) 1 else round_ratio F n (10 ^ nat (- k)))"

lemma round_even_exact [simp]: "0 < b \<Longrightarrow> round_even (a * b) b = a"
  by (simp add: round_even_def)

lemma round_even_mult:
  assumes "0 < c" shows "round_even (a * c) (b * c) = round_even a b"
proof -
  have "2 * (a mod b * c) < b * c \<longleftrightarrow> 2 * (a mod b) < b"
    "2 * (a mod b * c) = b * c \<longleftrightarrow> 2 * (a mod b) = b"
    using assms by (simp_all flip: mult.assoc)
  with assms show ?thesis by (simp add: round_even_def Let_def flip: mult_mod_left)
qed

lemma binade_mult: "0 < c \<Longrightarrow> binade p (n * c) (d * c) = binade p n d"
proof (induction p n d rule: binade.induct)
  case (1 p n d)
  have "n * c < p * (d * c) \<longleftrightarrow> n < p * d" using 1(2) by (simp flip: mult.assoc)
  moreover have "2 * (d * c) = 2 * d * c" by simp
  ultimately show ?case
    using 1 by (subst (1 2) binade.simps) (simp only: mult_eq_0_iff, simp)
qed

lemma round_ratio_mult: "0 < c \<Longrightarrow> round_ratio F (n * c) (d * c) = round_ratio F n d"
proof -
  assume c: "0 < c"
  have n: "n * c * 2 ^ scale F = n * 2 ^ scale F * c" by simp
  have d: "d * c * 2 ^ s = d * 2 ^ s * c" for s :: nat by simp
  show ?thesis
    unfolding round_ratio_def Let_def n binade_mult [OF c] d round_even_mult [OF c] ..
qed

lemma binade_eq:
  "0 < d \<Longrightarrow> 0 < p \<Longrightarrow> n < p * (d * 2 ^ s) \<Longrightarrow> (\<forall>s' < s. p * (d * 2 ^ s') \<le> n) \<Longrightarrow>
     binade p n d = s"
proof (induction s arbitrary: d)
  case 0
  then show ?case by (subst binade.simps) simp
next
  case (Suc s)
  have "p * d \<le> n" using Suc.prems(4) [rule_format, of 0] by simp
  moreover have "binade p n (2 * d) = s"
  proof (rule Suc.IH)
    show "n < p * (2 * d * 2 ^ s)" using Suc.prems(3) by (simp add: ac_simps)
    show "\<forall>s' < s. p * (2 * d * 2 ^ s') \<le> n"
      using Suc.prems(4) by (auto simp: ac_simps dest: spec [of _ "Suc _"])
  qed (use Suc.prems in auto)
  ultimately show ?case using Suc.prems by (subst binade.simps) simp
qed

lemma hidden_bit_pos [simp]: "0 < hidden_bit F"
  by (simp add: hidden_bit_def)

lemma round_ratio_bits:
  assumes "split_bits F mag = (m, s)"
  shows "round_ratio F (m * 2 ^ s) (2 ^ scale F) = mag"
proof -
  let ?h = "hidden_bit F" and ?q = "2 ^ scale F :: nat"
  have m: "m < 2 * ?h" "s = 0 \<or> ?h \<le> m" "s * ?h + m = mag"
  proof -
    have e: "mag div ?h * ?h + mag mod ?h = mag" by (rule div_mult_mod_eq)
    have "mag mod ?h < ?h" by simp
    moreover have "m = (if mag div ?h = 0 then mag mod ?h else mag mod ?h + ?h)" "s = mag div ?h - 1"
      using assms by (auto simp: split_bits_def Let_def split: if_splits)
    ultimately show "m < 2 * ?h" "s = 0 \<or> ?h \<le> m" "s * ?h + m = mag"
      using e by (cases "mag div ?h"; simp)+
  qed
  have "binade (2 * ?h) (m * 2 ^ s * ?q) ?q = s"
  proof (rule binade_eq)
    show "m * 2 ^ s * ?q < 2 * ?h * (?q * 2 ^ s)" using m(1) by simp
    show "\<forall>s' < s. 2 * ?h * (?q * 2 ^ s') \<le> m * 2 ^ s * ?q"
    proof (intro allI impI)
      fix s' assume "s' < s"
      then have "2 * (2::nat) ^ s' \<le> 2 ^ s" by (metis Suc_leI one_le_numeral power_Suc power_increasing)
      then have "?h * (2 * 2 ^ s') \<le> m * 2 ^ s" using m(2) \<open>s' < s\<close> by (intro mult_le_mono) auto
      then show "2 * ?h * (?q * 2 ^ s') \<le> m * 2 ^ s * ?q" by (simp add: ac_simps)
    qed
  qed simp_all
  moreover have "round_even (m * 2 ^ s * ?q) (?q * 2 ^ s) = m"
    using round_even_exact [of "?q * 2 ^ s" m] by (simp add: ac_simps)
  ultimately show ?thesis using m(3) by (simp add: round_ratio_def)
qed

subsection \<open>Reading a literal\<close>

text \<open>
  \<open>parse_decimal\<close> reads \<open>sign? digits? (. digits?)? ((e|E) sign? digits)?\<close> as the sign, the
  digits as one number and the power of ten it is scaled by. \<open>parse_finite\<close> is
  \<open>text.parse().ok().filter(is_finite)\<close>: the spellings of infinity and NaN, which
  \<open>from_str\<close> also knows, are refused like a value that rounds to infinity.
\<close>

definition take_sign :: "rust_str \<Rightarrow> bool \<times> rust_str" where
  "take_sign s =
     (case s of
        c # r \<Rightarrow> if c = CHR ''-'' then (True, r) else if c = CHR ''+'' then (False, r) else (False, s)
      | [] \<Rightarrow> (False, s))"

definition take_digits :: "rust_str \<Rightarrow> rust_str \<times> rust_str" where
  "take_digits s = (takeWhile is_ascii_digit s, dropWhile is_ascii_digit s)"

definition take_fraction :: "rust_str \<Rightarrow> rust_str \<times> rust_str" where
  "take_fraction s =
     (case s of c # r \<Rightarrow> if c = CHR ''.'' then take_digits r else ([], s) | [] \<Rightarrow> ([], s))"

definition parse_exponent :: "rust_str \<Rightarrow> int option" where
  "parse_exponent s =
     (case s of
        [] \<Rightarrow> Some 0
      | c # r \<Rightarrow>
          if c \<noteq> CHR ''e'' \<and> c \<noteq> CHR ''E'' then None
          else
            let (neg, r) = take_sign r; (ds, r) = take_digits r
            in if ds = [] \<or> r \<noteq> [] then None
               else Some (if neg then - int (from_digits 10 ds) else int (from_digits 10 ds)))"

definition parse_decimal :: "rust_str \<Rightarrow> (bool \<times> nat \<times> int) option" where
  "parse_decimal s =
     (let (neg, r) = take_sign s; (ip, r) = take_digits r; (fp, r) = take_fraction r
      in if ip = [] \<and> fp = [] then None
         else case parse_exponent r of
                None \<Rightarrow> None
              | Some e \<Rightarrow> Some (neg, from_digits 10 (ip @ fp), e - int (length fp)))"

definition parse_finite :: "float_format \<Rightarrow> rust_str \<Rightarrow> nat option" where
  "parse_finite F s =
     (case parse_decimal s of
        None \<Rightarrow> None
      | Some (neg, n, k) \<Rightarrow>
          let mag = round_decimal F n k
          in if mag < infinity_bits F then Some ((if neg then sign_bit F else 0) + mag) else None)"

subsection \<open>Writing a value\<close>

text \<open>
  \<open>shortest\<close> looks for the fewest digits that read back as the value: the exact value is
  \<open>w * 10 ^ -scale\<close>, and for each power of ten, from the largest down, the multiples just below
  and just above it are tried.
\<close>

definition exact_units :: "float_format \<Rightarrow> nat \<Rightarrow> nat" where
  "exact_units F mag = (let (m, s) = split_bits F mag in m * 2 ^ s * 5 ^ scale F)"

definition candidate :: "float_format \<Rightarrow> nat \<Rightarrow> nat \<Rightarrow> nat \<Rightarrow> nat option" where
  "candidate F mag w j =
     (let lo = w div 10 ^ j; r = w mod 10 ^ j; k = int j - int (scale F);
          lo_ok = (round_decimal F lo k = mag); hi_ok = (round_decimal F (lo + 1) k = mag)
      in if hi_ok \<and> (\<not> lo_ok \<or> 10 ^ j \<le> 2 * r) then Some (lo + 1)
         else if lo_ok then Some lo else None)"

fun shortest_from :: "float_format \<Rightarrow> nat \<Rightarrow> nat \<Rightarrow> nat \<Rightarrow> nat \<times> int" where
  "shortest_from F mag w 0 = (w, - int (scale F))"
| "shortest_from F mag w (Suc j) =
     (case candidate F mag w (Suc j) of
        Some d \<Rightarrow> (d, int (Suc j) - int (scale F))
      | None \<Rightarrow> shortest_from F mag w j)"

definition shortest :: "float_format \<Rightarrow> nat \<Rightarrow> nat \<times> int" where
  "shortest F mag =
     (let w = exact_units F mag in shortest_from F mag w (length (show_nat w)))"

definition positional :: "nat \<times> int \<Rightarrow> rust_str" where
  "positional dk =
     (let (d, k) = dk; ds = show_nat d; e = int (length ds) + k
      in if e \<le> 0 then ''0.'' @ replicate (nat (- e)) CHR ''0'' @ ds
         else if e < int (length ds) then take (nat e) ds @ ''.'' @ drop (nat e) ds
         else ds @ replicate (nat k) CHR ''0'')"

definition scientific :: "nat \<times> int \<Rightarrow> rust_str" where
  "scientific dk =
     (let (d, k) = dk; ds = show_nat d
      in take 1 ds @ (if length ds = 1 then [] else ''.'' @ drop 1 ds)
         @ ''e'' @ show_int (int (length ds) + k - 1))"

definition display_float :: "float_format \<Rightarrow> nat \<Rightarrow> rust_str" where
  "display_float F bits =
     (if is_negative F bits then ''-'' else '''')
     @ (if magnitude F bits = 0 then ''0'' else positional (shortest F (magnitude F bits)))"

definition lower_exp_float :: "float_format \<Rightarrow> nat \<Rightarrow> rust_str" where
  "lower_exp_float F bits =
     (if is_negative F bits then ''-'' else '''')
     @ (if magnitude F bits = 0 then ''0e0'' else scientific (shortest F (magnitude F bits)))"

subsection \<open>Reading back\<close>

lemma round_exact_units: "round_decimal F (exact_units F mag) (- int (scale F)) = mag"
proof -
  obtain m s where ms: "split_bits F mag = (m, s)" by fastforce
  have "round_ratio F (m * 2 ^ s * 5 ^ scale F) (2 ^ scale F * 5 ^ scale F) = mag"
    using round_ratio_mult [of "5 ^ scale F" F "m * 2 ^ s" "2 ^ scale F"] round_ratio_bits [OF ms]
    by simp
  moreover have "(2::nat) ^ scale F * 5 ^ scale F = 10 ^ scale F"
    by (simp flip: power_mult_distrib)
  moreover have "round_ratio F n 1 = round_decimal F n 0" for n by (simp add: round_decimal_def)
  ultimately show ?thesis
    using ms by (cases "scale F = 0") (simp_all add: exact_units_def round_decimal_def)
qed

lemma shortest_reads_back:
  assumes "shortest F mag = (d, k)"
  shows "round_decimal F d k = mag"
proof -
  have "round_decimal F d k = mag" if "shortest_from F mag (exact_units F mag) j = (d, k)" for j
    using that
    by (induction j)
      (auto simp: round_exact_units candidate_def Let_def split: option.splits if_splits)
  with assms show ?thesis by (simp add: shortest_def Let_def)
qed

lemma round_decimal_zero [simp]: "round_decimal F 0 k = 0"
proof -
  have "binade (2 * hidden_bit F) 0 d = 0" if "0 < d" for d
    using that by (subst binade.simps) simp
  then show ?thesis by (simp add: round_decimal_def round_ratio_def round_even_def)
qed

text \<open>A power of ten moves between the digits and the exponent.\<close>

lemma round_decimal_shift: "round_decimal F (n * 10 ^ j) (k - int j) = round_decimal F n k"
proof -
  consider "int j \<le> k" | "0 \<le> k" "k < int j" | "k < 0" by linarith
  then show ?thesis
  proof cases
    case 1
    then have "nat k = j + nat (k - int j)" by simp
    with 1 show ?thesis by (simp add: round_decimal_def power_add ac_simps)
  next
    case 2
    then have j: "j = nat k + nat (int j - k)" by simp
    have "round_ratio F (n * 10 ^ nat k * 10 ^ nat (int j - k)) (1 * 10 ^ nat (int j - k)) =
        round_ratio F (n * 10 ^ nat k) 1"
      by (rule round_ratio_mult) simp
    moreover have "(10::nat) ^ j = 10 ^ nat k * 10 ^ nat (int j - k)"
      by (subst j) (rule power_add)
    ultimately show ?thesis using 2 by (simp add: round_decimal_def mult.assoc)
  next
    case 3
    then have "nat (int j - k) = nat (- k) + j" by simp
    with 3 round_ratio_mult [of "10 ^ j" F n "10 ^ nat (- k)"] show ?thesis
      by (simp add: round_decimal_def power_add)
  qed
qed

text \<open>The literals in parts: a sign, digits, the digits of a fraction, the text of an exponent.\<close>

definition all_digits :: "rust_str \<Rightarrow> bool" where
  "all_digits s \<longleftrightarrow> (\<forall>c \<in> set s. is_ascii_digit c)"

definition literal_text :: "bool \<Rightarrow> rust_str \<Rightarrow> rust_str \<Rightarrow> rust_str \<Rightarrow> rust_str" where
  "literal_text neg ip fp ep =
     (if neg then ''-'' else []) @ ip @ (if fp = [] then [] else CHR ''.'' # fp) @ ep"

definition stops :: "(char \<Rightarrow> bool) \<Rightarrow> rust_str \<Rightarrow> bool" where
  "stops P r \<longleftrightarrow> (case r of [] \<Rightarrow> True | c # _ \<Rightarrow> \<not> P c)"

lemma stops_simps [simp]: "stops P []" "stops P (c # r) \<longleftrightarrow> \<not> P c"
  by (simp_all add: stops_def)

lemma takeWhile_stops:
  assumes "\<forall>c \<in> set s. P c" "stops P r"
  shows "takeWhile P (s @ r) = s" "dropWhile P (s @ r) = r"
proof -
  have "takeWhile P r = []" "dropWhile P r = r" using assms(2) by (cases r; simp)+
  with assms(1) show "takeWhile P (s @ r) = s" "dropWhile P (s @ r) = r"
    by (simp_all add: takeWhile_append2 dropWhile_append2)
qed

lemma take_digits_run: "all_digits s \<Longrightarrow> stops is_ascii_digit r \<Longrightarrow> take_digits (s @ r) = (s, r)"
  unfolding take_digits_def all_digits_def by (simp only: takeWhile_stops)

lemma all_digits_simps [simp]:
  "all_digits []" "all_digits (c # s) \<longleftrightarrow> is_ascii_digit c \<and> all_digits s"
  "all_digits (s @ t) \<longleftrightarrow> all_digits s \<and> all_digits t"
  by (auto simp: all_digits_def)

lemma all_digits_show_nat [simp]: "all_digits (show_nat n)"
  using show_nat_digits by (simp add: all_digits_def)

lemma punctuation_no_digit [simp]:
  "\<not> is_ascii_digit CHR ''-''" "\<not> is_ascii_digit CHR ''.''" "\<not> is_ascii_digit CHR ''e''"
  "\<not> is_ascii_digit CHR ''E''" "\<not> is_ascii_digit CHR ''+''" "\<not> is_ascii_digit CHR ''x''"
  "is_ascii_digit CHR ''0''"
  by (simp_all add: is_ascii_digit_def code_def)

lemma take_sign_digits: "all_digits s \<Longrightarrow> s \<noteq> [] \<Longrightarrow> take_sign (s @ r) = (False, s @ r)"
  by (cases s) (auto simp: take_sign_def)

lemma take_fraction_text:
  assumes "all_digits fp" "stops is_ascii_digit ep" "stops (\<lambda>c. c = CHR ''.'') ep"
  shows "take_fraction ((if fp = [] then [] else CHR ''.'' # fp) @ ep) = (fp, ep)"
  using assms take_digits_run [of fp ep]
  by (cases ep) (auto simp: take_fraction_def)

definition exponent_text :: "rust_str \<Rightarrow> int \<Rightarrow> bool" where
  "exponent_text ep e \<longleftrightarrow> ep = [] \<and> e = 0 \<or> ep = CHR ''e'' # show_int e"

lemma parse_exponent_text: "exponent_text ep e \<Longrightarrow> parse_exponent ep = Some e"
  using take_digits_run [of "show_nat (nat e)" "[]"] take_digits_run [of "show_nat (nat (- e))" "[]"]
    take_sign_digits [of "show_nat (nat e)" "[]"]
  by (auto simp: exponent_text_def parse_exponent_def show_int_def Let_def)
    (simp_all add: take_sign_def)

lemma parse_literal_text:
  assumes "all_digits ip" "ip \<noteq> []" "all_digits fp" "exponent_text ep e"
  shows "parse_decimal (literal_text neg ip fp ep) = Some (neg, from_digits 10 (ip @ fp), e - int (length fp))"
proof -
  let ?r = "(if fp = [] then [] else CHR ''.'' # fp) @ ep"
  have st: "stops is_ascii_digit ep" "stops (\<lambda>c. c = CHR ''.'') ep"
    using assms(4) by (auto simp: exponent_text_def)
  have "take_sign (literal_text neg ip fp ep) = (neg, ip @ ?r)"
    using take_sign_digits [OF assms(1,2), of ?r]
    by (cases neg) (simp_all add: literal_text_def take_sign_def)
  moreover have "take_digits (ip @ ?r) = (ip, ?r)"
    using assms(1) st(1) by (intro take_digits_run) auto
  ultimately show ?thesis
    using take_fraction_text [OF assms(3) st] parse_exponent_text [OF assms(4)] assms(2)
    by (simp add: parse_decimal_def Let_def)
qed

lemma from_digits_zeros [simp]:
  "from_digits 10 (replicate n CHR ''0'') = 0"
  "from_digits 10 (replicate n CHR ''0'' @ s) = from_digits 10 s"
  "from_digits 10 (s @ replicate n CHR ''0'') = from_digits 10 s * 10 ^ n"
  "from_digits 10 (CHR ''0'' # s) = from_digits 10 s"
proof -
  have z: "from_digits 10 (replicate n CHR ''0'') = 0" for n
    by (induction n) (simp_all add: from_digits_def digit_value_def code_def is_ascii_digit_def)
  show "from_digits 10 (replicate n CHR ''0'') = 0"
    "from_digits 10 (replicate n CHR ''0'' @ s) = from_digits 10 s"
    "from_digits 10 (s @ replicate n CHR ''0'') = from_digits 10 s * 10 ^ n"
    by (simp_all add: z from_digits_append)
  show "from_digits 10 (CHR ''0'' # s) = from_digits 10 s"
    using from_digits_append [of 10 "replicate 1 CHR ''0''" s] z [of 1] by simp
qed

lemma positional_parts:
  obtains ip fp where "positional (d, k) = literal_text False ip fp []" "all_digits ip" "ip \<noteq> []"
    "all_digits fp"
    "\<And>F. round_decimal F (from_digits 10 (ip @ fp)) (- int (length fp)) = round_decimal F d k"
proof -
  let ?ds = "show_nat d"
  let ?e = "int (length ?ds) + k"
  have dig: "all_digits (replicate n CHR ''0'')" "all_digits (take n ?ds)" "all_digits (drop n ?ds)" for n
    using all_digits_show_nat [of d] by (auto simp: all_digits_def dest: in_set_takeD in_set_dropD)
  consider "?e \<le> 0" | "0 < ?e" "?e < int (length ?ds)" | "0 < ?e" "0 \<le> k" by linarith
  then show thesis
  proof cases
    case 1
    let ?fp = "replicate (nat (- ?e)) CHR ''0'' @ ?ds"
    have "positional (d, k) = literal_text False ''0'' ?fp []"
      using 1 by (simp add: positional_def literal_text_def Let_def)
    moreover have "- int (length ?fp) = k" using 1 by simp
    ultimately show ?thesis using dig by (intro that) auto
  next
    case 2
    let ?ip = "take (nat ?e) ?ds" and ?fp = "drop (nat ?e) ?ds"
    have "positional (d, k) = literal_text False ?ip ?fp []"
      using 2 by (simp add: positional_def literal_text_def Let_def)
    moreover have "- int (length ?fp) = k" using 2 by simp
    moreover have "?ip \<noteq> []" using 2 by simp
    ultimately show ?thesis using dig by (intro that [of ?ip ?fp]) auto
  next
    case 3
    let ?ip = "?ds @ replicate (nat k) CHR ''0''"
    have "positional (d, k) = literal_text False ?ip [] []"
      using 3 by (simp add: positional_def literal_text_def Let_def)
    moreover have "round_decimal F (d * 10 ^ nat k) 0 = round_decimal F d k" for F
      using 3 round_decimal_shift [of F d "nat k" k] by simp
    ultimately show ?thesis using dig by (intro that [of ?ip "[]"]) auto
  qed
qed

lemma scientific_parts:
  obtains ip fp e where "scientific (d, k) = literal_text False ip fp (CHR ''e'' # show_int e)"
    "all_digits ip" "ip \<noteq> []" "all_digits fp" "from_digits 10 (ip @ fp) = d"
    "e - int (length fp) = k"
proof -
  let ?ds = "show_nat d"
  have dig: "all_digits (take 1 ?ds)" "all_digits (drop 1 ?ds)"
    using all_digits_show_nat [of d] by (auto simp: all_digits_def dest: in_set_takeD in_set_dropD)
  have len: "0 < length ?ds" by simp
  then have one: "length ?ds \<le> Suc 0 \<longleftrightarrow> length ?ds = Suc 0" by linarith
  show thesis
  proof (rule that [of "take 1 ?ds" "drop 1 ?ds" "int (length ?ds) + k - 1"])
    show "scientific (d, k) = literal_text False (take 1 ?ds) (drop 1 ?ds) (CHR ''e'' # show_int (int (length ?ds) + k - 1))"
      by (simp add: scientific_def literal_text_def Let_def one)
    show "int (length ?ds) + k - 1 - int (length (drop 1 ?ds)) = k"
      using len by (simp add: of_nat_diff Suc_le_eq)
  qed (use dig len in \<open>auto simp only: append_take_drop_id from_digits_show_nat\<close>, simp)
qed

lemma literal_text_sign:
  "(if neg then ''-'' else []) @ literal_text False ip fp ep = literal_text neg ip fp ep"
  by (simp add: literal_text_def)

lemma display_parts:
  obtains ip fp where "display_float F bits = literal_text (is_negative F bits) ip fp []"
    "all_digits ip" "ip \<noteq> []" "all_digits fp"
    "round_decimal F (from_digits 10 (ip @ fp)) (- int (length fp)) = magnitude F bits"
proof (cases "magnitude F bits = 0")
  case True
  then have "display_float F bits = literal_text (is_negative F bits) ''0'' [] []"
    by (simp add: display_float_def literal_text_def)
  with True show ?thesis using from_digits_zeros(1) [of 1] by (intro that [of "''0''" "[]"]) auto
next
  case False
  obtain d k where dk: "shortest F (magnitude F bits) = (d, k)" by fastforce
  with False show ?thesis
    using shortest_reads_back [OF dk] that
    by (cases rule: positional_parts [of d k]) (auto simp: display_float_def literal_text_sign)
qed

lemma lower_exp_parts:
  obtains ip fp e where
    "lower_exp_float F bits = literal_text (is_negative F bits) ip fp (CHR ''e'' # show_int e)"
    "all_digits ip" "ip \<noteq> []" "all_digits fp"
    "round_decimal F (from_digits 10 (ip @ fp)) (e - int (length fp)) = magnitude F bits"
proof (cases "magnitude F bits = 0")
  case True
  have "show_int 0 = ''0''" by (simp add: show_int_def show_nat.simps digit_char_def char_of_def bit_0)
  with True have "lower_exp_float F bits = literal_text (is_negative F bits) ''0'' [] (CHR ''e'' # show_int 0)"
    by (simp add: lower_exp_float_def literal_text_def)
  with True show ?thesis using from_digits_zeros(1) [of 1] by (intro that [of "''0''" "[]" 0]) auto
next
  case False
  obtain d k where dk: "shortest F (magnitude F bits) = (d, k)" by fastforce
  with False show ?thesis
    using shortest_reads_back [OF dk] that
    by (cases rule: scientific_parts [of d k]) (auto simp: lower_exp_float_def literal_text_sign)
qed

lemma parse_finite_parts:
  assumes "all_digits ip" "ip \<noteq> []" "all_digits fp" "exponent_text ep e"
    and "round_decimal F (from_digits 10 (ip @ fp)) (e - int (length fp)) = magnitude F bits"
    and "is_finite F bits" "bits < 2 * sign_bit F"
  shows "parse_finite F (literal_text (is_negative F bits) ip fp ep) = Some bits"
proof -
  have "(if is_negative F bits then sign_bit F else 0) + magnitude F bits = bits"
    using assms(7) by (auto simp: is_negative_def magnitude_def le_mod_geq not_le)
  with assms show ?thesis
    by (simp add: parse_finite_def parse_literal_text is_finite_def Let_def)
qed

end
