(* ===== verification/Sml_Scanner.thy ===== *)
theory Sml_Scanner
  imports Rust_Float Secs2_Codec
begin

section \<open>SML: errors, tokens and the scanner\<close>

text \<open>
  \<open>src/sml/error.rs\<close> and \<open>src/sml/scanner.rs\<close>. The scanner is a cursor over the bytes of the
  source; a token carries the text it borrows and the position of its first byte. An error ends
  the scan, so the scanner it leaves behind is not part of the result.
\<close>

record source_pos =
  sp_offset :: usize
  sp_line :: usize
  sp_column :: usize

datatype parse_error =
    InvalidCharacter source_pos code_point
  | UnterminatedString source_pos
  | InvalidAsciiFragment source_pos u8
  | InvalidHexLiteral source_pos rust_str
  | NumberTooLarge source_pos rust_str
  | InvalidMessageHeader source_pos rust_str
  | StreamOutOfRange source_pos nat
  | FunctionOutOfRange source_pos nat
  | UnknownType source_pos rust_str
  | Sml_UnsupportedType source_pos rust_str
  | InvalidBoolean source_pos rust_str
  | InvalidCount source_pos
  | CountMismatch source_pos usize usize
  | IntegerOverflow source_pos rust_str rust_str
  | NonFiniteFloat source_pos rust_str rust_str
  | InvalidAsciiByte source_pos u8
  | UnexpectedToken source_pos rust_str rust_str
  | MissingTerminator source_pos
  | TrailingInput source_pos rust_str
  | Sml_DepthExceeded source_pos usize usize
  | TotalItemsExceeded source_pos usize
  | ItemBytesExceeded source_pos usize usize
  | ListItemsExceeded source_pos usize

datatype token_kind =
    T_Word rust_str
  | T_Str rust_str
  | T_HexByte u8 rust_str
  | T_Int int bool rust_str
  | T_Float rust_str
  | T_Lt
  | T_Gt
  | T_LBracket
  | T_RBracket
  | T_Dot

record token =
  tk_kind :: token_kind
  tk_pos :: source_pos

record scanner =
  sn_input :: rust_str
  sn_offset :: usize
  sn_line :: usize
  sn_column :: usize

subsection \<open>The cursor\<close>

definition scanner_new :: "rust_str \<Rightarrow> scanner" where
  "scanner_new input = \<lparr>sn_input = input, sn_offset = 0, sn_line = 1, sn_column = 1\<rparr>"

definition current_pos :: "scanner \<Rightarrow> source_pos" where
  "current_pos s = \<lparr>sp_offset = sn_offset s, sp_line = sn_line s, sp_column = sn_column s\<rparr>"

definition peek_ahead :: "nat \<Rightarrow> scanner \<Rightarrow> char option" where
  "peek_ahead ahead s =
     (if sn_offset s + ahead < length (sn_input s) then Some (sn_input s ! (sn_offset s + ahead))
      else None)"

definition peek :: "scanner \<Rightarrow> char option" where
  "peek s = peek_ahead 0 s"

definition bump_ascii :: "scanner \<Rightarrow> scanner" where
  "bump_ascii s = s\<lparr>sn_offset := sn_offset s + 1, sn_column := sn_column s + 1\<rparr>"

definition advance_newline :: "scanner \<Rightarrow> scanner" where
  "advance_newline s = s\<lparr>sn_offset := sn_offset s + 1, sn_line := sn_line s + 1, sn_column := 1\<rparr>"

definition REPLACEMENT_CHARACTER :: code_point where
  "REPLACEMENT_CHARACTER = 0xFFFD"

definition current_char :: "scanner \<Rightarrow> code_point" where
  "current_char s =
     (case next_char (drop (sn_offset s) (sn_input s)) of
        None \<Rightarrow> REPLACEMENT_CHARACTER | Some (c, _) \<Rightarrow> c)"

text \<open>\<open>&self.input[start..end]\<close>\<close>

definition slice :: "nat \<Rightarrow> nat \<Rightarrow> rust_str \<Rightarrow> rust_str" where
  "slice start end_offset s = take (end_offset - start) (drop start s)"

definition literal_slice :: "source_pos \<Rightarrow> scanner \<Rightarrow> rust_str" where
  "literal_slice start_pos s = slice (sp_offset start_pos) (sn_offset s) (sn_input s)"

definition is_some_and :: "('a \<Rightarrow> bool) \<Rightarrow> 'a option \<Rightarrow> bool" where
  "is_some_and P x = (case x of None \<Rightarrow> False | Some a \<Rightarrow> P a)"

text \<open>What the scanner has not read yet.\<close>

definition unread :: "scanner \<Rightarrow> rust_str" where
  "unread s = drop (sn_offset s) (sn_input s)"

lemma peek_ahead_unread: "peek_ahead n s = (if n < length (unread s) then Some (unread s ! n) else None)"
  by (auto simp: peek_ahead_def unread_def)

lemma peek_unread: "peek s = (case unread s of [] \<Rightarrow> None | c # _ \<Rightarrow> Some c)"
  by (cases "unread s") (simp_all add: peek_def peek_ahead_unread)

lemma peek_Some_less: "peek s = Some c \<Longrightarrow> sn_offset s < length (sn_input s)"
  by (auto simp: peek_def peek_ahead_def split: if_splits)

lemma cursor_simps [simp]:
  "sn_input (bump_ascii s) = sn_input s" "sn_offset (bump_ascii s) = Suc (sn_offset s)"
  "sn_input (advance_newline s) = sn_input s" "sn_offset (advance_newline s) = Suc (sn_offset s)"
  "unread (bump_ascii s) = tl (unread s)" "unread (advance_newline s) = tl (unread s)"
  by (simp_all add: bump_ascii_def advance_newline_def unread_def drop_Suc tl_drop)

subsection \<open>Runs\<close>

text \<open>\<open>while self.peek().is_some_and(p) { self.bump_ascii(); }\<close>\<close>

function bump_while :: "(char \<Rightarrow> bool) \<Rightarrow> scanner \<Rightarrow> scanner" where
  "bump_while p s = (if is_some_and p (peek s) then bump_while p (bump_ascii s) else s)"
  by pat_completeness auto
termination
  by (relation "measure (\<lambda>(p, s). length (sn_input s) - sn_offset s)")
    (auto simp: is_some_and_def split: option.splits dest!: peek_Some_less)

declare bump_while.simps [simp del]

function skip_whitespace :: "scanner \<Rightarrow> scanner" where
  "skip_whitespace s =
     (case peek s of
        None \<Rightarrow> s
      | Some byte \<Rightarrow>
          if byte = CHR '' '' \<or> byte = CHR 0x09 then skip_whitespace (bump_ascii s)
          else if byte = CHR 0x0A then skip_whitespace (advance_newline s)
          else if byte = CHR 0x0D
          then
            let s = advance_newline s
            in skip_whitespace
                 (if peek s = Some CHR 0x0A then s\<lparr>sn_offset := sn_offset s + 1\<rparr> else s)
          else s)"
  by pat_completeness auto
termination
  by (relation "measure (\<lambda>s. length (sn_input s) - sn_offset s)")
    (auto simp: Let_def dest!: peek_Some_less)

declare skip_whitespace.simps [simp del]

subsection \<open>Tokens\<close>

definition scan_word :: "scanner \<Rightarrow> token_kind \<times> scanner" where
  "scan_word s =
     (let start = sn_offset s; s = bump_while is_ascii_alphanumeric s
      in (T_Word (slice start (sn_offset s) (sn_input s)), s))"

function scan_string_content ::
  "source_pos \<Rightarrow> nat \<Rightarrow> scanner \<Rightarrow> (token_kind \<times> scanner, parse_error) result" where
  "scan_string_content open_pos content_start s =
     (case peek s of
        None \<Rightarrow> Err (UnterminatedString open_pos)
      | Some byte \<Rightarrow>
          if byte = CHR 0x22
          then Ok (T_Str (slice content_start (sn_offset s) (sn_input s)), bump_ascii s)
          else if byte = CHR 0x5C then Err (InvalidAsciiFragment (current_pos s) (char_byte byte))
          else if 0x20 \<le> code byte \<and> code byte \<le> 0x7E
          then scan_string_content open_pos content_start (bump_ascii s)
          else if 0x80 \<le> code byte then Err (InvalidCharacter (current_pos s) (current_char s))
          else Err (InvalidAsciiFragment (current_pos s) (char_byte byte)))"
  by pat_completeness auto
termination
  by (relation "measure (\<lambda>(_, _, s). length (sn_input s) - sn_offset s)")
    (auto dest!: peek_Some_less)

declare scan_string_content.simps [simp del]

definition scan_string ::
  "source_pos \<Rightarrow> scanner \<Rightarrow> (token_kind \<times> scanner, parse_error) result" where
  "scan_string open_pos s =
     (let s = bump_ascii s in scan_string_content open_pos (sn_offset s) s)"

function bump_hex :: "nat \<Rightarrow> scanner \<Rightarrow> scanner" where
  "bump_hex hex_start s =
     (if is_some_and is_ascii_hexdigit (peek s)
      then if sn_offset s - hex_start = 2 \<and> peek s = Some CHR ''0'' \<and> peek_ahead 1 s = Some CHR ''x''
           then s
           else bump_hex hex_start (bump_ascii s)
      else s)"
  by pat_completeness auto
termination
  by (relation "measure (\<lambda>(_, s). length (sn_input s) - sn_offset s)")
    (auto simp: is_some_and_def split: option.splits dest!: peek_Some_less)

declare bump_hex.simps [simp del]

definition signed :: "bool \<Rightarrow> int \<Rightarrow> int" where
  "signed negative v = (if negative then - v else v)"

definition scan_hex_tail ::
  "source_pos \<Rightarrow> bool \<Rightarrow> scanner \<Rightarrow> (token_kind \<times> scanner, parse_error) result" where
  "scan_hex_tail start_pos negative s =
     (let s = bump_ascii s; hex_start = sn_offset s; s = bump_hex hex_start s;
          hex_digits = slice hex_start (sn_offset s) (sn_input s);
          literal = literal_slice start_pos s
      in if hex_digits = [] then Err (InvalidHexLiteral start_pos literal)
         else if length hex_digits = 2 \<and> \<not> negative
         then Ok (T_HexByte (word_of_nat (from_digits 16 hex_digits)) literal, s)
         else case i128_from_digits 16 hex_digits of
                Some v \<Rightarrow> Ok (T_Int (signed negative v) True literal, s)
              | None \<Rightarrow> Err (NumberTooLarge start_pos literal))"

definition scan_fraction :: "scanner \<Rightarrow> bool \<times> scanner" where
  "scan_fraction s =
     (if peek s = Some CHR ''.'' \<and> is_some_and is_ascii_digit (peek_ahead 1 s)
      then (True, bump_while is_ascii_digit (bump_ascii s))
      else (False, s))"

definition is_exponent_sign :: "char option \<Rightarrow> bool" where
  "is_exponent_sign c \<longleftrightarrow> c = Some CHR ''+'' \<or> c = Some CHR ''-''"

definition scan_exponent :: "scanner \<Rightarrow> bool \<times> scanner" where
  "scan_exponent s =
     (if peek s = Some CHR ''e'' \<or> peek s = Some CHR ''E''
      then
        let after = peek_ahead 1 s
        in if is_some_and is_ascii_digit after \<or>
              is_exponent_sign after \<and> is_some_and is_ascii_digit (peek_ahead 2 s)
           then
             let s = bump_ascii s; s = (if is_exponent_sign (peek s) then bump_ascii s else s)
             in (True, bump_while is_ascii_digit s)
           else (False, s)
      else (False, s))"

definition scan_number ::
  "source_pos \<Rightarrow> bool \<Rightarrow> scanner \<Rightarrow> (token_kind \<times> scanner, parse_error) result" where
  "scan_number start_pos negative s =
     (let digits_start = sn_offset s; s = bump_while is_ascii_digit s;
          int_digits = slice digits_start (sn_offset s) (sn_input s)
      in if int_digits = ''0'' \<and> peek s = Some CHR ''x'' then scan_hex_tail start_pos negative s
         else
           let (fraction, s) = scan_fraction s; (exponent, s) = scan_exponent s;
               literal = literal_slice start_pos s
           in if fraction \<or> exponent then Ok (T_Float literal, s)
              else case i128_from_digits 10 int_digits of
                     Some v \<Rightarrow> Ok (T_Int (signed negative v) False literal, s)
                   | None \<Rightarrow> Err (NumberTooLarge start_pos literal))"

definition single :: "token_kind \<Rightarrow> scanner \<Rightarrow> (token_kind \<times> scanner, parse_error) result" where
  "single kind s = Ok (kind, bump_ascii s)"

definition scan_kind ::
  "char \<Rightarrow> source_pos \<Rightarrow> scanner \<Rightarrow> (token_kind \<times> scanner, parse_error) result" where
  "scan_kind byte pos s =
     (if byte = CHR ''.'' then single T_Dot s
      else if byte = CHR ''<'' then single T_Lt s
      else if byte = CHR ''>'' then single T_Gt s
      else if byte = CHR ''['' then single T_LBracket s
      else if byte = CHR '']'' then single T_RBracket s
      else if byte = CHR 0x22 then scan_string pos s
      else if byte = CHR ''-''
      then if is_some_and is_ascii_digit (peek_ahead 1 s) then scan_number pos True (bump_ascii s)
           else Err (InvalidCharacter pos (code byte))
      else if is_ascii_digit byte then scan_number pos False s
      else if byte = CHR ''x'' \<or> byte = CHR ''X'' then Err (InvalidCharacter pos (code byte))
      else if is_ascii_alphabetic byte then Ok (scan_word s)
      else Err (InvalidCharacter pos (code byte)))"

definition next_token :: "scanner \<Rightarrow> (token option \<times> scanner, parse_error) result" where
  "next_token s =
     (let s = skip_whitespace s
      in case peek s of
           None \<Rightarrow> Ok (None, s)
         | Some byte \<Rightarrow>
             let pos = current_pos s
             in if 0x80 \<le> code byte then Err (InvalidCharacter pos (current_char s))
                else bind_res (scan_kind byte pos s) (\<lambda>(kind, s).
                       Ok (Some \<lparr>tk_kind = kind, tk_pos = pos\<rparr>, s)))"

end
