(* ===== verification/Sml_Lexing.thy ===== *)
theory Sml_Lexing
  imports Sml_Scanner
begin

section \<open>What the scanner reads\<close>

text \<open>
  The runs of the scanner as prefixes of the unread text; every token consumes input (which
  carries the termination of the parser's loops); and the texts of tokens with what must follow
  them for the scanner to read exactly that token.
\<close>

subsection \<open>Runs\<close>

definition bump_n :: "nat \<Rightarrow> scanner \<Rightarrow> scanner" where
  "bump_n n s = s\<lparr>sn_offset := sn_offset s + n, sn_column := sn_column s + n\<rparr>"

lemma bump_n_simps [simp]:
  "bump_n 0 s = s" "bump_ascii s = bump_n (Suc 0) s" "bump_n m (bump_n n s) = bump_n (n + m) s"
  "sn_input (bump_n n s) = sn_input s" "sn_offset (bump_n n s) = sn_offset s + n"
  "unread (bump_n n s) = drop n (unread s)"
  by (simp_all add: bump_n_def bump_ascii_def unread_def add.commute)

declare cursor_simps(1,2,5) [simp del]

lemma bump_while_eq: "bump_while p s = bump_n (length (takeWhile p (unread s))) s"
proof (induction p s rule: bump_while.induct)
  case (1 p s)
  show ?case
  proof (cases "unread s")
    case Nil
    then show ?thesis by (subst bump_while.simps) (simp add: peek_unread is_some_and_def)
  next
    case (Cons c r)
    with 1 show ?thesis
      by (subst bump_while.simps) (simp add: peek_unread is_some_and_def)
  qed
qed

lemma slice_bump [simp]:
  "slice (sn_offset s) (sn_offset s + m) (sn_input s) = take m (unread s)"
  "slice (sn_offset s + n) (sn_offset s + m) (sn_input s) = take (m - n) (drop n (unread s))"
  by (simp_all add: slice_def unread_def add.commute)

lemma bump_while_run:
  assumes "unread s = t @ r" "\<forall>c \<in> set t. p c" "stops p r"
  shows "bump_while p s = bump_n (length t) s"
  using takeWhile_stops [OF assms(2,3)] assms(1) by (simp add: bump_while_eq)

text \<open>A scanner further on in the same text.\<close>

definition later :: "scanner \<Rightarrow> scanner \<Rightarrow> bool" where
  "later s s' \<longleftrightarrow> sn_input s' = sn_input s \<and> sn_offset s \<le> sn_offset s'"

lemma later_refl [simp]: "later s s"
  by (simp add: later_def)

lemma later_trans: "later s s' \<Longrightarrow> later s' s'' \<Longrightarrow> later s s''"
  by (simp add: later_def)

lemma later_bump [simp]: "later s (bump_n n s)" "later s (advance_newline s)"
  by (simp_all add: later_def)

lemma skip_whitespace_unfold:
  "skip_whitespace s =
     (case unread s of
        [] \<Rightarrow> s
      | c # r \<Rightarrow>
          if c = CHR '' '' \<or> c = CHR 0x09 then skip_whitespace (bump_n (Suc 0) s)
          else if c = CHR 0x0A then skip_whitespace (advance_newline s)
          else if c = CHR 0x0D
          then skip_whitespace (if r \<noteq> [] \<and> r ! 0 = CHR 0x0A
                 then (advance_newline s)\<lparr>sn_offset := sn_offset s + 2\<rparr> else advance_newline s)
          else s)"
  by (subst skip_whitespace.simps) (auto simp: peek_unread Let_def split: list.split)

lemma later_skip: "later s (skip_whitespace s)"
proof (induction "unread s" arbitrary: s rule: length_induct)
  case 1
  show ?case
  proof (cases "unread s")
    case Nil
    then show ?thesis by (simp add: skip_whitespace_unfold)
  next
    case (Cons c r)
    have step: "later s (skip_whitespace s')" if "later s s'" "length (unread s') < length (unread s)" for s'
      using 1 that later_trans by blast
    have "later s ((advance_newline s)\<lparr>sn_offset := sn_offset s + 2\<rparr>)" by (simp add: later_def)
    moreover have "length (unread ((advance_newline s)\<lparr>sn_offset := sn_offset s + 2\<rparr>)) < length (unread s)"
      using arg_cong [OF Cons, of length] by (simp add: unread_def)
    ultimately show ?thesis
      using Cons step by (subst skip_whitespace_unfold) simp
  qed
qed

subsection \<open>Tokens spell the source\<close>

fun spelling :: "token_kind \<Rightarrow> rust_str" where
  "spelling (T_Word w) = w"
| "spelling (T_Str t) = CHR 0x22 # t @ [CHR 0x22]"
| "spelling (T_HexByte _ t) = t"
| "spelling (T_Int _ _ t) = t"
| "spelling (T_Float t) = t"
| "spelling T_Lt = ''<''"
| "spelling T_Gt = ''>''"
| "spelling T_LBracket = ''[''"
| "spelling T_RBracket = '']''"
| "spelling T_Dot = ''.''"

text \<open>\<open>s'\<close> is \<open>s\<close> after reading a token of kind \<open>k\<close>.\<close>

definition spells :: "scanner \<Rightarrow> token_kind \<Rightarrow> scanner \<Rightarrow> bool" where
  "spells s k s' \<longleftrightarrow> sn_input s' = sn_input s \<and> sn_offset s < sn_offset s' \<and>
     sn_offset s' \<le> length (sn_input s) \<and>
     spelling k = slice (sn_offset s) (sn_offset s') (sn_input s)"

lemma later_bump_hex: "later s (bump_hex n s)"
proof (induction n s rule: bump_hex.induct)
  case (1 n s)
  have "later s (bump_hex n (bump_ascii s))" if "later (bump_ascii s) (bump_hex n (bump_ascii s))"
    using that later_trans [of s "bump_ascii s"] by simp
  with 1 show ?case by (subst bump_hex.simps) auto
qed

lemma later_runs [simp]:
  "later s s1 \<Longrightarrow> later s (bump_n n s1)" "later s s1 \<Longrightarrow> later s (bump_while p s1)"
  "later s s1 \<Longrightarrow> later s (bump_hex n s1)"
  using later_trans [OF _ later_bump_hex, of s s1 n] by (auto simp: bump_while_eq later_def)

text \<open>The cursor stays within the text.\<close>

definition inside :: "scanner \<Rightarrow> bool" where
  "inside s \<longleftrightarrow> sn_offset s \<le> length (sn_input s)"

lemma inside_bump: "inside s \<Longrightarrow> n \<le> length (unread s) \<Longrightarrow> inside (bump_n n s)"
  by (simp add: inside_def unread_def)

lemma inside_peek: "peek s = Some c \<Longrightarrow> inside (bump_n (Suc 0) s)"
  by (auto simp: inside_def dest: peek_Some_less)

lemma inside_runs [simp]: "inside s \<Longrightarrow> inside (bump_while p s)" "inside s \<Longrightarrow> inside (bump_hex n s)"
proof -
  show "inside s \<Longrightarrow> inside (bump_while p s)"
    by (simp add: bump_while_eq inside_bump length_takeWhile_le)
  show "inside s \<Longrightarrow> inside (bump_hex n s)"
  proof (induction n s rule: bump_hex.induct)
    case (1 n s)
    have "inside (bump_ascii s)" if "is_some_and is_ascii_hexdigit (peek s)"
      using that by (auto simp: is_some_and_def inside_peek split: option.splits)
    with 1 show ?case by (subst bump_hex.simps) auto
  qed
qed

lemma spells_later:
  "later s s' \<Longrightarrow> sn_offset s < sn_offset s' \<Longrightarrow> inside s' \<Longrightarrow>
     spelling k = slice (sn_offset s) (sn_offset s') (sn_input s) \<Longrightarrow> spells s k s'"
  by (simp add: spells_def later_def inside_def)

lemma string_content_spells:
  "scan_string_content p start s = Ok (k, s') \<Longrightarrow>
     \<exists>n. n < length (unread s) \<and> unread s ! n = CHR 0x22 \<and> s' = bump_n (Suc n) s \<and>
         k = T_Str (slice start (sn_offset s + n) (sn_input s))"
proof (induction p start s rule: scan_string_content.induct)
  case (1 p start s)
  show ?case
  proof (cases "unread s")
    case Nil
    with 1(2) show ?thesis by (subst (asm) scan_string_content.simps) (simp add: peek_unread)
  next
    case (Cons c r)
    show ?thesis
    proof (cases "c = CHR 0x22")
      case True
      with 1(2) Cons show ?thesis
        by (subst (asm) scan_string_content.simps) (auto simp: peek_unread intro!: exI [of _ 0])
    next
      case False
      with 1(2) Cons have go: "scan_string_content p start (bump_ascii s) = Ok (k, s')"
        "c \<noteq> CHR 0x5C" "0x20 \<le> code c \<and> code c \<le> 0x7E"
        by (subst (asm) scan_string_content.simps, auto simp: peek_unread split: if_splits)+
      from 1(1) [OF _ False go(2,3,1)] Cons obtain n where
        "n < length (unread (bump_ascii s))" "unread (bump_ascii s) ! n = CHR 0x22"
        "s' = bump_n (Suc n) (bump_ascii s)"
        "k = T_Str (slice start (sn_offset (bump_ascii s) + n) (sn_input (bump_ascii s)))"
        by (auto simp: peek_unread)
      with Cons show ?thesis by (intro exI [of _ "Suc n"]) auto
    qed
  qed
qed

lemma scan_string_spells:
  assumes "scan_string p s = Ok (k, s')" "peek s = Some CHR 0x22"
  shows "spells s k s'"
proof -
  obtain r where u: "unread s = CHR 0x22 # r" using assms(2) by (auto simp: peek_unread split: list.splits)
  have "drop (Suc (sn_offset s)) (sn_input s) = r"
    using arg_cong [OF u, of tl] by (simp add: unread_def drop_Suc tl_drop)
  with assms(1) obtain n where n: "n < length r" "r ! n = CHR 0x22" "s' = bump_n (Suc (Suc n)) s"
    "k = T_Str (take n r)"
    by (auto simp: scan_string_def Let_def u slice_def dest!: string_content_spells)
  have "take (Suc n) r = take n r @ [CHR 0x22]" using n(1,2) by (simp add: take_Suc_conv_app_nth)
  moreover have "inside s'"
    using n(1,3) arg_cong [OF u, of length] by (simp add: inside_def unread_def)
  ultimately show ?thesis using n u
    by (intro spells_later) (auto simp: slice_def unread_def)
qed

lemma scan_fraction_later: "scan_fraction s = (b, s') \<Longrightarrow> later s s' \<and> (inside s \<longrightarrow> inside s')"
  by (auto simp: scan_fraction_def inside_peek split: if_splits)

lemma scan_exponent_later: "scan_exponent s = (b, s') \<Longrightarrow> later s s' \<and> (inside s \<longrightarrow> inside s')"
proof -
  assume e: "scan_exponent s = (b, s')"
  define step where "step s1 = (if is_exponent_sign (peek s1) then bump_ascii s1 else s1)" for s1
  have step: "later s s1 \<Longrightarrow> later s (step s1)" "inside s1 \<Longrightarrow> inside (step s1)" for s1
    by (auto simp: step_def is_exponent_sign_def inside_peek)
  have "s' = s \<or> (\<exists>c. peek s = Some c) \<and> s' = bump_while is_ascii_digit (step (bump_ascii s))"
    using e by (auto simp: scan_exponent_def Let_def step_def split: if_splits)
  then show ?thesis using step by (auto simp: inside_peek)
qed

lemma literal_slice_spells:
  assumes "later s s'" "sn_offset s < sn_offset s'" "inside s'" "sp_offset p = sn_offset s"
    "spelling k = literal_slice p s'"
  shows "spells s k s'"
  using assms by (intro spells_later) (auto simp: literal_slice_def later_def)

lemma scan_hex_spells:
  assumes "scan_hex_tail p neg s = Ok (k, s')" "peek s = Some c" "sp_offset p \<le> sn_offset s"
    "later s0 s" "sp_offset p = sn_offset s0"
  shows "spells s0 k s'"
proof -
  have s': "s' = bump_hex (sn_offset (bump_ascii s)) (bump_ascii s)" "spelling k = literal_slice p s'"
    using assms(1) by (auto simp: scan_hex_tail_def Let_def split: if_splits option.splits)
  then have l: "later (bump_ascii s) s'" "inside s'"
    using inside_peek [OF assms(2)] by auto
  then show ?thesis
    using s'(2) assms(4,5) by (intro literal_slice_spells) (auto simp: later_def)
qed

lemma scan_number_spells:
  assumes "scan_number p neg s = Ok (k, s')" "is_some_and is_ascii_digit (peek s)" "later s0 s"
    "sp_offset p = sn_offset s0"
  shows "spells s0 k s'"
proof -
  let ?s1 = "bump_while is_ascii_digit s"
  have in1: "inside ?s1" "sn_offset s < sn_offset ?s1"
  proof -
    have "inside s" using assms(2) by (auto simp: is_some_and_def inside_def dest!: peek_Some_less split: option.splits)
    then show "inside ?s1" by simp
    show "sn_offset s < sn_offset ?s1"
      using assms(2) by (auto simp: is_some_and_def bump_while_eq peek_unread split: option.splits list.splits)
  qed
  obtain k1 s2 b1 s3 b2 where sc: "scan_fraction ?s1 = (b1, s2)" "scan_exponent s2 = (b2, s3)"
    by fastforce
  have later: "later ?s1 s3" "inside s3"
    using scan_fraction_later [OF sc(1)] scan_exponent_later [OF sc(2)] in1 later_trans by blast+
  show ?thesis
  proof (cases "peek ?s1 = Some CHR ''x'' \<and> slice (sn_offset s) (sn_offset ?s1) (sn_input ?s1) = ''0''")
    case True
    then have "scan_hex_tail p neg ?s1 = Ok (k, s')" using assms(1) by (simp add: scan_number_def Let_def)
    then show ?thesis
      by (rule scan_hex_spells [OF _ True [THEN conjunct1]])
        (use assms(3,4) in \<open>auto simp: later_def bump_while_eq\<close>)
  next
    case False
    then have "s' = s3" "spelling k = literal_slice p s3"
      using assms(1) sc
      by (auto simp: scan_number_def Let_def split: if_splits option.splits)
    moreover have "sn_input ?s1 = sn_input s" by (simp add: bump_while_eq)
    ultimately show ?thesis
      using later in1 assms(3,4) by (intro literal_slice_spells) (auto simp: later_def)
  qed
qed

lemma scan_kind_spells:
  assumes "scan_kind byte p s = Ok (k, s')" "peek s = Some byte" "sp_offset p = sn_offset s"
  shows "spells s k s'"
proof -
  obtain r where u: "unread s = byte # r" using assms(2) by (auto simp: peek_unread split: list.splits)
  have one: "spells s k s'" if "spelling k = [byte]" "s' = bump_n (Suc 0) s"
    using that u inside_peek [OF assms(2)] by (intro spells_later) (auto simp: slice_def unread_def)
  have word: "spells s k s'" if "scan_word s = (k, s')" "is_ascii_alphabetic byte"
  proof -
    have n: "takeWhile is_ascii_alphanumeric (unread s) \<noteq> []"
      using u that(2) by (simp add: is_ascii_alphanumeric_def)
    have "inside s'" using that(1) inside_runs(1) [of s] peek_Some_less [OF assms(2)]
      by (auto simp: scan_word_def Let_def inside_def)
    with that(1) n show ?thesis
      by (intro spells_later) (auto simp: scan_word_def Let_def bump_while_eq simp flip: takeWhile_eq_take)
  qed
  have neg: "spells s k s'"
    if "scan_number p True (bump_ascii s) = Ok (k, s')" "is_some_and is_ascii_digit (peek_ahead 1 s)"
  proof -
    have "peek (bump_ascii s) = peek_ahead 1 s" by (simp add: peek_def peek_ahead_def)
    then show ?thesis using that assms(3) by (intro scan_number_spells) auto
  qed
  have num: "spells s k s'" if "scan_number p False s = Ok (k, s')" "is_ascii_digit byte"
    using that assms(2,3) by (intro scan_number_spells) (auto simp: is_some_and_def)
  show ?thesis
    using assms(1,2) one word neg num scan_string_spells
    by (auto simp: scan_kind_def single_def split: if_splits)
qed

lemma next_token_spells:
  assumes "next_token s = Ok (Some t, s')"
  shows "tk_pos t = current_pos (skip_whitespace s)" "spells (skip_whitespace s) (tk_kind t) s'"
  using assms scan_kind_spells [of _ "current_pos (skip_whitespace s)" "skip_whitespace s" "tk_kind t" s']
  by (auto simp: next_token_def Let_def res_simps current_pos_def split: option.splits if_splits)

lemma next_token_end: "next_token s = Ok (None, s') \<Longrightarrow> s' = skip_whitespace s \<and> unread s' = []"
  by (auto simp: next_token_def Let_def res_simps peek_unread split: option.splits if_splits list.splits)

text \<open>Every token consumes input.\<close>

lemma next_token_shorter:
  assumes "next_token s = Ok (Some t, s')"
  shows "length (unread s') < length (unread s)" "sn_input s' = sn_input s"
  using next_token_spells(2) [OF assms] later_skip [of s]
  by (auto simp: spells_def later_def unread_def)

lemma next_token_end_shorter: "next_token s = Ok (None, s') \<Longrightarrow> length (unread s') \<le> length (unread s)"
  using next_token_end by fastforce

subsection \<open>Reading a given text\<close>

text \<open>\<open>reads u k r\<close>: from a scanner before the text \<open>u\<close>, the next token has kind \<open>k\<close> and leaves \<open>r\<close>.\<close>

definition reads :: "rust_str \<Rightarrow> token_kind \<Rightarrow> rust_str \<Rightarrow> bool" where
  "reads u k r \<longleftrightarrow>
     (\<forall>s. unread s = u \<longrightarrow>
        (\<exists>p s'. next_token s = Ok (Some \<lparr>tk_kind = k, tk_pos = p\<rparr>, s') \<and> unread s' = r))"

lemma reads_blank [simp]: "reads u k r \<Longrightarrow> reads (CHR '' '' # u) k r" "reads u k r \<Longrightarrow> reads (CHR 0x0A # u) k r"
proof -
  have "next_token s = next_token (bump_n (Suc 0) s)" if "unread s = CHR '' '' # u" for s
    unfolding next_token_def using that by (subst skip_whitespace_unfold) simp
  then show "reads u k r \<Longrightarrow> reads (CHR '' '' # u) k r" by (auto simp: reads_def)
  have "next_token s = next_token (advance_newline s)" if "unread s = CHR 0x0A # u" for s
    unfolding next_token_def using that by (subst skip_whitespace_unfold) simp
  then show "reads u k r \<Longrightarrow> reads (CHR 0x0A # u) k r" by (auto simp: reads_def)
qed

definition is_blank :: "char \<Rightarrow> bool" where
  "is_blank c \<longleftrightarrow> c = CHR '' '' \<or> c = CHR 0x09 \<or> c = CHR 0x0A \<or> c = CHR 0x0D"

lemma readsI:
  assumes "\<not> is_blank c" "code c < 0x80"
    "\<And>s. unread s = c # u \<Longrightarrow> \<exists>s'. scan_kind c (current_pos s) s = Ok (k, s') \<and> unread s' = r"
  shows "reads (c # u) k r"
  unfolding reads_def
proof (intro allI impI)
  fix s assume s: "unread s = c # u"
  then have "skip_whitespace s = s"
    using assms(1) by (subst skip_whitespace_unfold) (simp add: is_blank_def)
  moreover have "peek s = Some c" using s by (simp add: peek_unread)
  ultimately show "\<exists>p s'. next_token s = Ok (Some \<lparr>tk_kind = k, tk_pos = p\<rparr>, s') \<and> unread s' = r"
    using assms(3) [OF s] assms(2) by (auto simp: next_token_def res_simps)
qed

lemma code_literals [simp]:
  "code CHR ''<'' = 60" "code CHR ''>'' = 62" "code CHR ''['' = 91" "code CHR '']'' = 93"
  "code CHR ''.'' = 46" "code CHR ''-'' = 45" "code CHR 0x22 = 34" "code CHR 0x5C = 92"
  "code CHR '' '' = 32" "code CHR 0x09 = 9" "code CHR 0x0A = 10" "code CHR 0x0D = 13"
  "code CHR ''x'' = 120" "code CHR ''X'' = 88" "code CHR ''0'' = 48" "code CHR ''e'' = 101"
  "code CHR ''E'' = 69" "code CHR ''+'' = 43"
  by (simp_all add: code_def)

lemma reads_punctuation [simp]:
  "reads (CHR ''<'' # r) T_Lt r" "reads (CHR ''>'' # r) T_Gt r" "reads (CHR ''['' # r) T_LBracket r"
  "reads (CHR '']'' # r) T_RBracket r" "reads (CHR ''.'' # r) T_Dot r"
  by (rule readsI; simp add: is_blank_def scan_kind_def single_def)+

lemma alphabetic_other:
  assumes "is_ascii_alphabetic c"
  shows "c \<noteq> CHR ''.''" "c \<noteq> CHR ''<''" "c \<noteq> CHR ''>''" "c \<noteq> CHR ''[''" "c \<noteq> CHR '']''"
    "c \<noteq> CHR 0x22" "c \<noteq> CHR ''-''" "\<not> is_ascii_digit c" "\<not> is_blank c" "code c < 0x80"
  using assms by (auto simp: is_ascii_alphabetic_def is_ascii_digit_def is_blank_def)

lemma reads_word:
  assumes "is_ascii_alphabetic c" "c \<noteq> CHR ''x''" "c \<noteq> CHR ''X''" "\<forall>d \<in> set w. is_ascii_alphanumeric d"
    "stops is_ascii_alphanumeric r"
  shows "reads (c # w @ r) (T_Word (c # w)) r"
proof (rule readsI)
  fix s assume "unread s = c # w @ r"
  then have u: "unread s = (c # w) @ r" by simp
  have "bump_while is_ascii_alphanumeric s = bump_n (length (c # w)) s"
    by (rule bump_while_run [OF u]) (use assms in \<open>auto simp: is_ascii_alphanumeric_def\<close>)
  then have "scan_word s = (T_Word (c # w), bump_n (length (c # w)) s)"
    using u by (simp add: scan_word_def Let_def slice_def unread_def)
  then show "\<exists>s'. scan_kind c (current_pos s) s = Ok (T_Word (c # w), s') \<and> unread s' = r"
    using assms(1-3) alphabetic_other [OF assms(1)] u by (simp add: scan_kind_def)
qed (use alphabetic_other [OF assms(1)] in auto)

definition is_quotable :: "char \<Rightarrow> bool" where
  "is_quotable c \<longleftrightarrow> 0x20 \<le> code c \<and> code c \<le> 0x7E \<and> c \<noteq> CHR 0x22 \<and> c \<noteq> CHR 0x5C"

lemma string_content_run:
  "unread s = t @ CHR 0x22 # r \<Longrightarrow> \<forall>c \<in> set t. is_quotable c \<Longrightarrow>
     scan_string_content p start s =
       Ok (T_Str (slice start (sn_offset s + length t) (sn_input s)), bump_n (Suc (length t)) s)"
proof (induction t arbitrary: s)
  case Nil
  then show ?case by (subst scan_string_content.simps) (simp add: peek_unread)
next
  case (Cons c t)
  then have "scan_string_content p start (bump_n (Suc 0) s) =
      Ok (T_Str (slice start (sn_offset s + length (c # t)) (sn_input s)), bump_n (Suc (length (c # t))) s)"
    by (subst Cons.IH) auto
  with Cons.prems show ?case
    by (subst scan_string_content.simps) (simp add: peek_unread is_quotable_def)
qed

lemma reads_string:
  assumes "\<forall>c \<in> set t. is_quotable c"
  shows "reads (CHR 0x22 # t @ CHR 0x22 # r) (T_Str t) r"
proof (rule readsI)
  fix s assume u: "unread s = CHR 0x22 # t @ CHR 0x22 # r"
  then have "unread (bump_ascii s) = t @ CHR 0x22 # r" by simp
  from string_content_run [OF this assms] u
  have "scan_string p s = Ok (T_Str t, bump_n (Suc (Suc (length t))) s)" for p
    using slice_bump(2) [of s "Suc 0" "Suc (length t)"] by (simp add: scan_string_def Let_def)
  with u show "\<exists>s'. scan_kind CHR 0x22 (current_pos s) s = Ok (T_Str t, s') \<and> unread s' = r"
    by (simp add: scan_kind_def)
qed (simp_all add: is_blank_def)

text \<open>Numbers. What follows a number must not continue it.\<close>

definition ends_number :: "rust_str \<Rightarrow> bool" where
  "ends_number r \<longleftrightarrow> stops (\<lambda>c. is_ascii_alphanumeric c \<or> c = CHR ''.'') r"

lemma ends_number_stops:
  assumes "ends_number r"
  shows "stops is_ascii_digit r" "stops is_ascii_hexdigit r"
    "r = [] \<or> hd r \<noteq> CHR ''.'' \<and> hd r \<noteq> CHR ''x'' \<and> hd r \<noteq> CHR ''e'' \<and> hd r \<noteq> CHR ''E''"
  using assms by (cases r; auto simp: ends_number_def char_classes)+

lemma digit_other:
  assumes "is_ascii_digit c"
  shows "c \<noteq> CHR ''.''" "c \<noteq> CHR ''<''" "c \<noteq> CHR ''>''" "c \<noteq> CHR ''[''" "c \<noteq> CHR '']''"
    "c \<noteq> CHR 0x22" "c \<noteq> CHR ''-''" "\<not> is_blank c" "code c < 0x80"
  using assms by (auto simp: is_ascii_digit_def is_blank_def)

lemma scan_hex_run:
  assumes u: "unread s = CHR ''x'' # d # e # r" and d: "is_ascii_hexdigit d" "is_ascii_hexdigit e"
    and r: "stops is_ascii_hexdigit r" and e: "e \<noteq> CHR ''x''"
  shows "scan_hex_tail p False s =
    Ok (T_HexByte (word_of_nat (from_digits 16 [d, e])) (literal_slice p (bump_n 3 s)), bump_n 3 s)"
proof -
  have "bump_hex (Suc (sn_offset s)) (bump_n (Suc 0) s) = bump_n 3 s"
  proof -
    have 3: "bump_hex (Suc (sn_offset s)) (bump_n 3 s) = bump_n 3 s"
      using u r by (subst bump_hex.simps) (cases r; simp add: peek_unread is_some_and_def numeral_3_eq_3)
    have 2: "bump_hex (Suc (sn_offset s)) (bump_n 2 s) = bump_hex (Suc (sn_offset s)) (bump_n 3 s)"
      using u d by (subst bump_hex.simps) (simp add: peek_unread is_some_and_def numeral_2_eq_2 numeral_3_eq_3)
    have "bump_hex (Suc (sn_offset s)) (bump_n (Suc 0) s) = bump_hex (Suc (sn_offset s)) (bump_n 2 s)"
      using u d by (subst bump_hex.simps) (simp add: peek_unread is_some_and_def numeral_2_eq_2)
    with 2 3 show ?thesis by simp
  qed
  moreover have "slice (Suc (sn_offset s)) (sn_offset s + 3) (sn_input s) = [d, e]"
    using slice_bump(2) [of s "Suc 0" 3] u by (simp add: numeral_3_eq_3)
  ultimately show ?thesis by (simp add: scan_hex_tail_def Let_def)
qed

lemma scan_digits_run:
  assumes "unread s = ds @ r" "all_digits ds" "stops is_ascii_digit r"
  shows "bump_while is_ascii_digit s = bump_n (length ds) s"
  using bump_while_run [OF assms(1) _ assms(3)] assms(2) by (simp add: all_digits_def)

lemma reads_hex_byte:
  assumes "stops is_ascii_hexdigit r"
  shows "reads (''0x'' @ show_hex2 b @ r) (T_HexByte b (''0x'' @ show_hex2 b)) r"
proof -
  let ?d = "upper_hex_digit (unat b div 16)" and ?e = "upper_hex_digit (unat b mod 16)"
  have hex: "is_ascii_hexdigit ?d" "is_ascii_hexdigit ?e" "?e \<noteq> CHR ''x''"
    using upper_hex_digit_facts [of "unat b div 16"] upper_hex_digit_facts [of "unat b mod 16"]
      unat_u8_less [of b] by auto
  have "reads (CHR ''0'' # CHR ''x'' # ?d # ?e # r) (T_HexByte b (''0x'' @ show_hex2 b)) r"
  proof (rule readsI)
    fix s assume u: "unread s = CHR ''0'' # CHR ''x'' # ?d # ?e # r"
    let ?p = "current_pos s"
    have run: "bump_while is_ascii_digit s = bump_n (Suc 0) s"
      using scan_digits_run [of s "''0''" "CHR ''x'' # ?d # ?e # r"] u by simp
    have "unread (bump_n (Suc 0) s) = CHR ''x'' # ?d # ?e # r" using u by simp
    note hx = scan_hex_run [OF this hex(1,2) assms hex(3), of ?p]
    have "literal_slice ?p (bump_n 4 s) = ''0x'' @ show_hex2 b"
      using u by (simp add: literal_slice_def current_pos_def show_hex2_def)
    moreover have "slice (sn_offset s) (Suc (sn_offset s)) (sn_input s) = ''0''"
      using u by (simp add: slice_def unread_def)
    moreover from this have "scan_number ?p False s = scan_hex_tail ?p False (bump_n (Suc 0) s)"
      using u by (simp add: scan_number_def Let_def run peek_unread)
    moreover have "word_of_nat (from_digits 16 [?d, ?e]) = b"
      using from_digits_show_hex2 [of b] by (simp add: show_hex2_def)
    ultimately have "scan_number ?p False s = Ok (T_HexByte b (''0x'' @ show_hex2 b), bump_n 4 s)"
      using hx by simp
    with u show "\<exists>s'. scan_kind CHR ''0'' ?p s = Ok (T_HexByte b (''0x'' @ show_hex2 b), s') \<and> unread s' = r"
      by (simp add: scan_kind_def)
  qed (simp_all add: is_blank_def)
  then show ?thesis by (simp add: show_hex2_def)
qed

lemma scan_fraction_run:
  assumes "unread s = (if fp = [] then [] else CHR ''.'' # fp) @ r" "all_digits fp"
    "stops is_ascii_digit r" "stops (\<lambda>c. c = CHR ''.'') r"
  shows "scan_fraction s = (fp \<noteq> [], bump_n (if fp = [] then 0 else Suc (length fp)) s)"
proof (cases fp)
  case Nil
  with assms(1,4) show ?thesis by (cases r) (auto simp: scan_fraction_def peek_unread)
next
  case (Cons c cs)
  with assms(1) have "unread (bump_n (Suc 0) s) = fp @ r" by simp
  from scan_digits_run [OF this assms(2,3)] Cons assms(1,2) show ?thesis
    by (simp add: scan_fraction_def peek_unread peek_ahead_unread is_some_and_def)
qed

lemma scan_exponent_run:
  assumes "unread s = ep @ r" "exponent_text ep e" "ends_number r"
  shows "scan_exponent s = (ep \<noteq> [], bump_n (length ep) s)"
proof (cases "ep = []")
  case True
  with assms(1) ends_number_stops(3) [OF assms(3)] show ?thesis
    by (cases r) (auto simp: scan_exponent_def peek_unread)
next
  case False
  then have ep: "ep = CHR ''e'' # show_int e" using assms(2) by (auto simp: exponent_text_def)
  let ?n = "nat \<bar>e\<bar>"
  obtain d ds where d: "show_nat ?n = d # ds" by (cases "show_nat ?n") auto
  then have dig: "is_ascii_digit d" "all_digits (d # ds)" using all_digits_show_nat [of ?n] by simp_all
  note st = ends_number_stops(1) [OF assms(3)]
  show ?thesis
  proof (cases "e < 0")
    case True
    with ep d have u: "unread s = CHR ''e'' # CHR ''-'' # (d # ds) @ r" "length ep = Suc (Suc (length (d # ds)))"
      using assms(1) by (simp_all add: show_int_def)
    have "unread (bump_n 2 s) = (d # ds) @ r" using u by simp
    from scan_digits_run [OF this dig(2) st] u False dig(1) show ?thesis
      by (simp add: scan_exponent_def peek_unread peek_ahead_unread is_some_and_def is_exponent_sign_def
          numeral_2_eq_2)
  next
    case nonneg: False
    with ep d have u: "unread s = CHR ''e'' # (d # ds) @ r" "length ep = Suc (length (d # ds))"
      using assms(1) by (simp_all add: show_int_def)
    have "unread (bump_n (Suc 0) s) = (d # ds) @ r" using u by simp
    moreover have "d \<noteq> CHR ''+''" "d \<noteq> CHR ''-''" using dig(1) by auto
    ultimately show ?thesis
      using scan_digits_run [of "bump_n (Suc 0) s", OF _ dig(2) st] u False dig(1)
      by (simp add: scan_exponent_def peek_unread peek_ahead_unread is_some_and_def
          is_exponent_sign_def Let_def)
  qed
qed

text \<open>A numeral without its sign.\<close>

definition numeral_end :: "rust_str \<Rightarrow> rust_str \<Rightarrow> rust_str \<Rightarrow> rust_str" where
  "numeral_end fp ep r = (if fp = [] then [] else CHR ''.'' # fp) @ ep @ r"

lemma literal_text_numeral:
  "literal_text neg ip fp ep @ r = (if neg then ''-'' else []) @ ip @ numeral_end fp ep r"
  by (simp add: literal_text_def numeral_end_def)

lemma scan_number_run:
  assumes u: "unread s = ip @ numeral_end fp ep r"
    and ip: "all_digits ip" "ip \<noteq> []" and fp: "all_digits fp" and ep: "exponent_text ep e"
    and r: "ends_number r"
  defines "s' \<equiv> bump_n (length ip + (if fp = [] then 0 else Suc (length fp)) + length ep) s"
  shows "scan_number p neg s =
    (if fp \<noteq> [] \<or> ep \<noteq> [] then Ok (T_Float (literal_slice p s'), s')
     else case i128_from_digits 10 ip of
            Some v \<Rightarrow> Ok (T_Int (signed neg v) False (literal_slice p s'), s')
          | None \<Rightarrow> Err (NumberTooLarge p (literal_slice p s')))"
proof -
  let ?s1 = "bump_n (length ip) s"
  let ?s2 = "bump_n (if fp = [] then 0 else Suc (length fp)) ?s1"
  note rs = ends_number_stops [OF r]
  have e: "stops is_ascii_digit (ep @ r)" "stops (\<lambda>c. c = CHR ''.'') (ep @ r)"
    using ep rs by (auto simp: exponent_text_def) (cases r; simp)
  have st: "stops is_ascii_digit (numeral_end fp ep r)" "stops (\<lambda>c. c = CHR ''x'') (numeral_end fp ep r)"
    using ep rs by (auto simp: exponent_text_def numeral_end_def) (cases r; simp)+
  have s1: "bump_while is_ascii_digit s = ?s1" by (rule scan_digits_run [OF u ip(1) st(1)])
  have dig: "slice (sn_offset s) (sn_offset ?s1) (sn_input ?s1) = ip" using u by simp
  have no_hex: "peek ?s1 \<noteq> Some CHR ''x''"
    using u st(2) by (cases "numeral_end fp ep r") (auto simp: peek_unread)
  have "unread ?s1 = (if fp = [] then [] else CHR ''.'' # fp) @ (ep @ r)"
    using u by (simp add: numeral_end_def)
  from scan_fraction_run [OF this fp e] have s2: "scan_fraction ?s1 = (fp \<noteq> [], ?s2)" .
  have "unread ?s2 = ep @ r" using u by (simp add: numeral_end_def)
  from scan_exponent_run [OF this ep r] have s3: "scan_exponent ?s2 = (ep \<noteq> [], s')"
    by (simp add: s'_def)
  show ?thesis
    unfolding scan_number_def Let_def s1 dig
    using no_hex by (simp only: s2 s3 prod.case if_False simp_thms)
qed

lemma reads_number:
  assumes ip: "all_digits ip" "ip \<noteq> []" and fp: "all_digits fp" and ep: "exponent_text ep e"
    and r: "ends_number r"
    and k: "if fp \<noteq> [] \<or> ep \<noteq> [] then k = T_Float (literal_text neg ip fp ep)
      else \<exists>v. i128_from_digits 10 ip = Some v \<and> k = T_Int (signed neg v) False (literal_text neg ip fp ep)"
  shows "reads (literal_text neg ip fp ep @ r) k r"
proof -
  let ?num = "ip @ numeral_end fp ep r"
  obtain c cs where c: "ip = c # cs" "is_ascii_digit c" using ip by (cases ip) auto
  have result: "\<exists>s'. scan_number p neg s = Ok (k, s') \<and> unread s' = r"
    if u: "unread s = ?num" and p: "sp_offset p + length (if neg then ''-'' else []) = sn_offset s"
      "drop (sp_offset p) (sn_input s) = literal_text neg ip fp ep @ r" for s p
  proof -
    let ?n = "length ip + (if fp = [] then 0 else Suc (length fp)) + length ep"
    have "literal_slice p (bump_n ?n s) = literal_text neg ip fp ep"
      using p by (auto simp: literal_slice_def slice_def literal_text_def simp flip: p(1))
    moreover have "unread (bump_n ?n s) = r" using u by (simp add: numeral_end_def)
    ultimately show ?thesis
      using k scan_number_run [OF u ip fp ep r, of p neg] by auto
  qed
  show ?thesis
  proof (cases neg)
    case True
    have "reads (CHR ''-'' # ?num) k r"
    proof (rule readsI)
      fix s assume u: "unread s = CHR ''-'' # ?num"
      have "\<exists>s'. scan_number (current_pos s) neg (bump_n (Suc 0) s) = Ok (k, s') \<and> unread s' = r"
        using u True
        by (intro result) (simp_all add: current_pos_def literal_text_numeral flip: unread_def)
      with u True c show "\<exists>s'. scan_kind CHR ''-'' (current_pos s) s = Ok (k, s') \<and> unread s' = r"
        by (simp add: scan_kind_def peek_ahead_unread is_some_and_def)
    qed (simp_all add: is_blank_def)
    with True show ?thesis by (simp add: literal_text_numeral)
  next
    case False
    have "reads (c # cs @ numeral_end fp ep r) k r"
    proof (rule readsI)
      fix s assume "unread s = c # cs @ numeral_end fp ep r"
      then have u: "unread s = ?num" by (simp add: c)
      have "\<exists>s'. scan_number (current_pos s) neg s = Ok (k, s') \<and> unread s' = r"
        using u False
        by (intro result) (simp_all add: current_pos_def literal_text_numeral flip: unread_def)
      then show "\<exists>s'. scan_kind c (current_pos s) s = Ok (k, s') \<and> unread s' = r"
        using digit_other [OF c(2)] c(2) False by (simp add: scan_kind_def)
    qed (use digit_other [OF c(2)] in auto)
    with False c show ?thesis by (simp add: literal_text_numeral)
  qed
qed

lemma show_int_literal: "show_int i = literal_text (i < 0) (show_nat (nat \<bar>i\<bar>)) [] []"
  by (simp add: show_int_def literal_text_def)

lemma reads_int:
  assumes "ends_number r" "\<bar>i\<bar> \<le> i128_max"
  shows "reads (show_int i @ r) (T_Int i False (show_int i)) r"
  unfolding show_int_literal
  by (rule reads_number [where e = 0])
    (use assms in \<open>auto simp: exponent_text_def i128_from_digits_def signed_def\<close>)

end
