(* ===== verification/Sml_Parser.thy ===== *)
theory Sml_Parser
  imports Sml_Lexing
begin

section \<open>SML: the parser\<close>

text \<open>
  \<open>src/sml/parser.rs\<close> and \<open>message.rs\<close>. Tokens are drawn through a cursor with one token of
  lookahead; an item tree is built with an explicit stack of open lists, whose top is the head of
  \<open>ic_stack\<close>. The nested loop of \<open>parse_root_item\<close> is the pair of \<open>parse_root\<close> (an item
  starts here) and \<open>list_body\<close> (between the children of the innermost open list).
\<close>

record sml_message =
  sm_stream :: stream
  sm_function :: sfunction
  sm_wait_bit :: bool
  sm_body :: "secs_item option"

definition MAX_STREAM :: nat where "MAX_STREAM = 127"
definition MAX_FUNCTION :: nat where "MAX_FUNCTION = 255"

subsection \<open>Diagnostics\<close>

fun describe_kind :: "token_kind \<Rightarrow> rust_str" where
  "describe_kind (T_Word w) = ''word '' @ [CHR 0x22] @ w @ [CHR 0x22]"
| "describe_kind (T_Str _) = ''quoted ASCII string''"
| "describe_kind (T_HexByte _ _) = ''hexadecimal byte''"
| "describe_kind (T_Int _ _ _) = ''integer literal''"
| "describe_kind (T_Float _) = ''floating-point literal''"
| "describe_kind T_Lt = ''<''"
| "describe_kind T_Gt = ''>''"
| "describe_kind T_LBracket = ''[''"
| "describe_kind T_RBracket = '']''"
| "describe_kind T_Dot = ''.''"

definition unexpected :: "source_pos \<Rightarrow> rust_str \<Rightarrow> rust_str \<Rightarrow> parse_error" where
  "unexpected pos expected found = UnexpectedToken pos expected found"

text \<open>\<open>quoted p s\<close> is \<open>p\<close> followed by \<open>s\<close> between single quotes.\<close>

definition quoted :: "rust_str \<Rightarrow> rust_str \<Rightarrow> rust_str" where
  "quoted p s = p @ [CHR 0x27] @ s @ [CHR 0x27]"

definition unexpected_token :: "token \<Rightarrow> rust_str \<Rightarrow> parse_error" where
  "unexpected_token tok expected = unexpected (tk_pos tok) expected (describe_kind (tk_kind tok))"

definition trailing_preview :: "rust_str \<Rightarrow> source_pos \<Rightarrow> rust_str" where
  "trailing_preview input pos =
     (if is_char_boundary (sp_offset pos) input then take_chars 20 (drop (sp_offset pos) input)
      else [])"

subsection \<open>The header word\<close>

text \<open>A \<open>u64\<close> accumulator: \<open>None\<close> when it overflows.\<close>

fun fold_digits :: "nat \<Rightarrow> rust_str \<Rightarrow> nat option" where
  "fold_digits v [] = Some v"
| "fold_digits v (d # ds) =
     (case checked_mul v 10 of
        None \<Rightarrow> None
      | Some x \<Rightarrow>
          (case checked_add x (code d - 48) of None \<Rightarrow> None | Some y \<Rightarrow> fold_digits y ds))"

definition digit_run :: "rust_str \<Rightarrow> nat \<Rightarrow> (nat \<times> nat) option" where
  "digit_run word start =
     (let digits = takeWhile is_ascii_digit (drop start word)
      in if digits = [] then None
         else Some (case fold_digits 0 digits of Some v \<Rightarrow> v | None \<Rightarrow> usize_max,
                    start + length digits))"

definition byte_at :: "rust_str \<Rightarrow> nat \<Rightarrow> char option" where
  "byte_at word i = (if i < length word then Some (word ! i) else None)"

definition parse_header_word :: "rust_str \<Rightarrow> (nat \<times> nat) option" where
  "parse_header_word word =
     (if byte_at word 0 \<noteq> Some CHR ''S'' then None
      else case digit_run word 1 of
             None \<Rightarrow> None
           | Some (strm, after_stream) \<Rightarrow>
               if byte_at word after_stream \<noteq> Some CHR ''F'' then None
               else case digit_run word (after_stream + 1) of
                      None \<Rightarrow> None
                    | Some (function, after_function) \<Rightarrow>
                        if after_function \<noteq> length word then None else Some (strm, function))"

subsection \<open>Integer elements\<close>

text \<open>\<open>IntegerElement::from_scanned\<close> is \<open>try_from\<close> of the element type.\<close>

definition from_scanned_signed :: "int \<Rightarrow> 'w::len word option" where
  "from_scanned_signed v =
     (if - (2 ^ (LENGTH('w) - 1)) \<le> v \<and> v < 2 ^ (LENGTH('w) - 1) then Some (word_of_int v) else None)"

definition from_scanned_unsigned :: "int \<Rightarrow> 'w::len word option" where
  "from_scanned_unsigned v = (if 0 \<le> v \<and> v < 2 ^ LENGTH('w) then Some (word_of_int v) else None)"

subsection \<open>Item types\<close>

datatype item_kind =
    Kind_List | Kind_Binary | Kind_Boolean | Kind_Ascii
  | Kind_I1 | Kind_I2 | Kind_I4 | Kind_I8 | Kind_U1 | Kind_U2 | Kind_U4 | Kind_U8
  | Kind_F4 | Kind_F8

definition classify_item_type :: "rust_str \<Rightarrow> source_pos \<Rightarrow> (item_kind, parse_error) result" where
  "classify_item_type word pos =
     (if word = ''L'' then Ok Kind_List
      else if word = ''B'' then Ok Kind_Binary
      else if word = ''BOOLEAN'' then Ok Kind_Boolean
      else if word = ''A'' then Ok Kind_Ascii
      else if word = ''I1'' then Ok Kind_I1
      else if word = ''I2'' then Ok Kind_I2
      else if word = ''I4'' then Ok Kind_I4
      else if word = ''I8'' then Ok Kind_I8
      else if word = ''U1'' then Ok Kind_U1
      else if word = ''U2'' then Ok Kind_U2
      else if word = ''U4'' then Ok Kind_U4
      else if word = ''U8'' then Ok Kind_U8
      else if word = ''F4'' then Ok Kind_F4
      else if word = ''F8'' then Ok Kind_F8
      else if word = ''J'' \<or> word = ''JIS8'' then Err (Sml_UnsupportedType pos word)
      else Err (UnknownType pos word))"

subsection \<open>The token cursor\<close>

record token_cursor =
  tc_scanner :: scanner
  tc_lookahead :: "token option"

definition token_cursor_new :: "scanner \<Rightarrow> token_cursor" where
  "token_cursor_new s = \<lparr>tc_scanner = s, tc_lookahead = None\<rparr>"

definition cursor_peek :: "token_cursor \<Rightarrow> (token option \<times> token_cursor, parse_error) result" where
  "cursor_peek c =
     (case tc_lookahead c of
        Some t \<Rightarrow> Ok (Some t, c)
      | None \<Rightarrow>
          bind_res (next_token (tc_scanner c)) (\<lambda>(t, s).
            Ok (t, c\<lparr>tc_scanner := s, tc_lookahead := t\<rparr>)))"

definition cursor_next :: "token_cursor \<Rightarrow> (token option \<times> token_cursor, parse_error) result" where
  "cursor_next c =
     (case tc_lookahead c of
        Some t \<Rightarrow> Ok (Some t, c\<lparr>tc_lookahead := None\<rparr>)
      | None \<Rightarrow> bind_res (next_token (tc_scanner c)) (\<lambda>(t, s). Ok (t, c\<lparr>tc_scanner := s\<rparr>)))"

definition eof_pos :: "token_cursor \<Rightarrow> source_pos" where
  "eof_pos c = current_pos (tc_scanner c)"

definition cursor_size :: "token_cursor \<Rightarrow> nat" where
  "cursor_size c = length (unread (tc_scanner c)) + (if tc_lookahead c = None then 0 else 1)"

lemma cursor_next_shorter:
  "cursor_next c = Ok (Some t, c') \<Longrightarrow> cursor_size c' < cursor_size c"
  by (auto simp: cursor_next_def cursor_size_def res_simps next_token_shorter split: option.splits)

lemma cursor_peek_shorter: "cursor_peek c = Ok (t, c') \<Longrightarrow> cursor_size c' \<le> cursor_size c"
  by (cases t) (auto simp: cursor_peek_def cursor_size_def res_simps Suc_le_eq next_token_end_shorter
      next_token_shorter split: option.splits)

text \<open>The next token where the grammar needs one.\<close>

definition need_token ::
  "rust_str \<Rightarrow> token_cursor \<Rightarrow> (token \<times> token_cursor, parse_error) result" where
  "need_token expected c =
     bind_res (cursor_next c) (\<lambda>(t, c).
       case t of
         None \<Rightarrow> Err (unexpected (eof_pos c) expected ''end of input'')
       | Some tok \<Rightarrow> Ok (tok, c))"

lemma need_token_shorter: "need_token e c = Ok (t, c') \<Longrightarrow> cursor_size c' < cursor_size c"
  by (auto simp: need_token_def res_simps cursor_next_shorter split: option.splits)

subsection \<open>Limits of a scalar body\<close>

definition saturating_add :: "usize \<Rightarrow> usize \<Rightarrow> usize" where
  "saturating_add a b = min (a + b) usize_max"

definition saturating_mul :: "usize \<Rightarrow> usize \<Rightarrow> usize" where
  "saturating_mul a b = min (a * b) usize_max"

definition check_declared_bytes ::
  "decode_limits \<Rightarrow> source_pos \<Rightarrow> usize option \<Rightarrow> usize \<Rightarrow> (unit, parse_error) result" where
  "check_declared_bytes L type_pos declared_count wire_width =
     (case declared_count of
        None \<Rightarrow> Ok ()
      | Some stated \<Rightarrow>
          let required_bytes = saturating_mul stated wire_width
          in if required_bytes > max_item_bytes L
             then Err (ItemBytesExceeded type_pos required_bytes (max_item_bytes L)) else Ok ())"

definition admit_body_element ::
  "decode_limits \<Rightarrow> source_pos \<Rightarrow> usize option \<Rightarrow> usize \<Rightarrow> usize \<Rightarrow> usize \<Rightarrow> usize \<Rightarrow>
     (usize, parse_error) result" where
  "admit_body_element L type_pos declared_count body_bytes element_count element_bytes element_gain =
     (let projected = saturating_add body_bytes element_bytes
      in if projected > max_item_bytes L
         then Err (ItemBytesExceeded type_pos projected (max_item_bytes L))
         else case declared_count of
                None \<Rightarrow> Ok projected
              | Some stated \<Rightarrow>
                  let next_count = saturating_add element_count element_gain
                  in if next_count > stated then Err (CountMismatch type_pos stated next_count)
                     else Ok projected)"

definition check_declared_count ::
  "source_pos \<Rightarrow> usize option \<Rightarrow> usize \<Rightarrow> (unit, parse_error) result" where
  "check_declared_count type_pos declared_count actual =
     (case declared_count of
        Some stated \<Rightarrow>
          if stated \<noteq> actual then Err (CountMismatch type_pos stated actual) else Ok ()
      | None \<Rightarrow> Ok ())"

subsection \<open>Bodies\<close>

text \<open>
  The five body parsers are one loop, \<open>loop { match self.tokens.next()? { ... } }\<close>, each with its
  own match, which continues with new accumulators or returns; every turn consumes a token.
\<close>

datatype ('s, 'v) turn = Continue 's | Done 'v

function body_loop ::
  "rust_str \<Rightarrow> (token \<Rightarrow> 's \<Rightarrow> (('s, 'v) turn, parse_error) result) \<Rightarrow> 's \<Rightarrow> token_cursor \<Rightarrow>
     ('v \<times> token_cursor, parse_error) result" where
  "body_loop expected step st c =
     bind_res (need_token expected c) (\<lambda>(tok, c).
       bind_res (step tok st) (\<lambda>t.
         case t of Continue st \<Rightarrow> body_loop expected step st c | Done v \<Rightarrow> Ok (v, c)))"
  by pat_completeness auto
termination
  by (relation "measure (\<lambda>(_, _, _, c). cursor_size c)") (auto dest: need_token_shorter)

declare body_loop.simps [simp del]

lemma body_loop_shorter:
  "body_loop expected step st c = Ok (v, c') \<Longrightarrow> cursor_size c' < cursor_size c"
proof (induction "cursor_size c" arbitrary: st c rule: less_induct)
  case less
  from less.prems obtain tok c1 t where t: "need_token expected c = Ok (tok, c1)"
    and rest: "(case t of Continue st \<Rightarrow> body_loop expected step st c1 | Done v \<Rightarrow> Ok (v, c1)) = Ok (v, c')"
    by (subst (asm) body_loop.simps) (auto simp: res_simps)
  from rest less.hyps [OF need_token_shorter [OF t]] need_token_shorter [OF t] show ?case
    by (cases t) force+
qed

text \<open>\<open>parse_binary_body\<close>: the accumulators are \<open>values\<close> and \<open>body_bytes\<close>.\<close>

definition close_values ::
  "source_pos \<Rightarrow> usize option \<Rightarrow> 'a list \<Rightarrow> (('a list \<times> usize, 'a list) turn, parse_error) result" where
  "close_values type_pos declared_count vs =
     bind_res (check_declared_count type_pos declared_count (length vs)) (\<lambda>_. Ok (Done vs))"

definition binary_turn ::
  "decode_limits \<Rightarrow> source_pos \<Rightarrow> usize option \<Rightarrow> token \<Rightarrow> u8 list \<times> usize \<Rightarrow>
     ((u8 list \<times> usize, u8 list) turn, parse_error) result" where
  "binary_turn L type_pos declared_count tok = (\<lambda>(vs, body_bytes).
     case tk_kind tok of
       T_Gt \<Rightarrow> close_values type_pos declared_count vs
     | T_HexByte v _ \<Rightarrow>
         bind_res (admit_body_element L type_pos declared_count body_bytes (length vs) 1 1)
           (\<lambda>body_bytes. Ok (Continue (vs @ [v], body_bytes)))
     | _ \<Rightarrow> Err (unexpected_token tok ''a 0xHH byte''))"

definition parse_binary_body ::
  "decode_limits \<Rightarrow> source_pos \<Rightarrow> usize option \<Rightarrow> token_cursor \<Rightarrow>
     (u8 list \<times> token_cursor, parse_error) result" where
  "parse_binary_body L type_pos declared_count c =
     bind_res (check_declared_bytes L type_pos declared_count 1) (\<lambda>_.
       body_loop ''a 0xHH byte'' (binary_turn L type_pos declared_count) ([], 0) c)"

definition boolean_turn ::
  "decode_limits \<Rightarrow> source_pos \<Rightarrow> usize option \<Rightarrow> token \<Rightarrow> bool list \<times> usize \<Rightarrow>
     ((bool list \<times> usize, bool list) turn, parse_error) result" where
  "boolean_turn L type_pos declared_count tok = (\<lambda>(vs, body_bytes).
     case tk_kind tok of
       T_Gt \<Rightarrow> close_values type_pos declared_count vs
     | T_Word word \<Rightarrow>
         bind_res (admit_body_element L type_pos declared_count body_bytes (length vs) 1 1)
           (\<lambda>body_bytes.
             if word = ''TRUE'' then Ok (Continue (vs @ [True], body_bytes))
             else if word = ''FALSE'' then Ok (Continue (vs @ [False], body_bytes))
             else Err (InvalidBoolean (tk_pos tok) word))
     | _ \<Rightarrow> Err (unexpected_token tok ''TRUE or FALSE''))"

definition parse_boolean_body ::
  "decode_limits \<Rightarrow> source_pos \<Rightarrow> usize option \<Rightarrow> token_cursor \<Rightarrow>
     (bool list \<times> token_cursor, parse_error) result" where
  "parse_boolean_body L type_pos declared_count c =
     bind_res (check_declared_bytes L type_pos declared_count 1) (\<lambda>_.
       body_loop ''TRUE or FALSE'' (boolean_turn L type_pos declared_count) ([], 0) c)"

text \<open>\<open>str::chars().count()\<close>: the bytes that do not continue a character.\<close>

definition char_count :: "rust_str \<Rightarrow> nat" where
  "char_count s = length (filter (\<lambda>c. \<not> (0x80 \<le> code c \<and> code c < 0xC0)) s)"

definition ascii_turn ::
  "decode_limits \<Rightarrow> source_pos \<Rightarrow> usize option \<Rightarrow> token \<Rightarrow> rust_str \<times> usize \<Rightarrow>
     ((rust_str \<times> usize, bytes) turn, parse_error) result" where
  "ascii_turn L type_pos declared_count tok = (\<lambda>(acc, chars).
     case tk_kind tok of
       T_Gt \<Rightarrow>
         bind_res (check_declared_count type_pos declared_count chars) (\<lambda>_.
           case ascii_string_new (map char_byte acc) of
             Ok v \<Rightarrow> Ok (Done v)
           | Err _ \<Rightarrow> Err (InvalidAsciiByte type_pos 0))
     | T_Str fragment \<Rightarrow>
         let added = char_count fragment
         in bind_res (admit_body_element L type_pos declared_count chars chars added added)
              (\<lambda>chars. Ok (Continue (acc @ fragment, chars)))
     | T_HexByte v _ \<Rightarrow>
         bind_res (admit_body_element L type_pos declared_count chars chars 1 1) (\<lambda>chars.
           if unat v > 0x7F then Err (InvalidAsciiByte (tk_pos tok) v)
           else Ok (Continue (acc @ [byte_char v], chars)))
     | _ \<Rightarrow> Err (unexpected_token tok ''a quoted string or 0xHH byte''))"

definition parse_ascii_body ::
  "decode_limits \<Rightarrow> source_pos \<Rightarrow> usize option \<Rightarrow> token_cursor \<Rightarrow>
     (bytes \<times> token_cursor, parse_error) result" where
  "parse_ascii_body L type_pos declared_count c =
     bind_res (check_declared_bytes L type_pos declared_count 1) (\<lambda>_.
       body_loop ''a quoted string or 0xHH byte'' (ascii_turn L type_pos declared_count) ([], 0) c)"

text \<open>
  The integer bodies are generic over \<open>IntegerElement\<close>: its conversion, its type name and its wire
  width are arguments here.
\<close>

definition integer_element ::
  "(int \<Rightarrow> 'a option) \<Rightarrow> rust_str \<Rightarrow> usize \<Rightarrow> decode_limits \<Rightarrow> source_pos \<Rightarrow> usize option \<Rightarrow>
     token \<Rightarrow> int \<Rightarrow> rust_str \<Rightarrow> 'a list \<times> usize \<Rightarrow> (('a list \<times> usize, 'a list) turn, parse_error) result"
where
  "integer_element from_scanned target width L type_pos declared_count tok v literal =
     (\<lambda>(vs, body_bytes).
       bind_res (admit_body_element L type_pos declared_count body_bytes (length vs) width 1)
         (\<lambda>body_bytes.
           case from_scanned v of
             None \<Rightarrow> Err (IntegerOverflow (tk_pos tok) literal target)
           | Some element \<Rightarrow> Ok (Continue (vs @ [element], body_bytes))))"

definition integer_turn ::
  "(int \<Rightarrow> 'a option) \<Rightarrow> rust_str \<Rightarrow> usize \<Rightarrow> decode_limits \<Rightarrow> source_pos \<Rightarrow> usize option \<Rightarrow>
     token \<Rightarrow> 'a list \<times> usize \<Rightarrow> (('a list \<times> usize, 'a list) turn, parse_error) result" where
  "integer_turn from_scanned target width L type_pos declared_count tok st =
     (case tk_kind tok of
        T_Gt \<Rightarrow> close_values type_pos declared_count (fst st)
      | T_Int v _ literal \<Rightarrow>
          integer_element from_scanned target width L type_pos declared_count tok v literal st
      | T_HexByte v literal \<Rightarrow>
          integer_element from_scanned target width L type_pos declared_count tok (int (unat v)) literal st
      | _ \<Rightarrow> Err (unexpected_token tok ''an integer literal''))"

definition parse_integer_body ::
  "(int \<Rightarrow> 'a option) \<Rightarrow> rust_str \<Rightarrow> usize \<Rightarrow> decode_limits \<Rightarrow> source_pos \<Rightarrow> usize option \<Rightarrow>
     token_cursor \<Rightarrow> ('a list \<times> token_cursor, parse_error) result" where
  "parse_integer_body from_scanned target width L type_pos declared_count c =
     bind_res (check_declared_bytes L type_pos declared_count width) (\<lambda>_.
       body_loop ''an integer literal''
         (integer_turn from_scanned target width L type_pos declared_count) ([], 0) c)"

definition float_turn ::
  "(rust_str \<Rightarrow> 'a option) \<Rightarrow> rust_str \<Rightarrow> usize \<Rightarrow> decode_limits \<Rightarrow> source_pos \<Rightarrow> usize option \<Rightarrow>
     token \<Rightarrow> 'a list \<times> usize \<Rightarrow> (('a list \<times> usize, 'a list) turn, parse_error) result" where
  "float_turn convert target width L type_pos declared_count tok = (\<lambda>(vs, body_bytes).
     case tk_kind tok of
       T_Gt \<Rightarrow> close_values type_pos declared_count vs
     | T_Float literal \<Rightarrow>
         bind_res (admit_body_element L type_pos declared_count body_bytes (length vs) width 1)
           (\<lambda>body_bytes.
             case convert literal of
               None \<Rightarrow> Err (NonFiniteFloat (tk_pos tok) literal target)
             | Some v \<Rightarrow> Ok (Continue (vs @ [v], body_bytes)))
     | _ \<Rightarrow> Err (unexpected_token tok ''a floating-point literal''))"

definition parse_float_body ::
  "(rust_str \<Rightarrow> 'a option) \<Rightarrow> rust_str \<Rightarrow> usize \<Rightarrow> decode_limits \<Rightarrow> source_pos \<Rightarrow> usize option \<Rightarrow>
     token_cursor \<Rightarrow> ('a list \<times> token_cursor, parse_error) result" where
  "parse_float_body convert target width L type_pos declared_count c =
     bind_res (check_declared_bytes L type_pos declared_count width) (\<lambda>_.
       body_loop ''a floating-point literal''
         (float_turn convert target width L type_pos declared_count) ([], 0) c)"

text \<open>\<open>text.parse::<f32>().ok().filter(is_finite)\<close>, as bits.\<close>

definition convert_f32 :: "rust_str \<Rightarrow> f32 option" where
  "convert_f32 literal = map_option word_of_nat (parse_finite f32_format literal)"

definition convert_f64 :: "rust_str \<Rightarrow> f64 option" where
  "convert_f64 literal = map_option word_of_nat (parse_finite f64_format literal)"

subsection \<open>Items\<close>

record sml_frame =
  sf_children :: "secs_item list"
  sf_declared_count :: "usize option"
  sf_type_pos :: source_pos

datatype started_item = OpenedList | Finished secs_item

record item_cursor =
  ic_tokens :: token_cursor
  ic_limits :: decode_limits
  ic_stack :: "sml_frame list"
  ic_node_count :: usize

definition item_cursor_new :: "token_cursor \<Rightarrow> decode_limits \<Rightarrow> item_cursor" where
  "item_cursor_new c L = \<lparr>ic_tokens = c, ic_limits = L, ic_stack = [], ic_node_count = 0\<rparr>"

definition parse_declared_count ::
  "token_cursor \<Rightarrow> (usize option \<times> token_cursor, parse_error) result" where
  "parse_declared_count c =
     bind_res (cursor_peek c) (\<lambda>(t, c).
       case t of
         None \<Rightarrow> Ok (None, c)
       | Some bracket \<Rightarrow>
           if tk_kind bracket \<noteq> T_LBracket then Ok (None, c)
           else
             bind_res (cursor_next c) (\<lambda>(_, c).
             bind_res (cursor_next c) (\<lambda>(t, c).
             bind_res
               (case map_option tk_kind t of
                  Some (T_Int v False _) \<Rightarrow>
                    if 0 \<le> v \<and> v \<le> int usize_max then Ok (nat v)
                    else Err (InvalidCount (tk_pos bracket))
                | _ \<Rightarrow> Err (InvalidCount (tk_pos bracket))) (\<lambda>stated.
             bind_res (need_token (quoted [] '']'') c) (\<lambda>(tok, c).
               if tk_kind tok = T_RBracket then Ok (Some stated, c)
               else Err (unexpected_token tok (quoted [] '']'')))))))"

text \<open>A leaf: its body, wrapped as the item.\<close>

definition leaf ::
  "('a \<Rightarrow> secs_item) \<Rightarrow> item_cursor \<Rightarrow> ('a \<times> token_cursor, parse_error) result \<Rightarrow>
     (started_item \<times> item_cursor, parse_error) result" where
  "leaf mk ic body = bind_res body (\<lambda>(vs, c). Ok (Finished (mk vs), ic\<lparr>ic_tokens := c\<rparr>))"

definition start_item ::
  "item_kind \<Rightarrow> source_pos \<Rightarrow> usize option \<Rightarrow> token_cursor \<Rightarrow> item_cursor \<Rightarrow>
     (started_item \<times> item_cursor, parse_error) result" where
  "start_item kind type_pos declared_count c ic =
     (let L = ic_limits ic in
      case kind of
        Kind_List \<Rightarrow>
          if is_some_and (\<lambda>n. n > max_list_items L) declared_count
          then Err (ListItemsExceeded type_pos (max_list_items L))
          else Ok (OpenedList,
                   ic\<lparr>ic_tokens := c,
                      ic_stack := \<lparr>sf_children = [], sf_declared_count = declared_count,
                                   sf_type_pos = type_pos\<rparr> # ic_stack ic\<rparr>)
      | Kind_Binary \<Rightarrow> leaf Item_Binary ic (parse_binary_body L type_pos declared_count c)
      | Kind_Boolean \<Rightarrow> leaf Item_Boolean ic (parse_boolean_body L type_pos declared_count c)
      | Kind_Ascii \<Rightarrow> leaf Item_Ascii ic (parse_ascii_body L type_pos declared_count c)
      | Kind_I1 \<Rightarrow> leaf Item_I1 ic
          (parse_integer_body from_scanned_signed ''I1'' 1 L type_pos declared_count c)
      | Kind_I2 \<Rightarrow> leaf Item_I2 ic
          (parse_integer_body from_scanned_signed ''I2'' 2 L type_pos declared_count c)
      | Kind_I4 \<Rightarrow> leaf Item_I4 ic
          (parse_integer_body from_scanned_signed ''I4'' 4 L type_pos declared_count c)
      | Kind_I8 \<Rightarrow> leaf Item_I8 ic
          (parse_integer_body from_scanned_signed ''I8'' 8 L type_pos declared_count c)
      | Kind_U1 \<Rightarrow> leaf Item_U1 ic
          (parse_integer_body from_scanned_unsigned ''U1'' 1 L type_pos declared_count c)
      | Kind_U2 \<Rightarrow> leaf Item_U2 ic
          (parse_integer_body from_scanned_unsigned ''U2'' 2 L type_pos declared_count c)
      | Kind_U4 \<Rightarrow> leaf Item_U4 ic
          (parse_integer_body from_scanned_unsigned ''U4'' 4 L type_pos declared_count c)
      | Kind_U8 \<Rightarrow> leaf Item_U8 ic
          (parse_integer_body from_scanned_unsigned ''U8'' 8 L type_pos declared_count c)
      | Kind_F4 \<Rightarrow> leaf Item_F4 ic (parse_float_body convert_f32 ''F4'' 4 L type_pos declared_count c)
      | Kind_F8 \<Rightarrow> leaf Item_F8 ic (parse_float_body convert_f64 ''F8'' 8 L type_pos declared_count c))"

definition parse_one_item ::
  "item_cursor \<Rightarrow> (started_item \<times> item_cursor, parse_error) result" where
  "parse_one_item ic =
     bind_res (need_token ''an item'' (ic_tokens ic)) (\<lambda>(lt, c).
       if tk_kind lt \<noteq> T_Lt then Err (unexpected_token lt ''an item'')
       else
         let L = ic_limits ic; ic = ic\<lparr>ic_node_count := saturating_add (ic_node_count ic) 1\<rparr>
         in if ic_node_count ic > max_total_items L
            then Err (TotalItemsExceeded (tk_pos lt) (max_total_items L))
            else
              bind_res (need_token ''an item type such as L or A'' c) (\<lambda>(tok, c).
                case tk_kind tok of
                  T_Word word \<Rightarrow>
                    bind_res (classify_item_type word (tk_pos tok)) (\<lambda>kind.
                      let depth = length (ic_stack ic) + 1
                      in if kind = Kind_List \<and> depth > max_depth L
                         then Err (Sml_DepthExceeded (tk_pos lt) depth (max_depth L))
                         else
                           bind_res (parse_declared_count c) (\<lambda>(declared_count, c).
                             start_item kind (tk_pos tok) declared_count c ic))
                | _ \<Rightarrow> Err (unexpected_token tok ''an item type such as L or A'')))"

definition admit_list_child :: "item_cursor \<Rightarrow> (unit, parse_error) result" where
  "admit_list_child ic =
     (case ic_stack ic of
        [] \<Rightarrow> Ok ()
      | frame # _ \<Rightarrow>
          let next_count = saturating_add (length (sf_children frame)) 1
          in if next_count > max_list_items (ic_limits ic)
             then Err (ListItemsExceeded (sf_type_pos frame) (max_list_items (ic_limits ic)))
             else case sf_declared_count frame of
                    None \<Rightarrow> Ok ()
                  | Some stated \<Rightarrow>
                      if next_count > stated
                      then Err (CountMismatch (sf_type_pos frame) stated next_count) else Ok ())"

definition attach ::
  "secs_item \<Rightarrow> item_cursor \<Rightarrow> (secs_item option \<times> item_cursor, parse_error) result" where
  "attach it ic =
     (case ic_stack ic of
        [] \<Rightarrow> Ok (Some it, ic)
      | frame # fs \<Rightarrow>
          let frame = frame\<lparr>sf_children := sf_children frame @ [it]\<rparr>
          in if sf_declared_count frame = None \<and>
                length (sf_children frame) > max_list_items (ic_limits ic)
             then Err (ListItemsExceeded (sf_type_pos frame) (max_list_items (ic_limits ic)))
             else Ok (None, ic\<lparr>ic_stack := frame # fs\<rparr>))"

lemma attach_tokens [simp]: "attach it ic = Ok (r, ic') \<Longrightarrow> ic_tokens ic' = ic_tokens ic"
  by (auto simp: attach_def Let_def split: list.splits if_splits)

lemma parse_declared_count_shorter:
  "parse_declared_count c = Ok (n, c') \<Longrightarrow> cursor_size c' \<le> cursor_size c"
proof -
  assume A: "parse_declared_count c = Ok (n, c')"
  then obtain t c1 where p: "cursor_peek c = Ok (t, c1)"
    by (auto simp: parse_declared_count_def res_simps)
  show ?thesis
  proof (cases "\<exists>b. t = Some b \<and> tk_kind b = T_LBracket")
    case False
    with A p have "c' = c1" by (auto simp: parse_declared_count_def split: option.splits if_splits)
    with cursor_peek_shorter [OF p] show ?thesis by simp
  next
    case True
    with A p obtain t1 c2 t2 c3 t3 where
      c: "cursor_next c1 = Ok (t1, c2)" "cursor_next c2 = Ok (Some t2, c3)" "need_token (quoted [] '']'') c3 = Ok (t3, c')"
      by (auto simp: parse_declared_count_def res_simps split: option.splits if_splits)
    have "t = tc_lookahead c1" using p by (auto simp: cursor_peek_def res_simps split: option.splits)
    with True have "cursor_size c2 \<le> cursor_size c1"
      using c(1) by (auto simp: cursor_next_def cursor_size_def)
    with cursor_peek_shorter [OF p] cursor_next_shorter [OF c(2)] need_token_shorter [OF c(3)]
    show ?thesis by linarith
  qed
qed

lemma start_item_shorter:
  "start_item k p d c ic = Ok (st, ic') \<Longrightarrow> cursor_size (ic_tokens ic') \<le> cursor_size c"
  by (cases k)
    (auto simp: start_item_def leaf_def res_simps parse_binary_body_def parse_boolean_body_def
      parse_ascii_body_def parse_integer_body_def parse_float_body_def Let_def
      split: if_splits dest!: body_loop_shorter)

text \<open>The steps of an item that starts well.\<close>

lemma parse_one_itemE:
  assumes "parse_one_item ic = Ok (st, ic')"
  obtains lt c1 tok c2 word kind n c3 where
    "need_token ''an item'' (ic_tokens ic) = Ok (lt, c1)" "tk_kind lt = T_Lt"
    "saturating_add (ic_node_count ic) 1 \<le> max_total_items (ic_limits ic)"
    "need_token ''an item type such as L or A'' c1 = Ok (tok, c2)" "tk_kind tok = T_Word word"
    "classify_item_type word (tk_pos tok) = Ok kind"
    "kind = Kind_List \<longrightarrow> length (ic_stack ic) + 1 \<le> max_depth (ic_limits ic)"
    "parse_declared_count c2 = Ok (n, c3)"
    "start_item kind (tk_pos tok) n c3
       (ic\<lparr>ic_node_count := saturating_add (ic_node_count ic) 1\<rparr>) = Ok (st, ic')"
proof -
  from assms obtain lt c1 tok c2 where t: "need_token ''an item'' (ic_tokens ic) = Ok (lt, c1)"
    "tk_kind lt = T_Lt" "saturating_add (ic_node_count ic) 1 \<le> max_total_items (ic_limits ic)"
    "need_token ''an item type such as L or A'' c1 = Ok (tok, c2)"
    by (auto simp: parse_one_item_def res_simps Let_def split: if_splits)
  with assms that show ?thesis
    by (cases "tk_kind tok") (auto simp: parse_one_item_def res_simps Let_def split: if_splits)
qed

lemma parse_one_item_shorter:
  assumes "parse_one_item ic = Ok (st, ic')"
  shows "cursor_size (ic_tokens ic') < cursor_size (ic_tokens ic)"
  using assms
  by (rule parse_one_itemE)
    (auto dest!: need_token_shorter parse_declared_count_shorter start_item_shorter)

subsection \<open>The item tree\<close>

text \<open>A peeked token is consumed by the next call.\<close>

lemma cursor_next_peeked:
  assumes "cursor_peek c = Ok (Some t, c')" "cursor_next c' = Ok (t', c'')"
  shows "t' = Some t" "cursor_size c'' < cursor_size c"
proof -
  have "tc_lookahead c' = Some t" using assms(1)
    by (auto simp: cursor_peek_def res_simps split: option.splits)
  with assms(2) show "t' = Some t" by (simp add: cursor_next_def)
  with cursor_peek_shorter [OF assms(1)] cursor_next_shorter [of c' t c''] assms(2)
  show "cursor_size c'' < cursor_size c" by simp
qed

text \<open>What is to be done with a finished item: it is the root, or the innermost list goes on.\<close>

function (sequential)
  parse_root :: "item_cursor \<Rightarrow> (secs_item \<times> item_cursor, parse_error) result" and
  list_body :: "item_cursor \<Rightarrow> (secs_item \<times> item_cursor, parse_error) result"
where
  "parse_root ic =
     bind_res (parse_one_item ic) (\<lambda>(st, ic).
       case st of
         OpenedList \<Rightarrow> list_body ic
       | Finished it \<Rightarrow>
           bind_res (attach it ic) (\<lambda>(root, ic).
             case root of Some r \<Rightarrow> Ok (r, ic) | None \<Rightarrow> list_body ic))"
| "list_body ic =
     bind_res (cursor_peek (ic_tokens ic)) (\<lambda>(t, c).
       case t of
         None \<Rightarrow> Err (unexpected (eof_pos c) (quoted ''an item or '' ''>'') ''end of input'')
       | Some tok \<Rightarrow>
           if tk_kind tok = T_Lt
           then bind_res (admit_list_child ic) (\<lambda>_. parse_root (ic\<lparr>ic_tokens := c\<rparr>))
           else if tk_kind tok = T_Gt
           then
             bind_res (cursor_next c) (\<lambda>(_, c).
               case ic_stack ic of
                 [] \<Rightarrow> Err (unexpected (tk_pos tok) (quoted ''an item or '' ''>'') ''>'')
               | frame # fs \<Rightarrow>
                   bind_res
                     (case sf_declared_count frame of
                        Some stated \<Rightarrow>
                          if stated \<noteq> length (sf_children frame)
                          then Err (CountMismatch (sf_type_pos frame) stated (length (sf_children frame)))
                          else Ok ()
                      | None \<Rightarrow> Ok ()) (\<lambda>_.
                   bind_res (attach (Item_List (sf_children frame)) (ic\<lparr>ic_tokens := c, ic_stack := fs\<rparr>))
                     (\<lambda>(root, ic). case root of Some r \<Rightarrow> Ok (r, ic) | None \<Rightarrow> list_body ic)))
           else Err (unexpected_token tok (quoted ''an item or '' ''>'')))"
  by pat_completeness auto

termination
  by (relation "measures [\<lambda>x. case x of Inl ic \<Rightarrow> cursor_size (ic_tokens ic) | Inr ic \<Rightarrow> cursor_size (ic_tokens ic),
        \<lambda>x. case x of Inl _ \<Rightarrow> 0 | Inr _ \<Rightarrow> 1]")
    (auto dest: parse_one_item_shorter cursor_next_peeked cursor_peek_shorter simp: le_less)

declare parse_root.simps [simp del] list_body.simps [simp del]

subsection \<open>Entry points\<close>

definition sml_parse_item :: "decode_limits \<Rightarrow> rust_str \<Rightarrow> (secs_item, parse_error) result" where
  "sml_parse_item L input =
     bind_res (parse_root (item_cursor_new (token_cursor_new (scanner_new input)) L)) (\<lambda>(it, ic).
     bind_res (cursor_peek (ic_tokens ic)) (\<lambda>(t, _).
       case t of
         Some tok \<Rightarrow> Err (TrailingInput (tk_pos tok) (trailing_preview input (tk_pos tok)))
       | None \<Rightarrow> Ok it))"

definition sml_parse_message :: "decode_limits \<Rightarrow> rust_str \<Rightarrow> (sml_message, parse_error) result" where
  "sml_parse_message L input =
     bind_res (need_token ''a message header such as S1F13'' (token_cursor_new (scanner_new input)))
       (\<lambda>(header, c).
     bind_res
       (case tk_kind header of
          T_Word word \<Rightarrow>
            (case parse_header_word word of
               None \<Rightarrow> Err (InvalidMessageHeader (tk_pos header) word)
             | Some (strm, function) \<Rightarrow>
                 if strm > MAX_STREAM then Err (StreamOutOfRange (tk_pos header) strm)
                 else if function > MAX_FUNCTION
                 then Err (FunctionOutOfRange (tk_pos header) function)
                 else Ok (strm, function))
        | _ \<Rightarrow> Err (unexpected_token header ''a message header such as S1F13'')) (\<lambda>(strm, function).
     bind_res (cursor_peek c) (\<lambda>(t, c).
     bind_res
       (if map_option tk_kind t = Some (T_Word ''W'')
        then bind_res (cursor_next c) (\<lambda>(_, c). Ok (True, c)) else Ok (False, c)) (\<lambda>(wait_bit, c).
     bind_res (cursor_peek c) (\<lambda>(t, c).
     bind_res
       (if map_option tk_kind t = Some T_Lt
        then bind_res (parse_root (item_cursor_new c L)) (\<lambda>(it, ic). Ok (Some it, ic_tokens ic))
        else Ok (None, c)) (\<lambda>(body, c).
     bind_res (cursor_next c) (\<lambda>(t, c).
     bind_res
       (case t of
          None \<Rightarrow> Err (MissingTerminator (eof_pos c))
        | Some tok \<Rightarrow>
            if tk_kind tok = T_Dot then Ok ()
            else if body \<noteq> None then Err (unexpected_token tok (quoted [] ''.''))
            else Err (unexpected_token tok (quoted ''an item or '' ''.''))) (\<lambda>_.
     bind_res (cursor_peek c) (\<lambda>(t, _).
       case t of
         Some tok \<Rightarrow> Err (TrailingInput (tk_pos tok) (trailing_preview input (tk_pos tok)))
       | None \<Rightarrow>
           (case stream_new (word_of_nat strm) of
              Err _ \<Rightarrow> Err (StreamOutOfRange (tk_pos header) strm)
            | Ok s \<Rightarrow>
                Ok \<lparr>sm_stream = s, sm_function = Function (word_of_nat function),
                    sm_wait_bit = wait_bit, sm_body = body\<rparr>))))))))))"

definition parse_item :: "rust_str \<Rightarrow> (secs_item, parse_error) result" where
  "parse_item input = sml_parse_item decode_limits_default input"

definition parse_message :: "rust_str \<Rightarrow> (sml_message, parse_error) result" where
  "parse_message input = sml_parse_message decode_limits_default input"

end
