(* ===== verification/Sml_Formatter.thy ===== *)
theory Sml_Formatter
  imports Sml_Parser
begin

section \<open>SML: the formatter\<close>

text \<open>
  \<open>src/sml/formatter.rs\<close>. The tree is checked by one walk with an explicit stack and measured
  by the encoder before any text is written; the text is written by a second walk whose stack
  also holds the closing brackets still due. A vector used as a stack is a list with its top
  first, so pushing children reversed is prepending them in order. Writing into a \<open>String\<close>
  appends to it.
\<close>

datatype format_style = Compact | Pretty

datatype format_error =
    Fmt_UnsupportedType rust_str
  | Fmt_NonFiniteFloat rust_str
  | Fmt_DepthExceeded usize usize
  | NotEncodable encode_error

subsection \<open>Validation\<close>

definition f32_finite :: "f32 \<Rightarrow> bool" where
  "f32_finite v \<longleftrightarrow> is_finite f32_format (unat v)"

definition f64_finite :: "f64 \<Rightarrow> bool" where
  "f64_finite v \<longleftrightarrow> is_finite f64_format (unat v)"

function check_loop :: "(secs_item \<times> nat) list \<Rightarrow> (unit, format_error) result" where
  "check_loop [] = Ok ()"
| "check_loop ((it, level) # stack) =
     (case it of
        Item_Jis8 _ \<Rightarrow> Err (Fmt_UnsupportedType ''Jis8'')
      | Item_Localized _ \<Rightarrow> Err (Fmt_UnsupportedType ''Localized'')
      | Item_F4 vs \<Rightarrow>
          if list_ex (\<lambda>v. \<not> f32_finite v) vs then Err (Fmt_NonFiniteFloat ''F4'') else check_loop stack
      | Item_F8 vs \<Rightarrow>
          if list_ex (\<lambda>v. \<not> f64_finite v) vs then Err (Fmt_NonFiniteFloat ''F8'') else check_loop stack
      | Item_List children \<Rightarrow>
          if level > MAX_DECODE_NESTING_DEPTH
          then Err (Fmt_DepthExceeded level MAX_DECODE_NESTING_DEPTH)
          else check_loop (map (\<lambda>child. (child, level + 1)) children @ stack)
      | _ \<Rightarrow> check_loop stack)"
  by pat_completeness auto
termination
  by (relation "measure (\<lambda>stack. sum_list (map (node_count \<circ> fst) stack))") (auto simp: o_def)

definition check_sml_semantics :: "secs_item \<Rightarrow> (unit, format_error) result" where
  "check_sml_semantics root = check_loop [(root, 1)]"

definition validate_and_measure :: "secs_item \<Rightarrow> (usize, format_error) result" where
  "validate_and_measure it =
     bind_res (check_sml_semantics it) (\<lambda>_.
       case encoded_item_plan_new it of
         Err e \<Rightarrow> Err (NotEncodable e) | Ok plan \<Rightarrow> Ok (encoded_length plan))"

subsection \<open>Leaves\<close>

definition write_byte :: "rust_str \<Rightarrow> u8 \<Rightarrow> rust_str" where
  "write_byte out b = out @ '' 0x'' @ show_hex2 b"

definition is_quotable_ascii :: "u8 \<Rightarrow> bool" where
  "is_quotable_ascii b \<longleftrightarrow> 0x20 \<le> b \<and> b \<le> 0x7E \<and> b \<noteq> 0x22 \<and> b \<noteq> 0x5C"

function write_ascii_body :: "rust_str \<Rightarrow> bytes \<Rightarrow> rust_str" where
  "write_ascii_body out [] = out"
| "write_ascii_body out (b # bs) =
     (if is_quotable_ascii b
      then
        let piece = takeWhile is_quotable_ascii (b # bs)
        in write_ascii_body (out @ [CHR '' '', CHR 0x22] @ map byte_char piece @ [CHR 0x22])
             (dropWhile is_quotable_ascii (b # bs))
      else write_ascii_body (write_byte out b) bs)"
  by pat_completeness auto
termination
proof (relation "measure (\<lambda>(_, bs). length bs)")
  show "((out @ [CHR '' '', CHR 0x22] @ map byte_char piece @ [CHR 0x22], dropWhile is_quotable_ascii (b # bs)),
      out, b # bs) \<in> measure (\<lambda>(_, bs). length bs)" if "is_quotable_ascii b" for out piece b bs
    using that length_dropWhile_le [of is_quotable_ascii bs] by (simp add: le_imp_less_Suc)
qed simp_all

definition write_count :: "rust_str \<Rightarrow> rust_str \<Rightarrow> nat \<Rightarrow> rust_str" where
  "write_count out name n = out @ ''<'' @ name @ ''['' @ show_nat n @ '']''"

definition write_scalar_item ::
  "('a \<Rightarrow> rust_str) \<Rightarrow> rust_str \<Rightarrow> rust_str \<Rightarrow> 'a list \<Rightarrow> rust_str" where
  "write_scalar_item display out type_name vs =
     foldl (\<lambda>out v. out @ '' '' @ display v) (write_count out type_name (length vs)) vs @ ''>''"

definition SCIENTIFIC_NOTATION_SWITCH_LENGTH :: nat where
  "SCIENTIFIC_NOTATION_SWITCH_LENGTH = 20"

definition float_text :: "float_format \<Rightarrow> nat \<Rightarrow> rust_str" where
  "float_text F bits =
     (let t = display_float F bits;
          t = (if length t > SCIENTIFIC_NOTATION_SWITCH_LENGTH then lower_exp_float F bits else t)
      in if CHR ''.'' \<notin> set t \<and> CHR ''e'' \<notin> set t \<and> CHR ''E'' \<notin> set t then t @ ''.0'' else t)"

definition write_float_item ::
  "float_format \<Rightarrow> rust_str \<Rightarrow> rust_str \<Rightarrow> 'w::len word list \<Rightarrow> rust_str" where
  "write_float_item F out type_name vs = write_scalar_item (float_text F \<circ> unat) out type_name vs"

definition display_signed :: "'w::len word \<Rightarrow> rust_str" where
  "display_signed w = show_int (sint w)"

definition display_unsigned :: "'w::len word \<Rightarrow> rust_str" where
  "display_unsigned w = show_int (uint w)"

subsection \<open>Items\<close>

text \<open>\<open>unreachable!\<close> of a refused type writes nothing here; validation comes first.\<close>

fun write_item_open :: "rust_str \<Rightarrow> secs_item \<Rightarrow> rust_str \<times> secs_item list option" where
  "write_item_open out (Item_List children) =
     (let out = write_count out ''L'' (length children)
      in if children = [] then (out @ ''>'', None) else (out, Some children))"
| "write_item_open out (Item_Binary bs) =
     (foldl write_byte (write_count out ''B'' (length bs)) bs @ ''>'', None)"
| "write_item_open out (Item_Boolean vs) =
     (foldl (\<lambda>out v. out @ (if v then '' TRUE'' else '' FALSE''))
        (write_count out ''BOOLEAN'' (length vs)) vs @ ''>'', None)"
| "write_item_open out (Item_Ascii bs) =
     (write_ascii_body (write_count out ''A'' (length bs)) bs @ ''>'', None)"
| "write_item_open out (Item_Jis8 _) = (out, None)"
| "write_item_open out (Item_Localized _) = (out, None)"
| "write_item_open out (Item_I8 vs) = (write_scalar_item display_signed out ''I8'' vs, None)"
| "write_item_open out (Item_I1 vs) = (write_scalar_item display_signed out ''I1'' vs, None)"
| "write_item_open out (Item_I2 vs) = (write_scalar_item display_signed out ''I2'' vs, None)"
| "write_item_open out (Item_I4 vs) = (write_scalar_item display_signed out ''I4'' vs, None)"
| "write_item_open out (Item_F8 vs) = (write_float_item f64_format out ''F8'' vs, None)"
| "write_item_open out (Item_F4 vs) = (write_float_item f32_format out ''F4'' vs, None)"
| "write_item_open out (Item_U8 vs) = (write_scalar_item display_unsigned out ''U8'' vs, None)"
| "write_item_open out (Item_U1 vs) = (write_scalar_item display_unsigned out ''U1'' vs, None)"
| "write_item_open out (Item_U2 vs) = (write_scalar_item display_unsigned out ''U2'' vs, None)"
| "write_item_open out (Item_U4 vs) = (write_scalar_item display_unsigned out ''U4'' vs, None)"

datatype work_entry = Work_Item secs_item nat | Work_CloseList nat

definition write_line_start :: "rust_str \<Rightarrow> nat \<Rightarrow> rust_str" where
  "write_line_start out indent = out @ [CHR 0x0A] @ concat (replicate indent ''  '')"

fun work_size :: "work_entry \<Rightarrow> nat" where
  "work_size (Work_Item it _) = 2 * node_count it"
| "work_size (Work_CloseList _) = 1"

lemma write_item_open_children:
  "snd (write_item_open out it) = Some cs \<longleftrightarrow> it = Item_List cs \<and> cs \<noteq> []"
  by (cases it) (auto simp: Let_def)

lemma work_children:
  assumes "(out', children) = write_item_open out it"
  shows "sum_list (map work_size
      (case children of
         Some cs \<Rightarrow> map (\<lambda>child. Work_Item child (saturating_add indent 1)) cs @ [Work_CloseList indent]
       | None \<Rightarrow> [])) < 2 * node_count it"
proof (cases children)
  case (Some cs)
  then have "it = Item_List cs" using assms write_item_open_children [of out it cs] by (metis snd_conv)
  with Some show ?thesis by (simp add: o_def sum_list_const_mult)
qed simp

function write_loop_text :: "bool \<Rightarrow> bool \<Rightarrow> rust_str \<Rightarrow> work_entry list \<Rightarrow> rust_str" where
  "write_loop_text pretty at_first_token out [] = out"
| "write_loop_text pretty at_first_token out (Work_CloseList indent # stack) =
     write_loop_text pretty at_first_token
       ((if pretty then write_line_start out indent else out) @ ''>'') stack"
| "write_loop_text pretty at_first_token out (Work_Item it indent # stack) =
     (let out = (if at_first_token then out
                 else if pretty then write_line_start out indent else out @ '' '');
          (out, children) = write_item_open out it
      in write_loop_text pretty False out
           ((case children of
               Some cs \<Rightarrow> map (\<lambda>child. Work_Item child (saturating_add indent 1)) cs @ [Work_CloseList indent]
             | None \<Rightarrow> []) @ stack))"
  by pat_completeness auto
termination
  by (relation "measure (\<lambda>(_, _, _, stack). sum_list (map work_size stack))")
    (simp_all add: work_children)

definition write_item_text :: "rust_str \<Rightarrow> secs_item \<Rightarrow> bool \<Rightarrow> rust_str" where
  "write_item_text out root pretty = write_loop_text pretty True out [Work_Item root 0]"

definition render_root :: "secs_item \<Rightarrow> format_style \<Rightarrow> rust_str" where
  "render_root root style = write_item_text [] root (style = Pretty)"

definition format_item :: "format_style \<Rightarrow> secs_item \<Rightarrow> (rust_str, format_error) result" where
  "format_item style it = bind_res (validate_and_measure it) (\<lambda>_. Ok (render_root it style))"

definition format_message :: "format_style \<Rightarrow> sml_message \<Rightarrow> (rust_str, format_error) result" where
  "format_message style m =
     bind_res
       (case sm_body m of
          Some body \<Rightarrow> bind_res (validate_and_measure body) (\<lambda>_. Ok ())
        | None \<Rightarrow> Ok ()) (\<lambda>_.
     let out = ''S'' @ show_nat (unat (stream_get (sm_stream m)))
               @ ''F'' @ show_nat (unat (function_get (sm_function m)));
         out = (if sm_wait_bit m then out @ '' W'' else out);
         out = (case sm_body m of
                  Some body \<Rightarrow> write_item_text (out @ '' '') body (style = Pretty)
                | None \<Rightarrow> out)
     in Ok (out @ ''.''))"

end
