(* ===== verification/Sml_Layout.thy ===== *)
theory Sml_Layout
  imports Sml_Formatter
begin

section \<open>SML: what the formatter writes\<close>

text \<open>
  The recursive form of the formatter's text and of its validation, and the proofs that the two
  explicit-stack walks compute them.
\<close>

subsection \<open>Text\<close>

definition gap :: "bool \<Rightarrow> nat \<Rightarrow> rust_str" where
  "gap pretty indent = (if pretty then write_line_start [] indent else '' '')"

definition leaf_text :: "secs_item \<Rightarrow> rust_str" where
  "leaf_text it = fst (write_item_open [] it)"

fun item_text :: "bool \<Rightarrow> nat \<Rightarrow> secs_item \<Rightarrow> rust_str" where
  "item_text pretty indent (Item_List cs) =
     write_count [] ''L'' (length cs)
     @ concat (map (\<lambda>c. gap pretty (saturating_add indent 1) @ item_text pretty (saturating_add indent 1) c) cs)
     @ (if cs \<noteq> [] \<and> pretty then gap pretty indent else []) @ ''>''"
| "item_text pretty indent it = leaf_text it"

lemma item_text_leaf [simp]: "\<not> is_list it \<Longrightarrow> item_text pretty indent it = leaf_text it"
  by (cases it) auto

lemma foldl_append: "foldl (\<lambda>out v. out @ f v) out vs = out @ concat (map f vs)"
  by (induction vs arbitrary: out) auto

lemma write_count_out: "write_count out name n = out @ write_count [] name n"
  by (simp add: write_count_def)

lemma write_scalar_text:
  "write_scalar_item display out name vs =
     out @ write_count [] name (length vs) @ concat (map (\<lambda>v. '' '' @ display v) vs) @ ''>''"
  unfolding write_scalar_item_def foldl_append write_count_out [of out] by simp

text \<open>The fragments of an ASCII body: a run of quotable bytes, or one other byte.\<close>

function fragments :: "bytes \<Rightarrow> (bytes + u8) list" where
  "fragments [] = []"
| "fragments (b # bs) =
     (if is_quotable_ascii b
      then Inl (takeWhile is_quotable_ascii (b # bs)) # fragments (dropWhile is_quotable_ascii (b # bs))
      else Inr b # fragments bs)"
  by pat_completeness auto
termination
proof (relation "measure length")
  show "(dropWhile is_quotable_ascii (b # bs), b # bs) \<in> measure length" if "is_quotable_ascii b" for b bs
    using that length_dropWhile_le [of is_quotable_ascii bs] by (simp add: le_imp_less_Suc)
qed simp_all

fun fragment_text :: "bytes + u8 \<Rightarrow> rust_str" where
  "fragment_text (Inl piece) = [CHR '' '', CHR 0x22] @ map byte_char piece @ [CHR 0x22]"
| "fragment_text (Inr b) = '' 0x'' @ show_hex2 b"

fun fragment_bytes :: "bytes + u8 \<Rightarrow> bytes" where
  "fragment_bytes (Inl piece) = piece"
| "fragment_bytes (Inr b) = [b]"

lemma write_ascii_text: "write_ascii_body out bs = out @ concat (map fragment_text (fragments bs))"
  by (induction out bs rule: write_ascii_body.induct) (auto simp: Let_def write_byte_def)

lemma fragments_bytes: "concat (map fragment_bytes (fragments bs)) = bs"
proof (induction bs rule: fragments.induct)
  case (2 b bs)
  show ?case
  proof (cases "is_quotable_ascii b")
    case True
    with 2 show ?thesis by (simp add: takeWhile_dropWhile_id)
  next
    case False
    with 2 show ?thesis by simp
  qed
qed simp

lemma fragments_runs: "Inl piece \<in> set (fragments bs) \<Longrightarrow> list_all is_quotable_ascii piece"
proof (induction bs rule: fragments.induct)
  case (2 b bs)
  show ?case
  proof (cases "is_quotable_ascii b")
    case True
    with 2 show ?thesis by (auto simp: list_all_iff dest: set_takeWhileD)
  next
    case False
    with 2 show ?thesis by auto
  qed
qed simp

lemma fragments_others: "Inr b \<in> set (fragments bs) \<Longrightarrow> b \<in> set bs"
proof (induction bs rule: fragments.induct)
  case (2 c bs)
  show ?case
  proof (cases "is_quotable_ascii c")
    case True
    with 2 set_dropWhileD [of b is_quotable_ascii bs] show ?thesis by simp
  next
    case False
    with 2 show ?thesis by auto
  qed
qed simp

declare fragments.simps [simp del] write_ascii_body.simps [simp del]

lemma leaf_texts:
  "leaf_text (Item_Binary bs) = write_count [] ''B'' (length bs) @ concat (map (\<lambda>b. '' 0x'' @ show_hex2 b) bs) @ ''>''"
  "leaf_text (Item_Boolean bools) = write_count [] ''BOOLEAN'' (length bools)
     @ concat (map (\<lambda>v. if v then '' TRUE'' else '' FALSE'') bools) @ ''>''"
  "leaf_text (Item_Ascii bs) = write_count [] ''A'' (length bs) @ concat (map fragment_text (fragments bs)) @ ''>''"
  "leaf_text (Item_I8 i8s) = write_count [] ''I8'' (length i8s) @ concat (map (\<lambda>v. '' '' @ display_signed v) i8s) @ ''>''"
  "leaf_text (Item_I1 i1s) = write_count [] ''I1'' (length i1s) @ concat (map (\<lambda>v. '' '' @ display_signed v) i1s) @ ''>''"
  "leaf_text (Item_I2 i2s) = write_count [] ''I2'' (length i2s) @ concat (map (\<lambda>v. '' '' @ display_signed v) i2s) @ ''>''"
  "leaf_text (Item_I4 i4s) = write_count [] ''I4'' (length i4s) @ concat (map (\<lambda>v. '' '' @ display_signed v) i4s) @ ''>''"
  "leaf_text (Item_U8 u8s) = write_count [] ''U8'' (length u8s) @ concat (map (\<lambda>v. '' '' @ display_unsigned v) u8s) @ ''>''"
  "leaf_text (Item_U1 bs) = write_count [] ''U1'' (length bs) @ concat (map (\<lambda>v. '' '' @ display_unsigned v) bs) @ ''>''"
  "leaf_text (Item_U2 u2s) = write_count [] ''U2'' (length u2s) @ concat (map (\<lambda>v. '' '' @ display_unsigned v) u2s) @ ''>''"
  "leaf_text (Item_U4 u4s) = write_count [] ''U4'' (length u4s) @ concat (map (\<lambda>v. '' '' @ display_unsigned v) u4s) @ ''>''"
  "leaf_text (Item_F8 u8s) = write_count [] ''F8'' (length u8s)
     @ concat (map (\<lambda>v. '' '' @ float_text f64_format (unat v)) u8s) @ ''>''"
  "leaf_text (Item_F4 u4s) = write_count [] ''F4'' (length u4s)
     @ concat (map (\<lambda>v. '' '' @ float_text f32_format (unat v)) u4s) @ ''>''"
  by (simp_all add: leaf_text_def write_scalar_text write_float_item_def write_ascii_text
      write_byte_def [abs_def] foldl_append)

lemma write_item_open_leaf:
  "\<not> is_list it \<Longrightarrow> write_item_open out it = (out @ leaf_text it, None)"
  by (cases it)
    (auto simp: leaf_text_def write_scalar_text write_float_item_def write_ascii_text
      write_byte_def [abs_def] foldl_append write_count_out [of out])

definition lead :: "bool \<Rightarrow> bool \<Rightarrow> nat \<Rightarrow> rust_str" where
  "lead pretty at_first_token indent = (if at_first_token then [] else gap pretty indent)"

lemma line_start_gap:
  "write_line_start out indent = out @ gap True indent" "out @ '' '' = out @ gap False indent"
  by (simp_all add: gap_def write_line_start_def)

lemma gap_False [simp]: "gap False indent = '' ''"
  by (simp add: gap_def)

declare write_loop_text.simps(3) [simp del] write_item_open.simps [simp del]

lemma write_loop_item:
  "write_loop_text pretty at_first out (Work_Item it indent # stack) =
     write_loop_text pretty False (out @ lead pretty at_first indent @ item_text pretty indent it) stack"
proof (induction it arbitrary: at_first out indent stack)
  case (Item_List cs)
  let ?i = "saturating_add indent 1"
  have children: "write_loop_text pretty False out (map (\<lambda>c. Work_Item c ?i) ds @ stack) =
      write_loop_text pretty False
        (out @ concat (map (\<lambda>c. gap pretty ?i @ item_text pretty ?i c) ds)) stack"
    if "set ds \<subseteq> set cs" for ds out stack
    using that
  proof (induction ds arbitrary: out)
    case (Cons d ds)
    then show ?case using Item_List [of d] by (simp add: lead_def)
  qed simp
  have out: "(if at_first then out else if pretty then write_line_start out indent else out @ '' '') =
      out @ lead pretty at_first indent"
    by (simp add: lead_def line_start_gap(1))
  show ?case
  proof (cases "cs = []")
    case True
    then show ?thesis by (simp add: write_loop_text.simps(3) write_item_open.simps out Let_def write_count_out [of "_ @ _"])
  next
    case False
    then show ?thesis
      using children [of cs, where stack = "Work_CloseList indent # stack"]
      by (simp add: write_loop_text.simps(3) write_item_open.simps out Let_def line_start_gap(1)
          write_count_out [of "_ @ _"])
  qed
qed (simp_all add: write_loop_text.simps(3) write_item_open_leaf lead_def line_start_gap(1))

lemma write_item_text_eq: "write_item_text out it pretty = out @ item_text pretty 0 it"
  by (simp add: write_item_text_def write_loop_item lead_def)

subsection \<open>Validation\<close>

text \<open>The nodes with their list nesting level, in preorder, and why a node is refused.\<close>

fun levels :: "nat \<Rightarrow> secs_item \<Rightarrow> (secs_item \<times> nat) list" where
  "levels l (Item_List cs) = (Item_List cs, l) # concat (map (levels (l + 1)) cs)"
| "levels l it = [(it, l)]"

fun refusal :: "secs_item \<times> nat \<Rightarrow> format_error option" where
  "refusal (Item_Jis8 _, l) = Some (Fmt_UnsupportedType ''Jis8'')"
| "refusal (Item_Localized _, l) = Some (Fmt_UnsupportedType ''Localized'')"
| "refusal (Item_F4 vs, l) =
     (if list_all f32_finite vs then None else Some (Fmt_NonFiniteFloat ''F4''))"
| "refusal (Item_F8 vs, l) =
     (if list_all f64_finite vs then None else Some (Fmt_NonFiniteFloat ''F8''))"
| "refusal (Item_List cs, l) =
     (if l \<le> MAX_DECODE_NESTING_DEPTH then None
      else Some (Fmt_DepthExceeded l MAX_DECODE_NESTING_DEPTH))"
| "refusal (_, l) = None"

definition first_refusal :: "(secs_item \<times> nat) list \<Rightarrow> (unit, format_error) result" where
  "first_refusal ns = (case List.map_filter refusal ns of [] \<Rightarrow> Ok () | e # _ \<Rightarrow> Err e)"

lemma first_refusal_Cons:
  "first_refusal (n # ns) = (case refusal n of None \<Rightarrow> first_refusal ns | Some e \<Rightarrow> Err e)"
  by (simp add: first_refusal_def map_filter_simps split: option.split)

lemma check_loop_first:
  "check_loop stack = first_refusal (concat (map (\<lambda>(it, l). levels l it) stack))"
proof (induction stack rule: check_loop.induct)
  case 1
  then show ?case by (simp add: first_refusal_def map_filter_simps)
next
  case (2 it level stack)
  then show ?case
    by (cases it) (auto simp: first_refusal_Cons list_ex_iff list_all_iff o_def)
qed

lemma first_refusal_Ok: "first_refusal ns = Ok () \<longleftrightarrow> (\<forall>n \<in> set ns. refusal n = None)"
  by (induction ns) (auto simp: first_refusal_Cons first_refusal_def [of "[]"] map_filter_simps split: option.splits)

fun renderable :: "nat \<Rightarrow> secs_item \<Rightarrow> bool" where
  "renderable l (Item_List cs) \<longleftrightarrow>
     l \<le> MAX_DECODE_NESTING_DEPTH \<and> (\<forall>c \<in> set cs. renderable (l + 1) c)"
| "renderable l it \<longleftrightarrow> refusal (it, l) = None"

lemma renderable_levels: "renderable l it \<longleftrightarrow> (\<forall>n \<in> set (levels l it). refusal n = None)"
  by (induction l it rule: levels.induct) auto

lemma check_sml_semantics_Ok: "check_sml_semantics it = Ok () \<longleftrightarrow> renderable 1 it"
  by (simp add: check_sml_semantics_def check_loop_first first_refusal_Ok renderable_levels)

lemma validate_and_measure_Ok:
  "validate_and_measure it = Ok k \<longleftrightarrow>
     renderable 1 it \<and> encodable it \<and> length (enc it) \<le> usize_max \<and> k = length (enc it)"
proof -
  have "check_sml_semantics it = Ok u \<longleftrightarrow> renderable 1 it" for u
    using check_sml_semantics_Ok [of it] by simp
  then show ?thesis
    using measure_item_Ok [of it]
    by (cases "measure_item it")
      (auto simp: validate_and_measure_def res_simps encoded_item_plan_new_def)
qed

lemma format_item_Ok:
  "format_item style it = Ok t \<longleftrightarrow>
     renderable 1 it \<and> encodable it \<and> length (enc it) \<le> usize_max \<and> t = item_text (style = Pretty) 0 it"
  by (auto simp: format_item_def res_simps validate_and_measure_Ok render_root_def
      write_item_text_eq)

end
