(* ===== verification/Sml_Roundtrip.thy ===== *)
theory Sml_Roundtrip
  imports Sml_Layout
begin

section \<open>SML: what the formatter writes is read back\<close>

text \<open>
  The texts of the formatter, token by token, through the parser: one lemma for the header of an
  item, one for a body loop over any list of elements, one per kind of leaf, and an induction over
  the tree for the explicit stack of open lists.
\<close>

subsection \<open>Cursors\<close>

definition ready :: "token_cursor \<Rightarrow> rust_str \<Rightarrow> bool" where
  "ready c u \<longleftrightarrow> tc_lookahead c = None \<and> unread (tc_scanner c) = u"

text \<open>The next token has kind \<open>k\<close>, peeked or not, and the text \<open>r\<close> follows it.\<close>

definition upcoming :: "token_cursor \<Rightarrow> token_kind \<Rightarrow> rust_str \<Rightarrow> bool" where
  "upcoming c k r \<longleftrightarrow>
     (\<exists>u. ready c u \<and> reads u k r) \<or>
     (\<exists>p. tc_lookahead c = Some \<lparr>tk_kind = k, tk_pos = p\<rparr> \<and> unread (tc_scanner c) = r)"

lemma upcomingI: "ready c u \<Longrightarrow> reads u k r \<Longrightarrow> upcoming c k r"
  by (auto simp: upcoming_def)

lemma cursor_next_upcoming:
  assumes "upcoming c k r"
  obtains p c' where "cursor_next c = Ok (Some \<lparr>tk_kind = k, tk_pos = p\<rparr>, c')" "ready c' r"
  using assms unfolding upcoming_def
proof (elim disjE exE conjE)
  fix u assume "ready c u" "reads u k r"
  then obtain p s' where n: "next_token (tc_scanner c) = Ok (Some \<lparr>tk_kind = k, tk_pos = p\<rparr>, s')"
    "unread s' = r" unfolding ready_def reads_def by blast
  with \<open>ready c u\<close> show thesis
    by (intro that [of p "c\<lparr>tc_scanner := s'\<rparr>"]) (simp_all add: cursor_next_def ready_def)
next
  fix p assume "tc_lookahead c = Some \<lparr>tk_kind = k, tk_pos = p\<rparr>" "unread (tc_scanner c) = r"
  then show thesis
    by (intro that [of p "c\<lparr>tc_lookahead := None\<rparr>"]) (simp_all add: cursor_next_def ready_def)
qed

lemma cursor_peek_upcoming:
  assumes "upcoming c k r"
  obtains p c' where "cursor_peek c = Ok (Some \<lparr>tk_kind = k, tk_pos = p\<rparr>, c')" "upcoming c' k r"
  using assms unfolding upcoming_def
proof (elim disjE exE conjE)
  fix u assume "ready c u" "reads u k r"
  then obtain p s' where n: "next_token (tc_scanner c) = Ok (Some \<lparr>tk_kind = k, tk_pos = p\<rparr>, s')"
    "unread s' = r" unfolding ready_def reads_def by blast
  with \<open>ready c u\<close> show thesis
    by (intro that [of p "c\<lparr>tc_scanner := s', tc_lookahead := Some \<lparr>tk_kind = k, tk_pos = p\<rparr>\<rparr>"])
      (simp_all add: cursor_peek_def ready_def upcoming_def)
next
  fix p assume "tc_lookahead c = Some \<lparr>tk_kind = k, tk_pos = p\<rparr>" "unread (tc_scanner c) = r"
  then show thesis by (intro that [of p c]) (simp_all add: cursor_peek_def upcoming_def)
qed

lemma need_token_upcoming:
  assumes "upcoming c k r"
  obtains p c' where "need_token e c = Ok (\<lparr>tk_kind = k, tk_pos = p\<rparr>, c')" "ready c' r"
  by (rule cursor_next_upcoming [OF assms]) (simp add: need_token_def that)

lemma cursor_peek_end:
  assumes "ready c []"
  obtains c' where "cursor_peek c = Ok (None, c')"
proof -
  have "skip_whitespace (tc_scanner c) = tc_scanner c"
    using assms by (subst skip_whitespace_unfold) (simp add: ready_def)
  then show thesis using assms that by (simp add: cursor_peek_def next_token_def ready_def peek_unread)
qed

subsection \<open>Headers\<close>

definition type_name :: "rust_str \<Rightarrow> bool" where
  "type_name w \<longleftrightarrow>
     (\<exists>c cs. w = c # cs \<and> is_ascii_alphabetic c \<and> c \<noteq> CHR ''x'' \<and> c \<noteq> CHR ''X'' \<and>
        (\<forall>d \<in> set cs. is_ascii_alphanumeric d))"

lemma reads_type_name: "type_name w \<Longrightarrow> stops is_ascii_alphanumeric r \<Longrightarrow> reads (w @ r) (T_Word w) r"
  using reads_word by (auto simp: type_name_def)

lemma show_nat_int: "show_nat n = show_int (int n)"
  by (simp add: show_int_def)

lemma declared_count_read:
  assumes "ready c (CHR ''['' # show_nat n @ CHR '']'' # r)" "n \<le> usize_max"
  obtains c' where "parse_declared_count c = Ok (Some n, c')" "ready c' r"
proof -
  have "upcoming c T_LBracket (show_nat n @ CHR '']'' # r)"
    by (rule upcomingI [OF assms(1)]) simp
  then obtain p1 c1 where 1: "cursor_peek c = Ok (Some \<lparr>tk_kind = T_LBracket, tk_pos = p1\<rparr>, c1)"
    "upcoming c1 T_LBracket (show_nat n @ CHR '']'' # r)" by (rule cursor_peek_upcoming)
  from 1(2) obtain p2 c2 where 2: "cursor_next c1 = Ok (Some \<lparr>tk_kind = T_LBracket, tk_pos = p2\<rparr>, c2)"
    "ready c2 (show_nat n @ CHR '']'' # r)" by (rule cursor_next_upcoming)
  have "reads (show_nat n @ CHR '']'' # r) (T_Int (int n) False (show_nat n)) (CHR '']'' # r)"
    unfolding show_nat_int using assms(2)
    by (intro reads_int) (auto simp: ends_number_def char_classes i128_max_def usize_max_def)
  with 2(2) have "upcoming c2 (T_Int (int n) False (show_nat n)) (CHR '']'' # r)" by (rule upcomingI)
  then obtain p3 c3 where 3: "cursor_next c2 = Ok (Some \<lparr>tk_kind = T_Int (int n) False (show_nat n), tk_pos = p3\<rparr>, c3)"
    "ready c3 (CHR '']'' # r)" by (rule cursor_next_upcoming)
  have "upcoming c3 T_RBracket r" by (rule upcomingI [OF 3(2)]) simp
  then obtain p4 c4 where 4: "need_token (quoted [] '']'') c3 = Ok (\<lparr>tk_kind = T_RBracket, tk_pos = p4\<rparr>, c4)"
    "ready c4 r" by (rule need_token_upcoming)
  show thesis
    using 1(1) 2(1) 3(1) 4 assms(2) by (intro that [of c4]) (simp_all add: parse_declared_count_def)
qed

text \<open>The header of an item, up to its body.\<close>

lemma parse_header:
  assumes "upcoming (ic_tokens ic) T_Lt (name @ CHR ''['' # show_nat n @ CHR '']'' # r)"
    and "type_name name" "\<And>p. classify_item_type name p = Ok kind" "n \<le> usize_max"
    and "ic_node_count ic + 1 \<le> max_total_items (ic_limits ic)"
    and "kind = Kind_List \<Longrightarrow> length (ic_stack ic) < max_depth (ic_limits ic)"
  obtains p c where "ready c r"
    "parse_one_item ic = start_item kind p (Some n) c
       (ic\<lparr>ic_node_count := saturating_add (ic_node_count ic) 1\<rparr>)"
proof -
  obtain p1 c1 where 1: "need_token ''an item'' (ic_tokens ic) = Ok (\<lparr>tk_kind = T_Lt, tk_pos = p1\<rparr>, c1)"
    "ready c1 (name @ CHR ''['' # show_nat n @ CHR '']'' # r)"
    using assms(1) by (rule need_token_upcoming)
  have "upcoming c1 (T_Word name) (CHR ''['' # show_nat n @ CHR '']'' # r)"
    by (rule upcomingI [OF 1(2)], rule reads_type_name [OF assms(2)]) (simp add: char_classes)
  then obtain p2 c2 where 2: "need_token ''an item type such as L or A'' c1 = Ok (\<lparr>tk_kind = T_Word name, tk_pos = p2\<rparr>, c2)"
    "ready c2 (CHR ''['' # show_nat n @ CHR '']'' # r)" by (rule need_token_upcoming)
  from 2(2) assms(4) obtain c3 where 3: "parse_declared_count c2 = Ok (Some n, c3)" "ready c3 r"
    by (rule declared_count_read)
  have "saturating_add (ic_node_count ic) 1 \<le> max_total_items (ic_limits ic)"
    using assms(5) by (simp add: saturating_add_def)
  then show thesis
    using 1(1) 2(1) 3 assms(3,6)
    by (intro that [of c3 p2]) (auto simp: parse_one_item_def Let_def)
qed

subsection \<open>Bodies\<close>

lemma body_loop_elements:
  fixes xs :: "'x list"
  assumes reads: "\<And>x rest. x \<in> set xs \<Longrightarrow> ends_number rest \<Longrightarrow> reads (elem x @ rest) (kind x) rest"
    and blank: "\<And>x. x \<in> set xs \<Longrightarrow> \<exists>t. elem x = CHR '' '' # t"
    and step: "\<And>ys x qs p. xs = ys @ x # qs \<Longrightarrow>
      step \<lparr>tk_kind = kind x, tk_pos = p\<rparr> (S ys) = Ok (Continue (S (ys @ [x])))"
    and finish: "\<And>p. step \<lparr>tk_kind = T_Gt, tk_pos = p\<rparr> (S xs) = Ok (Done v)"
  shows "xs = ys @ zs \<Longrightarrow> ready c (concat (map elem zs) @ CHR ''>'' # r) \<Longrightarrow>
    \<exists>c'. body_loop e step (S ys) c = Ok (v, c') \<and> ready c' r"
proof (induction zs arbitrary: ys c)
  case Nil
  have "upcoming c T_Gt r" by (rule upcomingI [of c "CHR ''>'' # r"]) (use Nil in auto)
  then obtain p c' where "need_token e c = Ok (\<lparr>tk_kind = T_Gt, tk_pos = p\<rparr>, c')" "ready c' r"
    by (rule need_token_upcoming)
  with Nil finish [of p] show ?case by (subst body_loop.simps) simp
next
  case (Cons x zs)
  let ?rest = "concat (map elem zs) @ CHR ''>'' # r"
  have "ends_number ?rest"
  proof (cases zs)
    case (Cons z _)
    with blank [of z] Cons.prems(1) show ?thesis by (auto simp: ends_number_def char_classes)
  qed (simp add: ends_number_def char_classes)
  then have "reads (elem x @ ?rest) (kind x) ?rest" using Cons.prems(1) by (intro reads) auto
  with Cons.prems(2) have "upcoming c (kind x) ?rest" by (intro upcomingI [of c "elem x @ ?rest"]) simp_all
  then obtain p c1 where c1: "need_token e c = Ok (\<lparr>tk_kind = kind x, tk_pos = p\<rparr>, c1)" "ready c1 ?rest"
    by (rule need_token_upcoming)
  from Cons.IH [of "ys @ [x]" c1] Cons.prems(1) c1(2)
  obtain c' where "body_loop e step (S (ys @ [x])) c1 = Ok (v, c')" "ready c' r" by auto
  with c1(1) step [OF Cons.prems(1), of p] show ?case by (subst body_loop.simps) simp
qed

text \<open>The admission of the elements of a body that fits.\<close>

definition body_fits :: "decode_limits \<Rightarrow> nat \<Rightarrow> nat \<Rightarrow> bool" where
  "body_fits L width n \<longleftrightarrow> n * width \<le> max_item_bytes L \<and> max_item_bytes L \<le> MAX_ENCODED_ITEM_LENGTH \<and> 0 < width"

lemma body_fits_checks:
  assumes "body_fits L width n"
  shows "check_declared_bytes L p (Some n) width = Ok ()"
    and "k + j \<le> n \<Longrightarrow>
      admit_body_element L p (Some n) (k * width) k (j * width) j = Ok ((k + j) * width)"
    and "check_declared_count p (Some n) n = Ok ()"
proof -
  have m: "n * width \<le> max_item_bytes L" "max_item_bytes L \<le> usize_max"
    using assms by (simp_all add: body_fits_def MAX_ENCODED_ITEM_LENGTH_def usize_max_def)
  then show "check_declared_bytes L p (Some n) width = Ok ()"
    by (simp add: check_declared_bytes_def saturating_mul_def)
  show "check_declared_count p (Some n) n = Ok ()" by (simp add: check_declared_count_def)
  assume "k + j \<le> n"
  then have kj: "(k + j) * width \<le> n * width" by (rule mult_le_mono1)
  moreover have "k + j \<le> (k + j) * width" using assms by (simp add: body_fits_def)
  ultimately have "k + j \<le> usize_max" "(k + j) * width \<le> max_item_bytes L" "(k + j) * width \<le> usize_max"
    using m by linarith+
  then show "admit_body_element L p (Some n) (k * width) k (j * width) j = Ok ((k + j) * width)"
    using \<open>k + j \<le> n\<close>
    by (simp add: admit_body_element_def Let_def saturating_add_def min_def add_mult_distrib)
qed

lemma values_loop:
  fixes xs :: "'x list"
  assumes fits: "body_fits L width (length xs)"
    and "\<And>x rest. x \<in> set xs \<Longrightarrow> ends_number rest \<Longrightarrow> reads (elem x @ rest) (kind x) rest"
    and "\<And>x. x \<in> set xs \<Longrightarrow> \<exists>t. elem x = CHR '' '' # t"
    and step: "\<And>p x vs n m. x \<in> set xs \<Longrightarrow>
      admit_body_element L p0 (Some (length xs)) n (length vs) width 1 = Ok m \<Longrightarrow>
      step \<lparr>tk_kind = kind x, tk_pos = p\<rparr> (vs, n) = Ok (Continue (vs @ [val x], m))"
    and close: "\<And>p vs n. step \<lparr>tk_kind = T_Gt, tk_pos = p\<rparr> (vs, n) = close_values p0 (Some (length xs)) vs"
    and "ready c (concat (map elem xs) @ CHR ''>'' # r)"
  shows "\<exists>c'. body_loop e step ([], 0) c = Ok (map val xs, c') \<and> ready c' r"
proof -
  let ?S = "\<lambda>ys. (map val ys, length ys * width)"
  have "\<exists>c'. body_loop e step (?S []) c = Ok (map val xs, c') \<and> ready c' r"
  proof (rule body_loop_elements [of xs elem kind step ?S])
    fix ys x qs p assume xs: "xs = ys @ x # qs"
    with body_fits_checks(2) [OF fits, of "length ys" 1 p0]
    show "step \<lparr>tk_kind = kind x, tk_pos = p\<rparr> (?S ys) = Ok (Continue (?S (ys @ [x])))"
      by (subst step [where m = "Suc (length ys) * width"]) simp_all
  next
    show "step \<lparr>tk_kind = T_Gt, tk_pos = p\<rparr> (?S xs) = Ok (Done (map val xs))" for p
      using body_fits_checks(3) [OF fits, of p0] by (simp add: close close_values_def)
  qed (use assms in auto)
  then show ?thesis by simp
qed


subsection \<open>Leaves\<close>

lemma unat_bounds: "unat (w :: 'w::len word) < 2 ^ LENGTH('w)"
  by (rule unsigned_less)

lemma from_scanned_sint [simp]: "from_scanned_signed (sint w) = Some (w :: 'w::len word)"
  using sint_ge [of w] sint_lt [of w] by (simp add: from_scanned_signed_def)

lemma from_scanned_uint [simp]: "from_scanned_unsigned (uint w) = Some (w :: 'w::len word)"
  using uint_ge_0 [of w] uint_lt2p [of w] by (simp add: from_scanned_unsigned_def)

definition at_body :: "token_cursor \<Rightarrow> rust_str \<Rightarrow> rust_str \<Rightarrow> bool" where
  "at_body c body r \<longleftrightarrow> ready c (body @ CHR ''>'' # r)"

lemma parse_binary_body_reads:
  assumes "body_fits L 1 (length bs)" "at_body c (concat (map (\<lambda>b. '' 0x'' @ show_hex2 b) bs)) r"
  shows "\<exists>c'. parse_binary_body L p (Some (length bs)) c = Ok (bs, c') \<and> ready c' r"
proof -
  have "\<exists>c'. body_loop ''a 0xHH byte'' (binary_turn L p (Some (length bs))) ([], 0) c
      = Ok (map id bs, c') \<and> ready c' r"
  proof (rule values_loop [OF assms(1), where elem = "\<lambda>b. '' 0x'' @ show_hex2 b"
        and kind = "\<lambda>b. T_HexByte b (''0x'' @ show_hex2 b)"])
    show "reads (('' 0x'' @ show_hex2 b) @ rest) (T_HexByte b (''0x'' @ show_hex2 b)) rest"
      if "ends_number rest" for b rest
      using reads_blank(1) [OF reads_hex_byte [of rest b]] ends_number_stops(2) [OF that] by simp
  qed (use assms(2) in \<open>auto simp: binary_turn_def at_body_def\<close>)
  then show ?thesis using body_fits_checks(1) [OF assms(1)] by (simp add: parse_binary_body_def)
qed

lemma ends_number_blank: "ends_number rest \<Longrightarrow> stops is_ascii_alphanumeric rest"
  by (cases rest) (auto simp: ends_number_def)

lemma parse_boolean_body_reads:
  assumes "body_fits L 1 (length bs)" "at_body c (concat (map (\<lambda>v. if v then '' TRUE'' else '' FALSE'') bs)) r"
  shows "\<exists>c'. parse_boolean_body L p (Some (length bs)) c = Ok (bs, c') \<and> ready c' r"
proof -
  have "\<exists>c'. body_loop ''TRUE or FALSE'' (boolean_turn L p (Some (length bs))) ([], 0) c
      = Ok (map id bs, c') \<and> ready c' r"
  proof (rule values_loop [OF assms(1), where elem = "\<lambda>v. if v then '' TRUE'' else '' FALSE''"
        and kind = "\<lambda>v. T_Word (if v then ''TRUE'' else ''FALSE'')"])
    show "reads ((if v then '' TRUE'' else '' FALSE'') @ rest) (T_Word (if v then ''TRUE'' else ''FALSE'')) rest"
      if "ends_number rest" for v rest
      using reads_word [of "CHR ''T''" "''RUE''" rest] reads_word [of "CHR ''F''" "''ALSE''" rest]
        ends_number_blank [OF that] by (simp add: char_classes code_def)
  qed (use assms(2) in \<open>auto simp: boolean_turn_def at_body_def\<close>)
  then show ?thesis using body_fits_checks(1) [OF assms(1)] by (simp add: parse_boolean_body_def)
qed

lemma parse_integer_body_reads:
  assumes "body_fits L width (length vs)" "at_body c (concat (map (\<lambda>v. '' '' @ show_int (num v)) vs)) r"
    and "\<And>v. v \<in> set vs \<Longrightarrow> from_scanned (num v) = Some v \<and> \<bar>num v\<bar> \<le> i128_max"
  shows "\<exists>c'. parse_integer_body from_scanned target width L p (Some (length vs)) c = Ok (vs, c') \<and> ready c' r"
proof -
  have "\<exists>c'. body_loop ''an integer literal'' (integer_turn from_scanned target width L p (Some (length vs))) ([], 0) c
      = Ok (map id vs, c') \<and> ready c' r"
  proof (rule values_loop [OF assms(1), where elem = "\<lambda>v. '' '' @ show_int (num v)"
        and kind = "\<lambda>v. T_Int (num v) False (show_int (num v))"])
    show "reads (('' '' @ show_int (num v)) @ rest) (T_Int (num v) False (show_int (num v))) rest"
      if "v \<in> set vs" "ends_number rest" for v rest
      using reads_blank(1) [OF reads_int [OF that(2)]] assms(3) [OF that(1)] by simp
  qed (use assms(2,3) in \<open>auto simp: integer_turn_def integer_element_def at_body_def\<close>)
  then show ?thesis using body_fits_checks(1) [OF assms(1)] by (simp add: parse_integer_body_def)
qed


text \<open>Floats: the shortest text, made a float literal by a fraction where it has none.\<close>

lemma float_text_parts:
  obtains ip fp ep e where "float_text F bits = literal_text (is_negative F bits) ip fp ep"
    "all_digits ip" "ip \<noteq> []" "all_digits fp" "exponent_text ep e" "fp \<noteq> [] \<or> ep \<noteq> []"
    "round_decimal F (from_digits 10 (ip @ fp)) (e - int (length fp)) = magnitude F bits"
proof -
  have no_dot: "CHR ''.'' \<notin> set s" "CHR ''e'' \<notin> set s" "CHR ''E'' \<notin> set s" if "all_digits s" for s
    using that by (auto simp: all_digits_def)
  show thesis
  proof (cases "length (display_float F bits) > SCIENTIFIC_NOTATION_SWITCH_LENGTH")
    case True
    obtain ip fp e where l: "lower_exp_float F bits = literal_text (is_negative F bits) ip fp (CHR ''e'' # show_int e)"
      "all_digits ip" "ip \<noteq> []" "all_digits fp"
      "round_decimal F (from_digits 10 (ip @ fp)) (e - int (length fp)) = magnitude F bits"
      by (rule lower_exp_parts)
    have "CHR ''e'' \<in> set (literal_text (is_negative F bits) ip fp (CHR ''e'' # show_int e))"
      by (simp add: literal_text_def)
    with True l(1) have "float_text F bits = literal_text (is_negative F bits) ip fp (CHR ''e'' # show_int e)"
      by (simp add: float_text_def Let_def)
    with l show thesis by (intro that [of ip fp "CHR ''e'' # show_int e" e]) (auto simp: exponent_text_def)
  next
    case False
    obtain ip fp where d: "display_float F bits = literal_text (is_negative F bits) ip fp []"
      "all_digits ip" "ip \<noteq> []" "all_digits fp"
      "round_decimal F (from_digits 10 (ip @ fp)) (- int (length fp)) = magnitude F bits"
      by (rule display_parts)
    show thesis
    proof (cases "fp = []")
      case True
      with d False have "float_text F bits = literal_text (is_negative F bits) ip ''0'' []"
        using no_dot [OF d(2)] by (simp add: float_text_def Let_def literal_text_def)
      moreover have "round_decimal F (from_digits 10 (ip @ ''0'')) (- 1) = magnitude F bits"
        using d(5) True round_decimal_shift [of F "from_digits 10 ip" 1 0] from_digits_zeros(3) [of ip 1]
        by simp
      ultimately show thesis
        using d by (intro that [of ip "''0''" "[]" 0]) (auto simp: exponent_text_def)
    next
      case fp: False
      have "CHR ''.'' \<in> set (literal_text (is_negative F bits) ip fp [])"
        using fp by (simp add: literal_text_def)
      with d(1) False have "float_text F bits = literal_text (is_negative F bits) ip fp []"
        by (simp add: float_text_def Let_def)
      with d fp show thesis by (intro that [of ip fp "[]" 0]) (auto simp: exponent_text_def)
    qed
  qed
qed

lemma float_text_reads:
  assumes "is_finite F bits" "bits < 2 * sign_bit F"
  shows "parse_finite F (float_text F bits) = Some bits"
    and "ends_number rest \<Longrightarrow> reads (float_text F bits @ rest) (T_Float (float_text F bits)) rest"
proof -
  obtain ip fp ep e where t: "float_text F bits = literal_text (is_negative F bits) ip fp ep"
    "all_digits ip" "ip \<noteq> []" "all_digits fp" "exponent_text ep e" "fp \<noteq> [] \<or> ep \<noteq> []"
    "round_decimal F (from_digits 10 (ip @ fp)) (e - int (length fp)) = magnitude F bits"
    by (rule float_text_parts)
  show "parse_finite F (float_text F bits) = Some bits"
    unfolding t(1) using t assms by (intro parse_finite_parts) auto
  show "reads (float_text F bits @ rest) (T_Float (float_text F bits)) rest" if "ends_number rest"
    unfolding t(1) using t that by (intro reads_number) auto
qed

lemma parse_float_body_reads:
  assumes "body_fits L width (length vs)" "at_body c (concat (map (\<lambda>v. '' '' @ float_text F (unat v)) vs)) r"
    and "\<And>v. v \<in> set vs \<Longrightarrow> is_finite F (unat v) \<and> unat v < 2 * sign_bit F"
    and "convert = (\<lambda>s. map_option word_of_nat (parse_finite F s))"
  shows "\<exists>c'. parse_float_body convert target width L p (Some (length vs)) c = Ok (vs :: 'w::len word list, c') \<and> ready c' r"
proof -
  have "\<exists>c'. body_loop ''a floating-point literal'' (float_turn convert target width L p (Some (length vs))) ([], 0) c
      = Ok (map id vs, c') \<and> ready c' r"
  proof (rule values_loop [OF assms(1), where elem = "\<lambda>v. '' '' @ float_text F (unat v)"
        and kind = "\<lambda>v. T_Float (float_text F (unat v))"])
    show "reads (('' '' @ float_text F (unat v)) @ rest) (T_Float (float_text F (unat v))) rest"
      if "v \<in> set vs" "ends_number rest" for v rest
      using reads_blank(1) [OF float_text_reads(2)] assms(3) [OF that(1)] that(2) by simp
    show "float_turn convert target width L p (Some (length vs)) \<lparr>tk_kind = T_Float (float_text F (unat v)), tk_pos = p'\<rparr> (ws, n)
        = Ok (Continue (ws @ [id v], m))"
      if "v \<in> set vs" "admit_body_element L p (Some (length vs)) n (length ws) width 1 = Ok m" for p' v ws n m
      using that float_text_reads(1) [of F "unat v"] assms(3) [OF that(1)]
      by (simp add: float_turn_def assms(4))
  qed (use assms(2) in \<open>auto simp: float_turn_def at_body_def\<close>)
  then show ?thesis using body_fits_checks(1) [OF assms(1)] by (simp add: parse_float_body_def)
qed

text \<open>ASCII: the accumulators are what the fragments read so far stand for.\<close>

fun fragment_kind :: "bytes + u8 \<Rightarrow> token_kind" where
  "fragment_kind (Inl piece) = T_Str (map byte_char piece)"
| "fragment_kind (Inr b) = T_HexByte b (''0x'' @ show_hex2 b)"

lemma reads_fragment:
  assumes "f \<in> set (fragments bs)" "ends_number rest"
  shows "reads (fragment_text f @ rest) (fragment_kind f) rest"
proof (cases f)
  case (Inl piece)
  with assms(1) fragments_runs have "list_all is_quotable_ascii piece" by blast
  moreover have "unat c = 34 \<longleftrightarrow> c = 34" "unat c = 92 \<longleftrightarrow> c = 92" for c :: u8
    by (simp_all add: word_unat_eq_iff)
  ultimately have "\<forall>c \<in> set (map byte_char piece). is_quotable c"
    by (auto simp: list_all_iff is_quotable_ascii_def is_quotable_def word_le_nat_alt code_inject [symmetric]
        simp del: code_inject)
  from reads_blank(1) [OF reads_string [OF this]] Inl show ?thesis by simp
next
  case (Inr b)
  then show ?thesis
    using reads_blank(1) [OF reads_hex_byte [of rest b]] ends_number_stops(2) [OF assms(2)] by simp
qed

definition ascii_state :: "(bytes + u8) list \<Rightarrow> rust_str \<times> usize" where
  "ascii_state fs = (map byte_char (concat (map fragment_bytes fs)), length (concat (map fragment_bytes fs)))"

lemma char_count_ascii: "list_all is_quotable_ascii piece \<Longrightarrow> char_count (map byte_char piece) = length piece"
proof (induction piece)
  case (Cons b piece)
  then show ?case by (auto simp: char_count_def is_quotable_ascii_def word_le_nat_alt)
qed (simp add: char_count_def)

lemma parse_ascii_body_reads:
  assumes "body_fits L 1 (length bs)" "at_body c (concat (map fragment_text (fragments bs))) r"
    and ascii: "list_all is_ascii bs"
  shows "\<exists>c'. parse_ascii_body L p (Some (length bs)) c = Ok (bs, c') \<and> ready c' r"
proof -
  let ?e = "''a quoted string or 0xHH byte''" and ?step = "ascii_turn L p (Some (length bs))"
  have "\<exists>c'. body_loop ?e ?step (ascii_state []) c = Ok (bs, c') \<and> ready c' r"
  proof (rule body_loop_elements [of "fragments bs" fragment_text fragment_kind ?step ascii_state])
    show "?step \<lparr>tk_kind = fragment_kind f, tk_pos = q\<rparr> (ascii_state ys) = Ok (Continue (ascii_state (ys @ [f])))"
      if fs: "fragments bs = ys @ f # zs" for ys f zs q
    proof -
      let ?k = "length (concat (map fragment_bytes ys))"
      have "concat (map fragment_bytes (ys @ f # zs)) = bs" using fragments_bytes [of bs] fs by simp
      then have "?k + length (fragment_bytes f) \<le> length bs" by (auto dest!: arg_cong [of _ _ length])
      from body_fits_checks(2) [OF assms(1) this, of p]
      have admit: "admit_body_element L p (Some (length bs)) ?k ?k (length (fragment_bytes f)) (length (fragment_bytes f))
          = Ok (?k + length (fragment_bytes f))" by simp
      show ?thesis
      proof (cases f)
        case (Inl piece)
        with fs fragments_runs [of piece bs] have "char_count (map byte_char piece) = length piece"
          by (intro char_count_ascii) simp
        with admit Inl show ?thesis by (simp add: ascii_turn_def ascii_state_def)
      next
        case (Inr b)
        with fs fragments_others [of b bs] ascii have "unat b \<le> 0x7F"
          by (auto simp: list_all_iff is_ascii_def)
        with admit Inr show ?thesis by (simp add: ascii_turn_def ascii_state_def)
      qed
    qed
    show "?step \<lparr>tk_kind = T_Gt, tk_pos = q\<rparr> (ascii_state (fragments bs)) = Ok (Done bs)" for q
      using body_fits_checks(3) [OF assms(1), of p] ascii find_non_ascii_None [of 0 bs]
      by (simp add: ascii_turn_def ascii_state_def fragments_bytes ascii_string_new_def comp_def)
    show "\<exists>t. fragment_text f = CHR '' '' # t" for f by (cases f) auto
  qed (use assms(2) in \<open>auto simp: at_body_def reads_fragment\<close>)
  then show ?thesis
    using body_fits_checks(1) [OF assms(1)] by (simp add: parse_ascii_body_def ascii_state_def)
qed

end
