(* ===== verification/Sml_Reparse.thy ===== *)
theory Sml_Reparse
  imports Sml_Roundtrip
begin

section \<open>SML: reading a formatted tree\<close>

text \<open>
  One lemma per shape of item: a leaf is parsed where its text starts, and a list through the
  explicit stack of open lists, by induction over the tree.
\<close>

subsection \<open>Leaf items\<close>

text \<open>The cursor \<open>ic'\<close> has left a subtree of at most \<open>m\<close> nodes behind and stands before \<open>r\<close>.\<close>

definition passed :: "item_cursor \<Rightarrow> nat \<Rightarrow> rust_str \<Rightarrow> item_cursor \<Rightarrow> bool" where
  "passed ic m r ic' \<longleftrightarrow>
     ready (ic_tokens ic') r \<and> ic_stack ic' = ic_stack ic \<and> ic_limits ic' = ic_limits ic \<and>
     ic_node_count ic' \<le> ic_node_count ic + m"

lemma write_count_text: "write_count [] name n = CHR ''<'' # name @ CHR ''['' # show_nat n @ '']''"
  by (simp add: write_count_def)

lemma leaf_started:
  fixes vs :: "'v list"
  assumes "upcoming (ic_tokens ic) T_Lt (tl (write_count [] name (length vs)) @ body @ ''>'' @ r)"
    and "type_name name" "\<And>p. classify_item_type name p = Ok kind" "kind \<noteq> Kind_List"
    and "length vs \<le> usize_max" "ic_node_count ic + 1 \<le> max_total_items (ic_limits ic)"
    and "\<And>p c ic'. ic_limits ic' = ic_limits ic \<Longrightarrow> start_item kind p (Some (length vs)) c ic' = leaf mk ic' (parse p c)"
    and "\<And>p c. at_body c body r \<Longrightarrow> \<exists>c'. parse p c = Ok (vs, c') \<and> ready c' r"
  shows "\<exists>ic'. parse_one_item ic = Ok (Finished (mk vs), ic') \<and> passed ic 1 r ic'"
proof -
  have "upcoming (ic_tokens ic) T_Lt (name @ CHR ''['' # show_nat (length vs) @ CHR '']'' # body @ ''>'' @ r)"
    using assms(1) by (simp add: write_count_text)
  then obtain p c where "ready c (body @ ''>'' @ r)"
    "parse_one_item ic = start_item kind p (Some (length vs)) c
       (ic\<lparr>ic_node_count := saturating_add (ic_node_count ic) 1\<rparr>)"
    by (rule parse_header [OF _ assms(2,3,5,6)]) (use assms(4) in auto)
  moreover from this(1) assms(8) [of c p] obtain c' where "parse p c = Ok (vs, c')" "ready c' r"
    by (auto simp: at_body_def)
  ultimately show ?thesis
    using assms(7) [of "ic\<lparr>ic_node_count := saturating_add (ic_node_count ic) 1\<rparr>"]
    by (auto simp: leaf_def passed_def saturating_add_def)
qed

lemma type_names:
  "type_name ''L''" "type_name ''B''" "type_name ''BOOLEAN''" "type_name ''A''"
  "type_name ''I1''" "type_name ''I2''" "type_name ''I4''" "type_name ''I8''"
  "type_name ''U1''" "type_name ''U2''" "type_name ''U4''" "type_name ''U8''"
  "type_name ''F4''" "type_name ''F8''"
  by (simp_all add: type_name_def char_classes code_def)

lemma body_fitsI:
  assumes "decode_limits_validate L = Ok ()" "n * width \<le> max_item_bytes L" "0 < width"
  shows "body_fits L width n" "n \<le> usize_max"
proof -
  show "body_fits L width n" using assms by (simp add: body_fits_def decode_limits_validate_Ok)
  have "n \<le> n * width" using assms(3) by simp
  also have "\<dots> \<le> MAX_ENCODED_ITEM_LENGTH" using assms(1,2) by (auto simp: decode_limits_validate_Ok)
  also have "\<dots> \<le> usize_max" by (simp add: MAX_ENCODED_ITEM_LENGTH_def usize_max_def)
  finally show "n \<le> usize_max" .
qed

lemma signed_small: "LENGTH('w::len) \<le> 64 \<Longrightarrow> \<bar>sint (v :: 'w word)\<bar> \<le> i128_max"
proof -
  assume "LENGTH('w) \<le> 64"
  then have "(2::int) ^ (LENGTH('w) - 1) \<le> 2 ^ 63" by (intro power_increasing) simp_all
  with sint_ge [of v] sint_lt [of v] show ?thesis by (simp add: i128_max_def)
qed

lemma unsigned_small: "LENGTH('w::len) \<le> 64 \<Longrightarrow> \<bar>uint (v :: 'w word)\<bar> \<le> i128_max"
proof -
  assume "LENGTH('w) \<le> 64"
  then have "(2::int) ^ LENGTH('w) \<le> 2 ^ 64" by (intro power_increasing) simp_all
  then have "uint v < 2 ^ 64" by (rule order.strict_trans2 [OF uint_lt2p])
  then show ?thesis by (simp add: i128_max_def)
qed


lemma parse_signed_body_reads:
  assumes "body_fits L width (length vs)" "at_body c (concat (map (\<lambda>v. '' '' @ display_signed v) vs)) r"
    and "LENGTH('w::len) \<le> 64"
  shows "\<exists>c'. parse_integer_body from_scanned_signed target width L p (Some (length vs)) c = Ok (vs :: 'w word list, c') \<and> ready c' r"
  using assms signed_small [OF assms(3)]
  by (intro parse_integer_body_reads [where num = sint]) (auto simp: display_signed_def)

lemma parse_unsigned_body_reads:
  assumes "body_fits L width (length vs)" "at_body c (concat (map (\<lambda>v. '' '' @ display_unsigned v) vs)) r"
    and "LENGTH('w::len) \<le> 64"
  shows "\<exists>c'. parse_integer_body from_scanned_unsigned target width L p (Some (length vs)) c = Ok (vs :: 'w word list, c') \<and> ready c' r"
  using assms unsigned_small [OF assms(3)]
  by (intro parse_integer_body_reads [where num = uint]) (auto simp: display_unsigned_def)

lemma parse_f32_body_reads:
  assumes "body_fits L width (length vs)" "at_body c (concat (map (\<lambda>v. '' '' @ float_text f32_format (unat v)) vs)) r"
    and "list_all f32_finite vs"
  shows "\<exists>c'. parse_float_body convert_f32 target width L p (Some (length vs)) c = Ok (vs, c') \<and> ready c' r"
proof (rule parse_float_body_reads [OF assms(1,2)])
  show "is_finite f32_format (unat v) \<and> unat v < 2 * sign_bit f32_format" if "v \<in> set vs" for v
    using that assms(3) unat_bounds [of v] by (auto simp: list_all_iff f32_finite_def sign_bit_def hidden_bit_def f32_format_def)
qed (simp add: convert_f32_def [abs_def])

lemma parse_f64_body_reads:
  assumes "body_fits L width (length vs)" "at_body c (concat (map (\<lambda>v. '' '' @ float_text f64_format (unat v)) vs)) r"
    and "list_all f64_finite vs"
  shows "\<exists>c'. parse_float_body convert_f64 target width L p (Some (length vs)) c = Ok (vs, c') \<and> ready c' r"
proof (rule parse_float_body_reads [OF assms(1,2)])
  show "is_finite f64_format (unat v) \<and> unat v < 2 * sign_bit f64_format" if "v \<in> set vs" for v
    using that assms(3) unat_bounds [of v] by (auto simp: list_all_iff f64_finite_def sign_bit_def hidden_bit_def f64_format_def)
qed (simp add: convert_f64_def [abs_def])

lemma leaf_text_start:
  assumes "\<not> is_list it" "refusal (it, l) = None"
  shows "\<exists>t. leaf_text it = CHR ''<'' # t"
  using assms by (cases it) (auto simp: leaf_texts write_count_text)

lemma leaf_case:
  fixes vs :: "'v list"
  assumes "upcoming (ic_tokens ic) T_Lt (tl (leaf_text (mk vs)) @ r)"
    and "decode_limits_validate (ic_limits ic) = Ok ()"
    and "ic_node_count ic + 1 \<le> max_total_items (ic_limits ic)"
    and "length vs * width \<le> max_item_bytes (ic_limits ic)" "0 < width"
    and "leaf_text (mk vs) = write_count [] name (length vs) @ body @ ''>''"
    and "type_name name" "\<And>p. classify_item_type name p = Ok kind" "kind \<noteq> Kind_List"
    and "\<And>p c ic'. ic_limits ic' = ic_limits ic \<Longrightarrow> start_item kind p (Some (length vs)) c ic' = leaf mk ic' (parse p c)"
    and "\<And>p c. body_fits (ic_limits ic) width (length vs) \<Longrightarrow> at_body c body r \<Longrightarrow> \<exists>c'. parse p c = Ok (vs, c') \<and> ready c' r"
  shows "\<exists>ic'. parse_one_item ic = Ok (Finished (mk vs), ic') \<and> passed ic 1 r ic'"
proof -
  note fits = body_fitsI [OF assms(2,4,5)]
  have "upcoming (ic_tokens ic) T_Lt (tl (write_count [] name (length vs)) @ body @ ''>'' @ r)"
    using assms(1) by (simp add: assms(6) write_count_text)
  then show ?thesis
    by (rule leaf_started [OF _ assms(7,8,9) fits(2) assms(3,10)]) (use assms(11) fits(1) in auto)
qed

lemmas leaf_facts = type_names classify_item_type_def start_item_def Let_def leaf_texts

lemma leaf_read:
  assumes "\<not> is_list it" "refusal (it, l) = None" "item_ok it" "item_within (ic_limits ic) d it"
    and L: "decode_limits_validate (ic_limits ic) = Ok ()"
    and n: "ic_node_count ic + 1 \<le> max_total_items (ic_limits ic)"
    and up: "upcoming (ic_tokens ic) T_Lt (tl (leaf_text it) @ r)"
  shows "\<exists>ic'. parse_one_item ic = Ok (Finished it, ic') \<and> passed ic 1 r ic'"
proof -
  show ?thesis
  proof (cases it)
    case it: (Item_Binary vs)
    show ?thesis unfolding it
      by (rule leaf_case [where mk = Item_Binary and vs = vs and name = "''B''" and kind = Kind_Binary and width = 1, OF _ L n _ _ leaf_texts(1)])
        (use assms it in \<open>auto simp: leaf_facts intro!: parse_binary_body_reads\<close>)
  next
    case it: (Item_Boolean vs)
    show ?thesis unfolding it
      by (rule leaf_case [where mk = Item_Boolean and vs = vs and name = "''BOOLEAN''" and kind = Kind_Boolean and width = 1, OF _ L n _ _ leaf_texts(2)])
        (use assms it in \<open>auto simp: leaf_facts intro!: parse_boolean_body_reads\<close>)
  next
    case it: (Item_Ascii vs)
    show ?thesis unfolding it
      by (rule leaf_case [where mk = Item_Ascii and vs = vs and name = "''A''" and kind = Kind_Ascii and width = 1, OF _ L n _ _ leaf_texts(3)])
        (use assms it in \<open>auto simp: leaf_facts intro!: parse_ascii_body_reads\<close>)
  next
    case it: (Item_I8 vs)
    show ?thesis unfolding it
      by (rule leaf_case [where mk = Item_I8 and vs = vs and name = "''I8''" and kind = Kind_I8 and width = 8, OF _ L n _ _ leaf_texts(4)])
        (use assms it in \<open>auto simp: leaf_facts intro!: parse_signed_body_reads\<close>)
  next
    case it: (Item_I1 vs)
    show ?thesis unfolding it
      by (rule leaf_case [where mk = Item_I1 and vs = vs and name = "''I1''" and kind = Kind_I1 and width = 1, OF _ L n _ _ leaf_texts(5)])
        (use assms it in \<open>auto simp: leaf_facts intro!: parse_signed_body_reads\<close>)
  next
    case it: (Item_I2 vs)
    show ?thesis unfolding it
      by (rule leaf_case [where mk = Item_I2 and vs = vs and name = "''I2''" and kind = Kind_I2 and width = 2, OF _ L n _ _ leaf_texts(6)])
        (use assms it in \<open>auto simp: leaf_facts intro!: parse_signed_body_reads\<close>)
  next
    case it: (Item_I4 vs)
    show ?thesis unfolding it
      by (rule leaf_case [where mk = Item_I4 and vs = vs and name = "''I4''" and kind = Kind_I4 and width = 4, OF _ L n _ _ leaf_texts(7)])
        (use assms it in \<open>auto simp: leaf_facts intro!: parse_signed_body_reads\<close>)
  next
    case it: (Item_U8 vs)
    show ?thesis unfolding it
      by (rule leaf_case [where mk = Item_U8 and vs = vs and name = "''U8''" and kind = Kind_U8 and width = 8, OF _ L n _ _ leaf_texts(8)])
        (use assms it in \<open>auto simp: leaf_facts intro!: parse_unsigned_body_reads\<close>)
  next
    case it: (Item_U1 vs)
    show ?thesis unfolding it
      by (rule leaf_case [where mk = Item_U1 and vs = vs and name = "''U1''" and kind = Kind_U1 and width = 1, OF _ L n _ _ leaf_texts(9)])
        (use assms it in \<open>auto simp: leaf_facts intro!: parse_unsigned_body_reads\<close>)
  next
    case it: (Item_U2 vs)
    show ?thesis unfolding it
      by (rule leaf_case [where mk = Item_U2 and vs = vs and name = "''U2''" and kind = Kind_U2 and width = 2, OF _ L n _ _ leaf_texts(10)])
        (use assms it in \<open>auto simp: leaf_facts intro!: parse_unsigned_body_reads\<close>)
  next
    case it: (Item_U4 vs)
    show ?thesis unfolding it
      by (rule leaf_case [where mk = Item_U4 and vs = vs and name = "''U4''" and kind = Kind_U4 and width = 4, OF _ L n _ _ leaf_texts(11)])
        (use assms it in \<open>auto simp: leaf_facts intro!: parse_unsigned_body_reads\<close>)
  next
    case it: (Item_F8 vs)
    show ?thesis unfolding it
      by (rule leaf_case [where mk = Item_F8 and vs = vs and name = "''F8''" and kind = Kind_F8 and width = 8, OF _ L n _ _ leaf_texts(12)])
        (use assms it in \<open>auto simp: leaf_facts split: if_splits intro!: parse_f64_body_reads\<close>)
  next
    case it: (Item_F4 vs)
    show ?thesis unfolding it
      by (rule leaf_case [where mk = Item_F4 and vs = vs and name = "''F4''" and kind = Kind_F4 and width = 4, OF _ L n _ _ leaf_texts(13)])
        (use assms it in \<open>auto simp: leaf_facts split: if_splits intro!: parse_f32_body_reads\<close>)
  qed (use assms in simp_all)
qed


subsection \<open>Trees\<close>

text \<open>What the loop does with a finished item.\<close>

definition complete :: "secs_item \<Rightarrow> item_cursor \<Rightarrow> (secs_item \<times> item_cursor, parse_error) result" where
  "complete it ic =
     bind_res (attach it ic) (\<lambda>(root, ic). case root of Some r \<Rightarrow> Ok (r, ic) | None \<Rightarrow> list_body ic)"

lemma parse_root_finished: "parse_one_item ic = Ok (Finished it, ic') \<Longrightarrow> parse_root ic = complete it ic'"
  by (subst parse_root.simps) (simp add: complete_def)

lemma parse_root_opened: "parse_one_item ic = Ok (OpenedList, ic') \<Longrightarrow> parse_root ic = list_body ic'"
  by (subst parse_root.simps) simp

text \<open>An item in a list whose count is declared.\<close>

lemma complete_child:
  assumes "ic_stack ic = frame # fs" "sf_declared_count frame = Some n"
  shows "complete it ic = list_body (ic\<lparr>ic_stack := frame\<lparr>sf_children := sf_children frame @ [it]\<rparr> # fs\<rparr>)"
  using assms by (simp add: complete_def attach_def)

lemma list_body_child:
  assumes "upcoming (ic_tokens ic) T_Lt u" "ic_stack ic = frame # fs" "sf_declared_count frame = Some n"
    and "length (sf_children frame) < n" "n \<le> max_list_items (ic_limits ic)"
  obtains c where "list_body ic = parse_root (ic\<lparr>ic_tokens := c\<rparr>)" "upcoming c T_Lt u"
proof -
  obtain p c where c: "cursor_peek (ic_tokens ic) = Ok (Some \<lparr>tk_kind = T_Lt, tk_pos = p\<rparr>, c)" "upcoming c T_Lt u"
    using assms(1) by (rule cursor_peek_upcoming)
  have "saturating_add (length (sf_children frame)) 1 \<le> n"
    using assms(4) by (simp add: saturating_add_def)
  with assms(2,3,5) have "admit_list_child ic = Ok ()" by (simp add: admit_list_child_def Let_def)
  with c show thesis by (intro that [of c]) (subst list_body.simps, simp_all)
qed

lemma list_body_close:
  assumes "ready (ic_tokens ic) u" "reads u T_Gt r" "ic_stack ic = frame # fs"
    and "sf_declared_count frame = Some (length (sf_children frame))"
  obtains c where "list_body ic = complete (Item_List (sf_children frame)) (ic\<lparr>ic_tokens := c, ic_stack := fs\<rparr>)" "ready c r"
proof -
  have "upcoming (ic_tokens ic) T_Gt r" using assms(1,2) by (rule upcomingI)
  then obtain p c1 where c1: "cursor_peek (ic_tokens ic) = Ok (Some \<lparr>tk_kind = T_Gt, tk_pos = p\<rparr>, c1)" "upcoming c1 T_Gt r"
    by (rule cursor_peek_upcoming)
  from c1(2) obtain p' c where "cursor_next c1 = Ok (Some \<lparr>tk_kind = T_Gt, tk_pos = p'\<rparr>, c)" "ready c r"
    by (rule cursor_next_upcoming)
  with c1(1) assms(3,4) show thesis
    by (intro that [of c]) (subst list_body.simps, simp_all add: complete_def)
qed

lemma reads_indent: "reads u k r \<Longrightarrow> reads (concat (replicate n ''  '') @ u) k r"
  by (induction n) simp_all

lemma reads_gap: "reads u k r \<Longrightarrow> reads (gap pretty indent @ u) k r"
  by (simp add: gap_def write_line_start_def reads_indent)

lemma item_text_start:
  assumes "renderable l it"
  shows "item_text pretty indent it = CHR ''<'' # tl (item_text pretty indent it)"
proof (cases "is_list it")
  case True
  then show ?thesis by (cases it) (auto simp: write_count_text)
next
  case False
  with assms have "refusal (it, l) = None" by (cases it) auto
  with leaf_text_start [OF False this] False show ?thesis by auto
qed

text \<open>The text of the children still to come of a list.\<close>

definition children_text :: "bool \<Rightarrow> nat \<Rightarrow> secs_item list \<Rightarrow> rust_str" where
  "children_text pretty indent cs = concat (map (\<lambda>c. gap pretty indent @ item_text pretty indent c) cs)"

text \<open>\<open>admits ic l it\<close>: the limits leave room for \<open>it\<close> in the open lists of \<open>ic\<close>.\<close>

definition admits :: "item_cursor \<Rightarrow> nat \<Rightarrow> secs_item \<Rightarrow> bool" where
  "admits ic l it \<longleftrightarrow>
     renderable l it \<and> item_ok it \<and> encodable it \<and> item_within (ic_limits ic) (length (ic_stack ic)) it \<and>
     decode_limits_validate (ic_limits ic) = Ok () \<and>
     ic_node_count ic + node_count it \<le> max_total_items (ic_limits ic)"

definition reads_back :: "bool \<Rightarrow> secs_item \<Rightarrow> bool" where
  "reads_back pretty it \<longleftrightarrow>
     (\<forall>ic l indent r. admits ic l it \<longrightarrow> upcoming (ic_tokens ic) T_Lt (tl (item_text pretty indent it) @ r) \<longrightarrow>
        (\<exists>ic'. parse_root ic = complete it ic' \<and> passed ic (node_count it) r ic'))"

lemma reads_backD:
  assumes "reads_back pretty it" "admits ic l it"
    "upcoming (ic_tokens ic) T_Lt (tl (item_text pretty indent it) @ r)"
  obtains ic' where "parse_root ic = complete it ic'" "passed ic (node_count it) r ic'"
  using assms unfolding reads_back_def by blast

lemma reads_back_leaf: "\<not> is_list it \<Longrightarrow> reads_back pretty it"
  unfolding reads_back_def
proof (intro allI impI)
  fix ic l indent r
  assume leaf: "\<not> is_list it" and a: "admits ic l it"
    and up: "upcoming (ic_tokens ic) T_Lt (tl (item_text pretty indent it) @ r)"
  have "refusal (it, l) = None" using a leaf by (cases it) (auto simp: admits_def)
  moreover have "item_ok it" "item_within (ic_limits ic) (length (ic_stack ic)) it"
    "decode_limits_validate (ic_limits ic) = Ok ()" "ic_node_count ic + 1 \<le> max_total_items (ic_limits ic)"
    using a leaf unfolding admits_def by simp_all
  moreover have "upcoming (ic_tokens ic) T_Lt (tl (leaf_text it) @ r)" using up leaf by simp
  ultimately obtain ic' where "parse_one_item ic = Ok (Finished it, ic')" "passed ic 1 r ic'"
    using leaf_read [OF leaf] by blast
  with leaf show "\<exists>ic'. parse_root ic = complete it ic' \<and> passed ic (node_count it) r ic'"
    by (auto simp: parse_root_finished)
qed

text \<open>The children of the innermost list, from any of them on.\<close>

lemma list_body_reads:
  assumes "\<And>c. c \<in> set ds \<Longrightarrow> reads_back pretty c"
    and "\<And>c. c \<in> set ds \<Longrightarrow> renderable l c \<and> item_ok c \<and> encodable c \<and> item_within (ic_limits ic) (length (ic_stack ic)) c"
    and "decode_limits_validate (ic_limits ic) = Ok ()"
    and "ic_node_count ic + sum_list (map node_count ds) \<le> max_total_items (ic_limits ic)"
    and "ready (ic_tokens ic) (children_text pretty indent ds @ u)" "reads u T_Gt r"
    and "ic_stack ic = frame # fs" "sf_declared_count frame = Some (length (sf_children frame) + length ds)"
    and "length (sf_children frame) + length ds \<le> max_list_items (ic_limits ic)"
  shows "\<exists>ic'. list_body ic = complete (Item_List (sf_children frame @ ds)) ic' \<and>
    passed (ic\<lparr>ic_stack := fs\<rparr>) (sum_list (map node_count ds)) r ic'"
  using assms
proof (induction ds arbitrary: ic frame)
  case Nil
  then have "ready (ic_tokens ic) u" by (simp add: children_text_def)
  from list_body_close [OF this Nil.prems(6,7)] Nil.prems(8)
  obtain c where "list_body ic = complete (Item_List (sf_children frame)) (ic\<lparr>ic_tokens := c, ic_stack := fs\<rparr>)" "ready c r"
    by auto
  then show ?case by (auto simp: passed_def)
next
  case (Cons d ds)
  let ?rest = "children_text pretty indent ds @ u"
  have d: "renderable l d" "item_ok d" "encodable d" "item_within (ic_limits ic) (length (ic_stack ic)) d"
    using Cons.prems(2) [of d] by auto
  have "reads (CHR ''<'' # tl (item_text pretty indent d) @ ?rest) T_Lt (tl (item_text pretty indent d) @ ?rest)"
    by simp
  then have "reads ((CHR ''<'' # tl (item_text pretty indent d)) @ ?rest) T_Lt (tl (item_text pretty indent d) @ ?rest)"
    by simp
  then have "reads (gap pretty indent @ item_text pretty indent d @ ?rest) T_Lt (tl (item_text pretty indent d) @ ?rest)"
    unfolding item_text_start [OF d(1), of pretty indent, symmetric] by (rule reads_gap)
  with Cons.prems(5) have "upcoming (ic_tokens ic) T_Lt (tl (item_text pretty indent d) @ ?rest)"
    by (intro upcomingI [of _ "gap pretty indent @ item_text pretty indent d @ ?rest"]) (simp_all add: children_text_def)
  from list_body_child [OF this Cons.prems(7,8)] Cons.prems(9)
  obtain c where c: "list_body ic = parse_root (ic\<lparr>ic_tokens := c\<rparr>)"
    "upcoming c T_Lt (tl (item_text pretty indent d) @ ?rest)" by auto
  have "admits (ic\<lparr>ic_tokens := c\<rparr>) l d" using d Cons.prems(3,4) by (simp add: admits_def)
  from reads_backD [OF Cons.prems(1) this, of indent ?rest] c(2) obtain ic1
    where ic1: "parse_root (ic\<lparr>ic_tokens := c\<rparr>) = complete d ic1"
      "passed (ic\<lparr>ic_tokens := c\<rparr>) (node_count d) ?rest ic1" by auto
  let ?frame = "frame\<lparr>sf_children := sf_children frame @ [d]\<rparr>"
  let ?ic = "ic1\<lparr>ic_stack := ?frame # fs\<rparr>"
  have st: "ic_stack ic1 = frame # fs" "ic_limits ic1 = ic_limits ic" "ready (ic_tokens ic1) ?rest"
    "ic_node_count ic1 \<le> ic_node_count ic + node_count d"
    using ic1(2) Cons.prems(7) by (simp_all add: passed_def)
  have "complete d ic1 = list_body ?ic" by (rule complete_child [OF st(1) Cons.prems(8)])
  moreover have "\<exists>ic'. list_body ?ic = complete (Item_List (sf_children ?frame @ ds)) ic' \<and>
      passed (?ic\<lparr>ic_stack := fs\<rparr>) (sum_list (map node_count ds)) r ic'"
    by (rule Cons.IH) (use Cons.prems st in auto)
  ultimately show ?case using c(1) ic1(1) st by (auto simp: passed_def)
qed

lemma item_text_List:
  "item_text pretty indent (Item_List cs) =
     write_count [] ''L'' (length cs) @ children_text pretty (saturating_add indent 1) cs
     @ (if cs \<noteq> [] \<and> pretty then gap pretty indent else []) @ ''>''"
  by (simp add: children_text_def)

lemma reads_back_List:
  assumes "\<And>c. c \<in> set cs \<Longrightarrow> reads_back pretty c"
  shows "reads_back pretty (Item_List cs)"
  unfolding reads_back_def
proof (intro allI impI)
  fix ic :: item_cursor and l indent r
  let ?L = "ic_limits ic" and ?close = "(if cs \<noteq> [] \<and> pretty then gap pretty indent else []) @ ''>'' @ r"
  assume a: "admits ic l (Item_List cs)"
    and up: "upcoming (ic_tokens ic) T_Lt (tl (item_text pretty indent (Item_List cs)) @ r)"
  let ?body = "children_text pretty (saturating_add indent 1) cs @ ?close"
  have cs: "\<And>c. c \<in> set cs \<Longrightarrow> renderable (l + 1) c \<and> item_ok c \<and> encodable c \<and> item_within ?L (Suc (length (ic_stack ic))) c"
    "length cs \<le> max_list_items ?L" "length (ic_stack ic) < max_depth ?L" "length cs \<le> MAX_ENCODED_ITEM_LENGTH"
    and L: "decode_limits_validate ?L = Ok ()"
    and n: "ic_node_count ic + Suc (sum_list (map node_count cs)) \<le> max_total_items ?L"
    using a by (auto simp: admits_def)
  have len: "length cs \<le> usize_max" using cs(4) by (simp add: MAX_ENCODED_ITEM_LENGTH_def usize_max_def)
  have up': "upcoming (ic_tokens ic) T_Lt (''L'' @ CHR ''['' # show_nat (length cs) @ CHR '']'' # ?body)"
    using up by (simp add: item_text_List write_count_text del: item_text.simps)
  obtain p c where c: "ready c ?body"
    "parse_one_item ic = start_item Kind_List p (Some (length cs)) c
       (ic\<lparr>ic_node_count := saturating_add (ic_node_count ic) 1\<rparr>)"
    by (rule parse_header [OF up' type_names(1) _ len])
      (use cs(3) n in \<open>auto simp: classify_item_type_def\<close>)
  define ic1 where "ic1 = ic\<lparr>ic_tokens := c, ic_node_count := saturating_add (ic_node_count ic) 1,
    ic_stack := \<lparr>sf_children = [], sf_declared_count = Some (length cs), sf_type_pos = p\<rparr> # ic_stack ic\<rparr>"
  have "parse_one_item ic = Ok (OpenedList, ic1)"
    using c(2) cs(2) by (simp add: start_item_def is_some_and_def ic1_def)
  then have root: "parse_root ic = list_body ic1" by (rule parse_root_opened)
  have close: "reads ?close T_Gt r" using reads_gap [of "''>'' @ r"] by simp
  have "ic_node_count ic1 \<le> Suc (ic_node_count ic)" by (simp add: ic1_def saturating_add_def)
  then have "\<exists>ic'. list_body ic1 = complete (Item_List ([] @ cs)) ic' \<and>
      passed (ic1\<lparr>ic_stack := ic_stack ic\<rparr>) (sum_list (map node_count cs)) r ic'"
    using list_body_reads [of cs pretty "l + 1" ic1 "saturating_add indent 1" ?close r
        "\<lparr>sf_children = [], sf_declared_count = Some (length cs), sf_type_pos = p\<rparr>" "ic_stack ic"]
      assms cs L n c(1) close
    by (simp add: ic1_def)
  with root \<open>ic_node_count ic1 \<le> Suc (ic_node_count ic)\<close>
  show "\<exists>ic'. parse_root ic = complete (Item_List cs) ic' \<and> passed ic (node_count (Item_List cs)) r ic'"
    by (auto simp: passed_def ic1_def)
qed

theorem reads_back_all: "reads_back pretty it"
proof (induction it)
  case (Item_List cs)
  then show ?case by (rule reads_back_List)
qed (simp_all add: reads_back_leaf)

end
