(* ===== verification/Sml_Bounds.thy ===== *)
theory Sml_Bounds
  imports Sml_Reparse
begin

section \<open>SML: what the parser accepts\<close>

text \<open>
  Every accepted tree lies within the limits, satisfies the invariant of its types, and can be
  written again: the invariants of the body loops, of the stack of open lists, and of the tree.
\<close>

subsection \<open>Limits\<close>

text \<open>
  Limits whose counts leave room for arithmetic: a tree within them is encodable and its encoding
  is addressable.
\<close>

definition sml_limits :: "decode_limits \<Rightarrow> bool" where
  "sml_limits L \<longleftrightarrow>
     decode_limits_validate L = Ok () \<and> max_list_items L \<le> MAX_ENCODED_ITEM_LENGTH \<and>
     max_total_items L \<le> 2 ^ 39"

lemma sml_limits_default: "sml_limits decode_limits_default"
  by (simp add: sml_limits_def decode_limits_default_valid, simp add: decode_limits_default_def
      MAX_ENCODED_ITEM_LENGTH_def)

lemma sml_limits_facts:
  assumes "sml_limits L"
  shows "max_item_bytes L < usize_max" "max_list_items L < usize_max" "max_total_items L < usize_max"
    "max_depth L \<le> MAX_DECODE_NESTING_DEPTH" "max_item_bytes L \<le> MAX_ENCODED_ITEM_LENGTH"
  using assms
  by (auto simp: sml_limits_def decode_limits_validate_Ok MAX_ENCODED_ITEM_LENGTH_def usize_max_def)

lemma saturating_add_le:
  assumes "saturating_add a b \<le> m" "m < usize_max"
  shows "saturating_add a b = a + b"
  using assms by (auto simp: saturating_add_def min_def split: if_splits)

subsection \<open>Bodies\<close>

lemma body_loop_inv:
  assumes cont: "\<And>tok st st'. I st \<Longrightarrow> step tok st = Ok (Continue st') \<Longrightarrow> I st'"
    and finish: "\<And>tok st v. I st \<Longrightarrow> step tok st = Ok (Done v) \<Longrightarrow> Q v"
  shows "I st \<Longrightarrow> body_loop e step st c = Ok (v, c') \<Longrightarrow> Q v"
proof (induction "cursor_size c" arbitrary: st c rule: less_induct)
  case less
  from less.prems(2) obtain tok c1 t where t: "need_token e c = Ok (tok, c1)" "step tok st = Ok t"
    "(case t of Continue st \<Rightarrow> body_loop e step st c1 | Done v \<Rightarrow> Ok (v, c1)) = Ok (v, c')"
    by (subst (asm) body_loop.simps) (auto simp: res_simps)
  then show ?case
    using less.hyps [OF need_token_shorter [OF t(1)]] cont [OF less.prems(1)] finish [OF less.prems(1)]
    by (cases t) auto
qed

lemma admit_body_element_Ok:
  assumes "sml_limits L" "admit_body_element L p dc n k bytes gain = Ok m"
  shows "m = n + bytes" "m \<le> max_item_bytes L"
proof -
  have "m = saturating_add n bytes" "m \<le> max_item_bytes L"
    using assms(2) by (auto simp: admit_body_element_def Let_def split: if_splits option.splits)
  with saturating_add_le [of n bytes "max_item_bytes L"] sml_limits_facts(1) [OF assms(1)]
  show "m = n + bytes" "m \<le> max_item_bytes L" by auto
qed

text \<open>A turn that appends one admitted value, or returns the values.\<close>

definition appends ::
  "decode_limits \<Rightarrow> source_pos \<Rightarrow> usize option \<Rightarrow> usize \<Rightarrow> ('a \<Rightarrow> bool) \<Rightarrow> 'a list \<times> usize \<Rightarrow>
     ('a list \<times> usize, 'a list) turn \<Rightarrow> bool" where
  "appends L p dc width P st t \<longleftrightarrow>
     (case t of
        Done vs \<Rightarrow> vs = fst st
      | Continue st' \<Rightarrow>
          \<exists>v. fst st' = fst st @ [v] \<and> P v \<and>
            admit_body_element L p dc (snd st) (length (fst st)) width 1 = Ok (snd st'))"

lemma values_bounded:
  assumes L: "sml_limits L" and step: "\<And>tok st t. step tok st = Ok t \<Longrightarrow> appends L p dc width P st t"
    and loop: "body_loop e step ([], 0) c = Ok (vs, c')"
  shows "length vs * width \<le> max_item_bytes L \<and> list_all P vs"
proof -
  let ?I = "\<lambda>(vs, n). n = length vs * width \<and> n \<le> max_item_bytes L \<and> list_all P vs"
  show ?thesis
  proof (rule body_loop_inv [where step = step and I = ?I, OF _ _ _ loop])
    show "?I st'" if "?I st" "step tok st = Ok (Continue st')" for tok st st'
      using that(1) step [OF that(2)] admit_body_element_Ok [OF L]
      by (cases st, cases st') (fastforce simp: appends_def)
    show "length v * width \<le> max_item_bytes L \<and> list_all P v" if "?I st" "step tok st = Ok (Done v)" for tok st v
      using that(1) step [OF that(2)] by (auto simp: appends_def)
  qed simp
qed

lemma binary_turn_appends: "binary_turn L p dc tok st = Ok t \<Longrightarrow> appends L p dc 1 (\<lambda>_. True) st t"
  by (cases st, cases "tk_kind tok")
    (auto simp: binary_turn_def close_values_def appends_def res_simps)

lemma boolean_turn_appends: "boolean_turn L p dc tok st = Ok t \<Longrightarrow> appends L p dc 1 (\<lambda>_. True) st t"
  by (cases st, cases "tk_kind tok")
    (auto simp: boolean_turn_def close_values_def appends_def res_simps split: if_splits)

lemma integer_turn_appends:
  "integer_turn from_scanned target width L p dc tok st = Ok t \<Longrightarrow> appends L p dc width (\<lambda>_. True) st t"
  by (cases st, cases "tk_kind tok")
    (auto simp: integer_turn_def integer_element_def close_values_def appends_def res_simps split: option.splits)

lemma float_turn_appends:
  "float_turn convert target width L p dc tok st = Ok t \<Longrightarrow>
     appends L p dc width (\<lambda>v. \<exists>s. convert s = Some v) st t"
  by (cases st, cases "tk_kind tok")
    (auto simp: float_turn_def close_values_def appends_def res_simps split: option.splits, blast)

lemma leaf_bodies_bounded:
  assumes "sml_limits L"
  shows "parse_binary_body L p dc c = Ok (bs, c') \<Longrightarrow> length bs \<le> max_item_bytes L"
    and "parse_boolean_body L p dc c = Ok (bools, c') \<Longrightarrow> length bools \<le> max_item_bytes L"
    and "parse_integer_body from_scanned target width L p dc c = Ok (ns, c') \<Longrightarrow> length ns * width \<le> max_item_bytes L"
    and "parse_float_body convert target width L p dc c = Ok (fs, c') \<Longrightarrow>
      length fs * width \<le> max_item_bytes L \<and> list_all (\<lambda>v. \<exists>s. convert s = Some v) fs"
  using values_bounded [OF assms binary_turn_appends] values_bounded [OF assms boolean_turn_appends]
    values_bounded [OF assms integer_turn_appends] values_bounded [OF assms float_turn_appends]
  by (fastforce simp: parse_binary_body_def parse_boolean_body_def parse_integer_body_def
      parse_float_body_def res_simps)+

lemma parse_finite_bits:
  assumes "parse_finite F s = Some b"
  shows "is_finite F b" "b < 2 * sign_bit F"
proof -
  from assms obtain neg n k where "parse_decimal s = Some (neg, n, k)"
    by (auto simp: parse_finite_def split: option.splits)
  with assms have b: "b = (if neg then sign_bit F else 0) + round_decimal F n k"
    "round_decimal F n k < infinity_bits F"
    by (auto simp: parse_finite_def Let_def split: if_splits)
  have "infinity_bits F \<le> sign_bit F" by (simp add: infinity_bits_def sign_bit_def)
  with b show "is_finite F b" "b < 2 * sign_bit F"
    by (auto simp: is_finite_def magnitude_def)
qed

lemma convert_finite:
  "convert_f32 s = Some v \<Longrightarrow> f32_finite v" "convert_f64 s = Some w \<Longrightarrow> f64_finite w"
  using parse_finite_bits [of f32_format s] parse_finite_bits [of f64_format s]
  by (auto simp: convert_f32_def convert_f64_def f32_finite_def f64_finite_def unat_of_nat
      sign_bit_def hidden_bit_def f32_format_def f64_format_def take_bit_nat_eq_self)

lemma char_count_append: "char_count (s @ t) = char_count s + char_count t"
  by (simp add: char_count_def)

lemma char_count_le: "char_count s \<le> length s"
  by (simp add: char_count_def)

lemma parse_ascii_body_bounded:
  assumes L: "sml_limits L" and body: "parse_ascii_body L p dc c = Ok (bs, c')"
  shows "length bs \<le> max_item_bytes L \<and> list_all is_ascii bs"
proof -
  let ?I = "\<lambda>(acc, chars). chars = char_count acc \<and> chars \<le> max_item_bytes L"
  obtain e where loop: "body_loop e (ascii_turn L p dc) ([], 0) c = Ok (bs, c')"
    using body by (auto simp: parse_ascii_body_def res_simps)
  show ?thesis
  proof (rule body_loop_inv [where step = "ascii_turn L p dc" and I = ?I, OF _ _ _ loop])
    show "?I st'" if "?I st" "ascii_turn L p dc tok st = Ok (Continue st')" for tok st st'
    proof (cases "tk_kind tok")
      case (T_Str t)
      with that admit_body_element_Ok [OF L] show ?thesis
        by (cases st) (fastforce simp: ascii_turn_def Let_def res_simps char_count_append)
    next
      case (T_HexByte v t)
      have "char_count [byte_char v] = 1" if "unat v \<le> 0x7F" using that by (simp add: char_count_def)
      with T_HexByte that admit_body_element_Ok [OF L] show ?thesis
        by (cases st) (fastforce simp: ascii_turn_def Let_def res_simps char_count_append split: if_splits)
    qed (use that in \<open>auto simp: ascii_turn_def res_simps split: sum.splits\<close>)
    show "length v \<le> max_item_bytes L \<and> list_all is_ascii v"
      if I: "?I st" and v: "ascii_turn L p dc tok st = Ok (Done v)" for tok st v
    proof -
      obtain acc where acc: "ascii_string_new (map char_byte acc) = Ok v" "char_count acc \<le> max_item_bytes L"
        using I v by (cases st, cases "tk_kind tok") (auto simp: ascii_turn_def Let_def res_simps split: if_splits sum.splits)
      then have v: "v = map char_byte acc" "list_all is_ascii v"
        using find_non_ascii_None [of 0 "map char_byte acc"]
        by (auto simp: ascii_string_new_def split: option.splits)
      from v(2) have "\<forall>c \<in> set acc. code c < 0x80"
        unfolding v(1) by (simp add: list_all_iff is_ascii_def)
      then have "filter (\<lambda>c. \<not> (0x80 \<le> code c \<and> code c < 0xC0)) acc = acc"
        by (intro filter_True) auto
      then have "char_count acc = length acc" by (simp only: char_count_def)
      with v acc(2) show ?thesis by simp
    qed
  qed (simp add: char_count_def)
qed

subsection \<open>Items\<close>

definition sound_item :: "decode_limits \<Rightarrow> nat \<Rightarrow> secs_item \<Rightarrow> bool" where
  "sound_item L d it \<longleftrightarrow> item_within L d it \<and> item_ok it \<and> renderable (Suc d) it"

lemma leaf_sound:
  "\<not> is_list it \<Longrightarrow> declared it \<le> max_item_bytes L \<Longrightarrow> item_ok it \<Longrightarrow> refusal (it, Suc d) = None \<Longrightarrow> sound_item L d it"
  by (cases it) (simp_all add: sound_item_def)

lemma float_bodies_finite:
  assumes "sml_limits L"
  shows "parse_float_body convert_f32 target 4 L p dc c = Ok (fs, c') \<Longrightarrow>
      length fs * 4 \<le> max_item_bytes L \<and> list_all f32_finite fs"
    and "parse_float_body convert_f64 target 8 L p dc c = Ok (gs, c') \<Longrightarrow>
      length gs * 8 \<le> max_item_bytes L \<and> list_all f64_finite gs"
  using convert_finite by (auto simp: list_all_iff dest!: leaf_bodies_bounded(4) [OF assms], blast+)

lemma start_item_leaf:
  assumes L: "sml_limits (ic_limits ic)" and s: "start_item kind p dc c ic = Ok (st, ic')" and k: "kind \<noteq> Kind_List"
  obtains it where "st = Finished it" "node_count it = 1" "ic_stack ic' = ic_stack ic \<and> ic_limits ic' = ic_limits ic \<and> ic_node_count ic' = ic_node_count ic"
    "sound_item (ic_limits ic) d it"
proof -
  note b = leaf_bodies_bounded(1-3) [OF L] float_bodies_finite [OF L] parse_ascii_body_bounded [OF L]
  have "ic_stack ic' = ic_stack ic \<and> ic_limits ic' = ic_limits ic \<and> ic_node_count ic' = ic_node_count ic \<and>
      (\<exists>it. st = Finished it \<and> node_count it = 1 \<and> sound_item (ic_limits ic) d it)"
    using s k
    by (cases kind)
      (auto simp: start_item_def leaf_def res_simps Let_def
        intro!: leaf_sound dest!: b split: if_splits)
  then show thesis using that by blast
qed

subsection \<open>The stack of open lists\<close>

definition frame_sound :: "decode_limits \<Rightarrow> nat \<Rightarrow> sml_frame \<Rightarrow> bool" where
  "frame_sound L d f \<longleftrightarrow> d < max_depth L \<and> (\<forall>c \<in> set (sf_children f). sound_item L (Suc d) c)"

text \<open>Every open list has room for the child being parsed.\<close>

fun awaiting :: "decode_limits \<Rightarrow> sml_frame list \<Rightarrow> bool" where
  "awaiting L [] \<longleftrightarrow> True"
| "awaiting L (f # fs) \<longleftrightarrow>
     frame_sound L (length fs) f \<and> length (sf_children f) < max_list_items L \<and> awaiting L fs"

definition open_nodes :: "sml_frame list \<Rightarrow> nat" where
  "open_nodes fs = sum_list (map (\<lambda>f. Suc (sum_list (map node_count (sf_children f)))) fs)"

definition counted :: "item_cursor \<Rightarrow> nat \<Rightarrow> bool" where
  "counted ic m \<longleftrightarrow> sml_limits (ic_limits ic) \<and> open_nodes (ic_stack ic) + m \<le> ic_node_count ic \<and>
     ic_node_count ic \<le> max_total_items (ic_limits ic)"

text \<open>The invariants where an item starts, where one has just been finished, and between the
  children of the innermost list.\<close>

definition root_inv :: "item_cursor \<Rightarrow> bool" where
  "root_inv ic \<longleftrightarrow> counted ic 0 \<and> awaiting (ic_limits ic) (ic_stack ic)"

definition holds_item :: "item_cursor \<Rightarrow> secs_item \<Rightarrow> bool" where
  "holds_item ic it \<longleftrightarrow> counted ic (node_count it) \<and> awaiting (ic_limits ic) (ic_stack ic) \<and>
     sound_item (ic_limits ic) (length (ic_stack ic)) it"

definition body_inv :: "item_cursor \<Rightarrow> bool" where
  "body_inv ic \<longleftrightarrow> counted ic 0 \<and>
     (case ic_stack ic of
        [] \<Rightarrow> True
      | f # fs \<Rightarrow> frame_sound (ic_limits ic) (length fs) f \<and>
          length (sf_children f) \<le> max_list_items (ic_limits ic) \<and> awaiting (ic_limits ic) fs)"

lemma inv_tokens [simp]:
  "root_inv (ic\<lparr>ic_tokens := c\<rparr>) \<longleftrightarrow> root_inv ic" "body_inv (ic\<lparr>ic_tokens := c\<rparr>) \<longleftrightarrow> body_inv ic"
  by (simp_all add: root_inv_def body_inv_def counted_def split: list.split)

lemma parse_one_item_inv:
  assumes inv: "root_inv ic" and ok: "parse_one_item ic = Ok (st, ic')"
  shows "case st of OpenedList \<Rightarrow> body_inv ic' | Finished it \<Rightarrow> holds_item ic' it"
  using ok
proof (rule parse_one_itemE)
  fix lt c1 tok c2 word kind n c3
  let ?ic = "ic\<lparr>ic_node_count := saturating_add (ic_node_count ic) 1\<rparr>"
  assume le: "saturating_add (ic_node_count ic) 1 \<le> max_total_items (ic_limits ic)"
    and depth: "kind = Kind_List \<longrightarrow> length (ic_stack ic) + 1 \<le> max_depth (ic_limits ic)"
    and start: "start_item kind (tk_pos tok) n c3 ?ic = Ok (st, ic')"
  have L: "sml_limits (ic_limits ic)" using inv by (simp add: root_inv_def counted_def)
  have one: "saturating_add (ic_node_count ic) 1 = Suc (ic_node_count ic)"
    using saturating_add_le [OF le sml_limits_facts(3) [OF L]] by simp
  show ?thesis
  proof (cases "kind = Kind_List")
    case True
    have "0 < max_list_items (ic_limits ic)" using L by (simp add: sml_limits_def decode_limits_validate_Ok)
    with True start le depth inv one show ?thesis
      by (auto simp: start_item_def Let_def body_inv_def root_inv_def counted_def open_nodes_def frame_sound_def
          split: if_splits)
  next
    case False
    from L have "sml_limits (ic_limits ?ic)" by simp
    from start_item_leaf [OF this start False, of "length (ic_stack ic)"] obtain it
      where i: "st = Finished it" "node_count it = 1" "sound_item (ic_limits ic) (length (ic_stack ic)) it"
        "ic_stack ic' = ic_stack ic \<and> ic_limits ic' = ic_limits ic \<and>
          ic_node_count ic' = saturating_add (ic_node_count ic) 1" by auto
    with i inv le one show ?thesis by (simp add: holds_item_def root_inv_def counted_def)
  qed
qed

lemma attach_inv:
  assumes h: "holds_item ic it" and a: "attach it ic = Ok (root, ic')"
  shows "case root of
      None \<Rightarrow> body_inv ic'
    | Some r \<Rightarrow> sound_item (ic_limits ic) 0 r \<and> node_count r \<le> max_total_items (ic_limits ic)"
proof (cases "ic_stack ic")
  case Nil
  with h a show ?thesis by (auto simp: attach_def holds_item_def counted_def open_nodes_def)
next
  case (Cons f fs)
  with h a show ?thesis
    by (auto simp: attach_def Let_def holds_item_def counted_def open_nodes_def body_inv_def frame_sound_def
        split: if_splits)
qed

lemma close_inv:
  assumes "body_inv ic" "ic_stack ic = f # fs"
  shows "holds_item (ic\<lparr>ic_tokens := c, ic_stack := fs\<rparr>) (Item_List (sf_children f))"
  using assms sml_limits_facts(4) [of "ic_limits ic"]
  by (auto simp: body_inv_def holds_item_def counted_def open_nodes_def frame_sound_def sound_item_def)

lemma admit_inv:
  assumes "body_inv ic" "admit_list_child ic = Ok ()"
  shows "root_inv ic"
proof (cases "ic_stack ic")
  case Nil
  with assms show ?thesis by (simp add: root_inv_def body_inv_def)
next
  case (Cons f fs)
  have "sml_limits (ic_limits ic)" using assms(1) by (simp add: body_inv_def counted_def)
  note L = sml_limits_facts(2) [OF this]
  have "saturating_add (length (sf_children f)) 1 \<le> max_list_items (ic_limits ic)"
    using assms(2) Cons by (simp add: admit_list_child_def Let_def split: if_splits)
  with saturating_add_le [OF this L] assms(1) Cons show ?thesis by (simp add: root_inv_def body_inv_def)
qed

subsection \<open>Whole trees\<close>

definition within_all :: "decode_limits \<Rightarrow> secs_item \<Rightarrow> bool" where
  "within_all L it \<longleftrightarrow> sound_item L 0 it \<and> node_count it \<le> max_total_items L"

lemma attach_limits: "attach it ic = Ok (root, ic') \<Longrightarrow> ic_limits ic' = ic_limits ic"
  by (cases "ic_stack ic") (auto simp: attach_def Let_def split: if_splits)

lemma complete_sound:
  assumes "holds_item ic it" "bind_res (attach it ic) (\<lambda>(root, ic).
      case root of Some r \<Rightarrow> Ok (r, ic) | None \<Rightarrow> list_body ic) = Ok (r, ic')"
    and "\<And>ic1. attach it ic = Ok (None, ic1) \<Longrightarrow> body_inv ic1 \<Longrightarrow> list_body ic1 = Ok (r, ic') \<Longrightarrow> within_all (ic_limits ic1) r"
  shows "within_all (ic_limits ic) r"
proof -
  from assms(2) obtain root ic1 where a: "attach it ic = Ok (root, ic1)"
    "(case root of Some r \<Rightarrow> Ok (r, ic1) | None \<Rightarrow> list_body ic1) = Ok (r, ic')"
    by (auto simp: res_simps)
  note L = attach_limits [OF a(1)]
  with a attach_inv [OF assms(1) a(1)] assms(3) [of ic1] show ?thesis
    by (cases root) (auto simp: within_all_def)
qed

lemma parse_one_item_limits: "parse_one_item ic = Ok (st, ic') \<Longrightarrow> ic_limits ic' = ic_limits ic"
proof (erule parse_one_itemE)
  fix lt c1 tok c2 word kind n c3
  assume "start_item kind (tk_pos tok) n c3 (ic\<lparr>ic_node_count := saturating_add (ic_node_count ic) 1\<rparr>) = Ok (st, ic')"
  then show ?thesis by (cases kind) (auto simp: start_item_def leaf_def res_simps Let_def split: if_splits)
qed

lemma parse_sound:
  "parse_root ic = Ok (r, ic') \<Longrightarrow> root_inv ic \<Longrightarrow> within_all (ic_limits ic) r"
  "list_body ic = Ok (r, ic') \<Longrightarrow> body_inv ic \<Longrightarrow> within_all (ic_limits ic) r"
proof (induction ic and ic rule: parse_root_list_body.induct)
  case (1 ic)
  from 1(3) obtain st ic1 where one: "parse_one_item ic = Ok (st, ic1)"
    and rest: "(case st of OpenedList \<Rightarrow> list_body ic1 | Finished it \<Rightarrow>
        bind_res (attach it ic1) (\<lambda>(root, ic). case root of Some r \<Rightarrow> Ok (r, ic) | None \<Rightarrow> list_body ic)) = Ok (r, ic')"
    by (subst (asm) parse_root.simps) (auto simp: res_simps)
  note inv = parse_one_item_inv [OF 1(4) one] and L = parse_one_item_limits [OF one]
  show ?case
  proof (cases st)
    case OpenedList
    with 1(1) [OF one refl OpenedList] rest inv L show ?thesis by simp
  next
    case (Finished it)
    then have "holds_item ic1 it" using inv by simp
    from complete_sound [OF this] rest Finished 1(2) [OF one refl Finished] L
    show ?thesis by auto
  qed
next
  case (2 ic)
  from 2(3) obtain t c where peek: "cursor_peek (ic_tokens ic) = Ok (t, c)"
    by (subst (asm) list_body.simps) (auto simp: res_simps)
  obtain tok where tok: "t = Some tok" "tk_kind tok = T_Lt \<or> tk_kind tok = T_Gt"
    using 2(3) peek by (subst (asm) list_body.simps) (auto split: option.splits if_splits)
  show ?case
  proof (cases "tk_kind tok = T_Lt")
    case True
    with 2(3) peek tok(1) have "admit_list_child ic = Ok ()" "parse_root (ic\<lparr>ic_tokens := c\<rparr>) = Ok (r, ic')"
      by (subst (asm) list_body.simps; simp add: res_simps)+
    with 2(1) [OF peek refl tok(1) True, of "()"] admit_inv [OF 2(4)] show ?thesis by simp
  next
    case False
    with tok have gt: "tk_kind tok = T_Gt" by simp
    with 2(3) peek tok(1) obtain t1 c1 where next1: "cursor_next c = Ok (t1, c1)"
      by (subst (asm) list_body.simps) (auto simp: res_simps)
    with 2(3) peek tok(1) gt obtain f fs where st: "ic_stack ic = f # fs"
      and count: "(case sf_declared_count f of
          Some stated \<Rightarrow>
            if stated \<noteq> length (sf_children f)
            then Err (CountMismatch (sf_type_pos f) stated (length (sf_children f))) else Ok ()
        | None \<Rightarrow> Ok ()) = Ok ()"
      and rest: "bind_res (attach (Item_List (sf_children f)) (ic\<lparr>ic_tokens := c1, ic_stack := fs\<rparr>))
          (\<lambda>(root, ic). case root of Some r \<Rightarrow> Ok (r, ic) | None \<Rightarrow> list_body ic) = Ok (r, ic')"
      by (subst (asm) list_body.simps) (auto simp: res_simps split: list.splits option.splits if_splits)
    from complete_sound [OF close_inv [OF 2(4) st] rest] 2(2) [OF peek refl tok(1) False gt next1 refl st count]
    show ?thesis by simp
  qed
qed

subsection \<open>What is accepted can be written\<close>

lemma item_within_fits:
  "sml_limits L \<Longrightarrow> item_within L d it \<Longrightarrow> encodable it"
proof (induction it arbitrary: d)
  case (Item_List cs)
  then have "length cs \<le> MAX_ENCODED_ITEM_LENGTH" by (simp add: sml_limits_def)
  with Item_List show ?case by auto
qed (use sml_limits_facts(5) [of L] in \<open>auto simp: node_fits_def\<close>)

lemma length_enc_le:
  assumes "encodable it"
  shows "length (enc it) \<le> node_count it * (MAX_ENCODED_ITEM_LENGTH + 4)"
proof -
  have "length (node_bytes n) \<le> MAX_ENCODED_ITEM_LENGTH + 4" if "n \<in> set (preorder it)" for n
    using assms that by (auto simp: encodable_def node_fits_def length_node_bytes min_count_def)
  then have "sum_list (map (length \<circ> node_bytes) (preorder it)) \<le> sum_list (map (\<lambda>_. MAX_ENCODED_ITEM_LENGTH + 4) (preorder it))"
    by (intro sum_list_mono) simp
  then show ?thesis by (simp add: enc_def length_concat sum_list_triv length_preorder comp_def)
qed

lemma within_all_renders:
  assumes "sml_limits L" "within_all L it"
  shows "format_item style it = Ok (item_text (style = Pretty) 0 it)"
proof -
  have it: "item_within L 0 it" "renderable 1 it" "node_count it \<le> max_total_items L"
    using assms(2) by (simp_all add: within_all_def sound_item_def)
  note e = item_within_fits [OF assms(1) it(1)]
  have "length (enc it) \<le> node_count it * (MAX_ENCODED_ITEM_LENGTH + 4)" by (rule length_enc_le [OF e])
  also have "\<dots> \<le> 2 ^ 39 * (MAX_ENCODED_ITEM_LENGTH + 4)"
    using it(3) assms(1) unfolding sml_limits_def by (intro mult_le_mono1) simp
  also have "\<dots> \<le> usize_max" by (simp add: MAX_ENCODED_ITEM_LENGTH_def usize_max_def)
  finally show ?thesis using it(2) e by (simp add: format_item_Ok)
qed

end
