(* ===== verification/Sml_Notation.thy ===== *)
theory Sml_Notation
  imports Sml_Bounds Secs2_Codec
begin

section \<open>SML: formatter and parser together\<close>

text \<open>
  The properties of the text notation: the formatter and the parser as one lossless codec, for
  items and for messages, with what each of them promises on its own.
\<close>

subsection \<open>Items\<close>

definition expressible :: "decode_limits \<Rightarrow> secs_item \<Rightarrow> bool" where
  "expressible L it \<longleftrightarrow>
     item_ok it \<and> item_within L 0 it \<and> node_count it \<le> max_total_items L \<and> decode_limits_validate L = Ok ()"

lemma parse_root_text:
  assumes "expressible L it" "renderable 1 it" "encodable it"
    and "upcoming c T_Lt (tl (item_text pretty 0 it) @ r)"
  obtains ic where "parse_root (item_cursor_new c L) = Ok (it, ic)" "ready (ic_tokens ic) r"
proof -
  have "admits (item_cursor_new c L) 1 it"
    using assms(1-3) by (simp add: admits_def expressible_def item_cursor_new_def)
  moreover have "upcoming (ic_tokens (item_cursor_new c L)) T_Lt (tl (item_text pretty 0 it) @ r)"
    using assms(4) by (simp add: item_cursor_new_def)
  ultimately obtain ic
    where "parse_root (item_cursor_new c L) = complete it ic"
      "passed (item_cursor_new c L) (node_count it) r ic"
    by (rule reads_backD [OF reads_back_all])
  then show thesis using that by (auto simp: passed_def complete_def attach_def item_cursor_new_def)
qed

lemma scanner_new_ready: "ready (token_cursor_new (scanner_new t)) t"
  by (simp add: ready_def token_cursor_new_def scanner_new_def unread_def)

lemma item_text_upcoming:
  assumes "ready c (u @ item_text pretty 0 it @ r)" "renderable 1 it" "u = [] \<or> u = '' ''"
  shows "upcoming c T_Lt (tl (item_text pretty 0 it) @ r)"
proof (rule upcomingI [OF assms(1)])
  have "reads (CHR ''<'' # tl (item_text pretty 0 it) @ r) T_Lt (tl (item_text pretty 0 it) @ r)" by simp
  then have "reads ((CHR ''<'' # tl (item_text pretty 0 it)) @ r) T_Lt (tl (item_text pretty 0 it) @ r)" by simp
  then have "reads (item_text pretty 0 it @ r) T_Lt (tl (item_text pretty 0 it) @ r)"
    unfolding item_text_start [OF assms(2), of pretty 0, symmetric] .
  with assms(3) show "reads (u @ item_text pretty 0 it @ r) T_Lt (tl (item_text pretty 0 it) @ r)" by auto
qed

lemma parse_item_text:
  assumes "format_item style it = Ok t" "expressible L it"
  shows "sml_parse_item L t = Ok it"
proof -
  have it: "renderable 1 it" "encodable it" "t = item_text (style = Pretty) 0 it"
    using assms(1) by (simp_all add: format_item_Ok)
  have "upcoming (token_cursor_new (scanner_new t)) T_Lt (tl (item_text (style = Pretty) 0 it) @ [])"
    using item_text_upcoming [of "token_cursor_new (scanner_new t)" "[]" "style = Pretty" it "[]"] it
      scanner_new_ready [of t] by simp
  then obtain ic where "parse_root (item_cursor_new (token_cursor_new (scanner_new t)) L) = Ok (it, ic)"
    "ready (ic_tokens ic) []" by (rule parse_root_text [OF assms(2) it(1,2)])
  moreover from this(2) obtain c where "cursor_peek (ic_tokens ic) = Ok (None, c)" by (rule cursor_peek_end)
  ultimately show ?thesis by (simp add: sml_parse_item_def)
qed

lemma parse_item_sound:
  assumes "sml_limits L" "sml_parse_item L t = Ok it"
  shows "within_all L it"
proof -
  let ?ic = "item_cursor_new (token_cursor_new (scanner_new t)) L"
  from assms(2) obtain ic where "parse_root ?ic = Ok (it, ic)"
    by (auto simp: sml_parse_item_def res_simps split: option.splits)
  moreover have "root_inv ?ic"
    using assms(1) by (simp add: root_inv_def counted_def item_cursor_new_def open_nodes_def)
  ultimately have "within_all (ic_limits ?ic) it" by (rule parse_sound(1))
  then show ?thesis by (simp add: item_cursor_new_def)
qed

interpretation sml: lossless_codec "format_item style" "sml_parse_item L" "\<lambda>_. sml_limits L" "expressible L"
  for style L
proof
  fix it t
  assume "expressible L it" "format_item style it = Ok t"
  then show "sml_parse_item L t = Ok it" using parse_item_text by blast
next
  fix t it
  assume L: "sml_limits L" and "sml_parse_item L t = Ok it"
  then have w: "within_all L it" by (rule parse_item_sound)
  then have "expressible L it"
    using L by (simp add: expressible_def within_all_def sound_item_def sml_limits_def)
  then show "expressible L it \<and> (\<exists>t'. format_item style it = Ok t')"
    using within_all_renders [OF L w] by blast
qed

text \<open>C33: Round trip of the notation: whatever text the formatter writes for an item, in either
  layout, the parser reads back as that same item, floats bit for bit, under any valid limits the
  item lies within.\<close>

theorem parse_formatted_item:
  assumes "expressible L it" "format_item style it = Ok t"
  shows "sml_parse_item L t = Ok it"
  by (rule sml.decode_encode [OF assms])

lemma parse_formatted_item_witness:
  "sml_parse_item decode_limits_default
     (''<L[2] <U1[2] 7 200> <A[4] 0x22 '' @ [CHR 0x22] @ ''hi'' @ [CHR 0x22] @ '' 0x0A>>'')
   = Ok (Item_List [Item_U1 [7, 200], Item_Ascii [0x22, 0x68, 0x69, 0x0A]])"
proof (rule parse_formatted_item [where style = Compact])
  show "expressible decode_limits_default (Item_List [Item_U1 [7, 200], Item_Ascii [0x22, 0x68, 0x69, 0x0A]])"
    by (simp add: expressible_def decode_limits_default_valid, simp add: decode_limits_default_def
        is_ascii_def MAX_ENCODED_ITEM_LENGTH_def)
  show "format_item Compact (Item_List [Item_U1 [7, 200], Item_Ascii [0x22, 0x68, 0x69, 0x0A]]) =
      Ok (''<L[2] <U1[2] 7 200> <A[4] 0x22 '' @ [CHR 0x22] @ ''hi'' @ [CHR 0x22] @ '' 0x0A>>'')"
    by (simp add: format_item_Ok node_bytes_def min_count_def leaf_texts write_count_def gap_def
        display_unsigned_def show_int_def show_nat.simps digit_char_def fragments.simps is_quotable_ascii_def
        show_hex2_def upper_hex_digit_def byte_char_def MAX_ENCODED_ITEM_LENGTH_def usize_max_def
        MAX_DECODE_NESTING_DEPTH_def node_fits_def char_of_def bit_Suc_0_iff)
qed

lemma sml_sample_text: "format_item Compact (Item_U1 [7]) = Ok ''<U1[1] 7>''"
  by (simp add: format_item_Ok node_bytes_def min_count_def leaf_texts write_count_def
      display_unsigned_def show_int_def show_nat.simps digit_char_def MAX_ENCODED_ITEM_LENGTH_def
      usize_max_def node_fits_def char_of_def bit_Suc_0_iff)

lemma sml_sample: "sml_parse_item decode_limits_default ''<U1[1] 7>'' = Ok (Item_U1 [7])"
proof (rule parse_item_text [where style = Compact])
  show "expressible decode_limits_default (Item_U1 [7])"
    by (simp add: expressible_def decode_limits_default_valid)
      (simp add: decode_limits_default_def MAX_ENCODED_ITEM_LENGTH_def)
qed (rule sml_sample_text)

text \<open>C34: The parser builds only well-formed values: under limits that are valid and allow at most
  0xFFFFFF items in a list and 2^39 in all, as the default ones do, every item it accepts satisfies the
  invariants of its types, lies within every limit, and holds no float that cannot be written.\<close>

theorem parsed_item_well_formed:
  assumes "sml_limits L" "sml_parse_item L t = Ok it"
  shows "item_ok it \<and> item_within L 0 it \<and> node_count it \<le> max_total_items L \<and> renderable 1 it"
  using parse_item_sound [OF assms] by (simp_all add: within_all_def sound_item_def)

lemma parsed_item_well_formed_witness:
  "item_within decode_limits_default 0 (Item_U1 [7]) \<and> renderable 1 (Item_U1 [7])"
  using parsed_item_well_formed [OF sml_limits_default sml_sample] by simp

text \<open>Any accepted text can be rewritten: the formatter writes what the parser accepted, in either
  layout, and the parser reads the rewritten text as the same item.\<close>

theorem parsed_item_reformats:
  assumes "sml_limits L" "sml_parse_item L t = Ok it"
  shows "\<exists>t'. format_item style it = Ok t' \<and> sml_parse_item L t' = Ok it"
  using assms by (rule sml.canonical)

lemma parsed_item_reformats_witness:
  "\<exists>t'. format_item Pretty (Item_U1 [7]) = Ok t' \<and> sml_parse_item decode_limits_default t' = Ok (Item_U1 [7])"
  by (rule parsed_item_reformats [OF sml_limits_default sml_sample])

text \<open>C37: The formatter's walk with its explicit stack of work, its deferred closing brackets and its
  first-token flag writes exactly the recursive text of the tree, with nothing before or after.\<close>

theorem render_root_recursive: "render_root it style = item_text (style = Pretty) 0 it"
  by (simp add: render_root_def write_item_text_eq)

text \<open>C35: What the formatter does on every item: it refuses with the reason of the first refused node
  in reading order, else with the encoder's own error, and otherwise writes the whole text.\<close>

theorem format_item_outcome:
  "format_item style it =
     (case first_refusal (levels 1 it) of
        Err e \<Rightarrow> Err e
      | Ok _ \<Rightarrow>
          (case encode_to_vec it of
             Err e \<Rightarrow> Err (NotEncodable e)
           | Ok _ \<Rightarrow> Ok (item_text (style = Pretty) 0 it)))"
proof -
  have "encode_to_vec it = Err e \<longleftrightarrow> encoded_item_plan_new it = Err e" for e
    by (simp add: encode_to_vec_Err encoded_item_plan_new_def res_simps)
  then show ?thesis
    by (auto simp: format_item_def validate_and_measure_def check_sml_semantics_def check_loop_first
        write_item_text_eq render_root_def res_simps encode_to_vec_def split: sum.splits)
qed

subsection \<open>Tokens\<close>

lemma skip_whitespace_blank:
  "\<exists>n. sn_offset (skip_whitespace s) = sn_offset s + n \<and> (\<forall>c \<in> set (take n (unread s)). is_blank c)"
proof (induction "length (unread s)" arbitrary: s rule: less_induct)
  case less
  have step: "\<exists>n. sn_offset (skip_whitespace s') = sn_offset s + n \<and> (\<forall>c \<in> set (take n (unread s)). is_blank c)"
    if "sn_offset s' = sn_offset s + m" "unread s' = drop m (unread s)" "0 < m" "m \<le> length (unread s)"
      "\<forall>c \<in> set (take m (unread s)). is_blank c" for s' m
  proof -
    have "length (unread s') < length (unread s)" using that(2-4) by simp
    from less [OF this] obtain n where n: "sn_offset (skip_whitespace s') = sn_offset s' + n"
      "\<forall>c \<in> set (take n (unread s')). is_blank c" by blast
    have "take (m + n) (unread s) = take m (unread s) @ take n (unread s')"
      using that(2) by (simp add: take_add)
    with n that(1,5) show ?thesis by (intro exI [of _ "m + n"]) auto
  qed
  show ?case
  proof (cases "unread s")
    case Nil
    then show ?thesis by (subst skip_whitespace_unfold) auto
  next
    case (Cons c r)
    have blank1: "\<forall>d \<in> set (take 1 (unread s)). is_blank d" if "is_blank c" using Cons that by simp
    consider "c = CHR '' '' \<or> c = CHR 0x09" | "c = CHR 0x0A" | "c = CHR 0x0D" "r \<noteq> [] \<and> r ! 0 = CHR 0x0A"
      | "c = CHR 0x0D" "\<not> (r \<noteq> [] \<and> r ! 0 = CHR 0x0A)" | "\<not> is_blank c"
      by (auto simp: is_blank_def)
    then show ?thesis
    proof cases
      case 1
      with Cons step [of "bump_n (Suc 0) s" 1] blank1 show ?thesis
        by (subst skip_whitespace_unfold) (auto simp: is_blank_def)
    next
      case 2
      with Cons step [of "advance_newline s" 1] blank1 show ?thesis
        by (subst skip_whitespace_unfold) (auto simp: is_blank_def cursor_simps(4))
    next
      case 3
      let ?s = "(advance_newline s)\<lparr>sn_offset := sn_offset s + 2\<rparr>"
      have "unread ?s = drop 2 (unread s)" by (simp add: unread_def)
      with 3 Cons step [of ?s 2] show ?thesis
        by (subst skip_whitespace_unfold) (cases r; auto simp: is_blank_def)
    next
      case 4
      with Cons step [of "advance_newline s" 1] blank1 show ?thesis
        by (subst skip_whitespace_unfold) (auto simp: is_blank_def cursor_simps(4))
    next
      case 5
      with Cons show ?thesis
        by (subst skip_whitespace_unfold) (auto simp: is_blank_def intro!: exI [of _ 0])
    qed
  qed
qed

definition covered :: "scanner \<Rightarrow> token option \<Rightarrow> scanner \<Rightarrow> bool" where
  "covered s t s' \<longleftrightarrow>
     sn_input s' = sn_input s \<and>
     (case t of
        Some tok \<Rightarrow>
          sn_offset s \<le> sp_offset (tk_pos tok) \<and> sp_offset (tk_pos tok) < sn_offset s' \<and>
          sn_offset s' \<le> length (sn_input s) \<and>
          spelling (tk_kind tok) = slice (sp_offset (tk_pos tok)) (sn_offset s') (sn_input s) \<and>
          list_all is_blank (slice (sn_offset s) (sp_offset (tk_pos tok)) (sn_input s))
      | None \<Rightarrow> list_all is_blank (unread s))"

text \<open>C36: Lexing loses nothing: between the cursor and a token there are only blanks, the token's text
  is exactly the source from its reported offset to the new cursor, and at the end of input only
  blanks were left. So the tokens and the blanks between them make up the whole text.\<close>

theorem tokens_cover_source:
  assumes "next_token s = Ok (t, s')"
  shows "covered s t s'"
proof -
  obtain n where n: "sn_offset (skip_whitespace s) = sn_offset s + n"
    "list_all is_blank (take n (unread s))"
    using skip_whitespace_blank [of s] by (auto simp: list_all_iff)
  have l: "later s (skip_whitespace s)" by (rule later_skip)
  show ?thesis
  proof (cases t)
    case None
    with assms have "s' = skip_whitespace s" "unread (skip_whitespace s) = []"
      using next_token_end by auto
    moreover from this(2) n l have "take n (unread s) = unread s" by (auto simp: unread_def later_def)
    ultimately show ?thesis using None n l by (simp add: later_def covered_def)
  next
    case (Some tok)
    with assms have "next_token s = Ok (Some tok, s')" by simp
    from next_token_spells [OF this] n l Some show ?thesis
      by (auto simp: covered_def spells_def later_def current_pos_def slice_def unread_def)
  qed
qed

lemma tokens_cover_source_witness:
  "covered (scanner_new '' <[2]'')
     (Some \<lparr>tk_kind = T_Lt, tk_pos = \<lparr>sp_offset = 1, sp_line = 1, sp_column = 2\<rparr>\<rparr>)
     \<lparr>sn_input = '' <[2]'', sn_offset = 2, sn_line = 1, sn_column = 3\<rparr>"
  by (rule tokens_cover_source) code_simp

end
