(* ===== verification/Sml_Message.thy ===== *)
theory Sml_Message
  imports Sml_Notation
begin

section \<open>SML: messages\<close>

text \<open>
  A whole message through formatter and parser: the header word, the wait bit, the optional body
  and the terminating period.
\<close>

subsection \<open>Headers\<close>

lemma fold_digits_value:
  "all_digits ds \<Longrightarrow> v * 10 ^ length ds + from_digits 10 ds \<le> usize_max \<Longrightarrow>
     fold_digits v ds = Some (v * 10 ^ length ds + from_digits 10 ds)"
proof (induction ds arbitrary: v)
  case (Cons d ds)
  let ?v = "v * 10 + (code d - 48)"
  have d: "from_digits 10 (d # ds) = (code d - 48) * 10 ^ length ds + from_digits 10 ds"
    using from_digits_append [of 10 "[d]" ds] Cons.prems(1) by (simp add: from_digits_def digit_value_def)
  have eq: "?v * 10 ^ length ds + from_digits 10 ds = v * 10 ^ length (d # ds) + from_digits 10 (d # ds)"
    by (simp add: d add_mult_distrib)
  have "?v \<le> ?v * 10 ^ length ds" by simp
  with eq Cons.prems(2) have le: "?v \<le> usize_max" by linarith
  then have "checked_mul v 10 = Some (v * 10)" "checked_add (v * 10) (code d - 48) = Some ?v"
    by (simp_all add: checked_mul_fits checked_add_fits)
  with Cons.IH [of ?v] eq Cons.prems show ?case by (simp add: ac_simps)
qed simp

lemma digit_run_show_nat:
  assumes "n \<le> usize_max" "drop start word = show_nat n @ r" "stops is_ascii_digit r"
  shows "digit_run word start = Some (n, start + length (show_nat n))"
proof -
  have "takeWhile is_ascii_digit (drop start word) = show_nat n"
    using assms(2,3) all_digits_show_nat [of n] takeWhile_stops(1) [of "show_nat n" is_ascii_digit r]
    by (simp add: all_digits_def)
  moreover have "fold_digits 0 (show_nat n) = Some n"
    using fold_digits_value [of "show_nat n" 0] assms(1) by simp
  ultimately show ?thesis by (simp add: digit_run_def Let_def)
qed

definition header_word :: "nat \<Rightarrow> nat \<Rightarrow> rust_str" where
  "header_word s f = ''S'' @ show_nat s @ ''F'' @ show_nat f"

lemma parse_header_word_text:
  assumes "s \<le> usize_max" "f \<le> usize_max"
  shows "parse_header_word (header_word s f) = Some (s, f)"
proof -
  let ?w = "header_word s f" and ?k = "length (show_nat s)"
  have "digit_run ?w 1 = Some (s, 1 + ?k)"
    by (rule digit_run_show_nat [OF assms(1), of _ _ "''F'' @ show_nat f"])
      (simp_all add: header_word_def char_classes code_def)
  moreover have "byte_at ?w (1 + ?k) = Some CHR ''F''"
    by (simp add: byte_at_def header_word_def nth_append)
  moreover have "digit_run ?w (1 + ?k + 1) = Some (f, 1 + ?k + 1 + length (show_nat f))"
    by (rule digit_run_show_nat [OF assms(2), of _ _ "[]"]) (simp_all add: header_word_def)
  ultimately show ?thesis
    by (simp add: parse_header_word_def byte_at_def) (simp add: header_word_def)
qed

lemma header_word_reads:
  assumes "stops is_ascii_alphanumeric r"
  shows "reads (header_word s f @ r) (T_Word (header_word s f)) r"
proof -
  have "\<forall>c \<in> set (show_nat s @ ''F'' @ show_nat f). is_ascii_alphanumeric c"
    using show_nat_digits [of s] show_nat_digits [of f]
    by (auto simp: is_ascii_alphanumeric_def is_ascii_alphabetic_def code_def [of "CHR ''F''"])
  from reads_word [OF _ _ _ this assms, of "CHR ''S''"] show ?thesis
    by (simp add: header_word_def is_ascii_alphabetic_def code_def)
qed

subsection \<open>The parts of a message\<close>

text \<open>The wait bit is read where it stands, and not read where it does not.\<close>

lemma wait_bit_read:
  assumes "ready c ((if w then '' W'' else []) @ u)" "reads u k r" "k = T_Lt \<or> k = T_Dot"
    "stops is_ascii_alphanumeric u"
  obtains t c1 c2 where "cursor_peek c = Ok (t, c1)"
    "(if map_option tk_kind t = Some (T_Word ''W'')
      then bind_res (cursor_next c1) (\<lambda>(_, c). Ok (True, c)) else Ok (False, c1)) = Ok (w, c2)"
    "upcoming c2 k r"
proof (cases w)
  case True
  have "reads (''W'' @ u) (T_Word ''W'') u"
    using reads_word [of "CHR ''W''" "[]" u] assms(4) by (simp add: is_ascii_alphabetic_def code_def)
  with True assms(1) have "upcoming c (T_Word ''W'') u" by (intro upcomingI [of c "'' W'' @ u"]) simp_all
  then obtain p c1 where 1: "cursor_peek c = Ok (Some \<lparr>tk_kind = T_Word ''W'', tk_pos = p\<rparr>, c1)"
    "upcoming c1 (T_Word ''W'') u" by (rule cursor_peek_upcoming)
  from 1(2) obtain p' c2 where "cursor_next c1 = Ok (Some \<lparr>tk_kind = T_Word ''W'', tk_pos = p'\<rparr>, c2)" "ready c2 u"
    by (rule cursor_next_upcoming)
  with 1 True assms(2) show thesis by (intro that [OF 1(1), of c2]) (auto intro: upcomingI)
next
  case False
  with assms(1,2) have "upcoming c k r" by (intro upcomingI [of c u]) simp_all
  then obtain p c1 where "cursor_peek c = Ok (Some \<lparr>tk_kind = k, tk_pos = p\<rparr>, c1)" "upcoming c1 k r"
    by (rule cursor_peek_upcoming)
  with False assms(3) show thesis by (intro that [of _ c1 c1]) auto
qed

text \<open>The body, where there is one, up to the period.\<close>

definition body_text :: "bool \<Rightarrow> secs_item option \<Rightarrow> rust_str" where
  "body_text pretty body = (case body of Some it \<Rightarrow> '' '' @ item_text pretty 0 it | None \<Rightarrow> [])"

definition body_start :: "secs_item option \<Rightarrow> token_kind" where
  "body_start body = (if body = None then T_Dot else T_Lt)"

definition body_rest :: "bool \<Rightarrow> secs_item option \<Rightarrow> rust_str" where
  "body_rest pretty body = (case body of Some it \<Rightarrow> tl (item_text pretty 0 it) @ ''.'' | None \<Rightarrow> [])"

definition body_fine :: "decode_limits \<Rightarrow> secs_item option \<Rightarrow> bool" where
  "body_fine L body \<longleftrightarrow>
     (case body of Some it \<Rightarrow> expressible L it \<and> renderable 1 it \<and> encodable it | None \<Rightarrow> True)"

lemma body_text_reads:
  assumes "body_fine L body"
  shows "reads (body_text pretty body @ ''.'') (body_start body) (body_rest pretty body)"
proof (cases body)
  case (Some it)
  with assms have r: "renderable 1 it" by (simp add: body_fine_def)
  have "reads (CHR ''<'' # tl (item_text pretty 0 it) @ ''.'') T_Lt (tl (item_text pretty 0 it) @ ''.'')" by simp
  then have "reads ((CHR ''<'' # tl (item_text pretty 0 it)) @ ''.'') T_Lt (tl (item_text pretty 0 it) @ ''.'')" by simp
  then have "reads (item_text pretty 0 it @ ''.'') T_Lt (tl (item_text pretty 0 it) @ ''.'')"
    unfolding item_text_start [OF r, of pretty 0, symmetric] .
  with Some show ?thesis by (simp add: body_text_def body_start_def body_rest_def)
qed (simp add: body_text_def body_start_def body_rest_def)

lemma body_read:
  assumes "body_fine L body" "upcoming c (body_start body) (body_rest pretty body)"
  obtains t c1 c2 where "cursor_peek c = Ok (t, c1)"
    "(if map_option tk_kind t = Some T_Lt
      then bind_res (parse_root (item_cursor_new c1 L)) (\<lambda>(it, ic). Ok (Some it, ic_tokens ic))
      else Ok (None, c1)) = Ok (body, c2)"
    "upcoming c2 T_Dot []"
proof -
  obtain p c1 where 1: "cursor_peek c = Ok (Some \<lparr>tk_kind = body_start body, tk_pos = p\<rparr>, c1)"
    "upcoming c1 (body_start body) (body_rest pretty body)"
    using assms(2) by (rule cursor_peek_upcoming)
  show thesis
  proof (cases body)
    case None
    with 1 show thesis by (intro that [OF 1(1), of c1]) (simp_all add: body_start_def body_rest_def)
  next
    case (Some it)
    with assms(1) have it: "expressible L it" "renderable 1 it" "encodable it" by (simp_all add: body_fine_def)
    from 1(2) Some have "upcoming c1 T_Lt (tl (item_text pretty 0 it) @ ''.'')"
      by (simp add: body_start_def body_rest_def)
    then obtain ic where "parse_root (item_cursor_new c1 L) = Ok (it, ic)" "ready (ic_tokens ic) ''.''"
      by (rule parse_root_text [OF it])
    with 1 Some show thesis
      by (intro that [OF 1(1), of "ic_tokens ic"]) (auto simp: body_start_def intro!: upcomingI)
  qed
qed

subsection \<open>Round trip\<close>

definition expressible_message :: "decode_limits \<Rightarrow> sml_message \<Rightarrow> bool" where
  "expressible_message L m \<longleftrightarrow>
     unat (stream_get (sm_stream m)) \<le> MAX_STREAM \<and>
     (case sm_body m of Some it \<Rightarrow> expressible L it | None \<Rightarrow> True)"

lemma format_message_text:
  assumes "format_message style m = Ok t" "expressible_message L m"
  shows "t = header_word (unat (stream_get (sm_stream m))) (unat (function_get (sm_function m)))
      @ (if sm_wait_bit m then '' W'' else []) @ body_text (style = Pretty) (sm_body m) @ ''.''"
    and "body_fine L (sm_body m)"
  using assms
  by (auto simp: format_message_def expressible_message_def body_fine_def body_text_def header_word_def
      res_simps validate_and_measure_Ok write_item_text_eq Let_def split: option.splits)

lemma parse_message_text:
  assumes "format_message style m = Ok t" "expressible_message L m"
  shows "sml_parse_message L t = Ok m"
proof -
  let ?s = "unat (stream_get (sm_stream m))" and ?f = "unat (function_get (sm_function m))"
  let ?body = "body_text (style = Pretty) (sm_body m) @ ''.''"
  note t = format_message_text [OF assms]
  have s: "?s \<le> MAX_STREAM" using assms(2) by (simp add: expressible_message_def)
  have f: "?f \<le> MAX_FUNCTION" using unat_u8_less [of "function_get (sm_function m)"] by (simp add: MAX_FUNCTION_def)
  have fits: "?s \<le> usize_max" "?f \<le> usize_max" using s f by (simp_all add: MAX_STREAM_def MAX_FUNCTION_def usize_max_def)
  have stop: "stops is_ascii_alphanumeric ?body" "stops is_ascii_alphanumeric ((if sm_wait_bit m then '' W'' else []) @ ?body)"
    by (auto simp: body_text_def char_classes split: option.split)
  have "reads t (T_Word (header_word ?s ?f)) ((if sm_wait_bit m then '' W'' else []) @ ?body)"
    unfolding t(1) by (rule header_word_reads [OF stop(2)])
  with scanner_new_ready [of t] have "upcoming (token_cursor_new (scanner_new t)) (T_Word (header_word ?s ?f)) ((if sm_wait_bit m then '' W'' else []) @ ?body)"
    by (rule upcomingI)
  then obtain p c where header: "need_token ''a message header such as S1F13'' (token_cursor_new (scanner_new t))
      = Ok (\<lparr>tk_kind = T_Word (header_word ?s ?f), tk_pos = p\<rparr>, c)"
    "ready c ((if sm_wait_bit m then '' W'' else []) @ ?body)" by (rule need_token_upcoming)
  have "body_start (sm_body m) = T_Lt \<or> body_start (sm_body m) = T_Dot" by (simp add: body_start_def)
  from wait_bit_read [OF header(2) body_text_reads [OF t(2)] this stop(1)] obtain t1 c1 c2 where
    wait: "cursor_peek c = Ok (t1, c1)"
      "(if map_option tk_kind t1 = Some (T_Word ''W'')
        then bind_res (cursor_next c1) (\<lambda>(_, c). Ok (True, c)) else Ok (False, c1)) = Ok (sm_wait_bit m, c2)"
      "upcoming c2 (body_start (sm_body m)) (body_rest (style = Pretty) (sm_body m))" by blast
  from body_read [OF t(2) wait(3)] obtain t2 c3 c4 where
    body: "cursor_peek c2 = Ok (t2, c3)"
      "(if map_option tk_kind t2 = Some T_Lt
        then bind_res (parse_root (item_cursor_new c3 L)) (\<lambda>(it, ic). Ok (Some it, ic_tokens ic))
        else Ok (None, c3)) = Ok (sm_body m, c4)"
      "upcoming c4 T_Dot []" by blast
  from body(3) obtain p' c5 where dot: "cursor_next c4 = Ok (Some \<lparr>tk_kind = T_Dot, tk_pos = p'\<rparr>, c5)" "ready c5 []"
    by (rule cursor_next_upcoming)
  from dot(2) obtain c6 where last: "cursor_peek c5 = Ok (None, c6)" by (rule cursor_peek_end)
  have "stream_new (word_of_nat ?s) = Ok (sm_stream m)" "Function (word_of_nat ?f) = sm_function m"
    using s by (simp_all add: stream_new_def MAX_STREAM_def word_less_nat_alt)
  with header(1) wait(1,2) body(1,2) dot(1) last s f parse_header_word_text [OF fits]
  show ?thesis by (simp add: sml_parse_message_def del: split_paired_All)
qed

lemma parse_message_parts:
  assumes "sml_parse_message L t = Ok m"
  shows "sm_body m = None \<or> (\<exists>c it ic. parse_root (item_cursor_new c L) = Ok (it, ic) \<and> sm_body m = Some it)"
    and "\<exists>n. stream_new (word_of_nat n) = Ok (sm_stream m)"
  using assms
  by (auto simp: sml_parse_message_def res_simps split: option.splits sum.splits if_splits)

lemma parse_message_sound:
  assumes "sml_limits L" "sml_parse_message L t = Ok m"
  shows "expressible_message L m \<and> (\<exists>t'. format_message style m = Ok t')"
proof -
  have body: "within_all L it" if "sm_body m = Some it" for it
  proof -
    from that parse_message_parts(1) [OF assms(2)] obtain c ic where
      "parse_root (item_cursor_new c L) = Ok (it, ic)" by auto
    moreover have "root_inv (item_cursor_new c L)"
      using assms(1) by (simp add: root_inv_def counted_def item_cursor_new_def open_nodes_def)
    ultimately have "within_all (ic_limits (item_cursor_new c L)) it" by (rule parse_sound(1))
    then show ?thesis by (simp add: item_cursor_new_def)
  qed
  obtain n where "stream_new (word_of_nat n) = Ok (sm_stream m)" using parse_message_parts(2) [OF assms(2)] ..
  then have "unat (stream_get (sm_stream m)) \<le> MAX_STREAM"
    by (cases "sm_stream m") (auto simp: stream_new_def MAX_STREAM_def word_less_nat_alt split: if_splits)
  with body within_all_renders [OF assms(1)] assms(1) show ?thesis
    by (auto simp: expressible_message_def expressible_def within_all_def sound_item_def sml_limits_def
        format_message_def format_item_def res_simps Let_def split: option.splits)
qed

interpretation sml_messages: lossless_codec "format_message style" "sml_parse_message L" "\<lambda>_. sml_limits L" "expressible_message L"
  for style L
proof
  fix m t
  assume "expressible_message L m" "format_message style m = Ok t"
  then show "sml_parse_message L t = Ok m" using parse_message_text by blast
next
  fix t m
  assume "sml_limits L" "sml_parse_message L t = Ok m"
  then show "expressible_message L m \<and> (\<exists>t'. format_message style m = Ok t')" by (rule parse_message_sound)
qed

lemma sample_message:
  "expressible_message decode_limits_default
     \<lparr>sm_stream = Stream 1, sm_function = Function 13, sm_wait_bit = True, sm_body = Some (Item_U1 [7])\<rparr>"
  "format_message Compact
     \<lparr>sm_stream = Stream 1, sm_function = Function 13, sm_wait_bit = True, sm_body = Some (Item_U1 [7])\<rparr>
   = Ok ''S1F13 W <U1[1] 7>.''"
proof -
  let ?m = "\<lparr>sm_stream = Stream 1, sm_function = Function 13, sm_wait_bit = True, sm_body = Some (Item_U1 [7])\<rparr>"
  show "expressible_message decode_limits_default ?m"
    by (simp add: expressible_message_def expressible_def decode_limits_default_valid)
      (simp add: decode_limits_default_def MAX_ENCODED_ITEM_LENGTH_def MAX_STREAM_def)
  show "format_message Compact ?m = Ok ''S1F13 W <U1[1] 7>.''"
    using sml_sample_text
    by (auto simp: format_message_def format_item_def res_simps render_root_def write_item_text_eq
        show_nat.simps digit_char_def char_of_def bit_Suc_0_iff)
qed

text \<open>C38: Round trip of messages: for a message whose Stream is at most 127 and whose body, if there is
  one, satisfies the invariants of its types and lies within the parser's limits, the text the
  formatter writes for it, its header, its wait bit, its body in either layout and its period, is
  parsed back to exactly that message, under any valid limits. (The formatter also writes a body
  that is nested deeper than the parser's limits allow; that text is refused.)\<close>

theorem parse_formatted_message:
  assumes "expressible_message L m" "format_message style m = Ok t"
  shows "sml_parse_message L t = Ok m"
  by (rule sml_messages.decode_encode [OF assms])

lemma parse_formatted_message_witness:
  "sml_parse_message decode_limits_default ''S1F13 W <U1[1] 7>.''
   = Ok \<lparr>sm_stream = Stream 1, sm_function = Function 13, sm_wait_bit = True, sm_body = Some (Item_U1 [7])\<rparr>"
  by (rule parse_formatted_message [OF sample_message])

text \<open>C39: Every accepted message is well-formed and can be rewritten, under limits that are valid and in
  which no more than 0xFFFFFF items are allowed in a list and 2^39 in all, as in the default ones: its
  Stream is at most 127, its body is within the limits, and the formatter's text of it parses to the
  same message. The bound on lists is not one that \<open>DecodeLimits::validate\<close> checks: with a larger one
  the parser accepts a list that no SECS-II length can express, which the formatter refuses.\<close>

theorem parsed_message_rewrites:
  assumes "sml_limits L" "sml_parse_message L t = Ok m"
  shows "expressible_message L m \<and> (\<exists>t'. format_message style m = Ok t' \<and> sml_parse_message L t' = Ok m)"
  using sml_messages.canonical [OF assms] sml_messages.decode_accepts [OF assms] by blast

lemma parsed_message_rewrites_witness:
  "\<exists>t'. format_message Pretty
       \<lparr>sm_stream = Stream 1, sm_function = Function 13, sm_wait_bit = True, sm_body = Some (Item_U1 [7])\<rparr> = Ok t' \<and>
     sml_parse_message decode_limits_default t' =
       Ok \<lparr>sm_stream = Stream 1, sm_function = Function 13, sm_wait_bit = True, sm_body = Some (Item_U1 [7])\<rparr>"
  using parsed_message_rewrites [OF sml_limits_default parse_message_text [OF sample_message(2,1)]] by blast

end
