(* ===== verification/Spec2Isabelle.thy ===== *)
theory Spec2Isabelle
  imports Hsms_Codec Hsms_Safety Hsms_Settled Hsms_Supervisor_Safety Sml_Message
begin

chapter \<open>A verified model of secs\_rust\<close>

text \<open>
  \<^bold>\<open>The program.\<close> The crate implements the semiconductor equipment protocols SECS-II (SEMI E5, the
  binary data format), HSMS-SS (SEMI E37.1, sessions and messages over TCP) and the SML text
  notation. It is made of four layers, and the theories follow them. All paths are under
  \<open>src/src\<close>.

  \<^item> \<open>secs2\<close>: items, limits and the binary codec. Pure functions on byte slices, written with
    explicit stacks so that hostile nesting cannot exhaust the call stack.
  \<^item> \<open>sml\<close>: scanner, parser and formatter of the text notation, on the same items.
  \<^item> \<open>hsms/wire\<close>, \<open>hsms/codec.rs\<close>, \<open>hsms/profile\<close>, \<open>hsms/protocol\<close>,
    \<open>hsms/config*\<close>: frames, headers, validation, and the composed message codec.
  \<^item> \<open>hsms/core\<close>: the protocol state machine of one connection (a \<^emph>\<open>generation\<close>). It is
    sans-I/O: every input (a command, a message of the peer, a write outcome, the time) is a call that
    changes the state and returns a batch of actions.
  \<^item> \<open>hsms/generation\<close>: the driver queues commands, feeds the core, executes its actions and
    answers the callers; the bounded Writer and the reader are two tasks on the halves of the stream;
    the runtime waits for tasks, timers and commands and turns each into one turn of the driver.
  \<^item> \<open>hsms/supervisor\<close> and \<open>hsms/endpoint\<close>: the replacement of generations and the handles of
    the application.

  A message goes down as: command, driver queue, core (identity, transaction, pending write), Writer
  reservation and lane, worker, stream; and its outcome comes back as a writer report, a turn of the
  driver, an input of the core, a completion action, and the answer to the caller.
\<close>

section \<open>Theories and sources\<close>

text \<open>
  \<^item> \<open>Prelude\<close>: machine integers, \<open>result\<close> with \<open>bind_res\<close>, checked arithmetic, lists of
    bytes, and the simp and intro collections of all theories.
  \<^item> \<open>Secs2_Item\<close> (\<open>secs2/item.rs\<close>, \<open>limits.rs\<close>, \<open>error.rs\<close>, \<open>message.rs\<close>),
    \<open>Secs2_Header\<close> (\<open>codec/header.rs\<close>), \<open>Secs2_Encode\<close> (\<open>codec/encode.rs\<close>: \<open>measure\<close>,
    \<open>write_item_tree\<close>, \<open>ItemWalker\<close>), \<open>Secs2_Decode\<close> (\<open>codec/decode.rs\<close>,
    \<open>codec/error.rs\<close>: cursor, \<open>read_header\<close>, limits, \<open>deliver\<close>, \<open>run\<close>).
    \<open>Secs2_Wire\<close> is the abstract format (\<open>wire_item\<close>), \<open>Secs2_Decode_Correct\<close> and
    \<open>Secs2_Codec\<close> prove both passes against it: acceptance is characterised exactly, encoding is
    the shortest encoding, errors and bounds.
  \<^item> \<open>Rust_Text\<close>, \<open>Rust_Float\<close>: the parts of the standard library the notation uses. \<open>Sml_Scanner\<close>
    (\<open>sml/scanner.rs\<close>, \<open>error.rs\<close>), \<open>Sml_Parser\<close> (\<open>parser.rs\<close>, \<open>message.rs\<close>),
    \<open>Sml_Formatter\<close> (\<open>formatter.rs\<close>); \<open>Sml_Lexing\<close>, \<open>Sml_Layout\<close>, \<open>Sml_Roundtrip\<close>,
    \<open>Sml_Reparse\<close>, \<open>Sml_Bounds\<close>, \<open>Sml_Notation\<close>, \<open>Sml_Message\<close> hold the lemmas: tokens
    cover the source, the walks equal their recursive forms, what is written is read back.
  \<^item> \<open>Hsms_Protocol\<close> (\<open>hsms/model\<close>, \<open>hsms/protocol\<close>), \<open>Hsms_Wire\<close> (\<open>hsms/wire\<close>),
    \<open>Hsms_Config\<close> (\<open>hsms/config.rs\<close>, \<open>config/runtime.rs\<close>, \<open>error.rs\<close>), \<open>Hsms_Codec\<close>
    (\<open>hsms/codec.rs\<close>, \<open>profile/secs2.rs\<close>): the validator accepts what the writers produce,
    round trips of data and control frames, sticky faults.
  \<^item> \<open>Ordered_Map\<close>: the locale of the registries (\<open>BTreeMap\<close>, sorted iteration) and its sorted
    association lists.
  \<^item> \<open>Hsms_Transaction\<close>, \<open>Hsms_Core\<close>, \<open>Hsms_Session\<close> (\<open>hsms/core\<close>): the record
    \<open>session_core\<close> has the fields of \<open>SessionCore\<close>; a method is a function of the same name
    on it, the batch of actions is its field \<open>sc_actions\<close>.
    \<open>Hsms_Effects\<close> states the effects the handlers are made of as three locales;
    \<open>Hsms_Safety\<close> interprets them for completions, closing, identifiers and capacities.
    \<open>Hsms_Coherence\<close>, \<open>Hsms_Progress\<close>, \<open>Hsms_Liveness\<close> prove the invariant that ties the
    registries together, \<open>Hsms_Settled\<close> its consequences for runs, \<open>Hsms_Time\<close> the clock.
  \<^item> \<open>Hsms_Api\<close>, \<open>Hsms_Driver\<close> (\<open>hsms/api\<close>, \<open>generation/driver/mod.rs\<close>,
    \<open>transport/writer.rs\<close>): the record \<open>session_driver\<close>, generic in its Writer.
    \<open>Hsms_Driver_Laws\<close> has the contract of every operation as the locale \<open>driver_law\<close>,
    \<open>Hsms_Driver_Safety\<close> its interpretations and \<open>Hsms_Driver_Time\<close> the contract of command
    completion without any hypothesis on the driver's state.
  \<^item> \<open>Hsms_Writer\<close> (\<open>transport/bounded_writer.rs\<close>), \<open>Hsms_Transport\<close> (\<open>transport/io.rs\<close>
    and the worker), \<open>Hsms_Tasks\<close> (\<open>bounded_reader.rs\<close>, \<open>tasks.rs\<close>);
    \<open>Hsms_Driver_Writer\<close> has the contract between driver and Writer as the locale
    \<open>writer_contract\<close> and the interleaved system of driver, Writer and worker.
  \<^item> \<open>Hsms_Runtime\<close> (\<open>generation/runtime.rs\<close>), \<open>Hsms_Runtime_Safety\<close>: a generation from
    connection to the proof that its tasks have ended.
  \<^item> \<open>Hsms_Connection\<close> (\<open>supervisor/connection.rs\<close>, \<open>hsms/scheduling.rs\<close>): the passive and
    active sources of connections, T5 between attempts, the listener that is given up while a
    connection is owned. \<open>Hsms_Supervisor\<close> (\<open>supervisor/runtime.rs\<close>): the record \<open>supervisor\<close> with
    its slot, and the steps that connect, poll, stop, poison and recover a generation.
    \<open>Hsms_Supervisor_Safety\<close> has the abstract single slot \<open>slot_step\<close>, the simulation of it, and
    the invariant of the listener.

  Every property is a theorem right after the paragraph that states it, marked with its number; the
  theorem with the suffix \<open>_witness\<close> applies it to a concrete input.
\<close>

section \<open>How the code is modelled\<close>

text \<open>
  \<^bold>\<open>Data.\<close> Structs are records, enums datatypes with the source's variants, \<open>u8\<close> to \<open>u64\<close>
  machine words that wrap, \<open>usize\<close> a natural number whose checked operations fail above
  \<open>usize_max\<close> (a 64-bit target), \<open>Duration\<close> and \<open>Instant\<close> numbers of nanoseconds.
  \<open>Result\<close> is \<open>error + value\<close>. A \<open>panic!\<close>, \<open>expect\<close> or \<open>unreachable!\<close> that the
  source could reach is an error constructor of its own (\<open>EncodePanic\<close>, \<open>DecodePanic\<close>,
  \<open>FrameEncodePanic\<close>), and theorems show it is not reached.

  \<^bold>\<open>Loops.\<close> Every loop is a total function. Loops over explicit stacks terminate by a measure on the
  nodes still on the stack; the scanner's and the parser's because a token consumes input; the decoder's
  because a header consumes input. No definition has fuel. An asynchronous loop is a function of the
  list of what its successive waits return, and \<open>None\<close> is that it still waits after the last of them;
  the theorems about it quantify over all lists, and those that claim a result say how many waits are
  enough (\<open>write_frame_settles\<close>: as many as the frame has bytes).

  \<^bold>\<open>Mutation and ownership.\<close> \<open>&mut self\<close> is explicit state passing. What is dropped and has an
  effect when dropped (permits, reservations) is written out. Observers, completion endpoints and the
  closer are only told things: they are the log \<open>sd_effects\<close>.

  \<^bold>\<open>Concurrency.\<close> The tasks of a generation and its owner communicate by channels and a latch. Their
  interleaving is an explicit sequence of steps: \<open>system_step\<close> for driver, Writer and worker,
  \<open>tasks_env\<close> between two polls of the runtime. A cancelled future is a list of polls that ends.

  \<^bold>\<open>Code that is not under src.\<close> The semaphores, the channel, \<open>Instant::checked_add\<close> of tokio and
  std are the record \<open>tokio\<close>, an argument of the definitions; \<open>tokio_laws\<close> are their documented
  laws, hypotheses of the theorems that need them, and \<open>counting_tokio\<close> is an instance.
  \<open>clock_fits\<close> is whether a duration can be added to the current instant. Readings of the clock are
  arguments; that they do not go back is a hypothesis where it matters.
\<close>

section \<open>What the theorems show\<close>

text \<open>
  \<^bold>\<open>Binary codec.\<close> \<open>decode_item_iff\<close> characterises the accepted inputs; round trips in both
  directions; the encoder equals a recursive specification; errors point into the input; what is
  accepted is within the limits.

  \<^bold>\<open>Text notation.\<close> Lexing loses nothing; formatter and parser are inverse for items and messages,
  floats bit for bit; accepted items satisfy the invariants of their types; refusals are characterised.

  \<^bold>\<open>Frames.\<close> The validator accepts exactly the headers the writers produce; sent messages decode
  to themselves and leave the rest of the stream.

  \<^bold>\<open>Core.\<close> Over all runs: completions are exactly once, identities never repeat, the registries stay
  within their capacities, the generation closes once. Over runs of a well-behaved driver: no internal
  failure, no forgotten command, no stuck timer, and finalizing the Writer completes everything.

  \<^bold>\<open>Driver, Writer, tasks, runtime.\<close> Every accepted command is answered exactly once for every
  Writer; queues and write capacity stay within budget and are conserved; the Writer refines a
  bounded-capacity contract; written frames have the outcome the peer can have seen; reports come before
  exits; cleanup loses no report; the worker stops where the consumer of its reports has gone; a
  graceful shutdown is bounded; a clean exit settles every command.

  \<^bold>\<open>Supervisor.\<close> It refines a single slot: at most one generation at a time, each with a fresh
  identity, the slot given back only on proof that both tasks have ended, and a poisoned one kept until
  it is recovered. Connection attempts are T5 apart. While a generation owns the slot, nothing listens.
\<close>

section \<open>Not modelled\<close>

text \<open>
  \<^item> The texts of errors (\<open>Display\<close>, \<open>thiserror\<close>) and plain getters: they hold no state.
  \<^item> tokio itself: task scheduling, wakers, sockets. The model has every order in which the polled
    sources may become ready, not which of them the scheduler picks.
  \<^item> The endpoint's handles and loop (\<open>hsms/endpoint\<close>): queues between the application and the
    supervisor, which delegate to the supervisor, the runtime and the driver.
  \<^item> Allocation failure, except where the source checks for it.
\<close>

end
